(* ===== verification/Prelude.thy ===== *)
theory Prelude
  imports Complex_Main "HOL-Library.Sublist"
begin

text \<open>
  Shared vocabulary of the development: the collections of rewrite rules the component
  theories fill, the type names of the code (\<open>std::string\<close> as a character list,
  \<open>int64_t\<close>, \<open>int\<close> and \<open>long\<close> as \<open>int\<close>, \<open>std::size_t\<close> as \<open>nat\<close>), the standard
  containers' operations that the sources use (\<open>std::string::find\<close>, \<open>substr\<close>,
  \<open>std::deque\<close> back-pressure), and the list lemmas that several components need.
\<close>

named_theorems exact_simps \<open>evaluation of doubles that are exactly representable\<close>
named_theorems inv_intros \<open>preservation of a component's invariant by its operations\<close>

type_synonym str = string
type_synonym int64 = int
type_synonym size = nat

section \<open>Prefixes and searching in strings\<close>

text \<open>\<open>std::strncmp (s, p, |p|) == 0\<close> on a buffer that holds \<open>s\<close>.\<close>

fun starts_with :: "'a list \<Rightarrow> 'a list \<Rightarrow> bool" where
  "starts_with [] s = True"
| "starts_with (p # ps) [] = False"
| "starts_with (p # ps) (c # cs) = (p = c \<and> starts_with ps cs)"

lemma starts_with_iff_prefix: "starts_with p s \<longleftrightarrow> prefix p s"
  by (induction p s rule: starts_with.induct) auto

lemma starts_with_append [simp]: "starts_with p (p @ s)"
  by (simp add: starts_with_iff_prefix)

lemma starts_with_length: "starts_with p s \<Longrightarrow> length p \<le> length s"
  by (simp add: starts_with_iff_prefix prefix_length_le)

text \<open>\<open>std::string::find (p)\<close>: the least position where \<open>p\<close> occurs (\<open>None\<close> is \<open>npos\<close>).\<close>

fun find_sub :: "'a list \<Rightarrow> 'a list \<Rightarrow> size option" where
  "find_sub p [] = (if p = [] then Some 0 else None)"
| "find_sub p (c # cs) =
     (if starts_with p (c # cs) then Some 0 else map_option Suc (find_sub p cs))"

lemma find_sub_Some_starts: "find_sub p s = Some i \<Longrightarrow> starts_with p (drop i s) \<and> i \<le> length s"
  by (induction s arbitrary: i) (auto split: if_splits)

lemma find_sub_Some_length: "find_sub p s = Some i \<Longrightarrow> i + length p \<le> length s"
  using find_sub_Some_starts [of p s i] starts_with_length [of p "drop i s"] by auto

lemma find_sub_None: "find_sub p s = None \<Longrightarrow> \<not> starts_with p (drop i s) \<or> p = [] \<or> length s \<le> i"
proof (induction s arbitrary: i)
  case (Cons c cs)
  then show ?case by (cases i) (auto split: if_splits)
qed auto

lemma find_sub_here [simp]: "find_sub p (p @ s) = Some 0"
  by (cases "p @ s") (auto, metis starts_with_append)

text \<open>\<open>std::string::find (c, pos)\<close> for a single character.\<close>

fun find_char :: "'a \<Rightarrow> 'a list \<Rightarrow> size option" where
  "find_char c [] = None"
| "find_char c (x # xs) = (if x = c then Some 0 else map_option Suc (find_char c xs))"

definition find_char_from :: "'a \<Rightarrow> 'a list \<Rightarrow> size \<Rightarrow> size option" where
  "find_char_from c s pos = map_option (\<lambda>i. i + pos) (find_char c (drop pos s))"

lemma find_char_Some: "find_char c s = Some i \<Longrightarrow> i < length s \<and> s ! i = c \<and> c \<notin> set (take i s)"
  by (induction s arbitrary: i) (auto split: if_splits)

lemma find_char_None: "find_char c s = None \<longleftrightarrow> c \<notin> set s"
  by (induction s) auto

lemma find_char_append [simp]: "c \<notin> set s \<Longrightarrow> find_char c (s @ c # t) = Some (length s)"
  by (induction s) auto

lemma find_char_from_Some:
  "find_char_from c s pos = Some i \<Longrightarrow> pos \<le> i \<and> i < length s \<and> s ! i = c"
  by (auto simp: find_char_from_def add.commute dest!: find_char_Some)

text \<open>\<open>s.substr (i, n)\<close> for \<open>i \<le> size\<close>: at most \<open>n\<close> characters from \<open>i\<close>.\<close>

definition substr :: "'a list \<Rightarrow> size \<Rightarrow> size \<Rightarrow> 'a list" where
  "substr s i n = take n (drop i s)"

lemma length_substr: "length (substr s i n) = min n (length s - i)"
  by (simp add: substr_def)

section \<open>Queues with back-pressure\<close>

text \<open>
  The executors guard their \<open>std::deque\<close> mailboxes the same way: an element is appended
  only while the queue is below its limit.
\<close>

definition push_limited :: "size \<Rightarrow> 'a \<Rightarrow> 'a list \<Rightarrow> 'a list" where
  "push_limited limit x q = (if limit \<le> length q then q else q @ [x])"

lemma push_limited_length [inv_intros]:
  "length q \<le> limit \<Longrightarrow> length (push_limited limit x q) \<le> limit"
  by (auto simp: push_limited_def)

lemma push_limited_prefix: "prefix q (push_limited limit x q)"
  by (auto simp: push_limited_def)

section \<open>Lists\<close>

lemma takeWhile_dropWhile_Cons:
  "dropWhile P xs = y # ys \<Longrightarrow> \<not> P y \<and> xs = takeWhile P xs @ y # ys"
  by (metis dropWhile_eq_Cons_conv takeWhile_dropWhile_id)

lemma takeWhile_stop: "\<forall>x\<in>set xs. P x \<Longrightarrow> \<not> P y \<Longrightarrow> takeWhile P (xs @ y # ys) = xs"
  by (induction xs) auto

lemma dropWhile_stop: "\<forall>x\<in>set xs. P x \<Longrightarrow> \<not> P y \<Longrightarrow> dropWhile P (xs @ y # ys) = y # ys"
  by (induction xs) auto

lemma takeWhile_all: "\<forall>x\<in>set xs. P x \<Longrightarrow> takeWhile P xs = xs"
  by (induction xs) auto

lemma dropWhile_all: "\<forall>x\<in>set xs. P x \<Longrightarrow> dropWhile P xs = []"
  by (induction xs) auto

section \<open>Machines\<close>

text \<open>
  The interfaces of the components that react to one input at a time: a machine keeps an
  invariant on the inputs that are admitted, a counting machine also moves a total by what
  each input adds, and a progressing machine relates the states before and after an input.
\<close>

locale machine =
  fixes step :: "'i \<Rightarrow> 's \<Rightarrow> 's" and inv :: "'s \<Rightarrow> bool" and admitted :: "'i \<Rightarrow> bool"
  assumes step_inv: "inv s \<Longrightarrow> admitted i \<Longrightarrow> inv (step i s)"
begin

lemma run_inv: "inv s \<Longrightarrow> \<forall>i\<in>set ins. admitted i \<Longrightarrow> inv (fold step ins s)"
  by (induction ins arbitrary: s) (simp_all add: step_inv)

end

locale counting_machine = machine +
  fixes total :: "'s \<Rightarrow> nat" and gain :: "'i \<Rightarrow> nat"
  assumes step_total: "inv s \<Longrightarrow> admitted i \<Longrightarrow> total (step i s) = total s + gain i"
begin

lemma run_total: "inv s \<Longrightarrow> \<forall>i\<in>set ins. admitted i \<Longrightarrow> total (fold step ins s) = total s + sum_list (map gain ins)"
  by (induction ins arbitrary: s) (simp_all add: step_inv step_total)

end

locale progressing =
  fixes step :: "'i \<Rightarrow> 's \<Rightarrow> 's" and rel :: "'s \<Rightarrow> 's \<Rightarrow> bool"
  assumes rel_refl: "rel s s" and rel_trans: "rel s t \<Longrightarrow> rel t u \<Longrightarrow> rel s u" and step_rel: "rel s (step i s)"
begin

lemma run_rel: "rel s (fold step ins s)"
  by (induction ins arbitrary: s) (auto intro: rel_refl rel_trans [OF step_rel])

end

end
