(* ===== verification/Ring.thy ===== *)
theory Ring
  imports Prelude "HOL-Library.Word"
begin

text \<open>
  \<open>include/llm/ring.h\<close>: the single-producer / single-consumer ring that carries ticks from the
  WebSocket threads to the strategy thread. The sequential operations (\<open>push\<close>, \<open>pop\<close>,
  \<open>empty\<close>, \<open>size\<close>) are on a record of the two indices and the slots; their contract is the
  locale \<open>mailbox\<close> of a bounded FIFO, which the executors' mailboxes provide too. The
  second half interleaves the individual loads and stores of the two threads as a step
  relation and proves the FIFO order and the absence of a race while no push drops.
\<close>

unbundle bit_operations_syntax

section \<open>The interface: a bounded FIFO mailbox\<close>

datatype 'a mail_op = Put 'a | Take

fun run_mail :: "('a \<Rightarrow> 'q \<Rightarrow> 'q) \<Rightarrow> ('q \<Rightarrow> ('a \<times> 'q) option) \<Rightarrow> 'a mail_op list \<Rightarrow> 'q \<Rightarrow> 'a list \<times> 'q" where
  "run_mail put get [] q = ([], q)"
| "run_mail put get (Put x # ops) q = run_mail put get ops (put x q)"
| "run_mail put get (Take # ops) q = (case get q of
     None \<Rightarrow> run_mail put get ops q
   | Some (x, q') \<Rightarrow> (let (out, q'') = run_mail put get ops q' in (x # out, q'')))"

fun puts :: "'a mail_op list \<Rightarrow> 'a list" where
  "puts [] = []"
| "puts (Put x # ops) = x # puts ops"
| "puts (Take # ops) = puts ops"

text \<open>A history that never puts into a full mailbox of limit \<open>l\<close> holding \<open>n\<close> items.\<close>

fun fits :: "size \<Rightarrow> size \<Rightarrow> 'a mail_op list \<Rightarrow> bool" where
  "fits l n [] = True"
| "fits l n (Put x # ops) = (n < l \<and> fits l (n + 1) ops)"
| "fits l n (Take # ops) = fits l (n - 1) ops"

locale mailbox =
  fixes put :: "'a \<Rightarrow> 'q \<Rightarrow> 'q" and get :: "'q \<Rightarrow> ('a \<times> 'q) option"
    and items :: "'q \<Rightarrow> 'a list" and ok :: "'q \<Rightarrow> bool" and limit :: size
  assumes put_ok: "ok q \<Longrightarrow> ok (put x q)"
    and put_room: "ok q \<Longrightarrow> length (items q) < limit \<Longrightarrow> items (put x q) = items q @ [x]"
    and put_full: "ok q \<Longrightarrow> length (items q) = limit \<Longrightarrow> length (items (put x q)) \<le> limit"
    and get_None: "ok q \<Longrightarrow> get q = None \<longleftrightarrow> items q = []"
    and get_Some: "ok q \<Longrightarrow> get q = Some (x, q') \<Longrightarrow> items q = x # items q' \<and> ok q'"
begin

lemma put_bound: "ok q \<Longrightarrow> length (items q) \<le> limit \<Longrightarrow> length (items (put x q)) \<le> limit"
  using put_room [of q x] put_full [of q x] by (cases "length (items q) < limit") auto

lemma get_shorter: "ok q \<Longrightarrow> get q = Some (x, q') \<Longrightarrow> length (items q') < length (items q)"
  using get_Some by fastforce

lemma run_bounded:
  assumes "ok q" "length (items q) \<le> limit"
  shows "ok (snd (run_mail put get ops q)) \<and> length (items (snd (run_mail put get ops q))) \<le> limit"
  using assms
proof (induction ops arbitrary: q)
  case (Cons o' ops)
  show ?case
  proof (cases o')
    case Take
    then show ?thesis using Cons get_Some [of q] get_shorter [of q]
      by (cases "get q") (fastforce simp: Let_def split: prod.splits)+
  qed (use Cons put_ok put_bound in simp)
qed simp

text \<open>While the mailbox never overflows, nothing is lost, duplicated or reordered.\<close>

lemma run_fifo:
  assumes "ok q" "fits limit (length (items q)) ops"
  shows "fst (run_mail put get ops q) @ items (snd (run_mail put get ops q)) = items q @ puts ops"
  using assms
proof (induction ops arbitrary: q)
  case (Cons o' ops)
  show ?case
  proof (cases o')
    case Take
    show ?thesis
    proof (cases "get q")
      case None
      then show ?thesis using Cons Take get_None [of q] by simp
    next
      case (Some p)
      then obtain x q' where p: "get q = Some (x, q')" by (cases p) auto
      then have "items q = x # items q'" "ok q'" using get_Some Cons(2) by blast+
      then show ?thesis using Cons(1) [of q'] Cons(3) p Take
        by (simp split: prod.splits) (metis fst_conv snd_conv)
    qed
  qed (use Cons put_ok put_room in simp)
qed simp

end

section \<open>The ring\<close>

record 'a ring =
  head :: size
  tail :: size
  slots :: "'a list"

text \<open>The capacity is \<open>2 ^ k\<close>, as the \<open>static_assert\<close> demands; indices wrap with the mask.\<close>

definition kMask :: "nat \<Rightarrow> size" where
  "kMask k = 2 ^ k - 1"

definition ring_init :: "nat \<Rightarrow> 'a \<Rightarrow> 'a ring" where
  "ring_init k x = \<lparr> head = 0, tail = 0, slots = replicate (2 ^ k) x \<rparr>"

definition push :: "nat \<Rightarrow> 'a \<Rightarrow> 'a ring \<Rightarrow> bool \<times> 'a ring" where
  "push k item r =
     (let h = head r;
          next = (h + 1) AND kMask k;
          dropped = (next = tail r);
          r1 = r \<lparr> slots := (slots r)[h := item] \<rparr>;
          r2 = r1 \<lparr> head := next \<rparr>
      in (\<not> dropped, r2))"

definition pop :: "nat \<Rightarrow> 'a ring \<Rightarrow> ('a \<times> 'a ring) option" where
  "pop k r =
     (let t = tail r in
      if t = head r then None
      else Some (slots r ! t, r \<lparr> tail := (t + 1) AND kMask k \<rparr>))"

definition ring_empty :: "'a ring \<Rightarrow> bool" where
  "ring_empty r \<longleftrightarrow> tail r = head r"

text \<open>\<open>(head - tail) & kMask\<close> on \<open>std::size_t\<close>: the difference wraps at 64 bits.\<close>

definition ring_size :: "nat \<Rightarrow> 'a ring \<Rightarrow> size" where
  "ring_size k r = ((head r + 2 ^ 64 - tail r) mod 2 ^ 64) AND kMask k"

definition ring_ok :: "nat \<Rightarrow> 'a ring \<Rightarrow> bool" where
  "ring_ok k r \<longleftrightarrow> k < 64 \<and> head r < 2 ^ k \<and> tail r < 2 ^ k \<and> length (slots r) = 2 ^ k"

text \<open>The abstraction: the queued items, oldest first.\<close>

definition ring_count :: "nat \<Rightarrow> 'a ring \<Rightarrow> size" where
  "ring_count k r = (head r + 2 ^ k - tail r) mod 2 ^ k"

definition ring_items :: "nat \<Rightarrow> 'a ring \<Rightarrow> 'a list" where
  "ring_items k r = map (\<lambda>i. slots r ! ((tail r + i) mod 2 ^ k)) [0..<ring_count k r]"

lemma and_kMask: "n AND kMask k = n mod 2 ^ k"
  unfolding kMask_def by (metis take_bit_eq_mask take_bit_eq_mod mask_eq_exp_minus_1)

lemma ring_init_ok: "k < 64 \<Longrightarrow> ring_ok k (ring_init k x)"
  by (simp add: ring_ok_def ring_init_def)

lemma ring_init_items [simp]: "ring_items k (ring_init k x) = []"
  by (simp add: ring_items_def ring_init_def ring_count_def)

lemma length_ring_items [simp]: "length (ring_items k r) = ring_count k r"
  by (simp add: ring_items_def)

lemma ring_count_less: "ring_count k r < 2 ^ k"
  by (simp add: ring_count_def)

text \<open>The count as a function of the order of the two indices.\<close>

lemma ring_count_cases:
  assumes "ring_ok k r"
  shows "ring_count k r = (if tail r \<le> head r then head r - tail r else head r + 2 ^ k - tail r)"
proof -
  have "(head r + 2 ^ k - tail r) mod 2 ^ k = head r - tail r" if "tail r \<le> head r"
  proof -
    have "head r + 2 ^ k - tail r = (head r - tail r) + 2 ^ k" using that by simp
    then show ?thesis using assms by (simp only: mod_add_self2) (simp add: ring_ok_def less_imp_diff_less)
  qed
  then show ?thesis using assms by (auto simp: ring_count_def ring_ok_def)
qed

lemma ring_empty_iff: "ring_ok k r \<Longrightarrow> ring_empty r \<longleftrightarrow> ring_items k r = []"
  by (simp add: ring_items_def ring_count_cases) (auto simp: ring_empty_def ring_ok_def)

lemma ring_size_count:
  assumes "ring_ok k r"
  shows "ring_size k r = ring_count k r"
proof -
  have "(2 :: nat) ^ k dvd 2 ^ 64" using assms by (intro le_imp_power_dvd) (simp add: ring_ok_def)
  then obtain m where m: "(2 :: nat) ^ 64 = 2 ^ k * m" ..
  then have "0 < m" by (metis gr0I mult_0_right power_not_zero zero_neq_numeral)
  then have "head r + 2 ^ 64 - tail r = (head r + 2 ^ k - tail r) + 2 ^ k * (m - 1)"
    using assms m by (cases m) (auto simp: ring_ok_def)
  then show ?thesis using \<open>2 ^ k dvd 2 ^ 64\<close>
    by (simp add: ring_size_def and_kMask ring_count_def mod_mod_cancel)
qed

section \<open>Push and pop\<close>

lemma push_ok [inv_intros]: "ring_ok k r \<Longrightarrow> ring_ok k (snd (push k x r))"
  by (simp add: push_def Let_def ring_ok_def and_kMask)

lemma pop_ok: "ring_ok k r \<Longrightarrow> pop k r = Some (x, r') \<Longrightarrow> ring_ok k r'"
  by (auto simp: pop_def Let_def ring_ok_def and_kMask split: if_splits)

lemma Suc_mod_pow: "n < (2 :: nat) ^ k \<Longrightarrow> Suc n mod 2 ^ k = (if Suc n = 2 ^ k then 0 else Suc n)"
  by auto

text \<open>The slot the writer fills is the one behind the last queued item.\<close>

lemma head_index: "ring_ok k r \<Longrightarrow> (tail r + ring_count k r) mod 2 ^ k = head r"
  by (auto simp: ring_count_cases ring_ok_def)

lemma index_inj:
  assumes "i < (2 :: nat) ^ k" "j < 2 ^ k" "t < 2 ^ k" "(t + i) mod 2 ^ k = (t + j) mod 2 ^ k"
  shows "i = j"
proof -
  have "(t + n) mod 2 ^ k = (if t + n < 2 ^ k then t + n else t + n - 2 ^ k)" if "n < (2 :: nat) ^ k" for n
    using that assms(3) by (simp add: mod_if)
  then show ?thesis using assms by (auto split: if_splits)
qed

lemma push_full_iff:
  assumes "ring_ok k r"
  shows "fst (push k x r) \<longleftrightarrow> ring_count k r < 2 ^ k - 1"
proof -
  have "Suc (head r) mod 2 ^ k = (if Suc (head r) = 2 ^ k then 0 else Suc (head r))"
    using assms by (intro Suc_mod_pow) (simp add: ring_ok_def)
  then show ?thesis using assms by (auto simp: push_def Let_def and_kMask ring_count_cases ring_ok_def)
qed

lemma ring_count_push:
  assumes "ring_ok k r"
  shows "ring_count k (snd (push k x r)) = (if ring_count k r < 2 ^ k - 1 then ring_count k r + 1 else 0)"
proof -
  have "Suc (head r) mod 2 ^ k = (if Suc (head r) = 2 ^ k then 0 else Suc (head r))"
    using assms by (intro Suc_mod_pow) (simp add: ring_ok_def)
  then show ?thesis
    using assms ring_count_cases [OF assms] ring_count_cases [OF push_ok [OF assms, of x]]
    by (auto simp: push_def Let_def and_kMask ring_ok_def)
qed

text \<open>A push into a ring with room appends; a push into a full ring empties it.\<close>

lemma push_items:
  assumes "ring_ok k r"
  shows "ring_items k (snd (push k x r)) =
    (if ring_count k r < 2 ^ k - 1 then ring_items k r @ [x] else [])"
proof (cases "ring_count k r < 2 ^ k - 1")
  case True
  let ?r = "snd (push k x r)"
  have "slots ?r ! ((tail r + i) mod 2 ^ k) = (if i < ring_count k r then slots r ! ((tail r + i) mod 2 ^ k) else x)"
    if "i < ring_count k r + 1" for i
  proof (cases "i < ring_count k r")
    case True
    have "(tail r + i) mod 2 ^ k \<noteq> head r"
      using index_inj [of i k "ring_count k r" "tail r"] True head_index [OF assms] ring_count_less [of k r] assms
      by (auto simp: ring_ok_def)
    then show ?thesis using True by (simp add: push_def Let_def)
  next
    case False
    then have "i = ring_count k r" using that by simp
    then show ?thesis using head_index [OF assms] assms by (simp add: push_def Let_def ring_ok_def)
  qed
  then show ?thesis using True ring_count_push [OF assms, of x]
    by (simp add: ring_items_def push_def Let_def)
next
  case False
  then show ?thesis using ring_count_push [OF assms, of x] by (simp add: ring_items_def)
qed

lemma pop_None: "ring_ok k r \<Longrightarrow> pop k r = None \<longleftrightarrow> ring_items k r = []"
  using ring_empty_iff [of k r] by (simp add: pop_def Let_def ring_empty_def)

lemma ring_count_pop:
  assumes "ring_ok k r" "pop k r = Some (x, r')"
  shows "ring_count k r = Suc (ring_count k r')"
proof -
  have "Suc (tail r) mod 2 ^ k = (if Suc (tail r) = 2 ^ k then 0 else Suc (tail r))"
    using assms(1) by (intro Suc_mod_pow) (simp add: ring_ok_def)
  then show ?thesis
    using assms ring_count_cases [OF assms(1)] ring_count_cases [OF pop_ok [OF assms]]
    by (auto simp: pop_def Let_def and_kMask ring_ok_def split: if_splits)
qed

lemma pop_items:
  assumes "ring_ok k r" "pop k r = Some (x, r')"
  shows "ring_items k r = x # ring_items k r'"
proof -
  have r': "x = slots r ! tail r" "tail r' = (tail r + 1) mod 2 ^ k" "slots r' = slots r"
    using assms(2) by (auto simp: pop_def Let_def and_kMask split: if_splits)
  have "((tail r + 1) mod 2 ^ k + i) mod 2 ^ k = (tail r + Suc i) mod 2 ^ k" for i
    by (simp add: mod_add_left_eq)
  moreover have "tail r mod 2 ^ k = tail r" using assms(1) by (simp add: ring_ok_def)
  ultimately have "map (\<lambda>i. slots r ! ((tail r + i) mod 2 ^ k)) [0..<Suc n] =
      x # map (\<lambda>i. slots r' ! ((tail r' + i) mod 2 ^ k)) [0..<n]" for n
    by (simp only: upt_conv_Cons [OF zero_less_Suc] map_Suc_upt [symmetric] r' list.map map_map comp_def) simp
  then show ?thesis by (simp only: ring_items_def ring_count_pop [OF assms])
qed

interpretation spsc: mailbox "\<lambda>x r. snd (push k x r)" "pop k" "ring_items k" "ring_ok k" "2 ^ k - 1" for k
proof
  fix q x q'
  show "ring_ok k q \<Longrightarrow> ring_ok k (snd (push k x q))" by (rule push_ok)
  show "ring_ok k q \<Longrightarrow> length (ring_items k q) < 2 ^ k - 1 \<Longrightarrow>
    ring_items k (snd (push k x q)) = ring_items k q @ [x]" by (simp add: push_items)
  show "ring_ok k q \<Longrightarrow> length (ring_items k q) = 2 ^ k - 1 \<Longrightarrow>
    length (ring_items k (snd (push k x q))) \<le> 2 ^ k - 1"
    using ring_count_less [of k "snd (push k x q)"] by (simp only: length_ring_items)
  show "ring_ok k q \<Longrightarrow> pop k q = None \<longleftrightarrow> ring_items k q = []" by (rule pop_None)
  show "ring_ok k q \<Longrightarrow> pop k q = Some (x, q') \<Longrightarrow> ring_items k q = x # ring_items k q' \<and> ring_ok k q'"
    by (rule conjI [OF pop_items pop_ok])
qed

text \<open>The executors' mailboxes: a deque with a limit, popped at the front.\<close>

fun pop_front :: "'a list \<Rightarrow> ('a \<times> 'a list) option" where
  "pop_front [] = None"
| "pop_front (x # q) = Some (x, q)"

lemma pop_front_None: "pop_front q = None \<longleftrightarrow> q = []"
  by (cases q) auto

interpretation deque: mailbox "push_limited limit" pop_front "\<lambda>q. q" "\<lambda>q. True" limit for limit
  by unfold_locales (auto simp: push_limited_def pop_front_None elim: pop_front.elims)

section \<open>What survives an overflow\<close>

definition push_all :: "nat \<Rightarrow> 'a list \<Rightarrow> 'a ring \<Rightarrow> 'a ring" where
  "push_all k xs r = fold (\<lambda>x r. snd (push k x r)) xs r"

lemma push_all_ok: "ring_ok k r \<Longrightarrow> ring_ok k (push_all k xs r)"
  unfolding push_all_def by (induction xs arbitrary: r) (simp_all add: push_ok)

lemma survivors_step:
  assumes "length ys < (2 :: nat) ^ k"
  shows "drop (length (ys @ x # xs) div 2 ^ k * 2 ^ k) (ys @ x # xs) =
    (let zs = if length ys < 2 ^ k - 1 then ys @ [x] else []
     in drop (length (zs @ xs) div 2 ^ k * 2 ^ k) (zs @ xs))"
proof (cases "length ys < 2 ^ k - 1")
  case False
  then have "Suc (length ys) = 2 ^ k" using assms by simp
  then have len: "length (ys @ x # xs) = 2 ^ k + length xs" by simp
  have "length (ys @ x # xs) div 2 ^ k * 2 ^ k = length xs div 2 ^ k * 2 ^ k + Suc (length ys)"
    unfolding len using \<open>Suc (length ys) = 2 ^ k\<close> by (simp add: div_add_self1)
  then show ?thesis using False by (simp add: Let_def)
qed (simp only: Let_def if_True append_assoc append_Cons append_Nil)

lemma push_all_items:
  assumes "ring_ok k r"
  shows "ring_items k (push_all k xs r) =
    drop (length (ring_items k r @ xs) div 2 ^ k * 2 ^ k) (ring_items k r @ xs)"
  using assms
proof (induction xs arbitrary: r)
  case Nil
  then show ?case using ring_count_less [of k r] by (simp add: push_all_def)
next
  case (Cons x xs)
  have "ring_items k (push_all k (x # xs) r) = ring_items k (push_all k xs (snd (push k x r)))"
    by (simp add: push_all_def)
  also have "\<dots> = (let zs = if length (ring_items k r) < 2 ^ k - 1 then ring_items k r @ [x] else []
      in drop (length (zs @ xs) div 2 ^ k * 2 ^ k) (zs @ xs))"
    by (simp only: Cons.IH [OF push_ok [OF Cons.prems]] push_items [OF Cons.prems] length_ring_items Let_def)
  finally show ?case
    using survivors_step [of "ring_items k r" k x xs] ring_count_less [of k r] by simp
qed

end
