(* ===== verification/RingThreads.thy ===== *)
theory RingThreads
  imports Ring
begin

text \<open>
  The two threads of the ring. Each atomic load and store of \<open>push\<close> and \<open>pop\<close> is a step of
  its own, interleaved in any order; the writer's registers are the loaded \<open>head\<close> and the
  flag \<open>dropped\<close>, the reader's are the loaded \<open>tail\<close> and the copied slot. The steps are
  interleaved sequentially: both indices have one writing thread, and every payload access
  is ordered by the release store of an index before the acquire load of it, except
  \<open>tail_\<close>, which the writer loads relaxed. While no push finds the ring full, the reader
  receives a prefix of what was pushed, and the two threads never touch the same slot.
\<close>

datatype 'a writer_pc =
    WIdle
  | WHead 'a size
  | WTail 'a size bool
  | WStored 'a size bool

datatype 'a reader_pc =
    RIdle
  | RTail size
  | RReady size
  | RCopied size 'a

record 'a threads =
  ring :: "'a ring"
  writer :: "'a writer_pc"
  reader :: "'a reader_pc"
  pushed :: "'a list"
  popped :: "'a list"

inductive step :: "nat \<Rightarrow> 'a threads \<Rightarrow> 'a threads \<Rightarrow> bool" for k where
  w_head: "writer s = WIdle \<Longrightarrow> step k s (s\<lparr> writer := WHead x (head (ring s)) \<rparr>)"
| w_tail: "writer s = WHead x h \<Longrightarrow>
    step k s (s\<lparr> writer := WTail x h ((h + 1) AND kMask k = tail (ring s)) \<rparr>)"
| w_slot: "writer s = WTail x h d \<Longrightarrow>
    step k s (s\<lparr> writer := WStored x h d, ring := (ring s)\<lparr> slots := (slots (ring s))[h := x] \<rparr> \<rparr>)"
| w_publish: "writer s = WStored x h d \<Longrightarrow>
    step k s (s\<lparr> writer := WIdle, ring := (ring s)\<lparr> head := (h + 1) AND kMask k \<rparr>,
                pushed := pushed s @ [x] \<rparr>)"
| r_tail: "reader s = RIdle \<Longrightarrow> step k s (s\<lparr> reader := RTail (tail (ring s)) \<rparr>)"
| r_empty: "reader s = RTail t \<Longrightarrow> t = head (ring s) \<Longrightarrow> step k s (s\<lparr> reader := RIdle \<rparr>)"
| r_head: "reader s = RTail t \<Longrightarrow> t \<noteq> head (ring s) \<Longrightarrow> step k s (s\<lparr> reader := RReady t \<rparr>)"
| r_slot: "reader s = RReady t \<Longrightarrow> step k s (s\<lparr> reader := RCopied t (slots (ring s) ! t) \<rparr>)"
| r_commit: "reader s = RCopied t x \<Longrightarrow>
    step k s (s\<lparr> reader := RIdle, ring := (ring s)\<lparr> tail := (t + 1) AND kMask k \<rparr>,
                popped := popped s @ [x] \<rparr>)"

inductive_cases step_elims: "step k s s'"

definition threads_init :: "nat \<Rightarrow> 'a \<Rightarrow> 'a threads" where
  "threads_init k x = \<lparr> ring = ring_init k x, writer = WIdle, reader = RIdle, pushed = [], popped = [] \<rparr>"

fun drops :: "'a threads \<Rightarrow> bool" where
  "drops s = (case writer s of WTail _ _ d \<Rightarrow> d | WStored _ _ d \<Rightarrow> d | _ \<Rightarrow> False)"

text \<open>Reachable without a push that found the ring full, and reachable at all.\<close>

inductive reachable :: "nat \<Rightarrow> 'a \<Rightarrow> 'a threads \<Rightarrow> bool" for k z where
  r_init: "reachable k z (threads_init k z)"
| r_step: "reachable k z s \<Longrightarrow> step k s s' \<Longrightarrow> reachable k z s'"

inductive reachable_no_drop :: "nat \<Rightarrow> 'a \<Rightarrow> 'a threads \<Rightarrow> bool" for k z where
  n_init: "reachable_no_drop k z (threads_init k z)"
| n_step: "reachable_no_drop k z s \<Longrightarrow> step k s s' \<Longrightarrow> \<not> drops s' \<Longrightarrow> reachable_no_drop k z s'"

text \<open>
  Both threads at the same slot: the writer about to store it, the reader about to copy it.
\<close>

fun race :: "'a threads \<Rightarrow> bool" where
  "race s = (case (writer s, reader s) of (WTail _ h _, RReady t) \<Rightarrow> h = t | _ \<Rightarrow> False)"

text \<open>
  The invariant, with the free-running counts \<open>H\<close> and \<open>T\<close> of published and consumed items.
\<close>

definition published :: "nat \<Rightarrow> 'a threads \<Rightarrow> bool" where
  "published k s \<longleftrightarrow> (let H = length (pushed s); T = length (popped s); r = ring s in
     length (slots r) = 2 ^ k \<and> head r = H mod 2 ^ k \<and> tail r = T mod 2 ^ k \<and>
     T \<le> H \<and> H - T < 2 ^ k \<and> popped s = take T (pushed s) \<and>
     (\<forall>i. T \<le> i \<and> i < H \<longrightarrow> slots r ! (i mod 2 ^ k) = pushed s ! i))"

definition writer_ok :: "nat \<Rightarrow> 'a threads \<Rightarrow> bool" where
  "writer_ok k s \<longleftrightarrow> (let H = length (pushed s); T = length (popped s) in
     case writer s of WIdle \<Rightarrow> True
     | WHead x h \<Rightarrow> h = H mod 2 ^ k
     | WTail x h d \<Rightarrow> h = H mod 2 ^ k \<and> \<not> d \<and> H - T < 2 ^ k - 1
     | WStored x h d \<Rightarrow> h = H mod 2 ^ k \<and> \<not> d \<and> H - T < 2 ^ k - 1 \<and> slots (ring s) ! h = x)"

definition reader_ok :: "nat \<Rightarrow> 'a threads \<Rightarrow> bool" where
  "reader_ok k s \<longleftrightarrow> (let H = length (pushed s); T = length (popped s) in
     case reader s of RIdle \<Rightarrow> True
     | RTail t \<Rightarrow> t = T mod 2 ^ k
     | RReady t \<Rightarrow> t = T mod 2 ^ k \<and> T < H
     | RCopied t x \<Rightarrow> t = T mod 2 ^ k \<and> T < H \<and> x = pushed s ! T)"

definition threads_inv :: "nat \<Rightarrow> 'a threads \<Rightarrow> bool" where
  "threads_inv k s \<longleftrightarrow> published k s \<and> writer_ok k s \<and> reader_ok k s"

lemma threads_inv_init: "threads_inv k (threads_init k z)"
  by (simp add: threads_inv_def published_def writer_ok_def reader_ok_def threads_init_def ring_init_def)

lemma mod_window:
  assumes "(i :: nat) < j" "j - i < m"
  shows "i mod m \<noteq> j mod m"
proof
  assume "i mod m = j mod m"
  then have "m dvd j - i" using assms(1) by (metis less_imp_le mod_eq_dvd_iff_nat)
  then show False using assms by (simp add: nat_dvd_not_less)
qed

lemma next_index: "(n mod 2 ^ k + 1) AND kMask k = Suc n mod 2 ^ k"
  by (simp add: and_kMask mod_Suc_eq)

lemma next_not_full:
  assumes "T \<le> H" "H - T < (2 :: nat) ^ k" "Suc H mod 2 ^ k \<noteq> T mod 2 ^ k"
  shows "H - T < 2 ^ k - 1"
proof (rule ccontr)
  assume "\<not> H - T < 2 ^ k - 1"
  then have "Suc H = T + 2 ^ k" using assms(1,2) by simp
  then show False using assms(3) by simp
qed

lemma published_step:
  assumes "step k s s'" "threads_inv k s" "\<not> drops s'"
  shows "published k s'"
  using assms
proof (cases rule: step.cases)
  case (w_slot x h d)
  then have h: "h = length (pushed s) mod 2 ^ k" using assms(2) by (simp add: threads_inv_def writer_ok_def Let_def)
  have "h \<noteq> i mod 2 ^ k" if "length (popped s) \<le> i" "i < length (pushed s)" for i
  proof -
    have "length (pushed s) - i < 2 ^ k"
      using that assms(2) unfolding threads_inv_def published_def Let_def by linarith
    then show ?thesis using that mod_window [of i "length (pushed s)" "2 ^ k"] by (metis h)
  qed
  then show ?thesis using w_slot assms(2) by (simp add: threads_inv_def published_def Let_def)
next
  case (w_publish x h d)
  then have w: "h = length (pushed s) mod 2 ^ k" "slots (ring s) ! h = x"
    "length (pushed s) - length (popped s) < 2 ^ k - 1"
    using assms(2) unfolding threads_inv_def writer_ok_def Let_def w_publish(2) by auto
  then show ?thesis using w_publish assms(2) next_index [of "length (pushed s)" k]
    by (auto simp: threads_inv_def published_def Let_def nth_append less_Suc_eq)
next
  case (r_commit t x)
  then have t: "t = length (popped s) mod 2 ^ k" "x = pushed s ! length (popped s)"
    "length (popped s) < length (pushed s)"
    using assms(2) by (simp_all add: threads_inv_def reader_ok_def Let_def)
  then show ?thesis using r_commit assms(2) next_index [of "length (popped s)" k]
    by (auto simp: threads_inv_def published_def Let_def take_Suc_conv_app_nth)
qed (simp_all add: threads_inv_def published_def)

lemma writer_step:
  assumes "step k s s'" "threads_inv k s" "\<not> drops s'"
  shows "writer_ok k s'"
  using assms
proof (cases rule: step.cases)
  case (w_tail x h)
  then have h: "h = length (pushed s) mod 2 ^ k" using assms(2) by (simp add: threads_inv_def writer_ok_def Let_def)
  have "Suc (length (pushed s)) mod 2 ^ k \<noteq> length (popped s) mod 2 ^ k"
    using assms(2,3) w_tail next_index [of "length (pushed s)" k]
    by (simp add: h threads_inv_def published_def Let_def)
  then have "length (pushed s) - length (popped s) < 2 ^ k - 1"
    using assms(2) by (intro next_not_full) (simp_all add: threads_inv_def published_def Let_def)
  then show ?thesis using w_tail assms(3) h by (simp add: writer_ok_def Let_def)
next
  case (w_slot x h d)
  then show ?thesis using assms(2)
    by (simp add: threads_inv_def writer_ok_def published_def Let_def)
next
  case (r_commit t x)
  then show ?thesis using assms(2)
    by (auto simp: threads_inv_def writer_ok_def reader_ok_def Let_def split: writer_pc.splits)
qed (auto simp: threads_inv_def writer_ok_def published_def Let_def split: writer_pc.splits)

lemma reader_step:
  assumes "step k s s'" "threads_inv k s" "\<not> drops s'"
  shows "reader_ok k s'"
  using assms
proof (cases rule: step.cases)
  case (w_publish x h d)
  then show ?thesis using assms(2)
    by (auto simp: threads_inv_def reader_ok_def Let_def nth_append split: reader_pc.splits)
next
  case (r_head t)
  then show ?thesis using assms(2)
    by (auto simp: threads_inv_def reader_ok_def published_def Let_def le_less)
qed (auto simp: threads_inv_def reader_ok_def published_def Let_def split: reader_pc.splits)

lemma threads_inv_reachable: "reachable_no_drop k z s \<Longrightarrow> threads_inv k s"
proof (induction rule: reachable_no_drop.induct)
  case (n_step s s')
  then show ?case using published_step writer_step reader_step unfolding threads_inv_def by blast
qed (rule threads_inv_init)

lemma threads_inv_prefix: "threads_inv k s \<Longrightarrow> prefix (popped s) (pushed s)"
  by (metis threads_inv_def published_def take_is_prefix)

lemma threads_inv_no_race:
  assumes "threads_inv k s"
  shows "\<not> race s"
proof -
  have "length (pushed s) mod 2 ^ k \<noteq> length (popped s) mod 2 ^ k"
    if "length (popped s) < length (pushed s)"
    using that assms mod_window [of "length (popped s)" "length (pushed s)" "2 ^ k"]
    by (simp add: threads_inv_def published_def Let_def)
  then show ?thesis using assms
    by (auto simp: threads_inv_def writer_ok_def reader_ok_def Let_def split: writer_pc.splits reader_pc.splits)
qed

section \<open>An overflow races with a pop\<close>

lemma reachable_push:
  assumes "reachable k z s" "writer s = WIdle"
  shows "reachable k z (s\<lparr> ring := snd (push k x (ring s)), pushed := pushed s @ [x] \<rparr>)"
proof -
  let ?h = "head (ring s)"
  let ?d = "(?h + 1) AND kMask k = tail (ring s)"
  let ?r1 = "(ring s)\<lparr> slots := (slots (ring s))[?h := x] \<rparr>"
  have "reachable k z (s\<lparr> writer := WHead x ?h \<rparr>)" by (rule r_step [OF assms(1) w_head]) (rule assms(2))
  from r_step [OF this w_tail] have "reachable k z (s\<lparr> writer := WTail x ?h ?d \<rparr>)" by simp
  from r_step [OF this w_slot] have "reachable k z (s\<lparr> writer := WStored x ?h ?d, ring := ?r1 \<rparr>)" by simp
  from r_step [OF this w_publish] have "reachable k z (s\<lparr> writer := WIdle,
      ring := ?r1\<lparr> head := (?h + 1) AND kMask k \<rparr>, pushed := pushed s @ [x] \<rparr>)" by simp
  also have "s\<lparr> writer := WIdle, ring := ?r1\<lparr> head := (?h + 1) AND kMask k \<rparr>, pushed := pushed s @ [x] \<rparr> =
      s\<lparr> ring := snd (push k x (ring s)), pushed := pushed s @ [x] \<rparr>"
    using assms(2) by (cases s) (simp add: push_def Let_def)
  finally show ?thesis .
qed

lemma reachable_pushes:
  assumes "reachable k z s" "writer s = WIdle"
  shows "\<exists>s'. reachable k z s' \<and> writer s' = WIdle \<and> reader s' = reader s \<and>
    head (ring s') = (if n = 0 then head (ring s) else (head (ring s) + n) mod 2 ^ k) \<and> tail (ring s') = tail (ring s)"
proof (induction n)
  case 0
  then show ?case using assms by auto
next
  case (Suc n)
  then obtain s' where s': "reachable k z s'" "writer s' = WIdle" "reader s' = reader s"
    "head (ring s') = (if n = 0 then head (ring s) else (head (ring s) + n) mod 2 ^ k)"
    "tail (ring s') = tail (ring s)" by blast
  have "(head (ring s') + 1) AND kMask k = (head (ring s) + Suc n) mod 2 ^ k"
    using s'(4) by (auto simp: and_kMask mod_Suc_eq)
  then show ?case
    using reachable_push [OF s'(1,2), of z] s' by (intro exI) (auto simp: push_def Let_def)
qed

lemma race_reachable:
  assumes "0 < k"
  shows "\<exists>s. reachable k z s \<and> race s"
proof -
  have one: "(1 :: nat) mod 2 ^ k = 1" using assms by (intro mod_less one_less_power) simp_all
  have two: "Suc 0 < 2 ^ k" using assms by (metis One_nat_def one_less_numeral_iff one_less_power semiring_norm(76))
  obtain s1 where s1: "reachable k z s1" "writer s1 = WIdle" "reader s1 = RIdle"
    "head (ring s1) = 1" "tail (ring s1) = 0"
    using reachable_pushes [OF r_init, of k z 1] one by (auto simp: threads_init_def ring_init_def)
  have "reachable k z (s1\<lparr> reader := RTail 0 \<rparr>)" using r_step [OF s1(1) r_tail] s1 by simp
  from r_step [OF this r_head] s1 have s2: "reachable k z (s1\<lparr> reader := RReady 0 \<rparr>)" by simp
  obtain s3 where s3: "reachable k z s3" "writer s3 = WIdle" "reader s3 = RReady 0" "head (ring s3) = 0"
    using reachable_pushes [OF s2, of "2 ^ k - 1"] s1 two by auto
  have "reachable k z (s3\<lparr> writer := WHead z 0 \<rparr>)" using r_step [OF s3(1) w_head [OF s3(2)]] s3 by simp
  from r_step [OF this w_tail] s3
  have "reachable k z (s3\<lparr> writer := WTail z 0 (1 AND kMask k = tail (ring s3)) \<rparr>)" by simp
  then show ?thesis using s3 by (intro exI conjI) auto
qed

end
