(* ===== verification/Rounding.thy ===== *)
theory Rounding
  imports Prelude "HOL-Library.Log_Nat"
begin

text \<open>
  Rounding of rational numbers to the binary floating-point formats of the code:
  \<open>fl p em\<close> rounds to the nearest multiple of the unit in the last place of a format with
  \<open>p\<close> significant bits and least exponent \<open>em\<close>, ties to even (the IEEE 754 default mode).
  \<open>double\<close> is \<open>fl 53 (-1074)\<close>, \<open>float\<close> is \<open>fl 24 (-149)\<close>. The locale states what the
  components need of a rounding and derives the consequences they use; both formats
  are instances.
\<close>

locale rounding =
  fixes rnd :: "rat \<Rightarrow> rat"
  assumes mono: "x \<le> y \<Longrightarrow> rnd x \<le> rnd y"
    and idem [simp]: "rnd (rnd x) = rnd x"
    and odd: "rnd (- x) = - rnd x"
begin

lemma zero [simp]: "rnd 0 = 0"
  using odd [of 0] by simp

lemma nonneg: "0 \<le> x \<Longrightarrow> 0 \<le> rnd x"
  using mono [of 0 x] by simp

lemma nonpos: "x \<le> 0 \<Longrightarrow> rnd x \<le> 0"
  using mono [of x 0] by simp

lemma add_ge: "rnd x = x \<Longrightarrow> 0 \<le> y \<Longrightarrow> x \<le> rnd (x + y)"
  using mono [of x "x + y"] by simp

lemma add_le: "rnd x = x \<Longrightarrow> y \<le> 0 \<Longrightarrow> rnd (x + y) \<le> x"
  using mono [of "x + y" x] by simp

lemma strict: "rnd x < rnd y \<Longrightarrow> x < y"
  using mono [of y x] by (meson not_le)

lemma abs_rnd: "rnd \<bar>x\<bar> = \<bar>rnd x\<bar>"
  using odd [of x] nonneg [of x] nonpos [of x] by (cases "0 \<le> x") (auto simp: abs_if)

lemma below: "rnd y = y \<Longrightarrow> x \<le> y \<Longrightarrow> rnd x \<le> y"
  using mono [of x y] by simp

lemma above: "rnd x = x \<Longrightarrow> x \<le> y \<Longrightarrow> x \<le> rnd y"
  using mono [of x y] by simp

end

section \<open>Rounding to an integer, ties to even\<close>

definition rne :: "rat \<Rightarrow> int" where
  "rne y = (let f = \<lfloor>y\<rfloor>; d = y - of_int f in
     if d < 1/2 then f else if 1/2 < d then f + 1 else if even f then f else f + 1)"

lemma rne_of_int [simp]: "rne (of_int n) = n"
  by (simp add: rne_def Let_def)

lemma rne_error: "\<bar>of_int (rne y) - y\<bar> \<le> 1/2"
proof -
  define f where "f = \<lfloor>y\<rfloor>"
  have f: "of_int f \<le> y" "y < of_int f + 1" unfolding f_def by linarith+
  then show ?thesis unfolding rne_def Let_def f_def [symmetric] by (simp add: abs_if)
qed

lemma rne_floor: "\<lfloor>y\<rfloor> \<le> rne y" "rne y \<le> \<lfloor>y\<rfloor> + 1"
  by (auto simp: rne_def Let_def)

lemma rne_mono: "x \<le> y \<Longrightarrow> rne x \<le> rne y"
proof (cases "\<lfloor>x\<rfloor> = \<lfloor>y\<rfloor>")
  case True
  then show "x \<le> y \<Longrightarrow> ?thesis" by (auto simp: rne_def Let_def)
next
  case False
  assume "x \<le> y"
  then have "\<lfloor>x\<rfloor> + 1 \<le> \<lfloor>y\<rfloor>" using False floor_mono [of x y] by linarith
  then show ?thesis using rne_floor [of x] rne_floor [of y] by linarith
qed

lemma rne_minus: "rne (- y) = - rne y"
proof (cases "of_int \<lfloor>y\<rfloor> = y")
  case True
  then have "rne y = \<lfloor>y\<rfloor>" "rne (- y) = - \<lfloor>y\<rfloor>"
    by (metis rne_of_int, metis of_int_minus rne_of_int)
  then show ?thesis by simp
next
  case False
  have f: "of_int \<lfloor>y\<rfloor> < y" "y < of_int \<lfloor>y\<rfloor> + 1"
    using False by linarith+
  then have "\<lfloor>- y\<rfloor> = - \<lfloor>y\<rfloor> - 1" by (simp add: floor_eq_iff)
  then show ?thesis using f by (auto simp: rne_def Let_def)
qed

lemma rne_le: "y \<le> of_int n \<Longrightarrow> rne y \<le> n"
  using rne_mono [of y "of_int n"] by simp

lemma rne_ge: "of_int n \<le> y \<Longrightarrow> n \<le> rne y"
  using rne_mono [of "of_int n" y] by simp

section \<open>The binary exponent of a rational\<close>

definition ilog2 :: "rat \<Rightarrow> int" where
  "ilog2 x = (let (p, q) = quotient_of \<bar>x\<bar>;
                  e = int (floorlog 2 (nat p)) - int (floorlog 2 (nat q))
              in if 2 powi e \<le> \<bar>x\<bar> then e else e - 1)"

lemma powi_2_pos [simp]: "0 < (2::rat) powi e"
  by (simp add: zero_less_power_int)

lemma powi_2_le_iff [simp]: "(2::rat) powi a \<le> 2 powi b \<longleftrightarrow> a \<le> b"
  by (metis (mono_tags, opaque_lifting) linorder_not_le one_less_numeral_iff order.strict_implies_order
      power_int_strict_increasing power_int_increasing semiring_norm(76))

lemma powi_2_less_iff [simp]: "(2::rat) powi a < 2 powi b \<longleftrightarrow> a < b"
  by (meson linorder_not_le powi_2_le_iff)

lemma powi_2_add: "(2::rat) powi (a + b) = 2 powi a * 2 powi b"
  by (simp add: power_int_add)

lemma floorlog_2_powi:
  assumes "0 < (n::int)"
  shows "(2::rat) powi (int (floorlog 2 (nat n)) - 1) \<le> of_int n"
    and "of_int n < (2::rat) powi int (floorlog 2 (nat n))"
proof -
  have b: "2 ^ (floorlog 2 (nat n) - 1) \<le> nat n" "nat n < 2 ^ floorlog 2 (nat n)"
    using floorlog_bounds [of "nat n" 2] assms by auto
  have f: "0 < floorlog 2 (nat n)" using assms by (simp add: floorlog_def)
  have "(2::rat) powi (int (floorlog 2 (nat n)) - 1) = of_nat (2 ^ (floorlog 2 (nat n) - 1))"
    using f by (simp add: of_nat_diff flip: power_int_of_nat)
  also have "\<dots> \<le> of_nat (nat n)" using b(1) by (simp only: of_nat_le_iff)
  finally show "(2::rat) powi (int (floorlog 2 (nat n)) - 1) \<le> of_int n"
    using assms by simp
  have "of_int n = (of_nat (nat n) :: rat)" using assms by simp
  also have "\<dots> < of_nat (2 ^ floorlog 2 (nat n))" using b(2) by (simp only: of_nat_less_iff)
  finally show "of_int n < (2::rat) powi int (floorlog 2 (nat n))" by simp
qed

lemma ilog2_bounds:
  assumes "x \<noteq> 0"
  shows "2 powi (ilog2 x) \<le> \<bar>x\<bar>" and "\<bar>x\<bar> < 2 powi (ilog2 x + 1)"
proof -
  obtain p q where pq: "quotient_of \<bar>x\<bar> = (p, q)" by fastforce
  have q: "0 < q" using quotient_of_denom_pos [OF pq] .
  have x: "\<bar>x\<bar> = of_int p / of_int q" using quotient_of_div [OF pq] .
  have p: "0 < p" using x q assms by (metis abs_ge_zero abs_zero divide_eq_0_iff linorder_neqE_linordered_idom
        of_int_0_less_iff of_int_eq_0_iff zero_less_abs_iff zero_less_divide_iff not_less_iff_gr_or_eq)
  define a where "a = int (floorlog 2 (nat p))"
  define b where "b = int (floorlog 2 (nat q))"
  have P: "2 powi (a - 1) \<le> rat_of_int p" "rat_of_int p < 2 powi a"
    using floorlog_2_powi [OF p] by (simp_all add: a_def)
  have Q: "2 powi (b - 1) \<le> rat_of_int q" "rat_of_int q < 2 powi b"
    using floorlog_2_powi [OF q] by (simp_all add: b_def)
  have q': "0 < rat_of_int q" using q by simp
  have up: "\<bar>x\<bar> < 2 powi (a - b + 1)"
  proof -
    have "rat_of_int p < 2 powi (a - b + 1) * 2 powi (b - 1)"
      using P(2) by (simp flip: powi_2_add)
    also have "\<dots> \<le> 2 powi (a - b + 1) * rat_of_int q"
      using Q(1) by (simp add: mult_left_mono less_imp_le)
    finally show ?thesis using q' by (simp add: x pos_divide_less_eq)
  qed
  have lo: "2 powi (a - b - 1) \<le> \<bar>x\<bar>"
  proof -
    have "2 powi (a - b - 1) * rat_of_int q \<le> 2 powi (a - b - 1) * 2 powi b"
      using Q(2) by (simp add: mult_left_mono less_imp_le)
    also have "\<dots> \<le> rat_of_int p" using P(1) by (simp add: algebra_simps flip: powi_2_add)
    finally show ?thesis using q' by (simp add: x pos_le_divide_eq)
  qed
  have e: "ilog2 x = (if 2 powi (a - b) \<le> \<bar>x\<bar> then a - b else a - b - 1)"
    by (simp add: ilog2_def pq a_def b_def Let_def)
  show "2 powi (ilog2 x) \<le> \<bar>x\<bar>" using e lo by auto
  show "\<bar>x\<bar> < 2 powi (ilog2 x + 1)" using e up by auto
qed

lemma ilog2_unique:
  assumes "2 powi e \<le> \<bar>x\<bar>" "\<bar>x\<bar> < 2 powi (e + 1)"
  shows "ilog2 x = e"
proof -
  have "x \<noteq> 0" using assms(1) by (metis abs_zero linorder_not_le powi_2_pos)
  note b = ilog2_bounds [OF this]
  have "(2::rat) powi e < 2 powi (ilog2 x + 1)" "(2::rat) powi ilog2 x < 2 powi (e + 1)"
    using assms b by linarith+
  then show ?thesis by simp
qed

lemma ilog2_mono: "0 < \<bar>x\<bar> \<Longrightarrow> \<bar>x\<bar> \<le> \<bar>y\<bar> \<Longrightarrow> ilog2 x \<le> ilog2 y"
proof -
  assume a: "0 < \<bar>x\<bar>" "\<bar>x\<bar> \<le> \<bar>y\<bar>"
  then have "x \<noteq> 0" "y \<noteq> 0" by auto
  then have "(2::rat) powi ilog2 x < 2 powi (ilog2 y + 1)"
    using ilog2_bounds(1) [of x] ilog2_bounds(2) [of y] a by linarith
  then show ?thesis by simp
qed

lemma ilog2_minus [simp]: "ilog2 (- x) = ilog2 x"
  by (simp add: ilog2_def)

section \<open>Rounding to a format\<close>

definition quantum :: "int \<Rightarrow> int \<Rightarrow> rat \<Rightarrow> int" where
  "quantum p em x = max (ilog2 x + 1 - p) em"

definition fl :: "int \<Rightarrow> int \<Rightarrow> rat \<Rightarrow> rat" where
  "fl p em x = (if x = 0 then 0
     else let u = 2 powi (quantum p em x) in of_int (rne (x / u)) * u)"

lemma fl_zero [simp]: "fl p em 0 = 0"
  by (simp add: fl_def)

lemma quantum_minus [simp]: "quantum p em (- x) = quantum p em x"
  by (simp add: quantum_def)

lemma fl_minus: "fl p em (- x) = - fl p em x"
proof (cases "x = 0")
  case False
  have "rne (- x / u) = - rne (x / u)" for u :: rat
    by (metis minus_divide_left rne_minus)
  then show ?thesis using False by (simp add: fl_def Let_def)
qed simp

text \<open>Multiples of a power of two are not passed over by the rounding.\<close>

lemma fl_le_multiple:
  assumes "x \<le> of_int n * 2 powi e" "quantum p em x \<le> e" "x \<noteq> 0"
  shows "fl p em x \<le> of_int n * 2 powi e"
proof -
  define k where "k = quantum p em x"
  obtain d where d: "e = k + int d" using assms(2) by (metis k_def zle_iff_zadd)
  have e: "of_int n * 2 powi e = of_int (n * 2 ^ d) * (2::rat) powi k"
    by (simp add: d powi_2_add flip: power_int_of_nat)
  have "x / 2 powi k \<le> of_int (n * 2 ^ d)"
    using assms(1) unfolding e by (simp add: pos_divide_le_eq)
  then have "rne (x / 2 powi k) \<le> n * 2 ^ d" by (rule rne_le)
  then have "of_int (rne (x / 2 powi k)) * (2::rat) powi k \<le> of_int (n * 2 ^ d) * 2 powi k"
    by (intro mult_right_mono) (simp_all only: of_int_le_iff powi_2_pos less_imp_le)
  then show ?thesis using assms(3) by (simp only: e) (simp add: fl_def Let_def k_def)
qed

lemma fl_ge_multiple:
  assumes "of_int n * 2 powi e \<le> x" "quantum p em x \<le> e" "x \<noteq> 0"
  shows "of_int n * 2 powi e \<le> fl p em x"
  using fl_le_multiple [of "- x" "- n" e p em] assms by (simp add: fl_minus)

lemma fl_mono_pos:
  assumes p: "1 \<le> p" and xy: "0 < x" "x \<le> y"
  shows "fl p em x \<le> fl p em y"
proof (cases "quantum p em x = quantum p em y")
  case True
  have "x / 2 powi quantum p em y \<le> y / 2 powi quantum p em y"
    using xy by (simp add: divide_right_mono less_imp_le)
  then have "of_int (rne (x / 2 powi quantum p em y)) \<le> rat_of_int (rne (y / 2 powi quantum p em y))"
    using rne_mono by (simp only: of_int_le_iff)
  then show ?thesis using xy True by (simp add: fl_def Let_def mult_right_mono less_imp_le)
next
  case False
  have le: "ilog2 x \<le> ilog2 y" using xy by (simp add: ilog2_mono)
  then have q: "quantum p em x < quantum p em y" using False by (auto simp: quantum_def)
  then have ey: "quantum p em y = ilog2 y + 1 - p" by (auto simp: quantum_def max_def split: if_splits)
  have lt: "ilog2 x < ilog2 y" using q le by (auto simp: quantum_def)
  have "x < 2 powi (ilog2 x + 1)" using ilog2_bounds(2) [of x] xy by simp
  also have "\<dots> \<le> 2 powi ilog2 y" using lt by simp
  finally have "fl p em x \<le> of_int 1 * 2 powi ilog2 y"
    by (intro fl_le_multiple) (use xy p q ey in auto)
  also have "\<dots> \<le> fl p em y"
    using ilog2_bounds(1) [of y] xy p ey by (intro fl_ge_multiple) auto
  finally show ?thesis .
qed

lemma fl_nonneg: "0 \<le> x \<Longrightarrow> 0 \<le> fl p em x"
  using fl_ge_multiple [of 0 "quantum p em x" x p em] by (cases "x = 0") auto

lemma fl_nonpos: "x \<le> 0 \<Longrightarrow> fl p em x \<le> 0"
  using fl_nonneg [of "- x" p em] by (simp add: fl_minus)

lemma fl_mono:
  assumes p: "1 \<le> p" and xy: "x \<le> y"
  shows "fl p em x \<le> fl p em y"
proof -
  consider "0 < x" | "x \<le> 0" "0 \<le> y" | "y < 0" by linarith
  then show ?thesis
  proof cases
    case 1 then show ?thesis using fl_mono_pos [OF p] xy by simp
  next
    case 2 then show ?thesis using fl_nonpos [of x p em] fl_nonneg [of y p em] by simp
  next
    case 3 then show ?thesis using fl_mono_pos [OF p, of "- y" "- x" em] xy by (simp add: fl_minus)
  qed
qed

section \<open>Representable numbers\<close>

definition rep :: "int \<Rightarrow> int \<Rightarrow> rat \<Rightarrow> bool" where
  "rep p em x \<longleftrightarrow> (\<exists>m e. x = of_int m * 2 powi e \<and> \<bar>m\<bar> \<le> 2 ^ nat p \<and> em \<le> e)"

lemma fl_multiple:
  assumes "x = of_int m * 2 powi e" "quantum p em x \<le> e"
  shows "fl p em x = x"
proof (cases "x = 0")
  case False
  then show ?thesis
    using fl_le_multiple [of x m e p em] fl_ge_multiple [of m e x p em] assms by simp
qed simp

lemma fl_exact:
  assumes p: "1 \<le> p" and r: "rep p em x"
  shows "fl p em x = x"
proof (cases "x = 0")
  case False
  obtain m e where x: "x = of_int m * 2 powi e" and m: "\<bar>m\<bar> \<le> 2 ^ nat p" and e: "em \<le> e"
    using r by (auto simp: rep_def)
  have "\<bar>x\<bar> = of_int \<bar>m\<bar> * 2 powi e" by (simp add: x abs_mult)
  also have "\<dots> \<le> of_int (2 ^ nat p) * 2 powi e"
    using m by (intro mult_right_mono) (simp_all only: of_int_le_iff powi_2_pos less_imp_le)
  also have "\<dots> = 2 powi (p + e)" using p by (simp add: powi_2_add flip: power_int_of_nat)
  finally have ub: "\<bar>x\<bar> \<le> 2 powi (p + e)" .
  have "(2::rat) powi ilog2 x \<le> 2 powi (p + e)" using ilog2_bounds(1) [OF False] ub by linarith
  then have le: "ilog2 x \<le> p + e" by simp
  show ?thesis
  proof (cases "ilog2 x = p + e")
    case True
    then have "\<bar>x\<bar> = 2 powi (p + e)" using ilog2_bounds(1) [OF False] ub by simp
    then have "x = of_int (if 0 \<le> x then 1 else -1) * 2 powi (p + e)"
      by (auto simp: abs_if split: if_splits)
    then show ?thesis by (rule fl_multiple) (use True p e in \<open>auto simp: quantum_def\<close>)
  next
    case False
    then show ?thesis using x le e by (intro fl_multiple [OF x]) (auto simp: quantum_def)
  qed
qed simp

lemma rep_fl:
  assumes p: "1 \<le> p"
  shows "rep p em (fl p em x)"
proof (cases "x = 0")
  case True
  then show ?thesis unfolding rep_def by (intro exI [of _ 0] exI [of _ em]) auto
next
  case False
  define k where "k = quantum p em x"
  have ek: "ilog2 x + 1 \<le> p + k" by (simp add: k_def quantum_def)
  have "\<bar>x\<bar> < 2 powi (ilog2 x + 1)" using ilog2_bounds(2) [OF False] .
  also have "\<dots> \<le> 2 powi (p + k)" using ek by simp
  also have "\<dots> = of_int (2 ^ nat p) * 2 powi k" using p by (simp add: powi_2_add flip: power_int_of_nat)
  finally have "\<bar>x / 2 powi k\<bar> \<le> of_int (2 ^ nat p)" by (simp add: pos_divide_le_eq)
  then have "x / 2 powi k \<le> of_int (2 ^ nat p)" "of_int (- (2 ^ nat p)) \<le> x / 2 powi k"
    unfolding abs_le_iff by simp_all
  then have "\<bar>rne (x / 2 powi k)\<bar> \<le> 2 ^ nat p"
    using rne_le [of "x / 2 powi k" "2 ^ nat p"] rne_ge [of "- (2 ^ nat p)" "x / 2 powi k"]
    by linarith
  moreover have "fl p em x = of_int (rne (x / 2 powi k)) * 2 powi k"
    using False by (simp add: fl_def Let_def k_def)
  moreover have "em \<le> k" by (simp add: k_def quantum_def)
  ultimately show ?thesis unfolding rep_def by blast
qed

lemma rounding_fl: "1 \<le> p \<Longrightarrow> rounding (fl p em)"
  by unfold_locales (simp_all add: fl_mono fl_exact rep_fl fl_minus)

text \<open>\<open>double\<close> and \<open>float\<close>.\<close>

abbreviation "fl64 \<equiv> fl 53 (-1074)"
abbreviation "fl32 \<equiv> fl 24 (-149)"

interpretation d64: rounding fl64 by (rule rounding_fl) simp
interpretation d32: rounding fl32 by (rule rounding_fl) simp

text \<open>Every \<open>float\<close> is a \<open>double\<close>: widening is exact.\<close>

lemma fl64_fl32 [simp]: "fl64 (fl32 x) = fl32 x"
proof (rule fl_exact)
  obtain m e where "fl32 x = of_int m * 2 powi e" "\<bar>m\<bar> \<le> 2 ^ 24" "-149 \<le> e"
    using rep_fl [of 24 "-149" x] by (auto simp: rep_def)
  then show "rep 53 (-1074) (fl32 x)" unfolding rep_def by (intro exI [of _ m] exI [of _ e]) auto
qed simp

text \<open>The error of one rounding is at most half a unit in the last place.\<close>

lemma fl_error: "\<bar>fl p em x - x\<bar> \<le> 2 powi (quantum p em x) / 2"
proof (cases "x = 0")
  case False
  define u :: rat where "u = 2 powi (quantum p em x)"
  have u: "0 < u" by (simp add: u_def)
  have "fl p em x - x = (of_int (rne (x / u)) - x / u) * u"
    using u False by (simp add: fl_def Let_def u_def [symmetric] algebra_simps)
  then have "\<bar>fl p em x - x\<bar> = \<bar>of_int (rne (x / u)) - x / u\<bar> * u" using u by (simp add: abs_mult)
  also have "\<dots> \<le> 1/2 * u" using rne_error u by (intro mult_right_mono) auto
  finally show ?thesis by (simp add: u_def)
qed simp

end
