(* ===== verification/Binary64.thy ===== *)
theory Binary64
  imports Rounding
begin

text \<open>
  The type \<open>double\<close> of the code: the IEEE 754 binary64 values with round-to-nearest,
  ties-to-even arithmetic. The finite values are the rationals that \<open>fl64\<close> leaves alone
  and that are below \<open>2 ^ 1024\<close> in magnitude; the two infinities and one NaN are values
  of their own. There is one zero: the sign of a zero is not kept (it would show only in
  the text printed for a negative zero and in the sign of a division by it).
  \<open>float\<close> (the storage format of the tick files) is the same type after \<open>to_float\<close>.
\<close>

definition huge :: rat where "huge = 2 ^ 1024"

lemma huge_pos [simp]: "0 < huge"
  by (simp add: huge_def)

datatype fval = VNaN | VPInf | VNInf | VFin rat

definition fval_ok :: "fval \<Rightarrow> bool" where
  "fval_ok v = (case v of VFin x \<Rightarrow> fl64 x = x \<and> \<bar>x\<bar> < huge | _ \<Rightarrow> True)"

typedef double = "{v. fval_ok v}"
  by (rule exI [of _ VNaN]) (simp add: fval_ok_def)

setup_lifting type_definition_double

text \<open>Rounding a rational result into the format, overflow included.\<close>

definition rnd64 :: "rat \<Rightarrow> fval" where
  "rnd64 x = (let y = fl64 x in
     if huge \<le> y then VPInf else if y \<le> - (huge) then VNInf else VFin y)"

lemma rnd64_ok: "fval_ok (rnd64 x)"
  by (auto simp: rnd64_def fval_ok_def Let_def abs_less_iff)

fun vneg :: "fval \<Rightarrow> fval" where
  "vneg VNaN = VNaN"
| "vneg VPInf = VNInf"
| "vneg VNInf = VPInf"
| "vneg (VFin x) = VFin (- x)"

fun vadd :: "fval \<Rightarrow> fval \<Rightarrow> fval" where
  "vadd (VFin x) (VFin y) = rnd64 (x + y)"
| "vadd VNaN _ = VNaN"
| "vadd _ VNaN = VNaN"
| "vadd VPInf VNInf = VNaN"
| "vadd VNInf VPInf = VNaN"
| "vadd VPInf _ = VPInf"
| "vadd _ VPInf = VPInf"
| "vadd VNInf _ = VNInf"
| "vadd _ VNInf = VNInf"

fun vsgn :: "fval \<Rightarrow> rat" where
  "vsgn VNaN = 0"
| "vsgn VPInf = 1"
| "vsgn VNInf = -1"
| "vsgn (VFin x) = sgn x"

definition vinf :: "rat \<Rightarrow> fval" where
  "vinf s = (if s = 0 then VNaN else if 0 < s then VPInf else VNInf)"

fun vmul :: "fval \<Rightarrow> fval \<Rightarrow> fval" where
  "vmul (VFin x) (VFin y) = rnd64 (x * y)"
| "vmul VNaN _ = VNaN"
| "vmul _ VNaN = VNaN"
| "vmul a b = vinf (vsgn a * vsgn b)"

fun vdiv :: "fval \<Rightarrow> fval \<Rightarrow> fval" where
  "vdiv (VFin x) (VFin y) = (if y = 0 then vinf (sgn x) else rnd64 (x / y))"
| "vdiv VNaN _ = VNaN"
| "vdiv _ VNaN = VNaN"
| "vdiv (VFin x) _ = VFin 0"
| "vdiv a (VFin y) = vinf (vsgn a * (if y < 0 then -1 else 1))"
| "vdiv _ _ = VNaN"

text \<open>The comparisons of the language: false whenever an operand is NaN.\<close>

fun vless :: "fval \<Rightarrow> fval \<Rightarrow> bool" where
  "vless (VFin x) (VFin y) = (x < y)"
| "vless VNInf (VFin _) = True"
| "vless VNInf VPInf = True"
| "vless (VFin _) VPInf = True"
| "vless _ _ = False"

fun vle :: "fval \<Rightarrow> fval \<Rightarrow> bool" where
  "vle (VFin x) (VFin y) = (x \<le> y)"
| "vle VNaN _ = False"
| "vle _ VNaN = False"
| "vle VNInf _ = True"
| "vle _ VPInf = True"
| "vle _ _ = False"

fun vabs :: "fval \<Rightarrow> fval" where
  "vabs (VFin x) = VFin \<bar>x\<bar>"
| "vabs VNInf = VPInf"
| "vabs v = v"

lemma special_ok: "fval_ok VNaN" "fval_ok VPInf" "fval_ok VNInf" "fval_ok (VFin 0)"
  by (simp_all add: fval_ok_def)

lemma vneg_ok: "fval_ok v \<Longrightarrow> fval_ok (vneg v)"
  by (cases v) (auto simp: fval_ok_def d64.odd)

lemma vabs_ok: "fval_ok v \<Longrightarrow> fval_ok (vabs v)"
  by (cases v) (auto simp: fval_ok_def d64.abs_rnd)

lemma vinf_ok: "fval_ok (vinf s)"
  by (simp add: vinf_def fval_ok_def)

lemma vadd_ok: "fval_ok (vadd a b)"
  by (cases "(a, b)" rule: vadd.cases) (simp_all add: rnd64_ok special_ok)

lemma vmul_ok: "fval_ok (vmul a b)"
  by (cases "(a, b)" rule: vmul.cases) (simp_all add: rnd64_ok vinf_ok special_ok)

lemma vdiv_ok: "fval_ok (vdiv a b)"
  by (cases "(a, b)" rule: vdiv.cases) (simp_all add: rnd64_ok vinf_ok special_ok)

section \<open>The arithmetic of double\<close>

text \<open>A decimal literal of the source denotes the nearest double: \<open>lit (1/5)\<close> is \<open>0.2\<close>.\<close>

lift_definition lit :: "rat \<Rightarrow> double" is rnd64 by (rule rnd64_ok)

instantiation double :: "{zero, one, plus, minus, uminus, times, divide, inverse, abs, ord}"
begin

lift_definition zero_double :: double is "VFin 0" by (simp add: fval_ok_def)
definition one_double :: double where "one_double = lit 1"
lift_definition plus_double :: "double \<Rightarrow> double \<Rightarrow> double" is vadd by (rule vadd_ok)
lift_definition uminus_double :: "double \<Rightarrow> double" is vneg by (rule vneg_ok)
lift_definition minus_double :: "double \<Rightarrow> double \<Rightarrow> double" is "\<lambda>a b. vadd a (vneg b)" by (rule vadd_ok)
lift_definition times_double :: "double \<Rightarrow> double \<Rightarrow> double" is vmul by (rule vmul_ok)
lift_definition divide_double :: "double \<Rightarrow> double \<Rightarrow> double" is vdiv by (rule vdiv_ok)
lift_definition inverse_double :: "double \<Rightarrow> double" is "vdiv (VFin 1)" by (rule vdiv_ok)
lift_definition abs_double :: "double \<Rightarrow> double" is vabs by (rule vabs_ok)
lift_definition less_double :: "double \<Rightarrow> double \<Rightarrow> bool" is vless .
lift_definition less_eq_double :: "double \<Rightarrow> double \<Rightarrow> bool" is vle .

instance ..

end

lift_definition is_nan :: "double \<Rightarrow> bool" is "\<lambda>v. v = VNaN" .
lift_definition isfinite :: "double \<Rightarrow> bool" is "\<lambda>v. case v of VFin _ \<Rightarrow> True | _ \<Rightarrow> False" .
lift_definition val :: "double \<Rightarrow> rat" is "\<lambda>v. case v of VFin x \<Rightarrow> x | _ \<Rightarrow> 0" .
lift_definition fval_of :: "double \<Rightarrow> fval" is "\<lambda>v. v" .

section \<open>What the operations compute\<close>

lemma fval_of_ok: "fval_ok (fval_of a)"
  by transfer

lemma val_fval_of: "val a = (case fval_of a of VFin x \<Rightarrow> x | _ \<Rightarrow> 0)"
  by transfer (rule refl)

lemma isfinite_fval_of: "isfinite a \<longleftrightarrow> fval_of a = VFin (val a)"
  by transfer (auto split: fval.splits)

lemma is_nan_fval_of: "is_nan a \<longleftrightarrow> fval_of a = VNaN"
  by transfer (rule refl)

lemma double_eqI: "fval_of a = fval_of b \<Longrightarrow> a = b"
  by transfer

lemma val_ok [simp]: "fl64 (val a) = val a"
  using fval_of_ok [of a] by (auto simp: val_fval_of fval_ok_def split: fval.splits)

lemma val_bound: "\<bar>val a\<bar> < huge"
  using fval_of_ok [of a] by (auto simp: val_fval_of fval_ok_def split: fval.splits)

lemma fval_of_simps:
  "fval_of (lit r) = rnd64 r"
  "fval_of 0 = VFin 0"
  "fval_of (a + b) = vadd (fval_of a) (fval_of b)"
  "fval_of (- a) = vneg (fval_of a)"
  "fval_of (a - b) = vadd (fval_of a) (vneg (fval_of b))"
  "fval_of (a * b) = vmul (fval_of a) (fval_of b)"
  "fval_of (a / b) = vdiv (fval_of a) (fval_of b)"
  "fval_of \<bar>a\<bar> = vabs (fval_of a)"
  by (transfer, rule refl)+

lemma less_fval_of: "a < b \<longleftrightarrow> vless (fval_of a) (fval_of b)"
  by transfer (rule refl)

lemma le_fval_of: "a \<le> b \<longleftrightarrow> vle (fval_of a) (fval_of b)"
  by transfer (rule refl)

lemmas double_defs = less_fval_of le_fval_of isfinite_fval_of is_nan_fval_of fval_of_simps

text \<open>The order, for operands that are not NaN, is a linear order.\<close>

lemma dless_imp_le: "(a::double) < b \<Longrightarrow> a \<le> b"
  by (cases "fval_of a"; cases "fval_of b") (simp_all add: double_defs)

lemma dless_irrefl [simp]: "\<not> (a::double) < a"
  by (cases "fval_of a") (simp_all add: double_defs)

lemma dless_asym: "(a::double) < b \<Longrightarrow> \<not> b < a"
  by (cases "fval_of a"; cases "fval_of b") (simp_all add: double_defs)

lemma dle_trans: "(a::double) \<le> b \<Longrightarrow> b \<le> c \<Longrightarrow> a \<le> c"
  by (cases "fval_of a"; cases "fval_of b"; cases "fval_of c") (simp_all add: double_defs)

lemma dless_le_trans: "(a::double) < b \<Longrightarrow> b \<le> c \<Longrightarrow> a < c"
  by (cases "fval_of a"; cases "fval_of b"; cases "fval_of c") (simp_all add: double_defs)

lemma dle_less_trans: "(a::double) \<le> b \<Longrightarrow> b < c \<Longrightarrow> a < c"
  by (cases "fval_of a"; cases "fval_of b"; cases "fval_of c") (simp_all add: double_defs)

lemma dless_trans: "(a::double) < b \<Longrightarrow> b < c \<Longrightarrow> a < c"
  by (meson dless_imp_le dless_le_trans)

declare dle_trans [trans] dless_le_trans [trans] dle_less_trans [trans] dless_trans [trans]

lemma dle_refl: "(a::double) \<le> a \<longleftrightarrow> \<not> is_nan a"
  by (cases "fval_of a") (simp_all add: double_defs)

lemma dle_linear: "\<not> is_nan a \<Longrightarrow> \<not> is_nan b \<Longrightarrow> a \<le> b \<or> b \<le> a"
  by (cases "fval_of a"; cases "fval_of b") (auto simp: double_defs)

lemma not_dle: "\<not> is_nan a \<Longrightarrow> \<not> is_nan b \<Longrightarrow> \<not> a \<le> b \<longleftrightarrow> b < a"
  by (cases "fval_of a"; cases "fval_of b") (auto simp: double_defs)

lemma not_dless: "\<not> is_nan a \<Longrightarrow> \<not> is_nan b \<Longrightarrow> \<not> a < b \<longleftrightarrow> b \<le> a"
  by (cases "fval_of a"; cases "fval_of b") (auto simp: double_defs)

lemma nan_compare:
  "is_nan a \<Longrightarrow> \<not> a < b" "is_nan a \<Longrightarrow> \<not> b < a"
  "is_nan a \<Longrightarrow> \<not> a \<le> b" "is_nan a \<Longrightarrow> \<not> b \<le> a"
  by (cases "fval_of b"; simp add: double_defs)+

lemma not_nan_of_less: "a < b \<Longrightarrow> \<not> is_nan a \<and> \<not> is_nan b"
  using nan_compare by blast

lemma not_nan_of_le: "a \<le> b \<Longrightarrow> \<not> is_nan a \<and> \<not> is_nan b"
  using nan_compare by blast

lemma nonneg_not_nan: "0 \<le> (x :: double) \<Longrightarrow> \<not> is_nan x"
  using not_nan_of_le by blast

lemma finite_not_nan: "isfinite a \<Longrightarrow> \<not> is_nan a"
  by (simp add: double_defs)

lemma finite_less: "isfinite a \<Longrightarrow> isfinite b \<Longrightarrow> a < b \<longleftrightarrow> val a < val b"
  by (simp add: double_defs)

lemma finite_le: "isfinite a \<Longrightarrow> isfinite b \<Longrightarrow> a \<le> b \<longleftrightarrow> val a \<le> val b"
  by (simp add: double_defs)

lemma finite_eq: "isfinite a \<Longrightarrow> isfinite b \<Longrightarrow> val a = val b \<Longrightarrow> a = b"
  by (rule double_eqI) (simp add: double_defs)

section \<open>Finite results\<close>

lemma rnd64_mono: "x \<le> y \<Longrightarrow> vle (rnd64 x) (rnd64 y)"
  using d64.mono [of x y] huge_pos by (auto simp: rnd64_def Let_def)

lemma rnd64_nonneg: "0 \<le> x \<Longrightarrow> vle (VFin 0) (rnd64 x)"
proof -
  assume "0 \<le> x"
  then have "0 \<le> fl64 x" by (rule d64.nonneg)
  then have "\<not> fl64 x \<le> - huge" using huge_pos by linarith
  with \<open>0 \<le> fl64 x\<close> show ?thesis by (simp add: rnd64_def Let_def)
qed

lemma rnd64_nonpos: "x \<le> 0 \<Longrightarrow> vle (rnd64 x) (VFin 0)"
proof -
  assume "x \<le> 0"
  then have "fl64 x \<le> 0" by (rule d64.nonpos)
  then have "\<not> huge \<le> fl64 x" using huge_pos by linarith
  with \<open>fl64 x \<le> 0\<close> show ?thesis by (simp add: rnd64_def Let_def)
qed

lemma rnd64_between: "vle VNInf (rnd64 x)" "vle (rnd64 x) VPInf"
  by (simp_all add: rnd64_def Let_def)

lemmas rnd64_bounds = rnd64_mono rnd64_nonneg rnd64_nonpos rnd64_between

lemma rnd64_Fin: "rnd64 x = VFin y \<longleftrightarrow> y = fl64 x \<and> \<bar>fl64 x\<bar> < huge"
  by (auto simp: rnd64_def Let_def abs_less_iff)

lemma rnd64_not_nan [simp]: "rnd64 x \<noteq> VNaN"
  by (simp add: rnd64_def Let_def)

lemma finite_add:
  "isfinite (a + b) \<Longrightarrow> isfinite a \<and> isfinite b \<and> val (a + b) = fl64 (val a + val b)"
  by (cases "fval_of a"; cases "fval_of b") (simp_all add: double_defs val_fval_of rnd64_Fin split: fval.splits)

lemma finite_sub:
  "isfinite (a - b) \<Longrightarrow> isfinite a \<and> isfinite b \<and> val (a - b) = fl64 (val a - val b)"
  by (cases "fval_of a"; cases "fval_of b") (simp_all add: double_defs val_fval_of rnd64_Fin split: fval.splits)

lemma finite_mult:
  "isfinite (a * b) \<Longrightarrow> isfinite a \<Longrightarrow> isfinite b \<Longrightarrow> val (a * b) = fl64 (val a * val b)"
  by (cases "fval_of a"; cases "fval_of b") (simp_all add: double_defs val_fval_of rnd64_Fin split: fval.splits)

lemma val_abs [simp]: "val \<bar>a\<bar> = \<bar>val a\<bar>" and finite_abs [simp]: "isfinite \<bar>a\<bar> \<longleftrightarrow> isfinite a"
  by (cases "fval_of a"; simp add: double_defs val_fval_of)+

lemma val_zero [simp]: "val 0 = 0" and finite_zero [simp]: "isfinite 0"
  by (simp_all add: double_defs val_fval_of)

lemma val_minus [simp]: "val (- a) = - val a" and finite_minus [simp]: "isfinite (- a) \<longleftrightarrow> isfinite a"
  by (cases "fval_of a"; simp add: double_defs val_fval_of)+

section \<open>Monotonicity\<close>

lemma dadd_mono:
  assumes "a \<le> b" "\<not> is_nan (a + c)" "\<not> is_nan (b + c)"
  shows "a + c \<le> (b + c :: double)"
  using assms
  by (cases "fval_of a"; cases "fval_of b"; cases "fval_of c")
     (simp_all add: double_defs rnd64_bounds)

lemma dadd_comm: "(a::double) + b = b + a"
  by (rule double_eqI, cases "fval_of a"; cases "fval_of b") (simp_all add: double_defs add.commute)

lemma dadd_zero [simp]: "(a::double) + 0 = a" "0 + (a::double) = a"
proof -
  have "fval_of (a + 0) = fval_of a"
    using fval_of_ok [of a] by (cases "fval_of a") (auto simp: double_defs rnd64_Fin fval_ok_def)
  then show "a + 0 = a" by (rule double_eqI)
  then show "0 + a = a" by (simp add: dadd_comm)
qed

lemma dsub_zero [simp]: "(a::double) - 0 = a"
proof -
  have "fval_of (a - 0) = fval_of a"
    using fval_of_ok [of a] by (cases "fval_of a") (auto simp: double_defs rnd64_Fin fval_ok_def)
  then show ?thesis by (rule double_eqI)
qed

lemma dadd_ge:
  assumes "0 \<le> b" "\<not> is_nan (a + b)"
  shows "a \<le> (a + b :: double)"
proof -
  have "\<not> is_nan a" using assms by (cases "fval_of a"; cases "fval_of b") (auto simp: double_defs)
  then show ?thesis using dadd_mono [of 0 b a] assms by (simp add: dadd_comm)
qed

lemma dadd_nonneg:
  assumes "0 \<le> a" "0 \<le> (b::double)"
  shows "0 \<le> a + b"
  using assms
  by (cases "fval_of a"; cases "fval_of b") (simp_all add: double_defs rnd64_bounds)

lemma dsub_nonneg:
  assumes "b \<le> a" "\<not> is_nan (a - b)"
  shows "0 \<le> (a - b :: double)"
  using assms
  by (cases "fval_of a"; cases "fval_of b") (simp_all add: double_defs rnd64_bounds)

lemma dsub_nonpos:
  assumes "a \<le> b" "\<not> is_nan (a - b)"
  shows "(a - b :: double) \<le> 0"
  using assms
  by (cases "fval_of a"; cases "fval_of b") (simp_all add: double_defs rnd64_bounds)

lemma dmult_nonneg:
  assumes "0 \<le> a" "0 \<le> (b::double)" "\<not> is_nan (a * b)"
  shows "0 \<le> a * b"
  using assms
  by (cases "fval_of a"; cases "fval_of b")
     (simp_all add: double_defs rnd64_bounds vinf_def sgn_if split: if_splits)

lemma dmult_square_nonneg: "\<not> is_nan a \<Longrightarrow> 0 \<le> a * (a :: double)"
  by (cases "fval_of a") (simp_all add: double_defs rnd64_bounds vinf_def)

lemma dminus_nonneg: "a \<le> 0 \<Longrightarrow> 0 \<le> - (a::double)"
  by (cases "fval_of a") (auto simp: double_defs)

lemma dminus_pos: "a < 0 \<Longrightarrow> 0 < - (a::double)"
  by (cases "fval_of a") (auto simp: double_defs)

lemma dabs_nonneg: "\<not> is_nan a \<Longrightarrow> 0 \<le> \<bar>a::double\<bar>"
  by (cases "fval_of a") (auto simp: double_defs)

lemma dabs_nan [simp]: "is_nan \<bar>a\<bar> \<longleftrightarrow> is_nan a"
  by (cases "fval_of a") (auto simp: double_defs)

lemma dadd_nan: "is_nan a \<Longrightarrow> is_nan (a + b)" "is_nan b \<Longrightarrow> is_nan (a + b)"
  by (cases "fval_of a"; cases "fval_of b"; simp add: double_defs)+

section \<open>std::min, std::max, std::round and the conversions\<close>

text \<open>\<open>std::max (a, b)\<close> is \<open>(a < b) ? b : a\<close>, which keeps a NaN in first position.\<close>

definition dmax :: "double \<Rightarrow> double \<Rightarrow> double" where
  "dmax a b = (if a < b then b else a)"

definition dmin :: "double \<Rightarrow> double \<Rightarrow> double" where
  "dmin a b = (if b < a then b else a)"

lemma dmax_ge1: "\<not> is_nan a \<Longrightarrow> a \<le> dmax a b"
  by (auto simp: dmax_def dless_imp_le dle_refl)

lemma dmax_ge2: "\<not> is_nan a \<Longrightarrow> \<not> is_nan b \<Longrightarrow> b \<le> dmax a b"
  by (auto simp: dmax_def dle_refl not_dless)

lemma dmax_not_nan: "\<not> is_nan a \<Longrightarrow> \<not> is_nan (dmax a b)"
  using dmax_ge1 not_nan_of_le by blast

lemma dmin_le1: "\<not> is_nan a \<Longrightarrow> dmin a b \<le> a"
  by (auto simp: dmin_def dless_imp_le dle_refl)

lemma dmin_le2: "\<not> is_nan a \<Longrightarrow> \<not> is_nan b \<Longrightarrow> dmin a b \<le> b"
  by (auto simp: dmin_def dle_refl not_dless)

text \<open>\<open>std::round\<close>: to the nearest integer, ties away from zero.\<close>

definition round_away :: "rat \<Rightarrow> int" where
  "round_away x = (if 0 \<le> x then \<lfloor>x + 1/2\<rfloor> else - \<lfloor>1/2 - x\<rfloor>)"

lift_definition dround :: "double \<Rightarrow> double"
  is "\<lambda>v. case v of VFin x \<Rightarrow> rnd64 (of_int (round_away x)) | _ \<Rightarrow> v"
  by (auto simp: rnd64_ok split: fval.splits)

lemma fval_of_dround:
  "fval_of (dround a) = (case fval_of a of VFin x \<Rightarrow> rnd64 (of_int (round_away x)) | v \<Rightarrow> v)"
  by transfer (auto split: fval.splits)

lemma round_away_mono: "x \<le> y \<Longrightarrow> round_away x \<le> round_away y"
proof -
  assume a: "x \<le> y"
  consider "0 \<le> x" | "x < 0" "0 \<le> y" | "y < 0" by linarith
  then show ?thesis
  proof cases
    case 1 then show ?thesis using a by (simp add: round_away_def floor_mono)
  next
    case 2
    then have "0 \<le> \<lfloor>1/2 - x\<rfloor>" "0 \<le> \<lfloor>y + 1/2\<rfloor>" by simp_all
    then have "- \<lfloor>1/2 - x\<rfloor> \<le> \<lfloor>y + 1/2\<rfloor>" by linarith
    then show ?thesis using 2 unfolding round_away_def by simp
  next
    case 3 then show ?thesis using a by (simp add: round_away_def floor_mono)
  qed
qed

lemma dround_mono: "a \<le> b \<Longrightarrow> dround a \<le> dround b"
proof -
  have "x \<le> y \<Longrightarrow> vle (rnd64 (of_int (round_away x))) (rnd64 (of_int (round_away y)))" for x y
    by (intro rnd64_mono) (simp add: round_away_mono)
  then show "a \<le> b \<Longrightarrow> dround a \<le> dround b"
    by (cases "fval_of a"; cases "fval_of b")
       (simp_all add: double_defs fval_of_dround rnd64_between)
qed

text \<open>
  Conversions. \<open>static_cast<double>\<close> of an integer rounds. \<open>static_cast<int64_t>\<close> of a
  double truncates towards zero; outside the range of the type the standard leaves the
  result undefined and the x86-64 conversion instruction gives the least integer.
\<close>

definition double_of_int :: "int \<Rightarrow> double" where
  "double_of_int n = lit (of_int n)"

definition trunc_rat :: "rat \<Rightarrow> int" where
  "trunc_rat x = (if 0 \<le> x then \<lfloor>x\<rfloor> else - \<lfloor>- x\<rfloor>)"

definition int64_of :: "double \<Rightarrow> int64" where
  "int64_of a = (case fval_of a of
     VFin x \<Rightarrow> let n = trunc_rat x in if - (2 ^ 63) \<le> n \<and> n < 2 ^ 63 then n else - (2 ^ 63)
   | _ \<Rightarrow> - (2 ^ 63))"

text \<open>\<open>std::llround\<close>, with the same out-of-range value.\<close>

definition llround :: "double \<Rightarrow> int64" where
  "llround a = (case fval_of a of
     VFin x \<Rightarrow> let n = round_away x in if - (2 ^ 63) \<le> n \<and> n < 2 ^ 63 then n else - (2 ^ 63)
   | _ \<Rightarrow> - (2 ^ 63))"

text \<open>\<open>static_cast<float>\<close>, kept as a double (widening a float is exact, \<open>fl64_fl32\<close>).\<close>

definition to_float_val :: "fval \<Rightarrow> fval" where
  "to_float_val v = (case v of
     VFin x \<Rightarrow> (let y = fl32 x in
        if 2 ^ 128 \<le> y then VPInf else if y \<le> - (2 ^ 128) then VNInf else VFin y)
   | _ \<Rightarrow> v)"

lemma to_float_val_ok: "fval_ok v \<Longrightarrow> fval_ok (to_float_val v)"
proof -
  have "(2::rat) ^ 128 < huge" unfolding huge_def by (intro power_strict_increasing) auto
  then have "\<not> 2 ^ 128 \<le> y \<Longrightarrow> \<not> y \<le> - (2 ^ 128) \<Longrightarrow> \<bar>y\<bar> < huge" for y :: rat
    by (simp only: abs_less_iff) linarith
  then show ?thesis unfolding fval_ok_def to_float_val_def Let_def
    by (auto split: fval.splits if_splits)
qed

lift_definition to_float :: "double \<Rightarrow> double" is to_float_val
  by (rule to_float_val_ok)

lemma to_float_idem [simp]: "to_float (to_float a) = to_float a"
proof -
  have "to_float_val (to_float_val v) = to_float_val v" for v
    by (cases v) (auto simp: to_float_val_def Let_def split: if_splits)
  then show ?thesis by transfer simp
qed

section \<open>Evaluation\<close>

text \<open>
  Witnesses use numbers that a double holds exactly; these rules then evaluate the
  arithmetic and the comparisons of the model by rewriting.
\<close>

definition exact :: "rat \<Rightarrow> bool" where
  "exact r \<longleftrightarrow> fl64 r = r \<and> \<bar>r\<bar> < huge"

lemma exact_dyadic: "\<bar>m\<bar> \<le> 2 ^ 53 \<Longrightarrow> k \<le> 1000 \<Longrightarrow> exact (of_int m / 2 ^ k)"
proof -
  assume m: "\<bar>m\<bar> \<le> 2 ^ 53" and k: "k \<le> 1000"
  have e: "rat_of_int m / 2 ^ k = of_int m * 2 powi (- int k)"
    by (simp add: power_int_minus divide_inverse)
  have "rep 53 (-1074) (of_int m / 2 ^ k)"
    unfolding rep_def e using m k by (intro exI [of _ m] exI [of _ "- int k"]) auto
  then have f: "fl64 (of_int m / 2 ^ k) = of_int m / 2 ^ k" by (intro fl_exact) auto
  have "\<bar>rat_of_int m / 2 ^ k\<bar> \<le> of_int \<bar>m\<bar>" by (simp add: divide_le_eq mult_le_cancel_left1)
  also have "\<dots> \<le> of_int (2 ^ 53)" using m by (simp only: of_int_le_iff)
  also have "\<dots> < huge" unfolding huge_def of_int_power of_int_numeral
    by (intro power_strict_increasing) auto
  finally show ?thesis using f by (simp add: exact_def)
qed

lemma exact_numeral [exact_simps]: "numeral n \<le> (2 ^ 53 :: int) \<Longrightarrow> exact (numeral n)"
  using exact_dyadic [of "numeral n" 0] by simp

lemma exact_0_1 [exact_simps]: "exact 0" "exact 1"
  using exact_dyadic [of 0 0] exact_dyadic [of 1 0] by simp_all

lemma exact_minus [exact_simps]: "exact (- r) \<longleftrightarrow> exact r"
  by (simp add: exact_def d64.odd)

lemma exact_frac [exact_simps]:
  assumes "numeral n \<le> (2 ^ 53 :: int)"
  shows "exact (numeral n / 2)" "exact (numeral n / 4)" "exact (numeral n / 8)"
    "exact (numeral n / 16)" "exact (numeral n / 32)" "exact (numeral n / 64)"
  using exact_dyadic [of "numeral n" 1] exact_dyadic [of "numeral n" 2]
    exact_dyadic [of "numeral n" 3] exact_dyadic [of "numeral n" 4]
    exact_dyadic [of "numeral n" 5] exact_dyadic [of "numeral n" 6] assms
  by simp_all

lemma exact_frac_1 [exact_simps]:
  "exact (1 / 2)" "exact (1 / 4)" "exact (1 / 8)" "exact (1 / 16)" "exact (1 / 32)" "exact (1 / 64)"
  using exact_dyadic [of 1 1] exact_dyadic [of 1 2] exact_dyadic [of 1 3]
    exact_dyadic [of 1 4] exact_dyadic [of 1 5] exact_dyadic [of 1 6]
  by simp_all

lemma fval_of_exact: "exact r \<Longrightarrow> fval_of (lit r) = VFin r"
  by (simp add: exact_def fval_of_simps rnd64_Fin)

lemma lit_0 [simp]: "lit 0 = 0" and lit_1 [exact_simps]: "1 = lit 1"
  by (simp_all add: one_double_def double_eqI fval_of_simps fval_of_exact exact_0_1)
     (rule double_eqI, simp add: fval_of_simps rnd64_Fin)

lemma lit_arith [exact_simps]:
  assumes "exact r" "exact s"
  shows "lit r + lit s = lit (r + s)" "lit r - lit s = lit (r - s)" "lit r * lit s = lit (r * s)"
    "s \<noteq> 0 \<Longrightarrow> lit r / lit s = lit (r / s)"
  by (rule double_eqI; simp add: fval_of_simps(2-) fval_of_exact assms, simp add: fval_of_simps)+

lemma lit_unary [exact_simps]:
  assumes "exact r"
  shows "- lit r = lit (- r)" "\<bar>lit r\<bar> = lit \<bar>r\<bar>"
proof -
  have a: "exact (- r)" using assms by (simp add: exact_minus)
  then have "exact \<bar>r\<bar>" using assms by (simp add: abs_if)
  with a assms show "- lit r = lit (- r)" "\<bar>lit r\<bar> = lit \<bar>r\<bar>"
    by (auto intro!: double_eqI simp: fval_of_simps(2-) fval_of_exact)
qed

lemma lit_compare [exact_simps]:
  assumes "exact r" "exact s"
  shows "lit r < lit s \<longleftrightarrow> r < s" "lit r \<le> lit s \<longleftrightarrow> r \<le> s" "lit r = lit s \<longleftrightarrow> r = s"
proof -
  note f = fval_of_exact [OF assms(1)] fval_of_exact [OF assms(2)]
  show "lit r < lit s \<longleftrightarrow> r < s" "lit r \<le> lit s \<longleftrightarrow> r \<le> s" by (simp_all add: less_fval_of le_fval_of f)
  show "lit r = lit s \<longleftrightarrow> r = s" using f by (metis fval.inject)
qed

lemma lit_compare_0 [exact_simps]:
  assumes "exact r"
  shows "0 < lit r \<longleftrightarrow> 0 < r" "0 \<le> lit r \<longleftrightarrow> 0 \<le> r" "lit r < 0 \<longleftrightarrow> r < 0" "lit r \<le> 0 \<longleftrightarrow> r \<le> 0"
    "lit r = 0 \<longleftrightarrow> r = 0" "0 = lit r \<longleftrightarrow> 0 = r"
  using lit_compare [OF assms exact_0_1(1)] lit_compare [OF exact_0_1(1) assms] by simp_all

lemma lit_props [exact_simps]:
  assumes "exact r"
  shows "\<not> is_nan (lit r)" "isfinite (lit r)" "val (lit r) = r"
    "int64_of (lit r) = (let n = trunc_rat r in if - (2 ^ 63) \<le> n \<and> n < 2 ^ 63 then n else - (2 ^ 63))"
    "llround (lit r) = (let n = round_away r in if - (2 ^ 63) \<le> n \<and> n < 2 ^ 63 then n else - (2 ^ 63))"
    "dround (lit r) = lit (of_int (round_away r))"
  using fval_of_exact [OF assms]
  by (auto intro!: double_eqI simp: double_defs val_fval_of int64_of_def llround_def Let_def fval_of_dround)

lemma floor_rat_numeral [exact_simps]:
  "\<lfloor>numeral a / numeral b :: rat\<rfloor> = numeral a div numeral b"
  "\<lfloor>- (numeral a / numeral b) :: rat\<rfloor> = - numeral a div numeral b"
  "\<lfloor>1 / numeral b :: rat\<rfloor> = 1 div numeral b"
  "\<lfloor>- (1 / numeral b) :: rat\<rfloor> = - 1 div numeral b"
  using floor_divide_of_int_eq [of "numeral a" "numeral b", where 'a = rat]
    floor_divide_of_int_eq [of "- numeral a" "numeral b", where 'a = rat]
    floor_divide_of_int_eq [of 1 "numeral b", where 'a = rat]
    floor_divide_of_int_eq [of "-1" "numeral b", where 'a = rat]
  by simp_all

text \<open>Scaling by an exact positive constant keeps the order.\<close>

lemma dmult_mono_pos:
  assumes "a \<le> b" "exact r" "0 < r"
  shows "a * lit r \<le> b * lit r"
proof -
  have m: "x \<le> y \<Longrightarrow> x * r \<le> y * r" for x y using assms(3) by simp
  show ?thesis using assms
    by (cases "fval_of a"; cases "fval_of b")
      (simp_all add: le_fval_of fval_of_simps(6) fval_of_exact rnd64_bounds m vinf_def)
qed

lemma ddiv_mono_pos:
  assumes "a \<le> b" "exact r" "0 < r"
  shows "a / lit r \<le> b / lit r"
proof -
  have m: "x \<le> y \<Longrightarrow> x / r \<le> y / r" for x y using assms(3) by (simp add: divide_right_mono)
  show ?thesis using assms
    by (cases "fval_of a"; cases "fval_of b")
      (simp_all add: le_fval_of fval_of_simps(7) fval_of_exact rnd64_bounds m vinf_def)
qed

end
