(* ===== verification/CText.thy ===== *)
theory CText
  imports Binary64
begin

text \<open>
  The text conversions of the C and C++ library that the code uses: decimal printing of
  integers (\<open>std::to_string\<close>, \<open>%d\<close>, \<open>%lld\<close>) and of doubles (\<open>%.nf\<close>, \<open>%g\<close>), and the
  readers \<open>atoi\<close>, \<open>atol\<close>, \<open>atoll\<close>, \<open>strtod\<close>, \<open>atof\<close> and \<open>std::stod\<close> in the C locale, as
  glibc on x86-64 implements them (\<open>long\<close> has 64 bits and the readers saturate). The
  lemmas are the round trips: what is printed is read back, to the printed precision.
\<close>

section \<open>Characters\<close>

definition is_digit :: "char \<Rightarrow> bool" where
  "is_digit c \<longleftrightarrow> 48 \<le> (of_char c :: nat) \<and> (of_char c :: nat) \<le> 57"

definition digit_char :: "nat \<Rightarrow> char" where
  "digit_char d = char_of (48 + d)"

definition digit_val :: "char \<Rightarrow> nat" where
  "digit_val c = of_char c - 48"

definition isspace :: "char \<Rightarrow> bool" where
  "isspace c \<longleftrightarrow> (of_char c :: nat) \<in> {9, 10, 11, 12, 13, 32}"

definition tolower :: "char \<Rightarrow> char" where
  "tolower c = (let n = of_char c :: nat in if 65 \<le> n \<and> n \<le> 90 then char_of (n + 32) else c)"

text \<open>\<open>std::isalnum\<close> and \<open>std::toupper\<close> in the C locale.\<close>

definition is_lower :: "char \<Rightarrow> bool" where
  "is_lower c \<longleftrightarrow> 97 \<le> (of_char c :: nat) \<and> (of_char c :: nat) \<le> 122"

definition isalnum :: "char \<Rightarrow> bool" where
  "isalnum c \<longleftrightarrow> is_digit c \<or> is_lower c \<or> 65 \<le> (of_char c :: nat) \<and> (of_char c :: nat) \<le> 90"

definition toupper :: "char \<Rightarrow> char" where
  "toupper c = (if is_lower c then char_of (of_char c - (32 :: nat)) else c)"

lemma of_digit_char: "d < 10 \<Longrightarrow> (of_char (digit_char d) :: nat) = 48 + d"
  by (simp add: digit_char_def)

lemma is_digit_digit_char [simp]: "d < 10 \<Longrightarrow> is_digit (digit_char d)"
  by (simp add: is_digit_def of_digit_char)

lemma digit_val_digit_char [simp]: "d < 10 \<Longrightarrow> digit_val (digit_char d) = d"
  by (simp add: digit_val_def of_digit_char)

lemma digit_not_space: "is_digit c \<Longrightarrow> \<not> isspace c"
  by (auto simp: is_digit_def isspace_def)

lemma char_classes [simp]:
  "\<not> is_digit CHR ''.''" "\<not> is_digit CHR '',''" "\<not> is_digit CHR ''-''" "\<not> is_digit CHR ''+''"
  "\<not> is_digit CHR ''e''" "\<not> is_digit CHR ''E''" "\<not> is_digit CHR ''x''" "\<not> is_digit CHR ''X''"
  "\<not> isspace CHR ''-''" "\<not> isspace CHR ''+''" "\<not> isspace CHR ''.''"
  "is_digit CHR ''0''" "\<not> is_digit CHR ''=''" "\<not> is_digit CHR ''n''" "\<not> is_digit CHR ''i''"
  by (simp_all add: is_digit_def isspace_def)

section \<open>Natural numbers and integers in decimal\<close>

fun show_nat :: "nat \<Rightarrow> str" where
  "show_nat n = (if n < 10 then [digit_char n] else show_nat (n div 10) @ [digit_char (n mod 10)])"

declare show_nat.simps [simp del]

definition show_int :: "int \<Rightarrow> str" where
  "show_int n = (if n < 0 then CHR ''-'' # show_nat (nat (- n)) else show_nat (nat n))"

definition digits_val :: "str \<Rightarrow> nat" where
  "digits_val ds = foldl (\<lambda>n c. 10 * n + digit_val c) 0 ds"

lemma digits_val_Nil [simp]: "digits_val [] = 0"
  by (simp add: digits_val_def)

lemma digits_val_snoc [simp]: "digits_val (ds @ [c]) = 10 * digits_val ds + digit_val c"
  by (simp add: digits_val_def)

lemma digits_val_append: "digits_val (ds @ es) = digits_val ds * 10 ^ length es + digits_val es"
  by (induction es rule: rev_induct) (auto simp flip: append_assoc simp: algebra_simps)

lemma show_nat_digits: "\<forall>c\<in>set (show_nat n). is_digit c"
  by (induction n rule: show_nat.induct) (subst show_nat.simps, auto)

lemma show_nat_nonempty [simp]: "show_nat n \<noteq> []"
  by (subst show_nat.simps) simp

lemma digits_val_show_nat [simp]: "digits_val (show_nat n) = n"
proof (induction n rule: show_nat.induct)
  case (1 n)
  then show ?case
    by (subst show_nat.simps) (auto simp: digits_val_def)
qed

lemma show_nat_inj: "show_nat m = show_nat n \<Longrightarrow> m = n"
  by (metis digits_val_show_nat)

lemma length_show_nat_le: "n < 10 ^ Suc k \<Longrightarrow> length (show_nat n) \<le> Suc k"
proof (induction k arbitrary: n)
  case 0
  then show ?case by (subst show_nat.simps) simp
next
  case (Suc k)
  then have "n div 10 < 10 ^ Suc k" by (simp add: less_mult_imp_div_less)
  then have "length (show_nat (n div 10)) \<le> Suc k" by (rule Suc.IH)
  then show ?case by (subst show_nat.simps) simp
qed

lemma digits_val_zeros [simp]: "digits_val (replicate k CHR ''0'') = 0"
  by (induction k) (simp_all add: replicate_append_same [symmetric] digit_val_def)

text \<open>Zero padding on the left to width \<open>k\<close> (\<open>%03u\<close>, and the fraction of \<open>%.nf\<close>).\<close>

definition pad0 :: "nat \<Rightarrow> nat \<Rightarrow> str" where
  "pad0 k n = (let s = show_nat n in replicate (k - length s) CHR ''0'' @ s)"

lemma pad0_digits: "\<forall>c\<in>set (pad0 k n). is_digit c"
  using show_nat_digits by (auto simp: pad0_def Let_def)

lemma digits_val_pad0 [simp]: "digits_val (pad0 k n) = n"
  by (simp add: pad0_def Let_def digits_val_append)

lemma length_pad0: "n < 10 ^ k \<Longrightarrow> 0 < k \<Longrightarrow> length (pad0 k n) = k"
  using length_show_nat_le [of n "k - 1"] by (simp add: pad0_def Let_def)

section \<open>Reading integers\<close>

text \<open>
  \<open>strtol\<close> with base 10: leading white space, an optional sign, the longest run of digits.
  The result is the saturated value and the text after the number; \<open>None\<close> when there is
  no digit (the C function then returns 0 and the whole text as the rest).
\<close>

fun read_sign :: "str \<Rightarrow> bool \<times> str" where
  "read_sign [] = (False, [])"
| "read_sign (c # s) = (if c = CHR ''-'' then (True, s) else if c = CHR ''+'' then (False, s) else (False, c # s))"

definition clamp64 :: "int \<Rightarrow> int64" where
  "clamp64 n = max (- (2 ^ 63)) (min (2 ^ 63 - 1) n)"

definition strtol :: "str \<Rightarrow> (int64 \<times> str) option" where
  "strtol s = (let (neg, s1) = read_sign (dropWhile isspace s); ds = takeWhile is_digit s1 in
     if ds = [] then None
     else Some (clamp64 (if neg then - int (digits_val ds) else int (digits_val ds)),
                dropWhile is_digit s1))"

definition atoll :: "str \<Rightarrow> int64" where
  "atoll s = (case strtol s of None \<Rightarrow> 0 | Some (n, _) \<Rightarrow> n)"

text \<open>\<open>atol\<close> is the same function (\<open>long\<close> has 64 bits); \<open>atoi\<close> keeps the low 32 bits.\<close>

definition atol :: "str \<Rightarrow> int64" where
  "atol = atoll"

definition atoi :: "str \<Rightarrow> int" where
  "atoi s = (atoll s + 2 ^ 31) mod 2 ^ 32 - 2 ^ 31"

lemma show_nat_Cons: "\<exists>c cs. show_nat n = c # cs \<and> is_digit c"
  using show_nat_digits [of n] show_nat_nonempty [of n] by (metis list.set_intros(1) neq_Nil_conv)

lemma read_sign_digit: "is_digit c \<Longrightarrow> read_sign (c # s) = (False, c # s)"
  by auto

lemma dropWhile_isspace_digits: "ds \<noteq> [] \<Longrightarrow> \<forall>c\<in>set ds. is_digit c \<Longrightarrow> dropWhile isspace (ds @ s) = ds @ s"
  by (cases ds) (auto simp: digit_not_space)

lemma read_sign_digits: "ds \<noteq> [] \<Longrightarrow> \<forall>c\<in>set ds. is_digit c \<Longrightarrow> read_sign (ds @ s) = (False, ds @ s)"
  by (cases ds) (auto simp: read_sign_digit)

lemma takeWhile_digits:
  assumes "\<forall>c\<in>set ds. is_digit c" "s = [] \<or> \<not> is_digit (hd s)"
  shows "takeWhile is_digit (ds @ s) = ds" "dropWhile is_digit (ds @ s) = s"
  using assms by (cases s; simp add: takeWhile_append dropWhile_append takeWhile_all)+

lemma clamp64_id: "- (2 ^ 63) \<le> n \<Longrightarrow> n < 2 ^ 63 \<Longrightarrow> clamp64 n = n"
  by (simp add: clamp64_def)

lemma strtol_show_int:
  assumes "- (2 ^ 63) \<le> n" "n < 2 ^ 63" "s = [] \<or> \<not> is_digit (hd s)"
  shows "strtol (show_int n @ s) = Some (n, s)"
proof (cases "n < 0")
  case True
  then show ?thesis
    using assms takeWhile_digits [OF show_nat_digits assms(3), of "nat (- n)"]
    by (simp add: strtol_def show_int_def clamp64_id)
next
  case False
  then show ?thesis
    using assms takeWhile_digits [OF show_nat_digits assms(3), of "nat n"] show_nat_digits [of "nat n"]
    by (simp add: strtol_def show_int_def clamp64_id dropWhile_isspace_digits read_sign_digits)
qed

lemma atoll_show_int: "- (2 ^ 63) \<le> n \<Longrightarrow> n < 2 ^ 63 \<Longrightarrow> atoll (show_int n) = n"
  using strtol_show_int [of n "[]"] by (simp add: atoll_def)

lemma atoi_range: "- (2 ^ 31) \<le> atoi s \<and> atoi s < 2 ^ 31"
  by (simp add: atoi_def)

lemma atoi_show_int: "- (2 ^ 31) \<le> n \<Longrightarrow> n < 2 ^ 31 \<Longrightarrow> atoi (show_int n) = n"
  by (simp add: atoi_def atoll_show_int)

section \<open>Printing doubles\<close>

text \<open>
  \<open>%.kf\<close>: the exact binary value rounded to \<open>k\<close> decimals, ties to even. A NaN prints
  without its sign.
\<close>

definition fmt_fixed :: "nat \<Rightarrow> rat \<Rightarrow> str" where
  "fmt_fixed k q = (let n = nat (rne (q * 10 ^ k)) in
     show_nat (n div 10 ^ k) @ (if k = 0 then [] else CHR ''.'' # pad0 k (n mod 10 ^ k)))"

definition fmt_f :: "nat \<Rightarrow> double \<Rightarrow> str" where
  "fmt_f k x = (case fval_of x of
     VNaN \<Rightarrow> ''nan'' | VPInf \<Rightarrow> ''inf'' | VNInf \<Rightarrow> ''-inf''
   | VFin q \<Rightarrow> if q < 0 then CHR ''-'' # fmt_fixed k (- q) else fmt_fixed k q)"

text \<open>Dropping trailing zeros, and then a trailing point, as \<open>fmt_px\<close> and \<open>distance_str\<close> do.\<close>

definition rstrip0 :: "str \<Rightarrow> str" where
  "rstrip0 s = rev (dropWhile (\<lambda>c. c = CHR ''0'') (rev s))"

definition strip_zeros :: "str \<Rightarrow> str" where
  "strip_zeros s = (if CHR ''.'' \<in> set s then
      let t = rstrip0 s in if t \<noteq> [] \<and> last t = CHR ''.'' then butlast t else t
    else s)"

text \<open>
  \<open>%g\<close> with its default precision of six significant digits: the scientific exponent of
  the rounded value chooses between the fixed and the exponential form, and trailing
  zeros of the fraction are dropped.
\<close>

definition ilog10 :: "rat \<Rightarrow> int" where
  "ilog10 x = (let (p, q) = quotient_of x;
                   e = int (length (show_nat (nat p))) - int (length (show_nat (nat q)))
               in if 10 powi e \<le> x then e else e - 1)"

definition fmt_g_pos :: "rat \<Rightarrow> str" where
  "fmt_g_pos q = (if q = 0 then ''0'' else
     let e0 = ilog10 q; m0 = rne (q * 10 powi (5 - e0));
         (e, m) = (if m0 = 1000000 then (e0 + 1, 100000) else (e0, m0)) in
     if - 4 \<le> e \<and> e < 6
     then strip_zeros (fmt_fixed (nat (5 - e)) (of_int m * 10 powi (e - 5)))
     else strip_zeros (fmt_fixed 5 (of_int m / 10 ^ 5)) @ CHR ''e'' #
          (if e < 0 then CHR ''-'' else CHR ''+'') # pad0 2 (nat \<bar>e\<bar>))"

definition fmt_g :: "double \<Rightarrow> str" where
  "fmt_g x = (case fval_of x of
     VNaN \<Rightarrow> ''nan'' | VPInf \<Rightarrow> ''inf'' | VNInf \<Rightarrow> ''-inf''
   | VFin q \<Rightarrow> if q < 0 then CHR ''-'' # fmt_g_pos (- q) else fmt_g_pos q)"

section \<open>Reading doubles\<close>

text \<open>The number after the sign: its exact value and the text that follows it.\<close>

fun read_exp :: "char list \<Rightarrow> str \<Rightarrow> int \<times> str" where
  "read_exp es [] = (0, [])"
| "read_exp es (c # s) = (if c \<in> set es then
     (let (neg, s1) = read_sign s; ds = takeWhile is_digit s1 in
      if ds = [] then (0, c # s)
      else ((if neg then - int (digits_val ds) else int (digits_val ds)), dropWhile is_digit s1))
     else (0, c # s))"

definition read_fraction :: "(char \<Rightarrow> bool) \<Rightarrow> str \<Rightarrow> str \<times> str \<times> str" where
  "read_fraction dig s = (let ip = takeWhile dig s; s1 = dropWhile dig s in
     case s1 of
       c # s2 \<Rightarrow> if c = CHR ''.'' \<and> (ip \<noteq> [] \<or> takeWhile dig s2 \<noteq> [])
                 then (ip, takeWhile dig s2, dropWhile dig s2) else (ip, [], s1)
     | [] \<Rightarrow> (ip, [], []))"

definition read_decimal :: "str \<Rightarrow> (rat \<times> str) option" where
  "read_decimal s = (let (ip, fp, s1) = read_fraction is_digit s in
     if ip = [] \<and> fp = [] then None
     else let (e, s2) = read_exp ''eE'' s1 in
       Some (of_nat (digits_val (ip @ fp)) * 10 powi (e - int (length fp)), s2))"

definition is_xdigit :: "char \<Rightarrow> bool" where
  "is_xdigit c \<longleftrightarrow> is_digit c \<or> (of_char (tolower c) :: nat) \<in> {97..102}"

definition xdigit_val :: "char \<Rightarrow> nat" where
  "xdigit_val c = (if is_digit c then digit_val c else of_char (tolower c) - 87)"

definition read_hex :: "str \<Rightarrow> (rat \<times> str) option" where
  "read_hex s = (let (ip, fp, s1) = read_fraction is_xdigit s in
     if ip = [] \<and> fp = [] then None
     else let (e, s2) = read_exp ''pP'' s1;
              m = foldl (\<lambda>n c. 16 * n + xdigit_val c) 0 (ip @ fp) in
       Some (of_nat m * 2 powi (e - 4 * int (length fp)), s2))"

datatype number = NumNaN | NumInf | Num rat

definition read_nan_tail :: "str \<Rightarrow> str" where
  "read_nan_tail s = (case s of
     c # t \<Rightarrow> (let r = dropWhile (\<lambda>c. is_xdigit c \<or> (of_char (tolower c) :: nat) \<in> {97..122} \<or> c = CHR ''_'') t in
       if c = CHR ''('' \<and> r \<noteq> [] \<and> hd r = CHR '')'' then tl r else s)
   | [] \<Rightarrow> [])"

definition read_number :: "str \<Rightarrow> (number \<times> str) option" where
  "read_number s = (let l = map tolower s in
     if starts_with ''infinity'' l then Some (NumInf, drop 8 s)
     else if starts_with ''inf'' l then Some (NumInf, drop 3 s)
     else if starts_with ''nan'' l then Some (NumNaN, read_nan_tail (drop 3 s))
     else if starts_with ''0x'' l \<and> read_hex (drop 2 s) \<noteq> None
       then map_option (\<lambda>(q, r). (Num q, r)) (read_hex (drop 2 s))
     else map_option (\<lambda>(q, r). (Num q, r)) (read_decimal s))"

lift_definition d_nan :: double is VNaN by (simp add: fval_ok_def)
lift_definition d_inf :: double is VPInf by (simp add: fval_ok_def)

definition number_double :: "number \<Rightarrow> double" where
  "number_double n = (case n of NumNaN \<Rightarrow> d_nan | NumInf \<Rightarrow> d_inf | Num q \<Rightarrow> lit q)"

text \<open>\<open>ERANGE\<close>: overflow to infinity, or a tiny result that is not exact.\<close>

definition erange :: "number \<Rightarrow> bool" where
  "erange n = (case n of Num q \<Rightarrow>
       huge \<le> \<bar>fl64 q\<bar> \<or> (\<bar>fl64 q\<bar> < 2 powi (-1022) \<and> fl64 q \<noteq> q)
     | _ \<Rightarrow> False)"

definition strtod :: "str \<Rightarrow> (double \<times> bool \<times> str) option" where
  "strtod s = (let (neg, s1) = read_sign (dropWhile isspace s) in
     case read_number s1 of None \<Rightarrow> None
     | Some (n, r) \<Rightarrow> Some (if neg then - number_double n else number_double n, erange n, r))"

text \<open>\<open>atof\<close>, and \<open>strtod\<close> where only the value is used: 0 when nothing is converted.\<close>

definition atof :: "str \<Rightarrow> double" where
  "atof s = (case strtod s of None \<Rightarrow> 0 | Some (x, _) \<Rightarrow> x)"

text \<open>\<open>std::stod\<close> throws instead.\<close>

datatype stod_error = InvalidArgument | OutOfRange

definition stod :: "str \<Rightarrow> stod_error + double" where
  "stod s = (case strtod s of None \<Rightarrow> Inl InvalidArgument
     | Some (x, e, _) \<Rightarrow> if e then Inl OutOfRange else Inr x)"

section \<open>Round trips\<close>

lemma lit_minus: "- lit r = lit (- r)"
proof -
  have "\<not> (huge \<le> fl64 r \<and> huge \<le> - fl64 r)" using huge_pos by linarith
  then show ?thesis by (intro double_eqI) (auto simp: fval_of_simps rnd64_def Let_def d64.odd)
qed

lemma tolower_digit [simp]: "is_digit c \<Longrightarrow> tolower c = c"
  by (simp add: is_digit_def tolower_def)

lemma digit_noteq: "is_digit c \<Longrightarrow> \<not> is_digit d \<Longrightarrow> c \<noteq> d"
  by auto

lemma read_number_decimal:
  assumes "ip \<noteq> []" "\<forall>c\<in>set ip. is_digit c" "s = [] \<or> hd s = CHR ''.'' \<or> hd s = CHR '',''"
  shows "read_number (ip @ s) = map_option (\<lambda>(q, r). (Num q, r)) (read_decimal (ip @ s))"
proof -
  obtain c cs where ip: "ip = c # cs" using assms(1) by (cases ip) auto
  have c: "is_digit c" "c \<noteq> CHR ''i''" "c \<noteq> CHR ''n''" using assms(2) ip digit_noteq by auto
  have x: "\<not> starts_with ''x'' (map tolower (cs @ s))"
  proof (cases "cs @ s")
    case (Cons d ds)
    then have "is_digit d \<or> d = CHR ''.'' \<or> d = CHR '',''" using assms(2,3) ip by (cases cs) auto
    moreover have "tolower CHR ''.'' = CHR ''.''" "tolower CHR '','' = CHR '',''"
      by (simp_all add: tolower_def)
    ultimately have "tolower d \<noteq> CHR ''x''" using digit_noteq [of d "CHR ''x''"] by auto
    then show ?thesis using Cons by simp
  qed simp
  show ?thesis using c x by (simp add: read_number_def ip)
qed

lemma read_fraction_fixed:
  assumes "ip \<noteq> []" "\<forall>c\<in>set ip. is_digit c" "\<forall>c\<in>set fp. is_digit c" "s = [] \<or> \<not> is_digit (hd s)"
  shows "read_fraction is_digit (ip @ CHR ''.'' # fp @ s) = (ip, fp, s)"
  using assms takeWhile_digits [OF assms(2), of "CHR ''.'' # fp @ s"] takeWhile_digits [OF assms(3,4)]
  by (simp add: read_fraction_def)

lemma rne_nonneg: "0 \<le> y \<Longrightarrow> 0 \<le> rne y"
  using rne_ge [of 0 y] by simp

lemma read_decimal_fixed:
  assumes k: "0 < k" and q: "0 \<le> q"
    and s: "s = [] \<or> (\<not> is_digit (hd s) \<and> hd s \<notin> set ''eE'')"
  shows "read_decimal (fmt_fixed k q @ s) = Some (of_int (rne (q * 10 ^ k)) / 10 ^ k, s)"
proof -
  define n where "n = nat (rne (q * 10 ^ k))"
  have n: "rat_of_nat n = of_int (rne (q * 10 ^ k))" using rne_nonneg [of "q * 10 ^ k"] q by (simp add: n_def)
  have len: "length (pad0 k (n mod 10 ^ k)) = k" using k by (intro length_pad0) simp_all
  have "n div 10 ^ k * 10 ^ k + n mod 10 ^ k = n" by (rule div_mult_mod_eq)
  then have digits: "rat_of_nat (n div 10 ^ k) * 10 ^ k + rat_of_nat (n mod 10 ^ k) = rat_of_nat n"
    by (metis of_nat_add of_nat_mult of_nat_numeral of_nat_power)
  have e: "read_exp ''eE'' s = (0, s)" using s by (cases s) auto
  have "read_fraction is_digit (fmt_fixed k q @ s) = (show_nat (n div 10 ^ k), pad0 k (n mod 10 ^ k), s)"
    using k s by (simp add: fmt_fixed_def Let_def n_def [symmetric])
      (rule read_fraction_fixed, use show_nat_digits pad0_digits in auto)
  then have "read_decimal (fmt_fixed k q @ s) = Some (of_nat n * 10 powi (- int k), s)"
    by (simp add: read_decimal_def e digits_val_append len digits)
  also have "of_nat n * 10 powi (- int k) = of_int (rne (q * 10 ^ k)) / (10 ^ k :: rat)"
    by (simp add: n power_int_minus divide_inverse)
  finally show ?thesis .
qed

lemma fmt_fixed_shape:
  assumes "0 < k"
  obtains ip fp where "fmt_fixed k q = ip @ CHR ''.'' # fp" "ip \<noteq> []"
    "\<forall>c\<in>set ip. is_digit c" "\<forall>c\<in>set fp. is_digit c"
proof (rule that)
  show "fmt_fixed k q = show_nat (nat (rne (q * 10 ^ k)) div 10 ^ k) @ CHR ''.'' #
      pad0 k (nat (rne (q * 10 ^ k)) mod 10 ^ k)" using assms by (simp add: fmt_fixed_def Let_def)
qed (simp_all add: show_nat_digits pad0_digits)

text \<open>
  A finite double printed with \<open>k > 0\<close> decimals is read back as the double nearest to its
  value rounded to \<open>k\<close> decimals, and reading stops where the number ends.
\<close>

definition decimals :: "nat \<Rightarrow> double \<Rightarrow> double" where
  "decimals k x = lit (of_int (rne (val x * 10 ^ k)) / 10 ^ k)"

lemma strtod_fmt_f:
  assumes k: "0 < k" and fin: "isfinite x" and s: "s = [] \<or> hd s = CHR '',''"
  shows "\<exists>e. strtod (fmt_f k x @ s) = Some (decimals k x, e, s)"
proof -
  define q where "q = \<bar>val x\<bar>"
  have s': "s = [] \<or> (\<not> is_digit (hd s) \<and> hd s \<notin> set ''eE'')" using s by auto
  obtain ip fp where f: "fmt_fixed k q = ip @ CHR ''.'' # fp" "ip \<noteq> []" "\<forall>c\<in>set ip. is_digit c"
    "\<forall>c\<in>set fp. is_digit c" using fmt_fixed_shape [OF k, of q] by blast
  have num: "read_number (fmt_fixed k q @ s) = Some (Num (of_int (rne (q * 10 ^ k)) / 10 ^ k), s)"
  proof -
    have "0 \<le> q" by (simp add: q_def)
    from read_decimal_fixed [OF k this s'] show ?thesis
      using read_number_decimal [OF f(2,3), of "CHR ''.'' # fp @ s"] by (simp add: f(1))
  qed
  have sp: "dropWhile isspace (fmt_fixed k q @ s) = fmt_fixed k q @ s"
    "read_sign (fmt_fixed k q @ s) = (False, fmt_fixed k q @ s)"
    using dropWhile_isspace_digits [OF f(2,3)] read_sign_digits [OF f(2,3)] by (simp_all add: f(1))
  have v: "fval_of x = VFin (val x)" using fin by (simp add: isfinite_fval_of)
  show ?thesis
  proof (cases "val x < 0")
    case True
    then have q: "q = - val x" by (simp add: q_def)
    have "rne (q * 10 ^ k) = - rne (val x * 10 ^ k)" by (simp add: q flip: rne_minus)
    then have "- lit (of_int (rne (q * 10 ^ k)) / 10 ^ k) = decimals k x"
      by (simp add: decimals_def lit_minus)
    then show ?thesis using True num
      by (simp add: fmt_f_def v q [symmetric] strtod_def number_double_def)
  next
    case False
    then have "q = val x" by (simp add: q_def)
    then show ?thesis using False num sp by (simp add: fmt_f_def v strtod_def number_double_def decimals_def)
  qed
qed

lemma atof_fmt_f: "0 < k \<Longrightarrow> isfinite x \<Longrightarrow> atof (fmt_f k x) = decimals k x"
  using strtod_fmt_f [of k x "[]"] by (auto simp: atof_def)

text \<open>The printed decimal is within half a unit of the last place printed.\<close>

lemma decimals_close: "\<bar>of_int (rne (val x * 10 ^ k)) / 10 ^ k - val x\<bar> \<le> 1 / (2 * 10 ^ k)"
proof -
  have "of_int (rne (val x * 10 ^ k)) / 10 ^ k - val x = (of_int (rne (val x * 10 ^ k)) - val x * 10 ^ k) / 10 ^ k"
    by (simp add: diff_divide_distrib)
  then show ?thesis using rne_error [of "val x * 10 ^ k"]
    by (simp add: abs_divide pos_divide_le_eq)
qed

text \<open>A printed number contains neither of the separators of the wire formats.\<close>

definition plain :: "char \<Rightarrow> bool" where
  "plain c \<longleftrightarrow> is_digit c \<or> c \<in> set ''.-aeinf''"

lemma plain_not_separator: "plain c \<Longrightarrow> c \<noteq> CHR '','' \<and> c \<noteq> CHR 0x01 \<and> c \<noteq> CHR ''='' \<and> c \<noteq> CHR 0x0A"
  by (auto simp: plain_def is_digit_def)

lemma show_nat_plain: "\<forall>c\<in>set (show_nat n). plain c"
  using show_nat_digits by (auto simp: plain_def)

lemma fmt_fixed_plain: "\<forall>c\<in>set (fmt_fixed k q). plain c"
  using show_nat_plain pad0_digits by (auto simp: fmt_fixed_def Let_def plain_def)

lemma fmt_f_plain: "\<forall>c\<in>set (fmt_f k x). plain c"
  using fmt_fixed_plain by (auto simp: fmt_f_def plain_def split: fval.splits)

lemma show_int_plain: "\<forall>c\<in>set (show_int n). plain c"
  using show_nat_plain by (auto simp: show_int_def plain_def)

end
