(* ===== verification/MarketData.thy ===== *)
theory MarketData
  imports CText "HOL-Library.Signed_Division"
begin

text \<open>
  The data that flows through the system (\<open>include/llm/tick.h\<close>: \<open>Venue\<close>, \<open>Tick\<close>,
  \<open>BrokerQuote\<close>) and the runtime configuration (\<open>include/llm/config.h\<close>, \<open>src/config.cpp\<close>).
  The fields of \<open>Config\<close> are grouped in one record per section comment of the header.
\<close>

section \<open>Ticks and quotes\<close>

datatype venue = Unknown | Binance | Deribit | Bybit | Broker

fun venue_tag :: "venue \<Rightarrow> nat" where
  "venue_tag Unknown = 0"
| "venue_tag Binance = 1"
| "venue_tag Deribit = 2"
| "venue_tag Bybit = 3"
| "venue_tag Broker = 4"

lemma venue_tag_inj: "venue_tag u = venue_tag v \<longleftrightarrow> u = v"
  by (cases u; cases v) auto

text \<open>An \<open>enum class\<close> is ordered by its values.\<close>

instantiation venue :: linorder
begin

definition less_eq_venue :: "venue \<Rightarrow> venue \<Rightarrow> bool" where
  "u \<le> v \<longleftrightarrow> venue_tag u \<le> venue_tag v"

definition less_venue :: "venue \<Rightarrow> venue \<Rightarrow> bool" where
  "u < v \<longleftrightarrow> venue_tag u < venue_tag v"

instance
  by standard (auto simp: less_eq_venue_def less_venue_def venue_tag_inj)

end

record tick =
  ts_ms :: int64
  ts_ns :: int64
  bid :: double
  ask :: double
  last_px :: double
  venue :: venue
  seq :: nat
  valid :: bool

definition mid :: "tick \<Rightarrow> double" where
  "mid t = (if 0 < bid t \<and> 0 < ask t then (bid t + ask t) * lit 0.5 else last_px t)"

definition tick0 :: tick where
  "tick0 = \<lparr> ts_ms = 0, ts_ns = 0, bid = 0, ask = 0, last_px = 0, venue = Unknown, seq = 0, valid = False \<rparr>"

record broker_quote =
  q_ts_ms :: int64
  q_bid :: double
  q_ask :: double
  q_spread :: double
  q_latency_us :: int64
  q_valid :: bool
  q_session :: nat

definition quote0 :: broker_quote where
  "quote0 = \<lparr> q_ts_ms = 0, q_bid = 0, q_ask = 0, q_spread = 0, q_latency_us = 0, q_valid = False, q_session = 0 \<rparr>"

definition quote_is_valid :: "broker_quote \<Rightarrow> bool" where
  "quote_is_valid q \<longleftrightarrow> q_valid q \<and> 0 < q_bid q \<and> 0 < q_ask q"

section \<open>Configuration\<close>

definition kMaxTickAgeMs :: int64 where
  "kMaxTickAgeMs = 50"

record feeds_cfg =
  fast_feed :: str
  binance_symbol :: str
  binance_host :: str
  binance_port :: str
  binance_path :: str
  deribit_symbol :: str
  deribit_ws :: str
  bybit_symbol :: str
  bybit_host :: str
  bybit_port :: str
  bybit_path :: str
  bybit_channel :: str

record weighting_cfg =
  use_daylight_savings :: bool
  us_open_hour_utc :: int
  us_close_hour_utc :: int
  deribit_weight_asia :: double
  binance_weight_asia :: double
  deribit_weight_us :: double
  binance_weight_us :: double

record strategy_cfg =
  threshold_pips :: double
  latency_buffer_pips :: double
  min_profit_margin_pips :: double
  min_lot_pips :: double
  max_open_lots :: int
  max_daily_loss :: double
  max_orders_per_interval :: int
  interval_seconds :: int
  round_four_decimals :: bool
  max_trade_per_interval :: double

record link_cfg =
  ws_ping_interval_s :: int
  ws_reconnect_base_s :: int
  ws_reconnect_max_s :: int
  broker_zmq_bind :: str
  broker_topic :: str
  zmq_pub_bind :: str

record fix_cfg =
  fix_host :: str
  fix_port :: str
  fix_sender_comp_id :: str
  fix_target_comp_id :: str
  fix_password :: str
  fix_account_id :: str
  fix_heartbeat_s :: int64
  fix_enabled :: bool

record oanda_cfg =
  oanda_token :: str
  oanda_account_id :: str
  oanda_host :: str
  oanda_instrument :: str
  oanda_enabled :: bool

record ctrader_cfg =
  ctrader_client_id :: str
  ctrader_client_secret :: str
  ctrader_account_id :: str
  ctrader_access_token :: str
  ctrader_host :: str
  ctrader_port :: str
  ctrader_symbol :: str
  ctrader_enabled :: bool

record run_cfg =
  dry_run :: bool
  dry_run_symbol :: str
  trade_amount :: double
  mmap_log_enabled :: bool
  mmap_prealloc_mb :: int
  mmap_prealloc_big_mb :: int
  log_dir :: str

record config =
  feeds :: feeds_cfg
  weighting :: weighting_cfg
  strat :: strategy_cfg
  link :: link_cfg
  fix_c :: fix_cfg
  oanda :: oanda_cfg
  ctrader :: ctrader_cfg
  run :: run_cfg

end
