(* ===== verification/Config.thy ===== *)
theory Config
  imports MarketData
begin

text \<open>
  The default configuration (\<open>include/llm/config.h\<close>) and its environment overrides
  (\<open>Config::from_env\<close> of \<open>src/config.cpp\<close>). The process environment is a parameter
  \<open>getenv\<close>; an unset and an empty variable are the same. Numbers are read with \<open>atoi\<close>,
  \<open>atol\<close> and \<open>atof\<close>, so that a malformed value is 0 and not an error.
\<close>

section \<open>Defaults\<close>

definition feeds_default :: feeds_cfg where
  "feeds_default = \<lparr> fast_feed = ''BINANCE'', binance_symbol = ''btcusdt'',
     binance_host = ''stream.binance.com'', binance_port = ''9443'', binance_path = '''',
     deribit_symbol = ''BTC'', deribit_ws = ''wss://www.deribit.com/ws/api/v2'',
     bybit_symbol = ''BTCUSDT'', bybit_host = ''stream.bybit.com'', bybit_port = ''443'',
     bybit_path = ''/v5/public/spot'', bybit_channel = ''orderbook.1'' \<rparr>"

definition weighting_default :: weighting_cfg where
  "weighting_default = \<lparr> use_daylight_savings = True, us_open_hour_utc = 13, us_close_hour_utc = 20,
     deribit_weight_asia = lit 0.40, binance_weight_asia = lit 0.60,
     deribit_weight_us = lit 0.60, binance_weight_us = lit 0.40 \<rparr>"

definition strategy_default :: strategy_cfg where
  "strategy_default = \<lparr> threshold_pips = lit 0.5, latency_buffer_pips = lit 0.2,
     min_profit_margin_pips = lit 0.3, min_lot_pips = lit 0.0, max_open_lots = 1,
     max_daily_loss = lit 500.0, max_orders_per_interval = 5, interval_seconds = 60,
     round_four_decimals = True, max_trade_per_interval = lit 1.0 \<rparr>"

definition link_default :: link_cfg where
  "link_default = \<lparr> ws_ping_interval_s = 20, ws_reconnect_base_s = 2, ws_reconnect_max_s = 60,
     broker_zmq_bind = ''tcp://127.0.0.1:5556'', broker_topic = ''quote'',
     zmq_pub_bind = ''ipc:///tmp/latency_arb.ipc'' \<rparr>"

definition fix_default :: fix_cfg where
  "fix_default = \<lparr> fix_host = ''demo-uk-eqx-01.p.c-trader.com'', fix_port = ''5211'',
     fix_sender_comp_id = ''demo.icmarkets.10092442'', fix_target_comp_id = ''cServer'',
     fix_password = '''', fix_account_id = '''', fix_heartbeat_s = 30, fix_enabled = False \<rparr>"

definition oanda_default :: oanda_cfg where
  "oanda_default = \<lparr> oanda_token = '''', oanda_account_id = '''',
     oanda_host = ''api-fxpractice.oanda.com'', oanda_instrument = ''XAU_USD'', oanda_enabled = False \<rparr>"

definition ctrader_default :: ctrader_cfg where
  "ctrader_default = \<lparr> ctrader_client_id = '''', ctrader_client_secret = '''',
     ctrader_account_id = '''', ctrader_access_token = '''', ctrader_host = ''openapi.ctrader.com'',
     ctrader_port = ''5030'', ctrader_symbol = ''XAU/USD'', ctrader_enabled = False \<rparr>"

definition run_default :: run_cfg where
  "run_default = \<lparr> dry_run = True, dry_run_symbol = ''BTC/USD'', trade_amount = lit 0.001,
     mmap_log_enabled = False, mmap_prealloc_mb = 1, mmap_prealloc_big_mb = 10,
     log_dir = ''/var/log/lead_lag'' \<rparr>"

definition config_default :: config where
  "config_default = \<lparr> feeds = feeds_default, weighting = weighting_default, strat = strategy_default,
     link = link_default, fix_c = fix_default, oanda = oanda_default, ctrader = ctrader_default,
     run = run_default \<rparr>"

section \<open>Environment overrides\<close>

definition binance_bookticker_path :: "str \<Rightarrow> str" where
  "binance_bookticker_path symbol = ''/ws/'' @ symbol @ ''@bookTicker''"

type_synonym environment = "str \<Rightarrow> str option"

definition env :: "environment \<Rightarrow> str \<Rightarrow> str option" where
  "env getenv name = (case getenv name of Some v \<Rightarrow> if v = [] then None else Some v | None \<Rightarrow> None)"

definition senv :: "environment \<Rightarrow> str \<Rightarrow> str \<Rightarrow> str" where
  "senv getenv name def = (case env getenv name of Some v \<Rightarrow> v | None \<Rightarrow> def)"

definition denv :: "environment \<Rightarrow> str \<Rightarrow> double \<Rightarrow> double" where
  "denv getenv name def = (case env getenv name of Some v \<Rightarrow> atof v | None \<Rightarrow> def)"

definition ienv :: "environment \<Rightarrow> str \<Rightarrow> int \<Rightarrow> int" where
  "ienv getenv name def = (case env getenv name of Some v \<Rightarrow> atoi v | None \<Rightarrow> def)"

definition benv :: "environment \<Rightarrow> str \<Rightarrow> bool \<Rightarrow> bool" where
  "benv getenv name def = (case env getenv name of
     Some v \<Rightarrow> v = ''1'' \<or> v = ''true'' \<or> v = ''TRUE'' | None \<Rightarrow> def)"

definition lenv :: "environment \<Rightarrow> str \<Rightarrow> int64 \<Rightarrow> int64" where
  "lenv getenv name def = (case env getenv name of Some v \<Rightarrow> atol v | None \<Rightarrow> def)"

definition feeds_from_env :: "environment \<Rightarrow> feeds_cfg \<Rightarrow> feeds_cfg" where
  "feeds_from_env getenv c =
    (let c1 = c\<lparr> fast_feed := senv getenv ''FAST_FEED'' (fast_feed c),
     binance_symbol := senv getenv ''BINANCE_SYMBOL'' (binance_symbol c),
     binance_host := senv getenv ''BINANCE_HOST'' (binance_host c),
     binance_port := senv getenv ''BINANCE_PORT'' (binance_port c),
     deribit_symbol := senv getenv ''DERIBIT_SYMBOL'' (deribit_symbol c),
     deribit_ws := senv getenv ''DERIBIT_WS'' (deribit_ws c),
     bybit_symbol := senv getenv ''BYBIT_SYMBOL'' (bybit_symbol c),
     bybit_host := senv getenv ''BYBIT_HOST'' (bybit_host c),
     bybit_port := senv getenv ''BYBIT_PORT'' (bybit_port c),
     bybit_path := senv getenv ''BYBIT_PATH'' (bybit_path c),
     bybit_channel := senv getenv ''BYBIT_CHANNEL'' (bybit_channel c) \<rparr>
     in c1\<lparr> binance_path := binance_bookticker_path (binance_symbol c1) \<rparr>)"

definition weighting_from_env :: "environment \<Rightarrow> weighting_cfg \<Rightarrow> weighting_cfg" where
  "weighting_from_env getenv c =
    c\<lparr> use_daylight_savings := benv getenv ''USE_DST'' (use_daylight_savings c),
     us_open_hour_utc := ienv getenv ''US_OPEN_HOUR_UTC'' (us_open_hour_utc c),
     us_close_hour_utc := ienv getenv ''US_CLOSE_HOUR_UTC'' (us_close_hour_utc c),
     deribit_weight_asia := denv getenv ''DERIBIT_WEIGHT_ASIA'' (deribit_weight_asia c),
     binance_weight_asia := denv getenv ''BINANCE_WEIGHT_ASIA'' (binance_weight_asia c),
     deribit_weight_us := denv getenv ''DERIBIT_WEIGHT_US'' (deribit_weight_us c),
     binance_weight_us := denv getenv ''BINANCE_WEIGHT_US'' (binance_weight_us c) \<rparr>"

definition strategy_from_env :: "environment \<Rightarrow> strategy_cfg \<Rightarrow> strategy_cfg" where
  "strategy_from_env getenv c =
    c\<lparr> threshold_pips := denv getenv ''THRESHOLD_PIPS'' (threshold_pips c),
     latency_buffer_pips := denv getenv ''LATENCY_BUFFER_PIPS'' (latency_buffer_pips c),
     min_profit_margin_pips := denv getenv ''MIN_PROFIT_MARGIN_PIPS'' (min_profit_margin_pips c),
     min_lot_pips := denv getenv ''MIN_LOT_PIPS'' (min_lot_pips c),
     max_open_lots := ienv getenv ''MAX_OPEN_LOTS'' (max_open_lots c),
     max_daily_loss := denv getenv ''MAX_DAILY_LOSS'' (max_daily_loss c),
     max_orders_per_interval := ienv getenv ''MAX_ORDERS_PER_INTERVAL'' (max_orders_per_interval c),
     interval_seconds := ienv getenv ''INTERVAL_SECONDS'' (interval_seconds c),
     round_four_decimals := benv getenv ''FOUR_DECIMAL_ROUNDING'' (round_four_decimals c),
     max_trade_per_interval := denv getenv ''MAX_TRADE_PER_INTERVAL'' (max_trade_per_interval c) \<rparr>"

definition link_from_env :: "environment \<Rightarrow> link_cfg \<Rightarrow> link_cfg" where
  "link_from_env getenv c =
    c\<lparr> ws_ping_interval_s := ienv getenv ''WS_PING_INTERVAL_S'' (ws_ping_interval_s c),
     ws_reconnect_base_s := ienv getenv ''WS_RECONNECT_BASE_S'' (ws_reconnect_base_s c),
     ws_reconnect_max_s := ienv getenv ''WS_RECONNECT_MAX_S'' (ws_reconnect_max_s c),
     broker_zmq_bind := senv getenv ''BROKER_ZMQ_BIND'' (broker_zmq_bind c),
     broker_topic := senv getenv ''BROKER_TOPIC'' (broker_topic c),
     zmq_pub_bind := senv getenv ''ZMQ_PUB_BIND'' (zmq_pub_bind c) \<rparr>"

definition fix_from_env :: "environment \<Rightarrow> fix_cfg \<Rightarrow> fix_cfg" where
  "fix_from_env getenv c =
    c\<lparr> fix_host := senv getenv ''FIX_HOST'' (fix_host c),
     fix_port := senv getenv ''FIX_PORT'' (fix_port c),
     fix_sender_comp_id := senv getenv ''FIX_SENDER_COMP_ID'' (fix_sender_comp_id c),
     fix_target_comp_id := senv getenv ''FIX_TARGET_COMP_ID'' (fix_target_comp_id c),
     fix_password := senv getenv ''FIX_PASSWORD'' (fix_password c),
     fix_account_id := senv getenv ''FIX_ACCOUNT_ID'' (fix_account_id c),
     fix_heartbeat_s := lenv getenv ''FIX_HEARTBEAT_S'' (fix_heartbeat_s c),
     fix_enabled := benv getenv ''FIX_ENABLED'' (fix_enabled c) \<rparr>"

definition oanda_from_env :: "environment \<Rightarrow> oanda_cfg \<Rightarrow> oanda_cfg" where
  "oanda_from_env getenv c =
    c\<lparr> oanda_token := senv getenv ''OANDA_TOKEN'' (oanda_token c),
     oanda_account_id := senv getenv ''OANDA_ACCOUNT_ID'' (oanda_account_id c),
     oanda_host := senv getenv ''OANDA_HOST'' (oanda_host c),
     oanda_instrument := senv getenv ''OANDA_INSTRUMENT'' (oanda_instrument c),
     oanda_enabled := benv getenv ''OANDA_ENABLED'' (oanda_enabled c) \<rparr>"

definition ctrader_from_env :: "environment \<Rightarrow> ctrader_cfg \<Rightarrow> ctrader_cfg" where
  "ctrader_from_env getenv c =
    c\<lparr> ctrader_client_id := senv getenv ''CTRADER_CLIENT_ID'' (ctrader_client_id c),
     ctrader_client_secret := senv getenv ''CTRADER_CLIENT_SECRET'' (ctrader_client_secret c),
     ctrader_account_id := senv getenv ''CTRADER_ACCOUNT_ID'' (ctrader_account_id c),
     ctrader_access_token := senv getenv ''CTRADER_ACCESS_TOKEN'' (ctrader_access_token c),
     ctrader_host := senv getenv ''CTRADER_HOST'' (ctrader_host c),
     ctrader_port := senv getenv ''CTRADER_PORT'' (ctrader_port c),
     ctrader_symbol := senv getenv ''CTRADER_SYMBOL'' (ctrader_symbol c),
     ctrader_enabled := benv getenv ''CTRADER_ENABLED'' (ctrader_enabled c) \<rparr>"

definition run_from_env :: "environment \<Rightarrow> run_cfg \<Rightarrow> run_cfg" where
  "run_from_env getenv c =
    c\<lparr> dry_run := benv getenv ''DRY_RUN'' (dry_run c),
     dry_run_symbol := senv getenv ''DRY_RUN_SYMBOL'' (dry_run_symbol c),
     trade_amount := denv getenv ''TRADE_AMOUNT'' (trade_amount c),
     mmap_log_enabled := benv getenv ''MMAP_LOG_DIR'' (mmap_log_enabled c),
     mmap_prealloc_mb := ienv getenv ''MMAP_PREALLOC_MB'' (mmap_prealloc_mb c),
     mmap_prealloc_big_mb := ienv getenv ''MMAP_PREALLOC_BIG_MB'' (mmap_prealloc_big_mb c),
     log_dir := senv getenv ''LOG_DIR'' (log_dir c) \<rparr>"

definition from_env :: "environment \<Rightarrow> config" where
  "from_env getenv = (let c = config_default in
     c\<lparr> feeds := feeds_from_env getenv (feeds c),
        weighting := weighting_from_env getenv (weighting c),
        strat := strategy_from_env getenv (strat c),
        link := link_from_env getenv (link c),
        fix_c := fix_from_env getenv (fix_c c),
        oanda := oanda_from_env getenv (oanda c),
        ctrader := ctrader_from_env getenv (ctrader c),
        run := run_from_env getenv (run c) \<rparr>)"

section \<open>Properties of the readers\<close>

lemmas env_defs = senv_def denv_def ienv_def benv_def lenv_def

lemmas config_defaults = config_default_def feeds_default_def weighting_default_def
  strategy_default_def link_default_def fix_default_def oanda_default_def ctrader_default_def
  run_default_def

lemmas from_env_defs = from_env_def feeds_from_env_def weighting_from_env_def
  strategy_from_env_def link_from_env_def fix_from_env_def oanda_from_env_def
  ctrader_from_env_def run_from_env_def

lemma env_unset: "getenv n = None \<or> getenv n = Some '''' \<Longrightarrow> env getenv n = None"
  by (auto simp: env_def)

text \<open>A text that holds no number is read as 0, whatever the default was.\<close>

lemma strtol_garbage: "s \<noteq> [] \<Longrightarrow> \<not> isspace (hd s) \<Longrightarrow> \<not> is_digit (hd s) \<Longrightarrow> hd s \<notin> set ''+-'' \<Longrightarrow> strtol s = None"
  by (cases s) (auto simp: strtol_def)

lemma ienv_garbage:
  assumes "getenv n = Some s" "s \<noteq> []" "\<not> isspace (hd s)" "\<not> is_digit (hd s)" "hd s \<notin> set ''+-''"
  shows "ienv getenv n d = 0"
  using strtol_garbage [OF assms(2-5)] assms(1,2) by (simp add: ienv_def env_def atoi_def atoll_def)

text \<open>What \<open>std::to_string\<close> writes, \<open>ienv\<close> reads.\<close>

lemma ienv_show_int:
  "getenv n = Some (show_int i) \<Longrightarrow> - (2 ^ 31) \<le> i \<Longrightarrow> i < 2 ^ 31 \<Longrightarrow> ienv getenv n d = i"
proof -
  have "show_int i \<noteq> []" by (simp add: show_int_def)
  then show "getenv n = Some (show_int i) \<Longrightarrow> - (2 ^ 31) \<le> i \<Longrightarrow> i < 2 ^ 31 \<Longrightarrow> ienv getenv n d = i"
    by (simp add: ienv_def env_def atoi_show_int)
qed

end
