(* ===== verification/Telemetry.thy ===== *)
theory Telemetry
  imports MarketData Ring "HOL-Library.Multiset"
begin

text \<open>
  \<open>include/llm/telemetry.h\<close> and \<open>src/telemetry.cpp\<close>: the asynchronous log (a mutex-guarded
  queue drained by a writer thread into an \<open>mmap\<close>ed file) and the benchmark ring. The
  operating system's answers (the formatted local time, whether \<open>open\<close>, \<open>ftruncate\<close> and
  \<open>mmap\<close> succeed, the clocks) are arguments. A mapped region is modelled by the bytes
  written so far and its length.
\<close>

datatype stage = TickRx | Aggregate | StrategyDone | SignalTx | ExecSend

text \<open>What the hot path reports: a stamp or a line.\<close>

datatype tel_event = BenchMark stage | LogLine str | LogWarn str | LogError str

section \<open>The asynchronous log\<close>

record map_state =
  map_written :: str
  map_len :: size

record telemetry =
  log_queue :: "str list"
  running :: bool
  enabled :: bool
  mmap_on :: bool
  tel_dir :: str
  map_st :: "map_state option"
  log_file :: "str option"

definition telemetry_init :: telemetry where
  "telemetry_init = \<lparr> log_queue = [], running = False, enabled = False, mmap_on = False,
     tel_dir = ''.'', map_st = None, log_file = None \<rparr>"

definition tel_configure :: "str \<Rightarrow> bool \<Rightarrow> telemetry \<Rightarrow> telemetry" where
  "tel_configure dir mm t = t\<lparr> tel_dir := (if dir = [] then ''.'' else dir), mmap_on := mm, enabled := True \<rparr>"

definition tel_start :: "telemetry \<Rightarrow> telemetry" where
  "tel_start t = (if running t then t else t\<lparr> running := True \<rparr>)"

definition tel_stop :: "telemetry \<Rightarrow> telemetry" where
  "tel_stop t = t\<lparr> running := False \<rparr>"

text \<open>\<open>push\<close>: the local time to the second, the milliseconds, and the line.\<close>

definition tel_push :: "str \<Rightarrow> int64 \<Rightarrow> str \<Rightarrow> telemetry \<Rightarrow> telemetry" where
  "tel_push local_time now_ms line t =
     t\<lparr> log_queue := log_queue t @
        [''['' @ local_time @ ''.'' @ pad0 3 (nat (now_ms mod 1000)) @ ''] '' @ line] \<rparr>"

fun tel_event_line :: "tel_event \<Rightarrow> str option" where
  "tel_event_line (BenchMark _) = None"
| "tel_event_line (LogLine l) = Some l"
| "tel_event_line (LogWarn l) = Some (''WARN  '' @ l)"
| "tel_event_line (LogError l) = Some (''ERROR '' @ l)"

definition grow_mmap :: "bool \<Rightarrow> int \<Rightarrow> telemetry \<Rightarrow> telemetry" where
  "grow_mmap os_ok mb t =
     (if \<not> mmap_on t then t
      else if map_st t \<noteq> None then t
      else if \<not> os_ok then t
      else t\<lparr> map_st := Some \<lparr> map_written = [], map_len = nat (if mb > 0 then mb else 1) * 1024 * 1024 \<rparr> \<rparr>)"

definition preallocate_mmap :: "bool \<Rightarrow> int \<Rightarrow> telemetry \<Rightarrow> telemetry" where
  "preallocate_mmap os_ok mb t = (if \<not> mmap_on t then t else grow_mmap os_ok mb t)"

definition write_line :: "str \<Rightarrow> telemetry \<Rightarrow> telemetry" where
  "write_line line t = (case (mmap_on t, map_st t) of
     (True, Some m) \<Rightarrow>
       if length (map_written m) + length line + 1 \<le> map_len m
       then t\<lparr> map_st := Some (m\<lparr> map_written := map_written m @ line @ [CHR 0x0A] \<rparr>) \<rparr>
       else t
   | _ \<Rightarrow> (case log_file t of
       Some f \<Rightarrow> t\<lparr> log_file := Some (f @ line @ [CHR 0x0A]) \<rparr>
     | None \<Rightarrow> t))"

text \<open>
  One turn of \<open>writer_loop\<close>: blocked (\<open>None\<close>) while running with an empty queue; the end of
  the loop (\<open>Inl\<close>, after which the region is unmapped) when stopped with an empty queue;
  otherwise the front line is written.
\<close>

definition writer_turn :: "telemetry \<Rightarrow> (telemetry + telemetry) option" where
  "writer_turn t = (case log_queue t of
     [] \<Rightarrow> if running t then None else Some (Inl (t\<lparr> map_st := None \<rparr>))
   | line # q \<Rightarrow> Some (Inr (write_line line (t\<lparr> log_queue := q \<rparr>))))"

text \<open>The drain at shutdown: \<open>stop ()\<close> joins the writer, which empties the queue first.\<close>

fun drain :: "str list \<Rightarrow> telemetry \<Rightarrow> telemetry" where
  "drain [] t = t\<lparr> log_queue := [] \<rparr>"
| "drain (line # q) t = drain q (write_line line (t\<lparr> log_queue := q \<rparr>))"

text \<open>\<open>main\<close> of \<open>src/main.cpp\<close>: configure, 1 MB, start, then the big region.\<close>

definition main_telemetry :: "bool \<Rightarrow> config \<Rightarrow> telemetry" where
  "main_telemetry os_ok cfg =
     preallocate_mmap os_ok (mmap_prealloc_big_mb (run cfg))
       (tel_start (preallocate_mmap os_ok (mmap_prealloc_mb (run cfg))
         (tel_configure (log_dir (run cfg)) (mmap_log_enabled (run cfg)) telemetry_init)))"

text \<open>Every operation the program has on the object.\<close>

datatype tel_op = OpConfigure str bool | OpStart | OpStop | OpPush str int64 str
  | OpPrealloc bool int | OpWrite | OpGrow bool

fun tel_apply :: "tel_op \<Rightarrow> telemetry \<Rightarrow> telemetry" where
  "tel_apply (OpConfigure d m) t = tel_configure d m t"
| "tel_apply OpStart t = tel_start t"
| "tel_apply OpStop t = tel_stop t"
| "tel_apply (OpPush lt ms l) t = tel_push lt ms l t"
| "tel_apply (OpPrealloc ok mb) t = preallocate_mmap ok mb t"
| "tel_apply (OpGrow ok) t = grow_mmap ok 0 t"
| "tel_apply OpWrite t = (case writer_turn t of None \<Rightarrow> t | Some (Inl t') \<Rightarrow> t' | Some (Inr t') \<Rightarrow> t')"

lemmas tel_defs = tel_configure_def tel_start_def tel_stop_def tel_push_def grow_mmap_def
  preallocate_mmap_def write_line_def writer_turn_def

lemma tel_apply_log_file: "log_file t = None \<Longrightarrow> log_file (tel_apply op t) = None"
  by (cases op) (auto simp: tel_defs split: list.splits option.splits bool.splits)

lemma tel_run_log_file: "log_file t = None \<Longrightarrow> log_file (fold tel_apply ops t) = None"
  by (induction ops arbitrary: t) (simp_all add: tel_apply_log_file)

lemma tel_apply_map_off:
  "\<lbrakk> map_st t = None; \<not> mmap_on t; \<forall>d m. op = OpConfigure d m \<longrightarrow> \<not> m \<rbrakk> \<Longrightarrow>
   map_st (tel_apply op t) = None \<and> \<not> mmap_on (tel_apply op t)"
  by (cases op) (auto simp: tel_defs split: list.splits option.splits bool.splits)

text \<open>The bytes in the region never exceed its length, whatever is logged.\<close>

definition map_ok :: "telemetry \<Rightarrow> bool" where
  "map_ok t \<longleftrightarrow> (case map_st t of None \<Rightarrow> True | Some m \<Rightarrow> length (map_written m) \<le> map_len m)"

lemma map_ok_init [inv_intros]: "map_ok telemetry_init"
  by (simp add: map_ok_def telemetry_init_def)

lemma map_ok_apply [inv_intros]: "map_ok t \<Longrightarrow> map_ok (tel_apply op t)"
  by (cases op) (auto simp: map_ok_def tel_defs split: list.splits option.splits bool.splits)

interpretation tel_machine: machine tel_apply map_ok "\<lambda>_. True"
  by unfold_locales (rule map_ok_apply)

lemma map_ok_run: "map_ok t \<Longrightarrow> map_ok (fold tel_apply ops t)"
  by (rule tel_machine.run_inv) simp_all

text \<open>What the drain leaves in the region: the lines that fit, in order, each with its newline.\<close>

fun fitting :: "size \<Rightarrow> str list \<Rightarrow> str" where
  "fitting room [] = []"
| "fitting room (l # ls) = (if length l + 1 \<le> room then l @ CHR 0x0A # fitting (room - (length l + 1)) ls
     else fitting room ls)"

lemma drain_map:
  assumes "mmap_on t" "map_st t = Some m" "length (map_written m) \<le> map_len m"
  shows "map_st (drain q t) =
    Some (m\<lparr> map_written := map_written m @ fitting (map_len m - length (map_written m)) q \<rparr>)"
  using assms
proof (induction q arbitrary: t m)
  case (Cons l q)
  show ?case
  proof (cases "length (map_written m) + length l + 1 \<le> map_len m")
    case True
    let ?m = "m\<lparr> map_written := map_written m @ l @ [CHR 0x0A] \<rparr>"
    have "map_st (drain q (write_line l (t\<lparr> log_queue := q \<rparr>))) =
        Some (?m\<lparr> map_written := map_written ?m @ fitting (map_len ?m - length (map_written ?m)) q \<rparr>)"
      using True Cons.prems by (intro Cons.IH) (simp_all add: write_line_def)
    then show ?thesis using True by (simp add: diff_diff_eq2 le_diff_conv2 add.commute)
  next
    case False
    then show ?thesis using Cons.prems
        Cons.IH [of "write_line l (t\<lparr> log_queue := q \<rparr>)" m] by (simp add: write_line_def)
  qed
qed simp

section \<open>Without the mapped file nothing is stored\<close>

interpretation tel_unmapped: machine tel_apply "\<lambda>t. map_st t = None \<and> \<not> mmap_on t" "\<lambda>op. \<forall>d. op \<noteq> OpConfigure d True"
  by unfold_locales (rule tel_apply_map_off, auto)

lemma unmapped_stores_nothing:
  assumes "\<forall>d. OpConfigure d True \<notin> set ops"
  shows "log_file (fold tel_apply ops telemetry_init) = None \<and> map_st (fold tel_apply ops telemetry_init) = None"
  using tel_unmapped.run_inv [of telemetry_init ops] tel_run_log_file [of telemetry_init ops] assms
  by (auto simp: telemetry_init_def)

end
