(* ===== verification/Aggregator.thy ===== *)
theory Aggregator
  imports Config Telemetry Ring "HOL-Library.Monad_Syntax"
begin

text \<open>
  \<open>include/llm/aggregator.h\<close> and \<open>src/aggregator.cpp\<close>: the windows of recent ticks per venue
  and the weighted lead price. The capacity of the tick rings is \<open>2 ^ k\<close> (13 for
  \<open>TickRing\<close>); the local-time conversion of the C library is the argument \<open>localtime\<close>,
  which gives hour and minute. What is reported to the telemetry is returned in order.
\<close>

record aggregator =
  binance_win :: "tick list"
  deribit_win :: "tick list"
  last_log :: int64

definition aggregator_init :: aggregator where
  "aggregator_init = \<lparr> binance_win = [], deribit_win = [], last_log = 0 \<rparr>"

definition stale :: "int64 \<Rightarrow> tick \<Rightarrow> bool" where
  "stale now t \<longleftrightarrow> 0 < ts_ms t \<and> now - ts_ms t > kMaxTickAgeMs"

text \<open>The loop \<open>while (ring.pop (t))\<close>: it ends when the ring is found empty.\<close>

partial_function (option) ingest_loop ::
  "nat \<Rightarrow> int64 \<Rightarrow> tick ring \<Rightarrow> tick list \<Rightarrow> tel_event list \<Rightarrow> (tick ring \<times> tick list \<times> tel_event list) option" where
  "ingest_loop k now r win ev = (case pop k r of
     None \<Rightarrow> Some (r, win, ev)
   | Some (t, r') \<Rightarrow>
       if \<not> valid t then ingest_loop k now r' win ev
       else if stale now t then ingest_loop k now r' win (ev @ [BenchMark TickRx])
       else ingest_loop k now r' (win @ [t]) (ev @ [BenchMark TickRx]))"

declare ingest_loop.simps [code]

definition prune_old :: "int64 \<Rightarrow> tick list \<Rightarrow> tick list" where
  "prune_old now win = dropWhile (stale now) win"

definition ingest :: "nat \<Rightarrow> int64 \<Rightarrow> tick ring \<Rightarrow> tick list \<Rightarrow> (tick ring \<times> tick list \<times> tel_event list) option" where
  "ingest k now r win = do {
     (r', win', ev) \<leftarrow> ingest_loop k now r win [];
     Some (r', prune_old now win', ev) }"

definition latest_mid :: "tick list \<Rightarrow> double" where
  "latest_mid win = (if win = [] then 0 else mid (last win))"

definition round4 :: "double \<Rightarrow> double" where
  "round4 v = dround (v * lit 10000.0) / lit 10000.0"

definition in_us_hours :: "(int64 \<Rightarrow> int \<times> int) \<Rightarrow> config \<Rightarrow> int64 \<Rightarrow> bool" where
  "in_us_hours localtime cfg now_ms =
     (let (hour, minute) = localtime (now_ms sdiv 1000);
          us_open = us_open_hour_utc (weighting cfg);
          us_close = us_close_hour_utc (weighting cfg);
          now_min = hour * 60 + minute
      in us_open * 60 \<le> now_min \<and> now_min < us_close * 60)"

definition weights :: "config \<Rightarrow> bool \<Rightarrow> double \<times> double" where
  "weights cfg us =
     (let (w_deribit, w_binance) =
        (if us then (deribit_weight_us (weighting cfg), binance_weight_us (weighting cfg))
         else (deribit_weight_asia (weighting cfg), binance_weight_asia (weighting cfg)));
        s = w_deribit + w_binance
      in if 0 < s then (w_deribit / s, w_binance / s) else (w_deribit, w_binance))"

text \<open>The log line of \<open>update\<close>, as \<open>snprintf\<close> leaves it in a buffer of 200 bytes.\<close>

definition lead_line :: "double \<Rightarrow> double \<Rightarrow> double \<Rightarrow> bool \<Rightarrow> double \<Rightarrow> double \<Rightarrow> str" where
  "lead_line b d lead us wd wb = take 199
     (''\"lead\":{\"binance\":'' @ fmt_f 2 b @ '',\"deribit\":'' @ fmt_f 2 d @
      '',\"lead\":'' @ fmt_f 2 lead @ '',\"session\":\"'' @ (if us then ''us'' else ''asia'') @
      ''\",\"w_deribit\":'' @ fmt_f 2 wd @ '',\"w_binance\":'' @ fmt_f 2 wb @ ''}'')"

definition lead_of :: "(int64 \<Rightarrow> int \<times> int) \<Rightarrow> config \<Rightarrow> int64 \<Rightarrow> double \<Rightarrow> double \<Rightarrow> aggregator \<Rightarrow>
    double option \<times> aggregator \<times> tel_event list" where
  "lead_of localtime cfg now b d a =
     (if b \<le> 0 \<and> d \<le> 0 then (None, a, [])
      else if b \<le> 0 then (Some d, a, [])
      else if d \<le> 0 then (Some b, a, [])
      else
        let us = in_us_hours localtime cfg now;
            (wd, wb) = weights cfg us;
            lead0 = d * wd + b * wb;
            lead = (if round_four_decimals (strat cfg) then round4 lead0 else lead0);
            (a', logged) = (if now - last_log a > 5000
               then (a\<lparr> last_log := now \<rparr>, [LogLine (lead_line b d lead us wd wb)]) else (a, []))
        in (Some lead, a', logged @ [BenchMark Aggregate]))"

definition agg_update :: "nat \<Rightarrow> (int64 \<Rightarrow> int \<times> int) \<Rightarrow> config \<Rightarrow> tick ring \<Rightarrow> tick ring \<Rightarrow> int64 \<Rightarrow> aggregator \<Rightarrow>
    (double option \<times> tick ring \<times> tick ring \<times> aggregator \<times> tel_event list) option" where
  "agg_update k localtime cfg binance deribit now a = do {
     (binance', bw, ev1) \<leftarrow> ingest k now binance (binance_win a);
     (deribit', dw, ev2) \<leftarrow> ingest k now deribit (deribit_win a);
     let (lead, a', ev3) = lead_of localtime cfg now (latest_mid bw) (latest_mid dw)
                             (a\<lparr> binance_win := bw, deribit_win := dw \<rparr>);
     Some (lead, binance', deribit', a', ev1 @ ev2 @ ev3) }"

section \<open>The drain ends, and keeps the fresh ticks in order\<close>

lemma ingest_loop_items:
  assumes "ring_ok k r"
  shows "\<exists>r'. ingest_loop k now r win ev =
      Some (r', win @ filter (\<lambda>t. valid t \<and> \<not> stale now t) (ring_items k r),
            ev @ replicate (length (filter valid (ring_items k r))) (BenchMark TickRx)) \<and>
    ring_ok k r' \<and> ring_items k r' = []"
  using assms
proof (induction "ring_count k r" arbitrary: r win ev)
  case 0
  then have "ring_items k r = []" by (metis length_0_conv length_ring_items)
  then show ?case using 0 pop_None [of k r] by (subst ingest_loop.simps) simp
next
  case (Suc n)
  then have "ring_items k r \<noteq> []" by (metis Zero_not_Suc length_ring_items list.size(3))
  then obtain t r1 where pop: "pop k r = Some (t, r1)" using pop_None [OF Suc.prems] by fastforce
  have r1: "ring_ok k r1" "ring_items k r = t # ring_items k r1" "n = ring_count k r1"
    using pop_ok [OF Suc.prems pop] pop_items [OF Suc.prems pop] ring_count_pop [OF Suc.prems pop] Suc.hyps(2) by auto
  show ?case
    using Suc.hyps(1) [OF r1(3,1), of win ev] Suc.hyps(1) [OF r1(3,1), of win "ev @ [BenchMark TickRx]"]
      Suc.hyps(1) [OF r1(3,1), of "win @ [t]" "ev @ [BenchMark TickRx]"]
    by (subst ingest_loop.simps) (auto simp: pop r1(2))
qed

lemma ingest_result:
  assumes "ring_ok k r"
  shows "\<exists>r' ev. ingest k now r win = Some (r',
      prune_old now (win @ filter (\<lambda>t. valid t \<and> \<not> stale now t) (ring_items k r)), ev) \<and>
    ring_ok k r' \<and> ring_items k r' = []"
  using ingest_loop_items [OF assms, of now win "[]"] by (auto simp: ingest_def)

lemma agg_update_total:
  assumes "ring_ok k rb" "ring_ok k rd"
  shows "\<exists>lead rb' rd' a' ev. agg_update k lt cfg rb rd now a = Some (lead, rb', rd', a', ev) \<and>
    ring_ok k rb' \<and> ring_items k rb' = [] \<and> ring_ok k rd' \<and> ring_items k rd' = []"
  using ingest_result [OF assms(1), of now "binance_win a"] ingest_result [OF assms(2), of now "deribit_win a"]
  by (auto simp: agg_update_def split: prod.splits)

section \<open>The window\<close>

definition window_ok :: "aggregator \<Rightarrow> bool" where
  "window_ok a \<longleftrightarrow> (\<forall>t\<in>set (binance_win a) \<union> set (deribit_win a). valid t)"

lemma window_ok_init [inv_intros]: "window_ok aggregator_init"
  by (simp add: window_ok_def aggregator_init_def)

lemma lead_of_windows:
  "lead_of lt cfg now b d a = (lead, a', ev) \<Longrightarrow> binance_win a' = binance_win a \<and> deribit_win a' = deribit_win a"
  by (auto simp: lead_of_def Let_def split: if_splits prod.splits)

lemma set_prune_old: "set (prune_old now win) \<subseteq> set win"
  by (auto simp: prune_old_def dest: set_dropWhileD)

lemma agg_update_windows:
  assumes "ring_ok k rb" "ring_ok k rd" "agg_update k lt cfg rb rd now a = Some (lead, rb', rd', a', ev)"
  shows "binance_win a' = prune_old now (binance_win a @ filter (\<lambda>t. valid t \<and> \<not> stale now t) (ring_items k rb))"
    "deribit_win a' = prune_old now (deribit_win a @ filter (\<lambda>t. valid t \<and> \<not> stale now t) (ring_items k rd))"
  using ingest_result [OF assms(1), of now "binance_win a"] ingest_result [OF assms(2), of now "deribit_win a"] assms(3)
  by (auto simp: agg_update_def split: prod.splits dest!: lead_of_windows)

lemma window_ok_update:
  assumes "window_ok a" "ring_ok k rb" "ring_ok k rd" "agg_update k lt cfg rb rd now a = Some (lead, rb', rd', a', ev)"
  shows "window_ok a'"
  using assms(1) set_prune_old unfolding window_ok_def agg_update_windows [OF assms(2-4)] by fastforce

text \<open>With time stamps in arrival order, pruning leaves exactly the fresh ticks.\<close>

lemma prune_old_sorted:
  assumes "sorted (map ts_ms win)" "\<forall>t\<in>set win. 0 < ts_ms t"
  shows "prune_old now win = filter (\<lambda>t. \<not> stale now t) win"
  using assms
proof (induction win)
  case (Cons t win)
  then show ?case
  proof (cases "stale now t")
    case False
    then have "\<forall>u\<in>set win. \<not> stale now u" using Cons.prems by (auto simp: stale_def)
    then show ?thesis using False by (simp add: prune_old_def)
  qed (simp add: prune_old_def)
qed (simp add: prune_old_def)

text \<open>A clock that lags the ticks' time stamps never prunes and never rejects.\<close>

lemma stale_behind: "now \<le> ts_ms t \<Longrightarrow> \<not> stale now t"
  by (simp add: stale_def kMaxTickAgeMs_def)

lemma prune_old_behind: "\<forall>t\<in>set win. now \<le> ts_ms t \<Longrightarrow> prune_old now win = win"
  by (induction win) (simp_all add: prune_old_def stale_behind)

end
