(* ===== verification/Strategy.thy ===== *)
theory Strategy
  imports Config Telemetry
begin

text \<open>
  \<open>include/llm/strategy.h\<close> and \<open>src/strategy.cpp\<close>: the dynamic threshold, the decision, the
  risk gates and the emission of signals. The strategy object is a record of its risk
  state; \<open>evaluate\<close> does not change it, so that it returns the decision, the threshold
  and what it reports to the telemetry.
\<close>

datatype side = Buy | Sell | NoSide

datatype decision = Long | Short | Hold

record signal =
  sig_side :: side
  sig_lead :: double
  broker_bid :: double
  broker_ask :: double
  threshold :: double
  edge :: double
  sig_ts_ms :: int64
  symbol :: str
  reason :: str

record strategy =
  open_lots :: int
  day_pnl :: double
  orders_this_interval :: int
  interval_start_ms :: int64
  last_signal_ms :: int64

definition strategy_init :: strategy where
  "strategy_init = \<lparr> open_lots = 0, day_pnl = 0, orders_this_interval = 0, interval_start_ms = 0, last_signal_ms = 0 \<rparr>"

definition s_round4 :: "config \<Rightarrow> double \<Rightarrow> double" where
  "s_round4 cfg v = (if \<not> round_four_decimals (strat cfg) then v else dround (v * lit 10000.0) / lit 10000.0)"

definition dynamic_threshold :: "config \<Rightarrow> broker_quote \<Rightarrow> double" where
  "dynamic_threshold cfg q =
     (let t = q_spread q;
          t = (if t \<le> 0 then \<bar>q_ask q - q_bid q\<bar> else t);
          t = t + latency_buffer_pips (strat cfg);
          t = t + min_profit_margin_pips (strat cfg);
          t = dmax t (threshold_pips (strat cfg))
      in t)"

definition evaluate :: "config \<Rightarrow> double \<Rightarrow> broker_quote \<Rightarrow> decision \<times> double \<times> tel_event list" where
  "evaluate cfg lead0 q =
     (let out_threshold = dynamic_threshold cfg q;
          lead = s_round4 cfg lead0;
          bid = s_round4 cfg (q_bid q);
          ask = s_round4 cfg (q_ask q)
      in if ask + out_threshold < lead then (Long, out_threshold, [BenchMark StrategyDone])
         else if lead + out_threshold < bid then (Short, out_threshold, [BenchMark StrategyDone])
         else (Hold, out_threshold, []))"

definition interval_spent :: "config \<Rightarrow> int64 \<Rightarrow> strategy \<Rightarrow> bool" where
  "interval_spent cfg now_ms s =
     (if interval_start_ms s = 0 then False
      else interval_seconds (strat cfg) \<le> (now_ms - interval_start_ms s) sdiv 1000)"

definition can_trade_now :: "config \<Rightarrow> int64 \<Rightarrow> strategy \<Rightarrow> bool" where
  "can_trade_now cfg now_ms s =
     (if max_open_lots (strat cfg) \<le> open_lots s then False
      else if day_pnl s \<le> - max_daily_loss (strat cfg) then False
      else if interval_spent cfg now_ms s then True
      else orders_this_interval s < max_orders_per_interval (strat cfg))"

definition on_order_placed :: "side \<Rightarrow> double \<Rightarrow> strategy \<Rightarrow> strategy" where
  "on_order_placed sd notional s =
     (let s1 = s\<lparr> open_lots := open_lots s + 1 \<rparr>;
          s2 = (if interval_start_ms s1 = 0 then s1\<lparr> interval_start_ms := 0 \<rparr> else s1)
      in s2\<lparr> orders_this_interval := orders_this_interval s2 + 1 \<rparr>)"

definition on_order_closed :: "double \<Rightarrow> double \<Rightarrow> str \<Rightarrow> strategy \<Rightarrow> strategy" where
  "on_order_closed realized_pnl commissions outcome s =
     (let s1 = s\<lparr> day_pnl := day_pnl s + (realized_pnl - commissions) \<rparr>
      in if 0 < open_lots s1 then s1\<lparr> open_lots := open_lots s1 - 1 \<rparr> else s1)"

definition mrpc_open_lots :: "strategy \<Rightarrow> int" where
  "mrpc_open_lots s = open_lots s"

definition cooling_down :: "config \<Rightarrow> int64 \<Rightarrow> strategy \<Rightarrow> bool" where
  "cooling_down cfg now_ms s \<longleftrightarrow>
     last_signal_ms s \<noteq> 0 \<and> now_ms - last_signal_ms s < interval_seconds (strat cfg) * 1000"

definition make_signal :: "config \<Rightarrow> decision \<Rightarrow> double \<Rightarrow> broker_quote \<Rightarrow> int64 \<Rightarrow> signal" where
  "make_signal cfg d lead q now_ms =
     (let (_, th, _) = evaluate cfg lead q in
      \<lparr> sig_side = (if d = Long then Buy else Sell),
        sig_lead = lead, broker_bid = q_bid q, broker_ask = q_ask q, threshold = th,
        edge = (if d = Long then s_round4 cfg lead - s_round4 cfg (q_ask q) - th
                else s_round4 cfg (q_bid q) - s_round4 cfg lead - th),
        sig_ts_ms = now_ms, symbol = dry_run_symbol (run cfg),
        reason = (if d = Long then ''lead_gt_ask'' else ''bid_gt_lead'') \<rparr>)"

definition maybe_emit :: "config \<Rightarrow> decision \<Rightarrow> double \<Rightarrow> broker_quote \<Rightarrow> int64 \<Rightarrow> strategy \<Rightarrow>
    signal option \<times> strategy \<times> tel_event list" where
  "maybe_emit cfg d lead q now_ms s =
     (if d = Hold then (None, s, [])
      else if \<not> can_trade_now cfg now_ms s then (None, s, [])
      else if cooling_down cfg now_ms s then (None, s, [])
      else let (_, _, ev) = evaluate cfg lead q in
        (Some (make_signal cfg d lead q now_ms), s\<lparr> last_signal_ms := now_ms \<rparr>, ev))"

section \<open>The threshold\<close>

definition buffers_nonneg :: "config \<Rightarrow> bool" where
  "buffers_nonneg cfg \<longleftrightarrow> 0 \<le> latency_buffer_pips (strat cfg) \<and> 0 \<le> min_profit_margin_pips (strat cfg) \<and>
     \<not> is_nan (threshold_pips (strat cfg))"

text \<open>The spread the threshold starts from.\<close>

definition effective_spread :: "broker_quote \<Rightarrow> double" where
  "effective_spread q = (if q_spread q \<le> 0 then \<bar>q_ask q - q_bid q\<bar> else q_spread q)"

lemma dynamic_threshold_eq:
  "dynamic_threshold cfg q = dmax (effective_spread q + latency_buffer_pips (strat cfg)
     + min_profit_margin_pips (strat cfg)) (threshold_pips (strat cfg))"
  by (simp add: dynamic_threshold_def effective_spread_def Let_def)

lemma threshold_parts:
  assumes "buffers_nonneg cfg" "0 \<le> effective_spread q"
  shows "\<not> is_nan (dynamic_threshold cfg q) \<and> threshold_pips (strat cfg) \<le> dynamic_threshold cfg q \<and>
    effective_spread q \<le> dynamic_threshold cfg q"
proof -
  let ?s = "effective_spread q" and ?l = "latency_buffer_pips (strat cfg)" and ?m = "min_profit_margin_pips (strat cfg)"
  have b: "0 \<le> ?l" "0 \<le> ?m" "\<not> is_nan (threshold_pips (strat cfg))"
    using assms(1) by (simp_all add: buffers_nonneg_def)
  have n1: "0 \<le> ?s + ?l" by (rule dadd_nonneg [OF assms(2) b(1)])
  have n2: "0 \<le> ?s + ?l + ?m" by (rule dadd_nonneg [OF n1 b(2)])
  have "?s \<le> ?s + ?l" using b(1) nonneg_not_nan [OF n1] by (rule dadd_ge)
  also have "?s + ?l \<le> ?s + ?l + ?m" using b(2) nonneg_not_nan [OF n2] by (rule dadd_ge)
  also have "\<dots> \<le> dynamic_threshold cfg q"
    unfolding dynamic_threshold_eq by (rule dmax_ge1 [OF nonneg_not_nan [OF n2]])
  finally show ?thesis
    unfolding dynamic_threshold_eq using nonneg_not_nan [OF n2] b(3) by (simp add: dmax_ge2 dmax_not_nan)
qed

lemma effective_spread_nonneg:
  assumes "\<not> is_nan (q_spread q)" "\<not> is_nan (q_ask q - q_bid q)"
  shows "0 \<le> effective_spread q"
  using assms not_dle [of "q_spread q" 0] dabs_nonneg [of "q_ask q - q_bid q"] finite_not_nan [of 0]
  by (auto simp: effective_spread_def intro: dless_imp_le)

section \<open>The decision\<close>

lemma evaluate_threshold: "fst (snd (evaluate cfg lead q)) = dynamic_threshold cfg q"
  by (simp add: evaluate_def Let_def)

lemma evaluate_cases:
  "fst (evaluate cfg lead q) =
    (if s_round4 cfg (q_ask q) + dynamic_threshold cfg q < s_round4 cfg lead then Long
     else if s_round4 cfg lead + dynamic_threshold cfg q < s_round4 cfg (q_bid q) then Short else Hold)"
  by (simp add: evaluate_def Let_def)

text \<open>Rounding to four decimals keeps the order.\<close>

lemma s_round4_mono: "a \<le> b \<Longrightarrow> s_round4 cfg a \<le> s_round4 cfg b"
  by (simp add: s_round4_def dmult_mono_pos ddiv_mono_pos dround_mono exact_simps)

text \<open>For a quote that is not crossed, at most one of the two conditions holds.\<close>

lemma sides_exclusive:
  assumes th: "0 \<le> dynamic_threshold cfg q" and q: "q_bid q \<le> q_ask q"
    and long: "s_round4 cfg (q_ask q) + dynamic_threshold cfg q < s_round4 cfg lead"
  shows "\<not> s_round4 cfg lead + dynamic_threshold cfg q < s_round4 cfg (q_bid q)"
proof
  let ?th = "dynamic_threshold cfg q" and ?l = "s_round4 cfg lead" and ?b = "s_round4 cfg (q_bid q)" and ?a = "s_round4 cfg (q_ask q)"
  assume short: "?l + ?th < ?b"
  have "?l \<le> ?l + ?th" using th not_nan_of_less [OF short] by (intro dadd_ge) auto
  also note short
  also have "?b \<le> ?a" using q by (rule s_round4_mono)
  also have "?a \<le> ?a + ?th" using th not_nan_of_less [OF long] by (intro dadd_ge) auto
  also note long
  finally have "?l < ?l" .
  then show False by simp
qed

section \<open>Emission\<close>

lemma maybe_emit_Some:
  "maybe_emit cfg d lead q now s = (Some sig, s', ev) \<longleftrightarrow>
     d \<noteq> Hold \<and> can_trade_now cfg now s \<and> \<not> cooling_down cfg now s \<and>
     sig = make_signal cfg d lead q now \<and> s' = s\<lparr> last_signal_ms := now \<rparr> \<and> ev = snd (snd (evaluate cfg lead q))"
  by (auto simp: maybe_emit_def Let_def split: prod.splits)

lemma maybe_emit_None: "maybe_emit cfg d lead q now s = (None, s', ev) \<Longrightarrow> s' = s \<and> ev = []"
  by (auto simp: maybe_emit_def Let_def split: if_splits prod.splits)

lemma make_signal_simps [simp]:
  "sig_ts_ms (make_signal cfg d lead q now) = now"
  "threshold (make_signal cfg d lead q now) = dynamic_threshold cfg q"
  "sig_side (make_signal cfg d lead q now) = (if d = Long then Buy else Sell)"
  "edge (make_signal cfg d lead q now) =
     (if d = Long then s_round4 cfg lead - s_round4 cfg (q_ask q) - dynamic_threshold cfg q
      else s_round4 cfg (q_bid q) - s_round4 cfg lead - dynamic_threshold cfg q)"
  by (simp_all add: make_signal_def evaluate_def Let_def)

lemma maybe_emit_blocked: "\<not> can_trade_now cfg now s \<Longrightarrow> maybe_emit cfg d lead q now s = (None, s, [])"
  by (simp add: maybe_emit_def)

text \<open>
  A subtraction that is compared in doubles: when \<open>a + b\<close> rounds below \<open>c\<close>, the rounded
  \<open>c - a - b\<close> is not negative.
\<close>

lemma rounded_gap:
  assumes "a + b < (c :: double)" "isfinite a" "isfinite b" "\<not> is_nan (c - a - b)"
  shows "0 \<le> c - a - b"
proof -
  obtain x y where ab: "fval_of a = VFin x" "fval_of b = VFin y" "fl64 y = y"
    using assms(2,3) val_ok [of b] by (auto simp: isfinite_fval_of val_fval_of split: fval.splits)
  show ?thesis
  proof (cases "fval_of c")
    case (VFin z)
    then have z: "fl64 z = z" using val_ok [of c] by (simp add: val_fval_of)
    have lt: "vless (rnd64 (x + y)) (VFin z)" using assms(1) VFin ab by (simp add: less_fval_of fval_of_simps)
    have "x + y < z"
    proof (rule ccontr)
      assume "\<not> x + y < z"
      then have "vle (rnd64 z) (rnd64 (x + y))" by (intro rnd64_mono) simp
      moreover have "rnd64 z = VFin z" using z fval_of_ok [of c] VFin by (simp add: rnd64_Fin fval_ok_def)
      ultimately show False using lt by (cases "rnd64 (x + y)") auto
    qed
    then have "vle (rnd64 y) (rnd64 (z - x))" by (intro rnd64_mono) simp
    moreover have "rnd64 y = VFin y" using ab fval_of_ok [of b] by (simp add: rnd64_Fin fval_ok_def)
    ultimately show ?thesis using assms(4) VFin ab
      by (cases "rnd64 (z - x)") (simp_all add: double_defs rnd64_bounds)
  qed (use assms ab in \<open>simp_all add: double_defs\<close>)
qed

lemma edge_nonneg:
  assumes d: "fst (evaluate cfg lead q) = d" "d \<noteq> Hold"
    and fin: "isfinite (dynamic_threshold cfg q)" "isfinite (s_round4 cfg lead)"
      "isfinite (s_round4 cfg (q_bid q))" "isfinite (s_round4 cfg (q_ask q))"
    and nan: "\<not> is_nan (edge (make_signal cfg d lead q now))"
  shows "0 \<le> edge (make_signal cfg d lead q now)"
proof (cases d)
  case Long
  then have "s_round4 cfg (q_ask q) + dynamic_threshold cfg q < s_round4 cfg lead"
    using d(1) by (simp add: evaluate_cases split: if_splits)
  then show ?thesis using rounded_gap fin nan Long by simp
next
  case Short
  then have "s_round4 cfg lead + dynamic_threshold cfg q < s_round4 cfg (q_bid q)"
    using d(1) by (simp add: evaluate_cases split: if_splits)
  then show ?thesis using rounded_gap fin nan Short by simp
qed (use d in simp)

section \<open>Histories of the strategy object\<close>

datatype strategy_op =
    Emit decision double broker_quote int64
  | Placed side double
  | Closed double double str

fun strategy_step :: "config \<Rightarrow> strategy_op \<Rightarrow> strategy \<Rightarrow> signal list \<times> strategy" where
  "strategy_step cfg (Emit d lead q now) s =
     (case maybe_emit cfg d lead q now s of (Some sig, s', _) \<Rightarrow> ([sig], s') | (None, s', _) \<Rightarrow> ([], s'))"
| "strategy_step cfg (Placed sd n) s = ([], on_order_placed sd n s)"
| "strategy_step cfg (Closed p c o') s = ([], on_order_closed p c o' s)"

fun strategy_run :: "config \<Rightarrow> strategy_op list \<Rightarrow> strategy \<Rightarrow> signal list \<times> strategy" where
  "strategy_run cfg [] s = ([], s)"
| "strategy_run cfg (op # ops) s =
     (let (sig, s1) = strategy_step cfg op s; (sigs, s2) = strategy_run cfg ops s1 in (sig @ sigs, s2))"

fun emit_times :: "strategy_op list \<Rightarrow> int64 list" where
  "emit_times [] = []"
| "emit_times (Emit d lead q now # ops) = now # emit_times ops"
| "emit_times (_ # ops) = emit_times ops"

fun placed_count :: "strategy_op list \<Rightarrow> nat" where
  "placed_count [] = 0"
| "placed_count (Placed _ _ # ops) = Suc (placed_count ops)"
| "placed_count (_ # ops) = placed_count ops"

lemmas strategy_ops = maybe_emit_def on_order_placed_def on_order_closed_def

text \<open>What no operation ever changes, and what only one of them does.\<close>

lemma strategy_step_frame:
  assumes "strategy_step cfg op s = (sig, s')"
  shows "interval_start_ms s = 0 \<Longrightarrow> interval_start_ms s' = 0"
    "orders_this_interval s' = orders_this_interval s + int (placed_count [op])"
    "0 \<le> open_lots s \<Longrightarrow> 0 \<le> open_lots s'"
  using assms by (cases op; force simp: strategy_ops Let_def split: if_splits prod.splits option.splits)+

lemma placed_count_Cons: "placed_count (op # ops) = placed_count [op] + placed_count ops"
  by (cases op) simp_all

lemma strategy_run_frame:
  "strategy_run cfg ops s = (sigs, s') \<Longrightarrow>
   (interval_start_ms s = 0 \<longrightarrow> interval_start_ms s' = 0) \<and>
   orders_this_interval s' = orders_this_interval s + int (placed_count ops) \<and>
   (0 \<le> open_lots s \<longrightarrow> 0 \<le> open_lots s')"
proof (induction ops arbitrary: s sigs)
  case (Cons op ops)
  obtain sig s1 where s1: "strategy_step cfg op s = (sig, s1)" by (cases "strategy_step cfg op s")
  then obtain sigs' where "strategy_run cfg ops s1 = (sigs', s')" using Cons.prems by (auto split: prod.splits)
  from Cons.IH [OF this] strategy_step_frame [OF s1] show ?case
    by (simp add: placed_count_Cons [of op ops])
qed simp

text \<open>The order cap is never reset: once it is reached no signal is emitted again.\<close>

lemma exhausted_never_trades:
  "interval_start_ms s = 0 \<Longrightarrow> max_orders_per_interval (strat cfg) \<le> orders_this_interval s \<Longrightarrow> \<not> can_trade_now cfg now s"
  by (simp add: can_trade_now_def interval_spent_def)

lemma exhausted_run:
  assumes "interval_start_ms s = 0" "max_orders_per_interval (strat cfg) \<le> orders_this_interval s"
  shows "fst (strategy_run cfg ops s) = []"
  using assms
proof (induction ops arbitrary: s)
  case (Cons op ops)
  obtain sig s1 where s1: "strategy_step cfg op s = (sig, s1)" by (cases "strategy_step cfg op s")
  have "sig = []"
    using s1 exhausted_never_trades [OF Cons.prems] by (cases op) (auto simp: maybe_emit_blocked)
  moreover have "fst (strategy_run cfg ops s1) = []"
    using strategy_step_frame(1,2) [OF s1] Cons.prems by (intro Cons.IH) auto
  ultimately show ?case using s1 by (simp add: Let_def split: prod.splits)
qed simp

lemma no_lots_run:
  assumes "max_open_lots (strat cfg) \<le> 0" "0 \<le> open_lots s"
  shows "fst (strategy_run cfg ops s) = []"
  using assms
proof (induction ops arbitrary: s)
  case (Cons op ops)
  obtain sig s1 where s1: "strategy_step cfg op s = (sig, s1)" by (cases "strategy_step cfg op s")
  have "\<not> can_trade_now cfg now s" for now using Cons.prems by (simp add: can_trade_now_def)
  then have "sig = []" using s1 by (cases op) (auto simp: maybe_emit_blocked)
  moreover have "fst (strategy_run cfg ops s1) = []"
    using strategy_step_frame(3) [OF s1] Cons.prems by (intro Cons.IH) auto
  ultimately show ?case using s1 by (simp add: Let_def split: prod.splits)
qed simp

text \<open>Consecutive signals are at least one interval apart.\<close>

definition apart :: "config \<Rightarrow> int64 \<Rightarrow> int64 \<Rightarrow> bool" where
  "apart cfg t u \<longleftrightarrow> interval_seconds (strat cfg) * 1000 \<le> u - t"

lemma apart_trans:
  "apart cfg t u \<Longrightarrow> apart cfg u v \<Longrightarrow> 0 \<le> interval_seconds (strat cfg) \<Longrightarrow> apart cfg t v"
  by (simp add: apart_def)

lemma orders_keep_last_signal [simp]:
  "last_signal_ms (on_order_placed sd n s) = last_signal_ms s"
  "last_signal_ms (on_order_closed p c o' s) = last_signal_ms s"
  by (simp_all add: strategy_ops Let_def)

lemma signals_apart:
  assumes "sorted (emit_times ops)" "\<forall>t\<in>set (emit_times ops). 0 < t \<and> last_signal_ms s \<le> t"
    "0 \<le> last_signal_ms s" "0 \<le> interval_seconds (strat cfg)"
  shows "sorted_wrt (apart cfg) (map sig_ts_ms (fst (strategy_run cfg ops s))) \<and>
    (\<forall>sig\<in>set (fst (strategy_run cfg ops s)). last_signal_ms s \<noteq> 0 \<longrightarrow> apart cfg (last_signal_ms s) (sig_ts_ms sig))"
  using assms
proof (induction ops arbitrary: s)
  case (Cons op ops)
  show ?case
  proof (cases op)
    case (Emit d lead q now)
    show ?thesis
    proof (cases "maybe_emit cfg d lead q now s")
      case (fields so s1 ev)
      show ?thesis
      proof (cases so)
        case None
        then have "s1 = s" using fields maybe_emit_None by blast
        then show ?thesis using Cons Emit None fields by (auto split: prod.splits)
      next
        case (Some sig)
        then have e: "s1 = s\<lparr> last_signal_ms := now \<rparr>" "sig = make_signal cfg d lead q now"
          "\<not> cooling_down cfg now s" using fields maybe_emit_Some by blast+
        have now: "0 < now" "sorted (emit_times ops)" "\<forall>t\<in>set (emit_times ops). 0 < t \<and> now \<le> t"
          using Cons.prems Emit by auto
        have ap: "last_signal_ms s \<noteq> 0 \<longrightarrow> apart cfg (last_signal_ms s) now"
          using e(3) by (auto simp: cooling_down_def apart_def)
        have "sorted_wrt (apart cfg) (map sig_ts_ms (fst (strategy_run cfg ops s1))) \<and>
            (\<forall>g\<in>set (fst (strategy_run cfg ops s1)). apart cfg now (sig_ts_ms g))"
          using Cons.IH [of s1] now e(1) Cons.prems(4) by auto
        moreover have "fst (strategy_run cfg (op # ops) s) = sig # fst (strategy_run cfg ops s1)"
          using Emit fields Some by (simp split: prod.splits)
        ultimately show ?thesis using e(2) ap apart_trans [OF _ _ Cons.prems(4)] by auto
      qed
    qed
  next
    case (Placed sd n)
    then show ?thesis using Cons.IH [of "on_order_placed sd n s"] Cons.prems by (simp split: prod.splits)
  next
    case (Closed p c o')
    then show ?thesis using Cons.IH [of "on_order_closed p c o' s"] Cons.prems by (simp split: prod.splits)
  qed
qed simp

text \<open>Placing only when the gate is open keeps the lots within the limit.\<close>

fun gated :: "config \<Rightarrow> (strategy_op \<times> int64) list \<Rightarrow> strategy \<Rightarrow> bool" where
  "gated cfg [] s = True"
| "gated cfg ((op, now) # ops) s =
     ((case op of Placed _ _ \<Rightarrow> can_trade_now cfg now s | _ \<Rightarrow> True) \<and> gated cfg ops (snd (strategy_step cfg op s)))"

lemma gated_lots:
  assumes "gated cfg ops s" "0 \<le> open_lots s" "open_lots s \<le> max_open_lots (strat cfg)"
  shows "0 \<le> open_lots (snd (strategy_run cfg (map fst ops) s)) \<and>
    open_lots (snd (strategy_run cfg (map fst ops) s)) \<le> max_open_lots (strat cfg)"
  using assms
proof (induction ops arbitrary: s)
  case (Cons p ops)
  obtain op now where p: "p = (op, now)" by (cases p)
  let ?s = "snd (strategy_step cfg op s)"
  have "0 \<le> open_lots ?s \<and> open_lots ?s \<le> max_open_lots (strat cfg)"
    using Cons.prems p by (cases op)
      (auto simp: strategy_ops can_trade_now_def Let_def split: if_splits prod.splits option.splits)
  then show ?case using Cons.IH [of ?s] Cons.prems p by (auto simp: Let_def split: prod.splits)
qed simp

end
