(* ===== verification/Wire.thy ===== *)
theory Wire
  imports Strategy "HOL-Library.Monad_Syntax"
begin

text \<open>
  \<open>include/llm/wire.h\<close> and \<open>src/wire.cpp\<close>: the text frame of a signal between the engine and the
  MT5 bridge, its encoder (\<open>snprintf\<close> into a caller's buffer), its bounds-checked decoder
  into the \<open>ExecSignal\<close> of \<open>include/llm/mt5_bridge.h\<close>, and the slippage gate. A decoder that
  returns \<open>false\<close> is \<open>None\<close>: its callers do not read the output then.
\<close>

text \<open>\<open>c_str\<close> and the C string functions end at the first NUL.\<close>

definition c_str :: "str \<Rightarrow> str" where
  "c_str s = takeWhile (\<lambda>c. c \<noteq> CHR 0x00) s"

record exec_signal =
  x_ts_ms :: int64
  x_lead :: double
  x_bid :: double
  x_ask :: double
  x_threshold :: double
  x_edge :: double
  x_side :: nat
  x_valid :: nat
  x_reason :: str
  x_symbol :: str

section \<open>Encoder\<close>

definition side_text :: "side \<Rightarrow> str" where
  "side_text sd = (if sd = Buy then ''BUY'' else ''SELL'')"

definition signal_text :: "signal \<Rightarrow> str" where
  "signal_text s = ''signal|'' @ side_text (sig_side s) @ '','' @ c_str (reason s) @
     '','' @ fmt_f 6 (sig_lead s) @ '','' @ fmt_f 6 (broker_bid s) @ '','' @ fmt_f 6 (broker_ask s) @
     '','' @ fmt_f 6 (threshold s) @ '','' @ fmt_f 6 (edge s) @ '','' @ show_int (sig_ts_ms s)"

text \<open>\<open>snprintf\<close> returns the length of the whole text; \<open>-1\<close> is \<open>None\<close>.\<close>

definition encode_signal :: "signal \<Rightarrow> size \<Rightarrow> str option" where
  "encode_signal s cap =
     (if cap = 0 then None
      else let text = signal_text s in
        if cap \<le> length text then None else Some text)"

section \<open>Decoder\<close>

text \<open>Characters up to the next comma, at most \<open>n\<close> of them; the rest is not consumed.\<close>

fun take_field :: "size \<Rightarrow> str \<Rightarrow> str \<times> str" where
  "take_field n [] = ([], [])"
| "take_field 0 s = ([], s)"
| "take_field (Suc n) (c # s) =
     (if c = CHR '','' then ([], c # s) else (let (f, r) = take_field n s in (c # f, r)))"

fun expect_comma :: "str \<Rightarrow> str option" where
  "expect_comma [] = None"
| "expect_comma (c # s) = (if c = CHR '','' then Some s else None)"

definition decode_side :: "str \<Rightarrow> (nat \<times> str) option" where
  "decode_side p =
     (if 3 \<le> length p \<and> starts_with ''BUY'' p then Some (1, drop 3 p)
      else if 4 \<le> length p \<and> starts_with ''SELL'' p then Some (2, drop 4 p)
      else None)"

definition decode_prefix :: "str \<Rightarrow> str" where
  "decode_prefix frame =
     (let p = (if 6 \<le> length frame \<and> starts_with ''signal'' frame then drop 6 frame else frame)
      in if p \<noteq> [] \<and> hd p = CHR ''|'' then tl p else p)"

text \<open>\<open>sizeof (num) - 1\<close> is 47, \<open>sizeof (out.reason) - 1\<close> is 23, 31 for the time stamp.\<close>

definition next_num :: "str \<Rightarrow> (double \<times> str) option" where
  "next_num p = (let (num, r) = take_field 47 p in
     case expect_comma r of None \<Rightarrow> None | Some p' \<Rightarrow> Some (atof (c_str num), p'))"

definition decode_signal :: "str \<Rightarrow> exec_signal option" where
  "decode_signal frame = do {
     (sd, p) \<leftarrow> decode_side (decode_prefix frame);
     p \<leftarrow> expect_comma p;
     let (rsn, p) = take_field 23 p;
     p \<leftarrow> expect_comma p;
     (lead, p) \<leftarrow> next_num p;
     (b, p) \<leftarrow> next_num p;
     (a, p) \<leftarrow> next_num p;
     (th, p) \<leftarrow> next_num p;
     (ed, p) \<leftarrow> next_num p;
     let (num, p) = take_field 31 p;
     let out = \<lparr> x_ts_ms = atoll (c_str num), x_lead = lead, x_bid = b, x_ask = a,
                 x_threshold = th, x_edge = ed, x_side = sd, x_valid = 1,
                 x_reason = rsn, x_symbol = ''BTC/USD'' \<rparr>;
     if x_side out \<noteq> 0 \<and> 0 < x_lead out then Some out else None }"

section \<open>The slippage gate\<close>

definition kMaxSlippageBroker :: double where
  "kMaxSlippageBroker = lit 2.0"

definition within_slippage_cap :: "signal \<Rightarrow> bool" where
  "within_slippage_cap s \<longleftrightarrow> \<bar>edge s\<bar> \<le> kMaxSlippageBroker \<or> 0 < edge s"

text \<open>The gate is a lower bound on the edge: it passes every edge of at least minus the cap.\<close>

lemma within_slippage_cap_iff:
  "within_slippage_cap s \<longleftrightarrow> - kMaxSlippageBroker \<le> edge s"
proof -
  have "exact 2" by (simp add: exact_simps)
  then have "fval_of (lit 2) = VFin 2" by (rule fval_of_exact)
  then show ?thesis
    by (cases "fval_of (edge s)")
      (auto simp: within_slippage_cap_def kMaxSlippageBroker_def less_fval_of le_fval_of fval_of_simps(2-))
qed

section \<open>The round trip\<close>

lemma take_field_stop:
  "\<lbrakk> \<forall>c\<in>set f. c \<noteq> CHR '',''; length f \<le> n; s = [] \<or> hd s = CHR '','' \<rbrakk> \<Longrightarrow> take_field n (f @ s) = (f, s)"
proof (induction f arbitrary: n)
  case Nil
  then show ?case by (cases s; cases n) auto
next
  case (Cons c f)
  then obtain m where "n = Suc m" by (cases n) auto
  then show ?case using Cons by simp
qed

text \<open>A field the decoder accepts never exceeds its buffer, and contains no comma.\<close>

lemma take_field_bound:
  "take_field n s = (f, r) \<Longrightarrow> length f \<le> n \<and> s = f @ r \<and> (\<forall>c\<in>set f. c \<noteq> CHR '','')"
proof (induction n s arbitrary: f r rule: take_field.induct)
  case (3 n c s)
  obtain f' r' where fr: "take_field n s = (f', r')" by (cases "take_field n s")
  show ?case
  proof (cases "c = CHR '',''")
    case False
    then have e: "f = c # f'" "r = r'" using "3.prems" fr by simp_all
    show ?thesis unfolding e using "3.IH" [OF False fr] False by simp
  qed (use "3.prems" in auto)
qed auto

lemma c_str_plain: "\<forall>c\<in>set s. plain c \<Longrightarrow> c_str s = s"
  unfolding c_str_def by (rule takeWhile_all) (auto simp: plain_def is_digit_def)

lemma next_num_fmt:
  assumes "isfinite x" "length (fmt_f 6 x) \<le> 47"
  shows "next_num (fmt_f 6 x @ CHR '','' # s) = Some (decimals 6 x, s)"
proof -
  have "take_field 47 (fmt_f 6 x @ CHR '','' # s) = (fmt_f 6 x, CHR '','' # s)"
    using assms(2) fmt_f_plain plain_not_separator by (intro take_field_stop) auto
  then show ?thesis using assms(1)
    by (simp add: next_num_def c_str_plain fmt_f_plain atof_fmt_f)
qed

lemma show_int_length: "- (2 ^ 63) \<le> n \<Longrightarrow> n < 2 ^ 63 \<Longrightarrow> length (show_int n) \<le> 20"
proof -
  assume n: "- (2 ^ 63) \<le> n" "n < 2 ^ 63"
  then have "length (show_nat (nat n)) \<le> Suc 18" "length (show_nat (nat (- n))) \<le> Suc 18"
    by (intro length_show_nat_le; simp add: nat_less_iff)+
  then show ?thesis by (simp add: show_int_def)
qed

definition small_signal :: "signal \<Rightarrow> bool" where
  "small_signal s \<longleftrightarrow> (\<forall>x\<in>set [sig_lead s, broker_bid s, broker_ask s, threshold s, edge s].
      isfinite x \<and> length (fmt_f 6 x) \<le> 47) \<and>
     - (2 ^ 63) \<le> sig_ts_ms s \<and> sig_ts_ms s < 2 ^ 63 \<and>
     length (c_str (reason s)) \<le> 23 \<and> CHR '','' \<notin> set (c_str (reason s))"

lemma decode_signal_text:
  assumes "small_signal s" "0 < decimals 6 (sig_lead s)"
  shows "decode_signal (signal_text s) = Some
    \<lparr> x_ts_ms = sig_ts_ms s, x_lead = decimals 6 (sig_lead s), x_bid = decimals 6 (broker_bid s),
      x_ask = decimals 6 (broker_ask s), x_threshold = decimals 6 (threshold s),
      x_edge = decimals 6 (edge s), x_side = (if sig_side s = Buy then 1 else 2), x_valid = 1,
      x_reason = c_str (reason s), x_symbol = ''BTC/USD'' \<rparr>"
proof -
  have rsn: "take_field 23 (c_str (reason s) @ CHR '','' # r) = (c_str (reason s), CHR '','' # r)" for r
    using assms(1) by (intro take_field_stop) (auto simp: small_signal_def)
  have ts: "take_field 31 (show_int (sig_ts_ms s)) = (show_int (sig_ts_ms s), [])"
    using take_field_stop [of "show_int (sig_ts_ms s)" 31 "[]"] show_int_length [of "sig_ts_ms s"]
      assms(1) show_int_plain [of "sig_ts_ms s"] plain_not_separator by (auto simp: small_signal_def)
  have tsv: "atoll (c_str (show_int (sig_ts_ms s))) = sig_ts_ms s"
    using assms(1) by (simp add: c_str_plain show_int_plain atoll_show_int small_signal_def)
  have num: "next_num (fmt_f 6 x @ CHR '','' # r) = Some (decimals 6 x, r)"
    if "x \<in> set [sig_lead s, broker_bid s, broker_ask s, threshold s, edge s]" for x r
    using that assms(1) by (intro next_num_fmt) (auto simp: small_signal_def)
  show ?thesis using assms(2)
    by (cases "sig_side s = Buy")
      (simp_all add: decode_signal_def signal_text_def side_text_def decode_prefix_def decode_side_def
        rsn num ts tsv)
qed

text \<open>What the decoder accepts is well formed.\<close>

lemma decode_signal_wf:
  assumes "decode_signal frame = Some x"
  shows "x_side x \<in> {1, 2} \<and> x_valid x = 1 \<and> 0 < x_lead x \<and> length (x_reason x) \<le> 23 \<and> x_symbol x = ''BTC/USD''"
  using assms take_field_bound
  by (auto simp: decode_signal_def decode_side_def split: if_splits prod.splits Option.bind_splits)

lemma signal_text_length:
  assumes "small_signal s"
  shows "length (signal_text s) < 320"
proof -
  have "length (show_int (sig_ts_ms s)) \<le> 20" using assms by (intro show_int_length) (simp_all add: small_signal_def)
  then show ?thesis using assms by (auto simp: signal_text_def side_text_def small_signal_def)
qed

end
