(* ===== verification/Bytes.thy ===== *)
theory Bytes
  imports Binary64 "HOL-Library.Word"
begin

text \<open>
  What the code sends and stores with \<open>reinterpret_cast<const char*>\<close>: integers in two's
  complement, doubles and floats in the IEEE 754 layout (sign, exponent, fraction), and fixed
  character arrays, on a little-endian machine. A NaN is written as the quiet NaN; every NaN
  pattern is read as NaN, and both zeros as the one zero of \<open>double\<close>.
\<close>

type_synonym byte = "8 word"

section \<open>Little-endian numbers\<close>

fun le_bytes :: "nat \<Rightarrow> nat \<Rightarrow> byte list" where
  "le_bytes 0 x = []"
| "le_bytes (Suc n) x = word_of_nat x # le_bytes n (x div 256)"

fun of_le :: "byte list \<Rightarrow> nat" where
  "of_le [] = 0"
| "of_le (b # bs) = unat b + 256 * of_le bs"

lemma length_le_bytes [simp]: "length (le_bytes n x) = n"
  by (induction n arbitrary: x) simp_all

lemma of_le_bytes: "x < 256 ^ n \<Longrightarrow> of_le (le_bytes n x) = x"
proof (induction n arbitrary: x)
  case (Suc n)
  then have "x div 256 < 256 ^ n" by (simp add: less_mult_imp_div_less mult.commute)
  then show ?case using Suc.IH by (simp add: unsigned_of_nat take_bit_eq_mod)
qed simp

definition int64_bytes :: "int64 \<Rightarrow> byte list" where
  "int64_bytes t = le_bytes 8 (nat (t mod 2 ^ 64))"

definition int64_of_bytes :: "byte list \<Rightarrow> int64" where
  "int64_of_bytes bs = (let n = int (of_le bs) in if n < 2 ^ 63 then n else n - 2 ^ 64)"

lemma length_int64_bytes [simp]: "length (int64_bytes t) = 8"
  by (simp add: int64_bytes_def)

lemma int64_of_bytes [simp]:
  assumes "- (2 ^ 63) \<le> t" "t < 2 ^ 63"
  shows "int64_of_bytes (int64_bytes t) = t"
proof -
  have "nat (t mod 2 ^ 64) < 256 ^ 8" by (simp add: nat_less_iff)
  then have "int (of_le (int64_bytes t)) = t mod 2 ^ 64" by (simp add: int64_bytes_def of_le_bytes)
  moreover have "t mod 2 ^ 64 = (if 0 \<le> t then t else t + 2 ^ 64)"
    using assms mod_pos_pos_trivial [of t "2 ^ 64"] mod_pos_pos_trivial [of "t + 2 ^ 64" "2 ^ 64"] by auto
  ultimately show ?thesis using assms by (simp add: int64_of_bytes_def Let_def)
qed

section \<open>Floating-point formats\<close>

text \<open>
  A format has \<open>f\<close> fraction bits and the least exponent \<open>em\<close>. The exponent field and the
  fraction of a magnitude, read as one number, are \<open>(q - em) * 2 ^ f + m\<close> for the value
  \<open>m * 2 powi q\<close>: the hidden bit of a normal number carries into the exponent field.
\<close>

definition mag_bits :: "nat \<Rightarrow> int \<Rightarrow> rat \<Rightarrow> nat" where
  "mag_bits f em x = (if x = 0 then 0
     else let q = quantum (int f + 1) em x in nat (q - em) * 2 ^ f + nat \<lfloor>\<bar>x\<bar> / 2 powi q\<rfloor>)"

definition mag_of_bits :: "nat \<Rightarrow> int \<Rightarrow> nat \<Rightarrow> rat" where
  "mag_of_bits f em b = (let e = b div 2 ^ f; m = b mod 2 ^ f in
     if e = 0 then of_nat m * 2 powi em else of_nat (2 ^ f + m) * 2 powi (em + int e - 1))"

lemma powi_2_Suc: "(2::rat) powi (int f + 1) = of_nat (2 ^ (f + 1))"
  by (simp add: powi_2_add)

lemma mag_decomp:
  assumes "fl (int f + 1) em x = x" "x \<noteq> 0"
  obtains m k where "\<bar>x\<bar> = of_nat m * 2 powi (em + int k)" "m < 2 ^ (f + 1)" "0 < k \<longrightarrow> 2 ^ f \<le> m"
    "mag_bits f em x = k * 2 ^ f + m" "em + int k = quantum (int f + 1) em x"
proof -
  define q where "q = quantum (int f + 1) em x"
  define r where "r = rne (x / 2 powi q)"
  define m where "m = nat \<bar>r\<bar>"
  have x: "x = of_int r * 2 powi q" using assms by (simp add: fl_def Let_def q_def r_def)
  have ax: "\<bar>x\<bar> = of_nat m * 2 powi q" by (subst x) (simp add: m_def abs_mult)
  have q: "em \<le> q" "ilog2 x + 1 \<le> int f + 1 + q" by (auto simp: q_def quantum_def)
  have p: "of_nat m * 2 powi q < (2::rat) powi (int f + 1 + q)"
    using ilog2_bounds(2) [OF assms(2)] q(2) unfolding ax
    by (meson order_less_le_trans powi_2_le_iff)
  then have "(of_nat m :: rat) < 2 powi (int f + 1)" by (simp add: powi_2_add)
  then have "rat_of_nat m < of_nat (2 ^ (f + 1))" by (simp only: powi_2_Suc)
  then have m: "m < 2 ^ (f + 1)" by (simp only: of_nat_less_iff)
  have "2 ^ f \<le> m" if "em < q"
  proof -
    have "q = ilog2 x - int f" using that by (auto simp: q_def quantum_def max_def split: if_splits)
    then have "(2::rat) powi (int f + q) \<le> of_nat m * 2 powi q"
      using ilog2_bounds(1) [OF assms(2)] unfolding ax by simp
    then have "rat_of_nat (2 ^ f) \<le> of_nat m" by (simp add: powi_2_add)
    then show ?thesis by (simp only: of_nat_le_iff)
  qed
  moreover have "\<lfloor>\<bar>x\<bar> / 2 powi q\<rfloor> = int m" by (simp add: ax)
  then have "mag_bits f em x = nat (q - em) * 2 ^ f + m"
    using assms(2) by (simp add: mag_bits_def q_def [symmetric] Let_def)
  ultimately show ?thesis using ax m q(1) that [of m "nat (q - em)"] by (auto simp: q_def)
qed

lemma mag_of_bits_join:
  assumes "m < 2 ^ (f + 1)" "0 < k \<longrightarrow> 2 ^ f \<le> m"
  shows "mag_of_bits f em (k * 2 ^ f + m) = of_nat m * 2 powi (em + int k)"
proof (cases "m < 2 ^ f")
  case True
  then have "k = 0" using assms(2) by auto
  then show ?thesis using True by (simp add: mag_of_bits_def)
next
  case False
  then obtain n where m: "m = 2 ^ f + n" by (metis le_Suc_ex not_less)
  then have "n < 2 ^ f" using assms(1) by simp
  then have "(k * 2 ^ f + m) div 2 ^ f = k + 1" "(k * 2 ^ f + m) mod 2 ^ f = n"
    unfolding m by (simp_all add: add.commute add.left_commute flip: distrib_right mult_Suc)
  then show ?thesis unfolding mag_of_bits_def by (simp add: m add.commute)
qed

lemma mag_round_trip:
  assumes "fl (int f + 1) em x = x"
  shows "mag_of_bits f em (mag_bits f em x) = \<bar>x\<bar>"
proof (cases "x = 0")
  case False
  then show ?thesis using mag_decomp [OF assms False] mag_of_bits_join by metis
qed (simp add: mag_bits_def mag_of_bits_def)

text \<open>Every pattern below the infinities is a number of the format.\<close>

lemma mag_of_bits_ok:
  assumes "b < (2 ^ w - 1) * 2 ^ f" "1 < w"
  shows "rep (int f + 1) em (mag_of_bits f em b)" "0 \<le> mag_of_bits f em b"
    "mag_of_bits f em b < 2 powi (int f + em + 2 ^ w - 2)"
proof -
  define e where "e = b div 2 ^ f"
  define m where "m = b mod 2 ^ f"
  have m: "m < 2 ^ f" by (simp add: m_def)
  have e: "e < 2 ^ w - 1" using assms(1) by (simp add: e_def less_mult_imp_div_less)
  obtain n k where n: "mag_of_bits f em b = of_nat n * 2 powi (em + int k)" "n < 2 ^ (f + 1)" "k \<le> 2 ^ w - 3"
  proof (cases "e = 0")
    case True
    show ?thesis by (rule that [of m 0]) (use m True in \<open>simp_all add: mag_of_bits_def Let_def flip: e_def m_def\<close>)
  next
    case False
    then show ?thesis using m e that [of "2 ^ f + m" "e - 1"]
      by (simp add: mag_of_bits_def Let_def of_nat_diff flip: e_def m_def) (simp add: algebra_simps)
  qed
  have "int n \<le> 2 ^ (f + 1)" using n(2) by (metis of_nat_le_iff of_nat_numeral of_nat_power order_less_imp_le)
  then show "rep (int f + 1) em (mag_of_bits f em b)"
    unfolding Rounding.rep_def n(1) by (intro exI [of _ "int n"] exI [of _ "em + int k"]) (simp add: nat_add_distrib)
  show "0 \<le> mag_of_bits f em b" unfolding n(1) by simp
  have "rat_of_nat n < 2 powi (int f + 1)" using n(2) by (simp only: powi_2_Suc of_nat_less_iff)
  then have "of_nat n * 2 powi (em + int k) < (2::rat) powi (int f + 1) * 2 powi (em + int k)" by simp
  also have "\<dots> = 2 powi (int f + 1 + em + int k)" by (simp add: powi_2_add)
  also have "\<dots> \<le> 2 powi (int f + em + 2 ^ w - 2)"
  proof -
    have "(4::nat) \<le> 2 ^ w" using power_increasing [of 2 w "2 :: nat"] assms(2) by simp
    then have "k + 3 \<le> 2 ^ w" using n(3) by linarith
    then have "int (k + 3) \<le> int (2 ^ w)" by (simp only: of_nat_le_iff)
    then show ?thesis by simp
  qed
  finally show "mag_of_bits f em b < 2 powi (int f + em + 2 ^ w - 2)" unfolding n(1) .
qed

text \<open>
  The whole pattern: sign, \<open>w\<close> exponent bits, \<open>f\<close> fraction bits. The largest exponent is
  that of the infinities (no fraction) and of NaN.
\<close>

definition fbits :: "nat \<Rightarrow> nat \<Rightarrow> int \<Rightarrow> fval \<Rightarrow> nat" where
  "fbits w f em v = (case v of
     VFin x \<Rightarrow> (if x < 0 then 2 ^ (w + f) else 0) + mag_bits f em x
   | VPInf \<Rightarrow> (2 ^ w - 1) * 2 ^ f
   | VNInf \<Rightarrow> 2 ^ (w + f) + (2 ^ w - 1) * 2 ^ f
   | VNaN \<Rightarrow> (2 ^ w - 1) * 2 ^ f + 2 ^ (f - 1))"

definition fval_of_bits :: "nat \<Rightarrow> nat \<Rightarrow> int \<Rightarrow> nat \<Rightarrow> fval" where
  "fval_of_bits w f em b =
     (let neg = odd (b div 2 ^ (w + f)); c = b mod 2 ^ (w + f) in
      if c < (2 ^ w - 1) * 2 ^ f then VFin (if neg then - mag_of_bits f em c else mag_of_bits f em c)
      else if c = (2 ^ w - 1) * 2 ^ f then (if neg then VNInf else VPInf)
      else VNaN)"

lemma mag_bits_less:
  assumes "fl (int f + 1) em x = x" "\<bar>x\<bar> < 2 powi (int f + em + 2 ^ w - 2)" "1 < w"
  shows "mag_bits f em x < (2 ^ w - 1) * 2 ^ f"
proof (cases "x = 0")
  case True
  then show ?thesis using assms(3) one_less_power [of "2 :: nat" w] by (simp add: mag_bits_def)
next
  case False
  obtain m k where m: "\<bar>x\<bar> = of_nat m * 2 powi (em + int k)" "m < 2 ^ (f + 1)" "0 < k \<longrightarrow> 2 ^ f \<le> m"
    "mag_bits f em x = k * 2 ^ f + m"
    using mag_decomp [OF assms(1) False] by metis
  have w: "(4::nat) \<le> 2 ^ w" using power_increasing [of 2 w "2 :: nat"] assms(3) by simp
  have "k + 3 \<le> 2 ^ w"
  proof (cases "k = 0")
    case False
    then have "rat_of_nat (2 ^ f) \<le> of_nat m" using m(3) by (simp only: of_nat_le_iff)
    then have "2 powi int f * 2 powi (em + int k) \<le> \<bar>x\<bar>" unfolding m(1) by (intro mult_right_mono) simp_all
    then have "(2::rat) powi (int f + (em + int k)) < 2 powi (int f + em + 2 ^ w - 2)"
      using assms(2) by (simp add: powi_2_add)
    then have "int k + 2 < 2 ^ w" by simp
    then have "int (k + 2) < int (2 ^ w)" by simp
    then show ?thesis by (simp only: of_nat_less_iff)
  qed (use w in simp)
  then have "(k + 2) * 2 ^ f \<le> (2 ^ w - 1) * 2 ^ f" by (intro mult_le_mono1) simp
  moreover have "k * 2 ^ f + 2 ^ (f + 1) = (k + 2) * 2 ^ f" by (simp add: add_mult_distrib)
  ultimately show ?thesis using m by linarith
qed

lemma fbits_parts:
  fixes c :: nat
  assumes "c < 2 ^ n"
  shows "(2 ^ n + c) div 2 ^ n = 1" "(2 ^ n + c) mod 2 ^ n = c" "c div 2 ^ n = 0" "c mod 2 ^ n = c"
  using assms by simp_all

lemma fbits_round_trip:
  assumes "1 < w" "1 < f"
    and "\<And>x. v = VFin x \<Longrightarrow> fl (int f + 1) em x = x \<and> \<bar>x\<bar> < 2 powi (int f + em + 2 ^ w - 2)"
  shows "fval_of_bits w f em (fbits w f em v) = v" "fbits w f em v < 2 ^ (w + f + 1)"
proof -
  have le: "(2 ^ w - 1) * 2 ^ f + (2::nat) ^ f = 2 ^ (w + f)"
    by (simp add: power_add algebra_simps)
  have half: "(2::nat) ^ (f - 1) < 2 ^ f" "(0::nat) < 2 ^ (f - 1)" using assms(2) by simp_all
  have "fval_of_bits w f em (fbits w f em v) = v \<and> fbits w f em v < 2 ^ (w + f + 1)"
  proof (cases v)
    case (VFin x)
    have x: "fl (int f + 1) em x = x" "\<bar>x\<bar> < 2 powi (int f + em + 2 ^ w - 2)" using assms(3) VFin by simp_all
    then have l: "mag_bits f em x < (2 ^ w - 1) * 2 ^ f" using mag_bits_less assms(1) by blast
    then have c: "mag_bits f em x < 2 ^ (w + f)" using le by linarith
    show ?thesis using l c VFin by (simp add: fval_of_bits_def fbits_def fbits_parts [OF c] mag_round_trip [OF x(1)])
  next
    case VNaN
    have "(2 ^ w - 1) * 2 ^ f + (2::nat) ^ (f - 1) < 2 ^ (w + f)" using le half by linarith
    then show ?thesis using VNaN half by (simp add: fval_of_bits_def fbits_def fbits_parts)
  next
    case VPInf
    have "(2 ^ w - 1) * 2 ^ f < (2::nat) ^ (w + f)" using le half by linarith
    then show ?thesis using VPInf by (simp add: fval_of_bits_def fbits_def fbits_parts)
  next
    case VNInf
    have "(2 ^ w - 1) * 2 ^ f < (2::nat) ^ (w + f)" using le half by linarith
    then show ?thesis using VNInf by (simp add: fval_of_bits_def fbits_def fbits_parts)
  qed
  then show "fval_of_bits w f em (fbits w f em v) = v" "fbits w f em v < 2 ^ (w + f + 1)" by simp_all
qed

section \<open>Doubles and floats in memory\<close>

definition double_bytes :: "double \<Rightarrow> byte list" where
  "double_bytes d = le_bytes 8 (fbits 11 52 (-1074) (fval_of d))"

lemma powi_huge: "(2::rat) powi (int 52 + - 1074 + 2 ^ 11 - 2) = huge"
  "(2::rat) powi (int 23 + - 149 + 2 ^ 8 - 2) = 2 ^ 128"
  by (simp_all add: huge_def)

lemma float_huge: "(2::rat) ^ 128 < huge"
  unfolding huge_def by (intro power_strict_increasing) auto

lemma mag_of_bits_fval_ok:
  "c < (2 ^ 11 - 1) * 2 ^ 52 \<Longrightarrow> fval_ok (VFin (mag_of_bits 52 (- 1074) c)) \<and> fval_ok (VFin (- mag_of_bits 52 (- 1074) c))"
  "c < (2 ^ 8 - 1) * 2 ^ 23 \<Longrightarrow> fval_ok (VFin (mag_of_bits 23 (- 149) c)) \<and> fval_ok (VFin (- mag_of_bits 23 (- 149) c))"
proof -
  have ok: "fval_ok (VFin x) \<and> fval_ok (VFin (- x))" if "fl64 x = x" "0 \<le> x" "x < huge" for x
    using that by (simp add: fval_ok_def d64.odd)
  assume c: "c < (2 ^ 11 - 1) * 2 ^ 52"
  note m = mag_of_bits_ok [OF c, of "- 1074", unfolded powi_huge]
  have "rep 53 (- 1074) (mag_of_bits 52 (- 1074) c)" using m(1) by simp
  then show "fval_ok (VFin (mag_of_bits 52 (- 1074) c)) \<and> fval_ok (VFin (- mag_of_bits 52 (- 1074) c))"
    using m by (intro ok fl_exact) simp_all
next
  have ok: "fval_ok (VFin x) \<and> fval_ok (VFin (- x))" if "fl32 x = x" "0 \<le> x" "x < 2 ^ 128" for x
    using that fl64_fl32 [of x] order_less_trans [OF that(3) float_huge] by (simp add: fval_ok_def d64.odd)
  assume c: "c < (2 ^ 8 - 1) * 2 ^ 23"
  note m = mag_of_bits_ok [OF c, of "- 149", unfolded powi_huge]
  have "rep 24 (- 149) (mag_of_bits 23 (- 149) c)" using m(1) by simp
  then show "fval_ok (VFin (mag_of_bits 23 (- 149) c)) \<and> fval_ok (VFin (- mag_of_bits 23 (- 149) c))"
    using m by (intro ok fl_exact) simp_all
qed

lemma fval_ok_If:
  "(P \<Longrightarrow> fval_ok a) \<Longrightarrow> (\<not> P \<Longrightarrow> fval_ok b) \<Longrightarrow> fval_ok (if P then a else b)"
  "fval_ok (VFin x) \<Longrightarrow> fval_ok (VFin y) \<Longrightarrow> fval_ok (VFin (if P then x else y))"
  by simp_all

lemma fval_of_bits_ok: "fval_ok (fval_of_bits 11 52 (- 1074) b)" "fval_ok (fval_of_bits 8 23 (- 149) b)"
  unfolding fval_of_bits_def Let_def
  by (intro fval_ok_If; use mag_of_bits_fval_ok special_ok in blast)+

lift_definition double_of_bits :: "nat \<Rightarrow> double" is "fval_of_bits 11 52 (- 1074)"
  by (rule fval_of_bits_ok)

lift_definition float_of_bits :: "nat \<Rightarrow> double" is "fval_of_bits 8 23 (- 149)"
  by (rule fval_of_bits_ok)

definition double_of_bytes :: "byte list \<Rightarrow> double" where
  "double_of_bytes bs = double_of_bits (of_le bs)"

definition float_bytes :: "double \<Rightarrow> byte list" where
  "float_bytes d = le_bytes 4 (fbits 8 23 (- 149) (fval_of d))"

definition float_of_bytes :: "byte list \<Rightarrow> double" where
  "float_of_bytes bs = float_of_bits (of_le bs)"

lemma length_float_bytes [simp]: "length (double_bytes d) = 8" "length (float_bytes d) = 4"
  by (simp_all add: double_bytes_def float_bytes_def)

lemma double_of_bytes [simp]: "double_of_bytes (double_bytes d) = d"
proof (rule double_eqI)
  have "fl (int 52 + 1) (- 1074) x = x \<and> \<bar>x\<bar> < 2 powi (int 52 + - 1074 + 2 ^ 11 - 2)" if "fval_of d = VFin x" for x
    using fval_of_ok [of d] that unfolding powi_huge by (simp add: fval_ok_def)
  note r = fbits_round_trip [OF _ _ this, of "fval_of d", simplified]
  have "fbits 11 52 (- 1074) (fval_of d) < 256 ^ 8" using r(2) by simp
  then show "fval_of (double_of_bytes (double_bytes d)) = fval_of d"
    by (simp add: double_of_bytes_def double_bytes_def of_le_bytes fval_of.rep_eq double_of_bits.rep_eq) (simp add: r(1) flip: fval_of.rep_eq)
qed

lemma float_of_bytes [simp]:
  assumes "to_float d = d"
  shows "float_of_bytes (float_bytes d) = d"
proof (rule double_eqI)
  have "fl (int 23 + 1) (- 149) x = x \<and> \<bar>x\<bar> < 2 powi (int 23 + - 149 + 2 ^ 8 - 2)" if "fval_of d = VFin x" for x
  proof -
    have "to_float_val (VFin x) = VFin x" using assms that by (metis fval_of.rep_eq to_float.rep_eq)
    then show ?thesis unfolding powi_huge by (auto simp: to_float_val_def Let_def abs_less_iff split: if_splits)
  qed
  note r = fbits_round_trip [OF _ _ this, of "fval_of d", simplified]
  have "fbits 8 23 (- 149) (fval_of d) < 256 ^ 4" using r(2) by simp
  then show "fval_of (float_of_bytes (float_bytes d)) = fval_of d"
    by (simp add: float_of_bytes_def float_bytes_def of_le_bytes fval_of.rep_eq float_of_bits.rep_eq) (simp add: r(1) flip: fval_of.rep_eq)
qed

section \<open>Character arrays\<close>

text \<open>An array of \<open>n\<close> characters that was zeroed and holds a text, and the C string in it.\<close>

definition text_byte :: "char \<Rightarrow> byte" where
  "text_byte c = word_of_nat (of_char c)"

definition char_array :: "nat \<Rightarrow> str \<Rightarrow> byte list" where
  "char_array n s = take n (map text_byte s @ replicate n 0)"

definition array_text :: "byte list \<Rightarrow> str" where
  "array_text bs = map (\<lambda>b. char_of (unat b)) (takeWhile (\<lambda>b. b \<noteq> 0) bs)"

lemma length_char_array [simp]: "length (char_array n s) = n"
  by (simp add: char_array_def)

lemma unat_text_byte [simp]: "unat (text_byte c) = of_char c"
proof -
  have "of_char c < (256 :: nat)" by simp
  then show ?thesis by (simp add: text_byte_def unsigned_of_nat take_bit_eq_mod)
qed

lemma char_of_text_byte [simp]: "char_of (unat (text_byte c)) = c"
  by simp

lemma text_byte_0: "text_byte c = 0 \<longleftrightarrow> c = CHR 0x00"
proof
  assume "text_byte c = 0"
  then have "char_of (0 :: nat) = c" using char_of_text_byte [of c] by (simp only: unsigned_0)
  then show "c = CHR 0x00" by (simp flip: \<open>char_of (0 :: nat) = c\<close>) (simp add: char_of_def)
qed (simp add: text_byte_def of_char_def)

lemma takeWhile_char_bytes:
  "takeWhile (\<lambda>b. b \<noteq> 0) (map text_byte s @ replicate k 0) = map text_byte (takeWhile (\<lambda>c. c \<noteq> CHR 0x00) s)"
  by (induction s) (simp_all add: text_byte_0 takeWhile_replicate)

lemma array_text_char_array:
  assumes "length s \<le> n"
  shows "array_text (char_array n s) = takeWhile (\<lambda>c. c \<noteq> CHR 0x00) s"
  using assms takeWhile_char_bytes [of s] by (simp add: array_text_def char_array_def comp_def)

text \<open>One byte.\<close>

definition uint8_bytes :: "nat \<Rightarrow> byte list" where
  "uint8_bytes n = le_bytes 1 n"

lemma length_uint8_bytes [simp]: "length (uint8_bytes n) = 1"
  by (simp add: uint8_bytes_def)

lemma of_le_uint8 [simp]: "n < 256 \<Longrightarrow> of_le (uint8_bytes n) = n"
  unfolding uint8_bytes_def by (rule of_le_bytes) simp

section \<open>Structures: the fields one after the other\<close>

text \<open>\<open>field_at i n bs\<close> is the field of \<open>n\<close> bytes at offset \<open>i\<close>.\<close>

definition field_at :: "nat \<Rightarrow> nat \<Rightarrow> byte list \<Rightarrow> byte list" where
  "field_at i n bs = take n (drop i bs)"

lemma field_at_here [simp]: "length xs = n \<Longrightarrow> field_at 0 n (xs @ ys) = xs" "length xs = n \<Longrightarrow> field_at 0 n xs = xs"
  by (simp_all add: field_at_def)

lemma field_at_there [simp]: "length xs \<le> i \<Longrightarrow> field_at i n (xs @ ys) = field_at (i - length xs) n ys"
  by (simp add: field_at_def)

end
