(* ===== verification/Handles.thy ===== *)
theory Handles
  imports Prelude
begin

text \<open>
  What a piece of code does with the handles of the operating system and of ZeroMQ: a trace of
  acquisitions, uses and releases. \<open>held\<close> runs a trace and gives the handles left, or \<open>None\<close> when
  a handle is used or released that is not held, acquired twice, or released before one that
  depends on it (a ZeroMQ context that is terminated before its socket is closed blocks for ever).
  The start-ups of the Windows sockets are counted by the system, so that they may be repeated.
\<close>

datatype handle = ZCtx | ZSock | AddrInfo | TcpSock | DllModule | TerminalApi | WinSock | FileDesc | FileView | WinFile | WinMap | WinView

fun parent :: "handle \<Rightarrow> handle option" where
  "parent ZSock = Some ZCtx"
| "parent TerminalApi = Some DllModule"
| "parent WinMap = Some WinFile"
| "parent WinView = Some WinMap"
| "parent _ = None"

datatype handle_use = Acquire handle | Release handle | Using handle

definition counted :: "handle \<Rightarrow> bool" where
  "counted h \<longleftrightarrow> h = WinSock"

definition may_acquire :: "handle \<Rightarrow> handle list \<Rightarrow> bool" where
  "may_acquire h hs \<longleftrightarrow> (counted h \<or> h \<notin> set hs) \<and> (case parent h of None \<Rightarrow> True | Some p \<Rightarrow> p \<in> set hs)"

definition may_release :: "handle \<Rightarrow> handle list \<Rightarrow> bool" where
  "may_release h hs \<longleftrightarrow> h \<in> set hs \<and> (\<forall>g\<in>set hs. parent g \<noteq> Some h)"

fun held :: "handle_use list \<Rightarrow> handle list \<Rightarrow> handle list option" where
  "held [] hs = Some hs"
| "held (Acquire h # us) hs = (if may_acquire h hs then held us (h # hs) else None)"
| "held (Release h # us) hs = (if may_release h hs then held us (remove1 h hs) else None)"
| "held (Using h # us) hs = (if h \<in> set hs then held us hs else None)"

lemmas handle_rules = may_acquire_def may_release_def counted_def

lemma held_append [simp]: "held (us @ vs) hs = Option.bind (held us hs) (held vs)"
  by (induction us hs rule: held.induct) simp_all

text \<open>A trace that gives back what it takes.\<close>

definition tidy :: "handle_use list \<Rightarrow> bool" where
  "tidy us \<longleftrightarrow> held us [] = Some []"

lemma tidy_append: "tidy us \<Longrightarrow> tidy vs \<Longrightarrow> tidy (us @ vs)"
  by (simp add: tidy_def)

lemma tidy_Nil [simp]: "tidy []"
  by (simp add: tidy_def)

lemma tidy_concat: "\<forall>us\<in>set uss. tidy us \<Longrightarrow> tidy (concat uss)"
  by (induction uss) (simp_all add: tidy_append)

end
