(* ===== verification/Mt5Orders.thy ===== *)
theory Mt5Orders
  imports Wire Bytes Handles
begin

text \<open>
  One order of the bridge (\<open>mt5_bridge.cpp\<close>): the bytes that cross the socket and the two ways into the
  terminal. The answers of the terminal's DLL and of the socket calls are arguments; the handles
  that a call takes are a trace.
\<close>

section \<open>The order in memory\<close>

text \<open>\<open>ExecSignal\<close> is packed: 90 bytes.\<close>

definition pod_bytes :: "exec_signal \<Rightarrow> byte list" where
  "pod_bytes x = int64_bytes (x_ts_ms x) @ double_bytes (x_lead x) @ double_bytes (x_bid x) @ double_bytes (x_ask x) @
     double_bytes (x_threshold x) @ double_bytes (x_edge x) @ uint8_bytes (x_side x) @ uint8_bytes (x_valid x) @
     char_array 24 (x_reason x) @ char_array 16 (x_symbol x)"

definition pod_read :: "byte list \<Rightarrow> exec_signal" where
  "pod_read bs = \<lparr> x_ts_ms = int64_of_bytes (field_at 0 8 bs), x_lead = double_of_bytes (field_at 8 8 bs),
     x_bid = double_of_bytes (field_at 16 8 bs), x_ask = double_of_bytes (field_at 24 8 bs),
     x_threshold = double_of_bytes (field_at 32 8 bs), x_edge = double_of_bytes (field_at 40 8 bs),
     x_side = of_le (field_at 48 1 bs), x_valid = of_le (field_at 49 1 bs),
     x_reason = array_text (field_at 50 24 bs), x_symbol = array_text (field_at 74 16 bs) \<rparr>"

lemma length_pod_bytes [simp]: "length (pod_bytes x) = 90"
  by (simp add: pod_bytes_def)

section \<open>The terminal's DLL\<close>

record dll_answers =
  load_64 :: bool
  load_32 :: bool
  entry_points :: bool
  api_connects :: bool
  login_rc :: int
  send_rc :: int

text \<open>
  The static handle is loaded by the first call, and again by every call that finds it null:
  \<open>None\<close> is before the first call, \<open>Some False\<close> null. The library is never freed.
\<close>

definition load_dll :: "dll_answers \<Rightarrow> bool option \<Rightarrow> bool" where
  "load_dll a dll = (let loaded = (case dll of None \<Rightarrow> load_64 a | Some b \<Rightarrow> b) in loaded \<or> load_32 a)"

text \<open>The answer, the new handle, the orders that \<open>MTSendOrder\<close> is called with, and the handles used.\<close>

definition try_dll_execute :: "bool \<Rightarrow> dll_answers \<Rightarrow> exec_signal \<Rightarrow> bool option \<Rightarrow>
    bool \<times> bool option \<times> exec_signal list \<times> handle_use list" where
  "try_dll_execute windows a s dll =
     (if \<not> windows then (False, dll, [], [])
      else let loaded = load_dll a dll;
               entered = (if dll = Some True then [] else [Acquire DllModule]) @ replicate 4 (Using DllModule)
        in if \<not> loaded then (False, Some False, [], [])
        else if \<not> entry_points a \<or> \<not> api_connects a then (False, Some True, [], entered)
        else if login_rc a \<noteq> 0
        then (False, Some True, [], entered @ [Acquire TerminalApi, Using TerminalApi, Release TerminalApi])
        else (send_rc a = 0, Some True, [s],
              entered @ [Acquire TerminalApi, Using TerminalApi, Using TerminalApi, Release TerminalApi]))"

section \<open>The socket\<close>

record sock_answers =
  wsa_starts :: bool
  resolves :: bool
  opens :: bool
  connects :: bool
  sent_bytes :: int

text \<open>\<open>send\<close> takes as many bytes as it answers, none on an error; what is left is not sent again.\<close>

definition send_pod :: "sock_answers \<Rightarrow> exec_signal \<Rightarrow> bool \<times> byte list" where
  "send_pod a s = (sent_bytes a = int (length (pod_bytes s)), take (nat (sent_bytes a)) (pod_bytes s))"

text \<open>
  The answer, for every call of \<open>send\<close> the bytes it took, and the handles. The answer of
  \<open>WSAStartup\<close> is not looked at, and no \<open>WSACleanup\<close> undoes it.
\<close>

definition try_socket_execute :: "bool \<Rightarrow> sock_answers \<Rightarrow> exec_signal \<Rightarrow> bool \<times> byte list list \<times> handle_use list" where
  "try_socket_execute windows a s =
     (let started = (if windows \<and> wsa_starts a then [Acquire WinSock] else []) in
      if \<not> resolves a then (False, [], started)
      else if \<not> opens a then (False, [], started @ [Acquire AddrInfo, Release AddrInfo])
      else let opened = started @ [Acquire AddrInfo, Acquire TcpSock, Using TcpSock, Using AddrInfo, Using TcpSock];
               closed = [Release AddrInfo, Release TcpSock] in
        if \<not> connects a then (False, [], opened @ closed)
        else let (ok, bytes) = send_pod a s in (ok, [bytes], opened @ [Using TcpSock] @ closed))"

section \<open>One order\<close>

text \<open>What became of an order: what each way was given and the handles that were used.\<close>

record executed =
  ex_order :: exec_signal
  by_dll :: "exec_signal list"
  by_socket :: "byte list list"
  exec_ok :: bool
  exec_uses :: "handle_use list"

definition bridge_execute :: "bool \<Rightarrow> dll_answers \<Rightarrow> sock_answers \<Rightarrow> exec_signal \<Rightarrow> bool option \<Rightarrow> executed \<times> bool option" where
  "bridge_execute windows da sa s dll =
     (let (ok, dll, given, uses) = try_dll_execute windows da s dll in
      if ok then (\<lparr> ex_order = s, by_dll = given, by_socket = [], exec_ok = True, exec_uses = uses \<rparr>, dll)
      else let (ok, sent, uses2) = try_socket_execute windows sa s
           in (\<lparr> ex_order = s, by_dll = given, by_socket = sent, exec_ok = ok, exec_uses = uses @ uses2 \<rparr>, dll))"

text \<open>Orders one after the other, each with the answers it meets.\<close>

fun bridge_orders :: "bool \<Rightarrow> (dll_answers \<times> sock_answers \<times> exec_signal) list \<Rightarrow> bool option \<Rightarrow> executed list \<times> bool option" where
  "bridge_orders windows [] dll = ([], dll)"
| "bridge_orders windows ((da, sa, s) # xs) dll =
     (let (e, dll) = bridge_execute windows da sa s dll; (es, dll) = bridge_orders windows xs dll in (e # es, dll))"

section \<open>The bytes are the order\<close>

lemma pod_read_bytes:
  assumes "- (2 ^ 63) \<le> x_ts_ms x" "x_ts_ms x < 2 ^ 63" "x_side x < 256" "x_valid x < 256"
    and "length (x_reason x) < 24" "length (x_symbol x) < 16"
  shows "pod_read (pod_bytes x) = x\<lparr> x_reason := c_str (x_reason x), x_symbol := c_str (x_symbol x) \<rparr>"
  using assms by (simp add: pod_read_def pod_bytes_def array_text_char_array c_str_def)

lemma atoll_range: "- (2 ^ 63) \<le> atoll s" "atoll s < 2 ^ 63"
  by (auto simp: atoll_def strtol_def clamp64_def Let_def split: option.splits prod.splits if_splits)

lemma decode_signal_pod:
  assumes "decode_signal frame = Some x"
  shows "pod_read (pod_bytes x) = x\<lparr> x_reason := c_str (x_reason x) \<rparr>"
proof -
  have wf: "x_side x \<in> {1, 2}" "x_valid x = 1" "length (x_reason x) \<le> 23" "x_symbol x = ''BTC/USD''"
    using decode_signal_wf [OF assms] by simp_all
  obtain s where "x_ts_ms x = atoll s"
    using assms by (auto simp: decode_signal_def Let_def split: if_splits prod.splits Option.bind_splits)
  then have "- (2 ^ 63) \<le> x_ts_ms x" "x_ts_ms x < 2 ^ 63" using atoll_range by simp_all
  then have "pod_read (pod_bytes x) = x\<lparr> x_reason := c_str (x_reason x), x_symbol := c_str (x_symbol x) \<rparr>"
    using wf by (intro pod_read_bytes) auto
  moreover have "c_str (x_symbol x) = x_symbol x" by (simp add: wf(4) c_str_def)
  ultimately show ?thesis by simp
qed

section \<open>What one order does\<close>

lemma dll_ways:
  assumes "try_dll_execute windows da s dll = (ok, d, given, uses)"
  shows "given = (if windows \<and> load_dll da dll \<and> entry_points da \<and> api_connects da \<and> login_rc da = 0 then [s] else [])"
    and "ok \<longleftrightarrow> given \<noteq> [] \<and> send_rc da = 0"
  using assms by (auto simp: try_dll_execute_def Let_def split: if_splits)

lemma socket_ways:
  assumes "try_socket_execute windows sa s = (ok, sent, uses)"
  shows "sent = (if resolves sa \<and> opens sa \<and> connects sa then [take (nat (sent_bytes sa)) (pod_bytes s)] else [])"
    and "ok \<longleftrightarrow> sent \<noteq> [] \<and> sent_bytes sa = 90"
  using assms by (auto simp: try_socket_execute_def send_pod_def Let_def split: if_splits)

lemma execute_ways:
  assumes "bridge_execute windows da sa s dll = (e, dll')"
  shows "ex_order e = s"
    and "by_dll e = (if windows \<and> load_dll da dll \<and> entry_points da \<and> api_connects da \<and> login_rc da = 0 then [s] else [])"
    and "by_socket e = (if (by_dll e \<noteq> [] \<and> send_rc da = 0) \<or> \<not> (resolves sa \<and> opens sa \<and> connects sa) then []
      else [take (nat (sent_bytes sa)) (pod_bytes s)])"
    and "exec_ok e \<longleftrightarrow> by_dll e \<noteq> [] \<and> send_rc da = 0 \<or> by_socket e \<noteq> [] \<and> sent_bytes sa = 90"
proof -
  obtain ok d given uses where t: "try_dll_execute windows da s dll = (ok, d, given, uses)" using prod_cases4 by blast
  obtain ok2 sent uses2 where k: "try_socket_execute windows sa s = (ok2, sent, uses2)" using prod_cases3 by blast
  have e: "e = \<lparr> ex_order = s, by_dll = given, by_socket = if ok then [] else sent, exec_ok = ok \<or> ok2,
      exec_uses = if ok then uses else uses @ uses2 \<rparr>"
    using assms t k by (cases ok) (auto simp: bridge_execute_def)
  note w = dll_ways [OF t] socket_ways [OF k]
  show "ex_order e = s" using e by simp
  show g: "by_dll e = (if windows \<and> load_dll da dll \<and> entry_points da \<and> api_connects da \<and> login_rc da = 0 then [s] else [])"
    using e w(1) by simp
  have b: "by_dll e = given" using e by simp
  show "by_socket e = (if (by_dll e \<noteq> [] \<and> send_rc da = 0) \<or> \<not> (resolves sa \<and> opens sa \<and> connects sa) then []
      else [take (nat (sent_bytes sa)) (pod_bytes s)])"
    unfolding b using e w(2,3) by simp
  show "exec_ok e \<longleftrightarrow> by_dll e \<noteq> [] \<and> send_rc da = 0 \<or> by_socket e \<noteq> [] \<and> sent_bytes sa = 90"
    unfolding b using e w(2,4) by auto
qed

text \<open>The handle of the DLL, once it is loaded, is kept.\<close>

lemma execute_dll:
  "snd (bridge_execute windows da sa s dll) = (if windows then Some (load_dll da dll) else dll)"
  "dll = Some True \<Longrightarrow> load_dll da dll"
  by (simp_all add: bridge_execute_def try_dll_execute_def load_dll_def Let_def case_prod_unfold)

text \<open>
  What an order leaves: the library, once, and one more start-up of the Windows sockets if
  it went to the socket. Addresses, sockets and connections are given back.
\<close>

lemma dll_uses:
  assumes "try_dll_execute windows da s dll = (ok, dll', given, uses)" "set hs \<subseteq> {DllModule, WinSock}" "DllModule \<in> set hs \<longleftrightarrow> dll = Some True"
  shows "held uses hs = Some (if dll' = Some True \<and> dll \<noteq> Some True then DllModule # hs else hs)"
    and "dll = Some True \<Longrightarrow> dll' = Some True" "Acquire WinSock \<notin> set uses"
proof -
  have n: "TerminalApi \<notin> set hs" "\<forall>g\<in>set hs. parent g \<noteq> Some TerminalApi" using assms(2) by auto
  show "held uses hs = Some (if dll' = Some True \<and> dll \<noteq> Some True then DllModule # hs else hs)"
    using assms(1,3) n
    by (auto simp: try_dll_execute_def Let_def handle_rules load_dll_def numeral_eq_Suc split: if_splits)
  show "dll = Some True \<Longrightarrow> dll' = Some True" "Acquire WinSock \<notin> set uses"
    using assms(1) by (auto simp: try_dll_execute_def Let_def load_dll_def split: if_splits)
qed

lemma socket_uses:
  assumes "try_socket_execute windows sa s = (ok, sent, uses)" "set hs \<subseteq> {DllModule, WinSock}"
  shows "held uses hs = Some (if windows \<and> wsa_starts sa then WinSock # hs else hs)"
proof -
  have n: "AddrInfo \<notin> set hs" "TcpSock \<notin> set hs" "\<forall>g\<in>set hs. parent g \<noteq> Some AddrInfo \<and> parent g \<noteq> Some TcpSock"
    using assms(2) by auto
  show ?thesis using assms(1) n
    by (auto simp: try_socket_execute_def send_pod_def Let_def handle_rules split: if_splits)
qed

lemma execute_handles:
  assumes "bridge_execute windows da sa s dll = (e, dll')" "set hs \<subseteq> {DllModule, WinSock}" "DllModule \<in> set hs \<longleftrightarrow> dll = Some True"
  shows "\<exists>hs'. held (exec_uses e) hs = Some hs' \<and> set hs' \<subseteq> {DllModule, WinSock} \<and> (DllModule \<in> set hs' \<longleftrightarrow> dll' = Some True) \<and>
    count_list hs' DllModule = (if dll' = Some True \<and> dll \<noteq> Some True then 1 else 0) + count_list hs DllModule \<and>
    count_list hs' WinSock = (if windows \<and> wsa_starts sa \<and> \<not> (by_dll e \<noteq> [] \<and> send_rc da = 0) then 1 else 0) + count_list hs WinSock"
proof -
  obtain ok d given uses where t: "try_dll_execute windows da s dll = (ok, d, given, uses)" using prod_cases4 by blast
  note u = dll_uses [OF t assms(2,3)]
  have ok: "ok \<longleftrightarrow> given \<noteq> [] \<and> send_rc da = 0" using t by (auto simp: try_dll_execute_def Let_def split: if_splits)
  let ?hs = "if d = Some True \<and> dll \<noteq> Some True then DllModule # hs else hs"
  have h: "set ?hs \<subseteq> {DllModule, WinSock}" "DllModule \<in> set ?hs \<longleftrightarrow> d = Some True" using assms(2,3) u(2) by auto
  obtain ok2 sent uses2 where s: "try_socket_execute windows sa s = (ok2, sent, uses2)" using prod_cases3 by blast
  show ?thesis
    using assms(1) t s u(1) socket_uses [OF s h(1)] h ok
    by (cases ok) (auto simp: bridge_execute_def)
qed

lemma orders_handles:
  assumes "set hs \<subseteq> {DllModule, WinSock}" "DllModule \<in> set hs \<longleftrightarrow> dll = Some True" "bridge_orders windows xs dll = (es, dll')"
  shows "\<exists>hs'. held (concat (map exec_uses es)) hs = Some hs' \<and> set hs' \<subseteq> {DllModule, WinSock} \<and>
    count_list hs' DllModule = (if dll' = Some True \<and> dll \<noteq> Some True then 1 else 0) + count_list hs DllModule \<and>
    count_list hs' WinSock = count_list hs WinSock + length (filter (\<lambda>((da, sa, s), e). windows \<and> wsa_starts sa \<and>
      \<not> (by_dll e \<noteq> [] \<and> send_rc da = 0)) (zip xs es)) \<and> (dll = Some True \<longrightarrow> dll' = Some True)"
  using assms
proof (induction windows xs dll arbitrary: hs es dll' rule: bridge_orders.induct)
  case (2 windows da sa s xs dll)
  obtain e d where e: "bridge_execute windows da sa s dll = (e, d)" by fastforce
  obtain fs d' where f: "bridge_orders windows xs d = (fs, d')" by fastforce
  have es: "es = e # fs" "dll' = d'" using 2(4) e f by simp_all
  obtain h1 where h1: "held (exec_uses e) hs = Some h1" "set h1 \<subseteq> {DllModule, WinSock}" "DllModule \<in> set h1 \<longleftrightarrow> d = Some True"
    "count_list h1 DllModule = (if d = Some True \<and> dll \<noteq> Some True then 1 else 0) + count_list hs DllModule"
    "count_list h1 WinSock = (if windows \<and> wsa_starts sa \<and> \<not> (by_dll e \<noteq> [] \<and> send_rc da = 0) then 1 else 0) + count_list hs WinSock"
    using execute_handles [OF e 2(2,3)] by blast
  have d: "dll = Some True \<longrightarrow> d = Some True" using e execute_dll(1) [of windows da sa s dll] by (auto simp: load_dll_def)
  from 2(1) [OF e [symmetric] refl h1(2,3) f] obtain h2 where h2: "held (concat (map exec_uses fs)) h1 = Some h2" "set h2 \<subseteq> {DllModule, WinSock}"
    "count_list h2 DllModule = (if d' = Some True \<and> d \<noteq> Some True then 1 else 0) + count_list h1 DllModule"
    "count_list h2 WinSock = count_list h1 WinSock + length (filter (\<lambda>((da, sa, s), e). windows \<and> wsa_starts sa \<and>
      \<not> (by_dll e \<noteq> [] \<and> send_rc da = 0)) (zip xs fs))" "d = Some True \<longrightarrow> d' = Some True" by blast
  have "held (concat (map exec_uses es)) hs = Some h2" using h1(1) h2(1) by (simp add: es)
  moreover have "count_list h2 DllModule = (if dll' = Some True \<and> dll \<noteq> Some True then 1 else 0) + count_list hs DllModule"
    using h1(4) h2(3,5) d unfolding es(2) by (cases "dll = Some True"; cases "d = Some True"; cases "d' = Some True") simp_all
  moreover have "count_list h2 WinSock = count_list hs WinSock + length (filter (\<lambda>((da, sa, s), e). windows \<and> wsa_starts sa \<and>
      \<not> (by_dll e \<noteq> [] \<and> send_rc da = 0)) (zip ((da, sa, s) # xs) es))"
    using h1(5) h2(4) by (simp add: es)
  moreover have "dll = Some True \<longrightarrow> dll' = Some True" using h2(5) d es(2) by blast
  ultimately show ?case using h2(2) by blast
qed simp

end
