(* ===== verification/Execution.thy ===== *)
theory Execution
  imports Mt5Orders Ring
begin

text \<open>
  The execution side of the engine: the dispatcher's queue and worker (\<open>src/execution.cpp\<close>),
  the ZeroMQ publisher with its frames (\<open>src/zmq_pub.cpp\<close>), the broker subscriber's parser
  (\<open>src/broker_sub.cpp\<close>) and the MT5 bridge's receive loop (\<open>src/mt5_bridge.cpp\<close>). ZeroMQ, the
  sockets and the terminal's DLL are arguments; what a turn of a thread does to the
  outside is a list of effects.
\<close>

section \<open>The dispatcher\<close>

datatype exec_effect = Published str | FixSend signal | Tel tel_event

record dispatcher =
  d_queue :: "signal list"
  d_running :: bool
  d_stopped :: bool

definition dispatcher_init :: dispatcher where
  "dispatcher_init = \<lparr> d_queue = [], d_running = False, d_stopped = False \<rparr>"

definition disp_start :: "dispatcher \<Rightarrow> dispatcher" where
  "disp_start d = (if d_running d then d else d\<lparr> d_running := True, d_stopped := False \<rparr>)"

definition disp_stop :: "dispatcher \<Rightarrow> dispatcher" where
  "disp_stop d = d\<lparr> d_stopped := True, d_running := False \<rparr>"

definition submit :: "signal \<Rightarrow> dispatcher \<Rightarrow> dispatcher" where
  "submit s d = d\<lparr> d_queue := d_queue d @ [s] \<rparr>"

definition publish_signal :: "signal \<Rightarrow> exec_effect list" where
  "publish_signal s = (case encode_signal s 320 of
     None \<Rightarrow> []
   | Some buf \<Rightarrow> [Published buf, Tel (BenchMark SignalTx),
       Tel (LogLine (''\"signal\":{\"side\":\"'' @ side_text (sig_side s) @ ''\",\"lead\":'' @
         fmt_f 6 (sig_lead s) @ '',\"edge\":'' @ fmt_f 6 (edge s) @ ''}''))])"

text \<open>
  One turn of \<open>worker_loop\<close>: \<open>None\<close> is the end of the loop, and the idle turn has no
  effect. The market gate, the publication and the FIX order, in the code's order.
\<close>

definition worker_turn :: "config \<Rightarrow> dispatcher \<Rightarrow> (dispatcher \<times> exec_effect list) option" where
  "worker_turn cfg d =
     (if \<not> (d_running d \<and> \<not> d_stopped d) then None
      else case pop_front (d_queue d) of
        None \<Rightarrow> Some (d, [])
      | Some (s, q) \<Rightarrow>
          let d' = d\<lparr> d_queue := q \<rparr> in
          if \<not> within_slippage_cap s
          then Some (d', [Tel (LogWarn (''\"exec\":{\"rejected\":\"slippage_cap\",\"edge\":'' @ fmt_f 6 (edge s) @ ''}''))])
          else Some (d', publish_signal s @ (if fix_enabled (fix_c cfg) then [FixSend s] else [])))"

section \<open>The publisher\<close>

datatype zmq_msg = TickMsg tick | BrokerMsg broker_quote | SignalMsg str

definition venue_text :: "venue \<Rightarrow> str" where
  "venue_text v = (case v of Binance \<Rightarrow> ''binance'' | Deribit \<Rightarrow> ''deribit'' | Bybit \<Rightarrow> ''bybit''
     | Broker \<Rightarrow> ''broker'' | Unknown \<Rightarrow> ''?'')"

definition flag :: "bool \<Rightarrow> str" where
  "flag b = (if b then ''1'' else ''0'')"

definition tick_frame :: "tick \<Rightarrow> str" where
  "tick_frame t = take 255 (''tick|'' @ show_int (ts_ms t) @ '','' @ show_int (ts_ns t) @ '','' @
     show_int 0 @ '','' @ show_int (int (seq t)) @ '','' @ fmt_f 6 (bid t) @ '','' @ fmt_f 6 (ask t) @
     '','' @ fmt_f 6 (last_px t) @ '','' @ venue_text (venue t) @ '','' @ flag (valid t))"

definition quote_frame :: "broker_quote \<Rightarrow> str" where
  "quote_frame q = take 159 (''quote|'' @ show_int (q_ts_ms q) @ '','' @ fmt_f 6 (q_bid q) @ '','' @
     fmt_f 6 (q_ask q) @ '','' @ fmt_f 6 (q_spread q) @ '','' @ show_int (q_latency_us q) @ '','' @
     show_int (int (q_session q)) @ '','' @ flag (q_valid q))"

fun msg_frame :: "zmq_msg \<Rightarrow> str" where
  "msg_frame (TickMsg t) = tick_frame t"
| "msg_frame (BrokerMsg q) = quote_frame q"
| "msg_frame (SignalMsg s) = s"

text \<open>The mailbox: producers append, the thread takes the whole batch and sends it in order.\<close>

definition zmq_publish :: "zmq_msg \<Rightarrow> zmq_msg list \<Rightarrow> zmq_msg list" where
  "zmq_publish m q = q @ [m]"

definition zmq_drain :: "zmq_msg list \<Rightarrow> zmq_msg list \<times> zmq_msg list" where
  "zmq_drain q = (q, [])"

definition zmq_turn :: "zmq_msg list \<Rightarrow> str list \<times> zmq_msg list" where
  "zmq_turn q = (let (batch, q') = zmq_drain q in (map msg_frame batch, q'))"

section \<open>The broker subscriber\<close>

fun split :: "char \<Rightarrow> str \<Rightarrow> str list" where
  "split d [] = [[]]"
| "split d (c # s) = (if c = d then [] # split d s
     else (case split d s of [] \<Rightarrow> [[c]] | p # ps \<Rightarrow> (c # p) # ps))"

definition quote_body :: "str \<Rightarrow> str \<Rightarrow> str" where
  "quote_body topic frame =
     (let body = (case find_sub topic frame of Some lp \<Rightarrow> drop (lp + length topic) frame | None \<Rightarrow> frame)
      in if body \<noteq> [] \<and> hd body = CHR ''|'' then tl body else body)"

definition fv :: "str \<Rightarrow> double" where
  "fv s = atof s"

definition parse_quote :: "str \<Rightarrow> str \<Rightarrow> broker_quote" where
  "parse_quote topic frame =
     (let parts = split CHR '','' (quote_body topic frame);
          q = quote0;
          q = (if 3 \<le> length parts then q\<lparr> q_bid := fv (parts ! 0), q_ask := fv (parts ! 1), q_spread := fv (parts ! 2) \<rparr> else q);
          q = (if 4 \<le> length parts then q\<lparr> q_ts_ms := atoll (parts ! 3) \<rparr> else q);
          q = (if 5 \<le> length parts then q\<lparr> q_latency_us := atoll (parts ! 4) \<rparr> else q);
          q = (if 6 \<le> length parts then q\<lparr> q_session := nat (atoi (parts ! 5) mod 256) \<rparr> else q)
      in q\<lparr> q_valid := True \<rparr>)"

definition acceptable :: "broker_quote \<Rightarrow> bool" where
  "acceptable q \<longleftrightarrow> 0 < q_bid q \<and> 0 < q_ask q \<and> q_bid q \<le> q_ask q"

text \<open>
  The buffer of a receive loop as cells, \<open>None\<close> while uninitialised. \<open>zmq_recv\<close> stores at most the given number
  of bytes and returns the size of the whole message.
\<close>

datatype memory_error = OutOfBounds | Indeterminate

definition zmq_into :: "nat \<Rightarrow> str \<Rightarrow> char option list \<Rightarrow> nat \<times> char option list" where
  "zmq_into room msg buf = (let got = take room msg in (length msg, map Some got @ drop (length got) buf))"

definition store_at :: "nat \<Rightarrow> char \<Rightarrow> char option list \<Rightarrow> memory_error + char option list" where
  "store_at i c buf = (if i < length buf then Inr (buf[i := Some c]) else Inl OutOfBounds)"

text \<open>\<open>std::string (buf)\<close>, up to the first NUL, and \<open>std::string (buf, n)\<close>.\<close>

fun text_at :: "char option list \<Rightarrow> memory_error + str" where
  "text_at [] = Inl OutOfBounds"
| "text_at (None # cs) = Inl Indeterminate"
| "text_at (Some c # cs) = (if c = CHR 0x00 then Inr [] else map_sum id ((#) c) (text_at cs))"

fun bytes_at :: "nat \<Rightarrow> char option list \<Rightarrow> memory_error + str" where
  "bytes_at 0 cs = Inr []"
| "bytes_at (Suc n) [] = Inl OutOfBounds"
| "bytes_at (Suc n) (None # cs) = (case bytes_at n cs of Inl OutOfBounds \<Rightarrow> Inl OutOfBounds | _ \<Rightarrow> Inl Indeterminate)"
| "bytes_at (Suc n) (Some c # cs) = map_sum id ((#) c) (bytes_at n cs)"

text \<open>
  One received message. The code writes a NUL at the index of the returned size. What an earlier
  message left in the buffer is behind that NUL, so that the cells are taken as fresh.
\<close>

definition broker_recv :: "nat \<Rightarrow> str \<Rightarrow> str \<Rightarrow> broker_quote ring \<Rightarrow> memory_error + broker_quote ring" where
  "broker_recv k topic msg r =
     (let (n, buf) = zmq_into (4096 - 1) msg (replicate 4096 None) in
      case store_at n CHR 0x00 buf of
        Inl e \<Rightarrow> Inl e
      | Inr buf \<Rightarrow> (case text_at buf of
          Inl e \<Rightarrow> Inl e
        | Inr frame \<Rightarrow> let q = parse_quote topic frame in
            Inr (if acceptable q then snd (push k q r) else r)))"

section \<open>The MT5 bridge\<close>

text \<open>
  One received message, up to the call of \<open>try_dll_execute\<close>: the order to execute. The frame is built from
  the returned size, which may exceed the bytes that were stored.
\<close>

definition mt5_recv :: "str \<Rightarrow> memory_error + exec_signal option" where
  "mt5_recv msg =
     (let (n, buf) = zmq_into (1024 - 1) msg (replicate 1024 None) in
      if n = 0 then Inr None
      else case bytes_at n buf of
        Inl e \<Rightarrow> Inl e
      | Inr frame \<Rightarrow> Inr (decode_signal frame))"

text \<open>The whole round: an order that was read is executed.\<close>

definition bridge_round :: "bool \<Rightarrow> dll_answers \<times> sock_answers \<Rightarrow> str \<Rightarrow> bool option \<Rightarrow> memory_error + executed list \<times> bool option" where
  "bridge_round windows x msg dll =
     map_sum id (\<lambda>sig. case sig of
        None \<Rightarrow> ([], dll)
      | Some s \<Rightarrow> (let (e, dll) = bridge_execute windows (fst x) (snd x) s dll in ([e], dll))) (mt5_recv msg)"

section \<open>What the buffers hold\<close>

lemma text_at_bytes: "text_at (map Some s @ Some CHR 0x00 # cs) = Inr (c_str s)"
  by (induction s) (simp_all add: c_str_def)

lemma text_stored:
  assumes "length msg < 4096"
  shows "\<exists>b buf. zmq_into (4096 - 1) msg (replicate 4096 None) = (length msg, b) \<and> store_at (length msg) CHR 0x00 b = Inr buf \<and>
    text_at buf = Inr (c_str msg)"
proof -
  obtain n where n: "4096 - length msg = Suc n" using assms by (metis Suc_diff_Suc)
  then have "map Some msg @ drop (length msg) (replicate 4096 None) = map Some msg @ None # replicate n None"
    by (simp)
  then have "(map Some msg @ drop (length msg) (replicate 4096 None))[length msg := Some CHR 0x00] =
      map Some msg @ Some CHR 0x00 # replicate n None" by (simp add: list_update_append)
  then show ?thesis using assms by (simp add: zmq_into_def store_at_def Let_def text_at_bytes)
qed

lemma broker_recv_eq:
  "broker_recv k topic msg r =
     (if 4096 \<le> length msg then Inl OutOfBounds
      else let q = parse_quote topic (c_str msg) in Inr (if acceptable q then snd (push k q r) else r))"
proof (cases "4096 \<le> length msg")
  case True
  then show ?thesis by (simp add: broker_recv_def zmq_into_def store_at_def Let_def)
next
  case False
  then show ?thesis using text_stored [of msg] by (auto simp: broker_recv_def Let_def)
qed

lemma bytes_at_all: "bytes_at (length s) (map Some s @ cs) = Inr s"
  by (induction s) simp_all

lemma bytes_at_more:
  "bytes_at (length s + Suc n) (map Some s @ [None]) = (if n = 0 then Inl Indeterminate else Inl OutOfBounds)"
  by (induction s) (cases n; simp)+

lemma zmq_into_long:
  assumes "length msg = room + Suc n"
  shows "zmq_into room msg (replicate (Suc room) None) = (room + Suc n, map Some (take room msg) @ [None])"
proof -
  have "drop room (replicate (Suc room) (None :: char option)) = replicate (Suc room - room) None" by (rule drop_replicate)
  then have "drop room (replicate (Suc room) (None :: char option)) = [None]" by simp
  then show ?thesis using assms by (simp add: zmq_into_def Let_def min_def del: replicate.simps)
qed

text \<open>A message of 1024 bytes has its last one read uninitialised, a longer one reads behind the buffer.\<close>

lemma mt5_recv_eq:
  "mt5_recv msg =
     (if msg = [] then Inr None
      else if 1024 < length msg then Inl OutOfBounds
      else if length msg = 1024 then Inl Indeterminate
      else Inr (decode_signal msg))"
proof (cases "length msg < 1024")
  case True
  then show ?thesis using bytes_at_all [of msg] by (simp add: mt5_recv_def zmq_into_def Let_def)
next
  case False
  define n where "n = length msg - 1024"
  have len: "length msg = 1023 + Suc n" using False by (simp add: n_def)
  have z: "zmq_into (1024 - 1) msg (replicate 1024 None) = (1023 + Suc n, map Some (take 1023 msg) @ [None])"
    using zmq_into_long [OF len] by simp
  have "length (take 1023 msg) = 1023" using len by simp
  then have "mt5_recv msg = (if n = 0 then Inl Indeterminate else Inl OutOfBounds)"
    unfolding mt5_recv_def z using bytes_at_more [of "take 1023 msg" n] by simp
  moreover have "n = 0 \<longleftrightarrow> length msg = 1024" "n \<noteq> 0 \<longleftrightarrow> 1024 < length msg" "msg \<noteq> []" using False by (auto simp: n_def)
  ultimately show ?thesis by auto
qed

section \<open>The dispatcher routes every signal once, in order\<close>

definition route :: "config \<Rightarrow> signal \<Rightarrow> exec_effect list" where
  "route cfg s =
     (if \<not> within_slippage_cap s
      then [Tel (LogWarn (''\"exec\":{\"rejected\":\"slippage_cap\",\"edge\":'' @ fmt_f 6 (edge s) @ ''}''))]
      else publish_signal s @ (if fix_enabled (fix_c cfg) then [FixSend s] else []))"

datatype disp_op = Submit signal | Turn

fun disp_run :: "config \<Rightarrow> disp_op list \<Rightarrow> dispatcher \<Rightarrow> exec_effect list \<times> dispatcher" where
  "disp_run cfg [] d = ([], d)"
| "disp_run cfg (Submit s # ops) d = disp_run cfg ops (submit s d)"
| "disp_run cfg (Turn # ops) d = (case worker_turn cfg d of
     None \<Rightarrow> disp_run cfg ops d
   | Some (d', eff) \<Rightarrow> (let (effs, d'') = disp_run cfg ops d' in (eff @ effs, d'')))"

fun submitted :: "disp_op list \<Rightarrow> signal list" where
  "submitted [] = []"
| "submitted (Submit s # ops) = s # submitted ops"
| "submitted (Turn # ops) = submitted ops"

lemma worker_turn_route:
  assumes "d_running d" "\<not> d_stopped d"
  shows "worker_turn cfg d = (case d_queue d of [] \<Rightarrow> Some (d, []) | s # q \<Rightarrow> Some (d\<lparr> d_queue := q \<rparr>, route cfg s))"
  using assms by (auto simp: worker_turn_def route_def Let_def split: list.splits)

lemma disp_run_route:
  assumes "d_running d" "\<not> d_stopped d"
  shows "\<exists>ds. fst (disp_run cfg ops d) = concat (map (route cfg) ds) \<and>
    ds @ d_queue (snd (disp_run cfg ops d)) = d_queue d @ submitted ops"
  using assms
proof (induction ops arbitrary: d)
  case (Cons op ops)
  show ?case
  proof (cases op)
    case (Submit s)
    then show ?thesis using Cons.IH [of "submit s d"] Cons.prems by (simp add: submit_def)
  next
    case Turn
    show ?thesis
    proof (cases "d_queue d")
      case qn: Nil
      then show ?thesis using Cons.IH [OF Cons.prems] Turn
        by (simp add: worker_turn_route [OF Cons.prems] split: prod.splits)
    next
      case qc: (Cons s q)
      obtain effs d'' where r: "disp_run cfg ops (d\<lparr> d_queue := q \<rparr>) = (effs, d'')"
        by (cases "disp_run cfg ops (d\<lparr> d_queue := q \<rparr>)")
      have "d_running (d\<lparr> d_queue := q \<rparr>)" "\<not> d_stopped (d\<lparr> d_queue := q \<rparr>)"
        using Cons.prems by simp_all
      from Cons.IH [OF this] r obtain ds where
        "effs = concat (map (route cfg) ds)" "ds @ d_queue d'' = q @ submitted ops" by auto
      then show ?thesis using Turn r qc
        by (intro exI [of _ "s # ds"]) (simp add: worker_turn_route [OF Cons.prems])
    qed
  qed
qed simp

section \<open>Quotes on the wire\<close>

lemma split_field: "\<forall>c\<in>set f. c \<noteq> d \<Longrightarrow> split d (f @ d # s) = f # split d s"
  by (induction f) auto

lemma split_last: "\<forall>c\<in>set f. c \<noteq> d \<Longrightarrow> split d f = [f]"
  by (induction f) auto

lemma plain_no_comma: "\<forall>c\<in>set f. plain c \<Longrightarrow> \<forall>c\<in>set f. c \<noteq> CHR '',''"
  using plain_not_separator by blast

lemmas split_plain = split_field [OF plain_no_comma] split_last [OF plain_no_comma]

text \<open>The shape the subscriber documents: bid, ask, spread, time stamp, latency, session.\<close>

definition documented_frame :: "str \<Rightarrow> broker_quote \<Rightarrow> str" where
  "documented_frame topic q = topic @ ''|'' @ fmt_f 6 (q_bid q) @ '','' @ fmt_f 6 (q_ask q) @ '','' @
     fmt_f 6 (q_spread q) @ '','' @ show_int (q_ts_ms q) @ '','' @ show_int (q_latency_us q) @ '','' @
     show_int (int (q_session q))"

lemma parse_documented:
  assumes "isfinite (q_bid q)" "isfinite (q_ask q)" "isfinite (q_spread q)"
    and "- (2 ^ 63) \<le> q_ts_ms q" "q_ts_ms q < 2 ^ 63" "- (2 ^ 63) \<le> q_latency_us q" "q_latency_us q < 2 ^ 63"
    and "q_session q < 256"
  shows "parse_quote topic (documented_frame topic q) =
    \<lparr> q_ts_ms = q_ts_ms q, q_bid = decimals 6 (q_bid q), q_ask = decimals 6 (q_ask q),
      q_spread = decimals 6 (q_spread q), q_latency_us = q_latency_us q, q_valid = True, q_session = q_session q \<rparr>"
proof -
  let ?body = "fmt_f 6 (q_bid q) @ '','' @ fmt_f 6 (q_ask q) @ '','' @ fmt_f 6 (q_spread q) @ '','' @
    show_int (q_ts_ms q) @ '','' @ show_int (q_latency_us q) @ '','' @ show_int (int (q_session q))"
  have "quote_body topic (documented_frame topic q) = ?body"
    by (simp add: quote_body_def documented_frame_def)
  moreover have "split CHR '','' ?body = [fmt_f 6 (q_bid q), fmt_f 6 (q_ask q), fmt_f 6 (q_spread q),
      show_int (q_ts_ms q), show_int (q_latency_us q), show_int (int (q_session q))]"
    by (simp add: split_plain fmt_f_plain show_int_plain)
  ultimately show ?thesis using assms
    by (simp add: parse_quote_def fv_def atof_fmt_f atoll_show_int atoi_show_int quote0_def)
qed

text \<open>What the engine's own publisher sends is read with the fields shifted by one.\<close>

lemma parse_published:
  assumes "isfinite (q_bid q)" "isfinite (q_ask q)" "- (2 ^ 63) \<le> q_ts_ms q" "q_ts_ms q < 2 ^ 63"
    and "length (quote_frame q) < 159"
  shows "q_ask (parse_quote ''quote'' (quote_frame q)) = decimals 6 (q_bid q) \<and>
    q_spread (parse_quote ''quote'' (quote_frame q)) = decimals 6 (q_ask q) \<and>
    q_bid (parse_quote ''quote'' (quote_frame q)) = atof (show_int (q_ts_ms q))"
proof -
  let ?tail = "fmt_f 6 (q_spread q) @ '','' @ show_int (q_latency_us q) @ '','' @
     show_int (int (q_session q)) @ '','' @ flag (q_valid q)"
  let ?body = "show_int (q_ts_ms q) @ '','' @ fmt_f 6 (q_bid q) @ '','' @ fmt_f 6 (q_ask q) @ '','' @ ?tail"
  have fr: "quote_frame q = ''quote'' @ ''|'' @ ?body"
    using assms(5) by (simp add: quote_frame_def min_def split: if_splits)
  have "quote_body ''quote'' (quote_frame q) = ?body"
    unfolding fr quote_body_def find_sub_here by simp
  moreover obtain ps where "split CHR '','' ?tail = fmt_f 6 (q_spread q) # ps"
    by (simp add: split_plain fmt_f_plain show_int_plain)
  then have "split CHR '','' ?body = show_int (q_ts_ms q) # fmt_f 6 (q_bid q) # fmt_f 6 (q_ask q) #
      fmt_f 6 (q_spread q) # ps"
    by (simp add: split_plain fmt_f_plain show_int_plain)
  ultimately show ?thesis using assms
    by (auto simp: parse_quote_def fv_def atof_fmt_f quote0_def Let_def)
qed

lemma broker_recv_ok:
  assumes "ring_ok k r" "broker_recv k topic msg r = Inr r'"
  shows "ring_ok k r'"
  using assms push_ok [OF assms(1)] by (auto simp: broker_recv_eq Let_def split: if_splits)

end
