(* ===== verification/Feeds.thy ===== *)
theory Feeds
  imports Config Ring
begin

text \<open>
  The WebSocket readers (\<open>src/binance_ws.cpp\<close>, \<open>src/bybit_ws.cpp\<close>, \<open>src/deribit_ws.cpp\<close>): the
  handlers that turn a message into a tick on the ring, and the session object that is
  recreated with a growing delay. The JSON library and the clock are arguments: a parser
  gives the fields a handler reads, with the defaults the code asks for, or \<open>None\<close> for any
  exception. The asynchronous operations of Boost.Asio are events, one per completion.
\<close>

section \<open>Message handlers\<close>

definition feed_tick :: "int64 \<Rightarrow> venue \<Rightarrow> double \<Rightarrow> double \<Rightarrow> double \<Rightarrow> tick" where
  "feed_tick now v b a l = tick0\<lparr> ts_ms := now, bid := b, ask := a, last_px := l, venue := v, valid := True \<rparr>"

text \<open>The fields \<open>e\<close>, \<open>b\<close> and \<open>a\<close> of a book ticker. An exception of \<open>stod\<close> is swallowed.\<close>

definition binance_handle :: "(str \<Rightarrow> (str \<times> str \<times> str) option) \<Rightarrow> nat \<Rightarrow> int64 \<Rightarrow> str \<Rightarrow> tick ring \<Rightarrow> tick ring" where
  "binance_handle json k now msg r = (case json msg of
     None \<Rightarrow> r
   | Some (e, b, a) \<Rightarrow>
       if e \<noteq> ''bookTicker'' then r
       else (case (stod b, stod a) of
           (Inr b', Inr a') \<Rightarrow>
             let l = (if 0 < b' \<and> 0 < a' then (b' + a') * lit 0.5 else 0)
             in snd (push k (feed_tick now Binance b' a' l) r)
         | _ \<Rightarrow> r))"

record bybit_msg =
  by_op :: str
  by_topic :: str
  by_bid :: "str option"
  by_ask :: "str option"

definition kPong :: str where
  "kPong = ''{\"op\":\"pong\"}''"

text \<open>\<open>by_bid\<close> and \<open>by_ask\<close> are \<open>b[0][0]\<close> and \<open>a[0][0]\<close>, \<open>None\<close> where the guards return.\<close>

definition bybit_handle :: "(str \<Rightarrow> bybit_msg option) \<Rightarrow> config \<Rightarrow> nat \<Rightarrow> int64 \<Rightarrow> str \<Rightarrow> tick ring \<Rightarrow> str \<times> tick ring" where
  "bybit_handle json cfg k now msg r = (case json msg of
     None \<Rightarrow> ([], r)
   | Some j \<Rightarrow>
       if by_op j = ''ping'' then (kPong, r)
       else if by_topic j \<noteq> bybit_channel (feeds cfg) @ ''.'' @ bybit_symbol (feeds cfg) then ([], r)
       else (case (by_bid j, by_ask j) of
           (Some b, Some a) \<Rightarrow> (case (stod b, stod a) of
               (Inr b', Inr a') \<Rightarrow>
                 if b' \<le> 0 \<or> a' \<le> 0 then ([], r)
                 else ([], snd (push k (feed_tick now Bybit b' a' ((b' + a') * lit 0.5)) r))
             | _ \<Rightarrow> ([], r))
         | _ \<Rightarrow> ([], r)))"

text \<open>The number \<open>params.data.price\<close>, 0 where the member is missing.\<close>

definition deribit_handle :: "(str \<Rightarrow> double option) \<Rightarrow> nat \<Rightarrow> int64 \<Rightarrow> str \<Rightarrow> tick ring \<Rightarrow> tick ring" where
  "deribit_handle json k now msg r = (case json msg of
     None \<Rightarrow> r
   | Some price \<Rightarrow> if price \<le> 0 then r else snd (push k (feed_tick now Deribit price price price) r))"

definition bybit_subscribe_frame :: "config \<Rightarrow> str" where
  "bybit_subscribe_frame cfg = ''{\"op\":\"subscribe\",\"args\":[\"'' @ bybit_channel (feeds cfg) @ ''.'' @
     bybit_symbol (feeds cfg) @ ''\"]}''"

definition deribit_subscribe_request :: "str \<Rightarrow> int \<Rightarrow> str" where
  "deribit_subscribe_request channel i = ''{\"jsonrpc\":\"2.0\",\"method\":\"public/subscribe\",\"id\":'' @
     show_int i @ '',\"params\":{\"channels\":[\"'' @ channel @ ''\"]}}''"

section \<open>Sessions and reconnection\<close>

datatype feed_kind = KBinance | KBybit | KDeribit

datatype feed_phase = Resolve | Connect | TlsHandshake | WsHandshake | Subscribe | Read

text \<open>The chain of completion handlers of each session.\<close>

fun binance_phase :: "feed_phase \<Rightarrow> feed_phase" where
  "binance_phase Resolve = Connect"
| "binance_phase Connect = TlsHandshake"
| "binance_phase TlsHandshake = WsHandshake"
| "binance_phase WsHandshake = Read"
| "binance_phase p = Read"

fun bybit_phase :: "feed_phase \<Rightarrow> feed_phase" where
  "bybit_phase Resolve = Connect"
| "bybit_phase Connect = TlsHandshake"
| "bybit_phase TlsHandshake = WsHandshake"
| "bybit_phase WsHandshake = Subscribe"
| "bybit_phase Subscribe = Read"
| "bybit_phase Read = Read"

fun deribit_phase :: "feed_phase \<Rightarrow> feed_phase" where
  "deribit_phase Resolve = Connect"
| "deribit_phase Connect = TlsHandshake"
| "deribit_phase TlsHandshake = WsHandshake"
| "deribit_phase WsHandshake = Subscribe"
| "deribit_phase Subscribe = Read"
| "deribit_phase Read = Read"

fun next_phase :: "feed_kind \<Rightarrow> feed_phase \<Rightarrow> feed_phase" where
  "next_phase KBinance = binance_phase"
| "next_phase KBybit = bybit_phase"
| "next_phase KDeribit = deribit_phase"

text \<open>
  \<open>sessions\<close> are the session objects that an outstanding operation keeps alive, with what they
  wait for; \<open>pongs\<close> counts the pong writes under way (Bybit), \<open>timers\<close> the reconnect timers.
  The delay is kept in seconds, in milliseconds for Bybit.
\<close>

record feed =
  f_stopped :: bool
  sessions :: "feed_phase list"
  pongs :: nat
  timers :: "double list"
  delay :: double
  f_ring :: "tick ring"

text \<open>\<open>run ()\<close> up to the reactor.\<close>

definition feed_idle :: "double \<Rightarrow> tick ring \<Rightarrow> feed" where
  "feed_idle d r = \<lparr> f_stopped = False, sessions = [], pongs = 0, timers = [], delay = d, f_ring = r \<rparr>"

definition spawn_session :: "feed \<Rightarrow> feed" where
  "spawn_session f = (if f_stopped f then f else f\<lparr> sessions := sessions f @ [Resolve] \<rparr>)"

definition binance_run :: "tick ring \<Rightarrow> feed" where
  "binance_run r = spawn_session (feed_idle (lit 2.0) r)"

definition bybit_run :: "tick ring \<Rightarrow> feed" where
  "bybit_run r = spawn_session (feed_idle (lit 2000.0) r)"

definition deribit_run :: "tick ring \<Rightarrow> feed" where
  "deribit_run r = spawn_session (feed_idle (lit 2.0) r)"

fun feed_start :: "feed_kind \<Rightarrow> tick ring \<Rightarrow> feed" where
  "feed_start KBinance = binance_run"
| "feed_start KBybit = bybit_run"
| "feed_start KDeribit = deribit_run"

definition schedule_reconnect :: "double \<Rightarrow> feed \<Rightarrow> feed" where
  "schedule_reconnect d f = (if f_stopped f then f else f\<lparr> timers := timers f @ [d] \<rparr>)"

definition binance_fail :: "feed \<Rightarrow> feed" where
  "binance_fail f =
     (if f_stopped f then f
      else let d = delay f in schedule_reconnect d (f\<lparr> delay := dmin (delay f * lit 2.0) (lit 60.0) \<rparr>))"

definition bybit_fail :: "feed \<Rightarrow> feed" where
  "bybit_fail f =
     (if f_stopped f then f
      else let d = delay f / lit 1000.0 in schedule_reconnect d (f\<lparr> delay := dmin (delay f * lit 2.0) (lit 60000.0) \<rparr>))"

definition deribit_fail :: "feed \<Rightarrow> feed" where
  "deribit_fail f =
     (if f_stopped f then f
      else let d = delay f in schedule_reconnect d (f\<lparr> delay := dmin (delay f * lit 2.0) (lit 60.0) \<rparr>))"

fun feed_fail :: "feed_kind \<Rightarrow> feed \<Rightarrow> feed" where
  "feed_fail KBinance = binance_fail"
| "feed_fail KBybit = bybit_fail"
| "feed_fail KDeribit = deribit_fail"

text \<open>What the three have in common.\<close>

definition base_delay :: "feed_kind \<Rightarrow> double" where
  "base_delay kd = (if kd = KBybit then lit 2000.0 else lit 2.0)"

definition max_delay :: "feed_kind \<Rightarrow> double" where
  "max_delay kd = (if kd = KBybit then lit 60000.0 else lit 60.0)"

lemma feed_start_eq: "feed_start kd r = \<lparr> f_stopped = False, sessions = [Resolve], pongs = 0, timers = [],
    delay = base_delay kd, f_ring = r \<rparr>"
  by (cases kd) (simp_all add: binance_run_def bybit_run_def deribit_run_def spawn_session_def feed_idle_def base_delay_def)

lemma feed_fail_eq: "feed_fail kd f =
   (if f_stopped f then f
    else let d = (if kd = KBybit then delay f / lit 1000.0 else delay f)
         in f\<lparr> delay := dmin (delay f * lit 2.0) (max_delay kd), timers := timers f @ [d] \<rparr>)"
  by (cases kd) (simp_all add: binance_fail_def bybit_fail_def deribit_fail_def schedule_reconnect_def max_delay_def Let_def)

declare feed_start.simps [simp del] feed_fail.simps [simp del]

definition remove_at :: "nat \<Rightarrow> 'a list \<Rightarrow> 'a list" where
  "remove_at i xs = take i xs @ drop (Suc i) xs"

datatype feed_input =
    Done nat
  | Failed nat
  | Message nat str
  | PongDone
  | PongFailed
  | TimerFired nat bool
  | Stop

text \<open>
  One event, for a handler of messages that gives the reply and the new ring. An event
  that cannot happen in the state is \<open>None\<close>.
\<close>

fun feed_event :: "feed_kind \<Rightarrow> (str \<Rightarrow> tick ring \<Rightarrow> str \<times> tick ring) \<Rightarrow> feed_input \<Rightarrow> feed \<Rightarrow> feed option" where
  "feed_event kd h (Done i) f =
     (if i < length (sessions f) \<and> sessions f ! i \<noteq> Read
      then Some (f\<lparr> sessions := (sessions f)[i := next_phase kd (sessions f ! i)] \<rparr>) else None)"
| "feed_event kd h (Failed i) f =
     (if i < length (sessions f) then Some (feed_fail kd (f\<lparr> sessions := remove_at i (sessions f) \<rparr>)) else None)"
| "feed_event kd h (Message i m) f =
     (if i < length (sessions f) \<and> sessions f ! i = Read
      then let (reply, r) = h m (f_ring f); f1 = f\<lparr> f_ring := r \<rparr>
           in Some (if kd = KBybit \<and> reply \<noteq> [] then f1\<lparr> pongs := pongs f1 + 1 \<rparr> else f1)
      else None)"
| "feed_event kd h PongDone f = (if 0 < pongs f then Some (f\<lparr> pongs := pongs f - 1 \<rparr>) else None)"
| "feed_event kd h PongFailed f =
     (if 0 < pongs f then Some (feed_fail kd (f\<lparr> pongs := pongs f - 1 \<rparr>)) else None)"
| "feed_event kd h (TimerFired i cancelled) f =
     (if i < length (timers f)
      then let f1 = f\<lparr> timers := remove_at i (timers f) \<rparr>
           in Some (if cancelled \<or> f_stopped f1 then f1 else spawn_session f1)
      else None)"
| "feed_event kd h Stop f = Some (f\<lparr> f_stopped := True \<rparr>)"

fun feed_run :: "feed_kind \<Rightarrow> (str \<Rightarrow> tick ring \<Rightarrow> str \<times> tick ring) \<Rightarrow> feed_input list \<Rightarrow> feed \<Rightarrow> feed option" where
  "feed_run kd h [] f = Some f"
| "feed_run kd h (e # es) f = (case feed_event kd h e f of None \<Rightarrow> None | Some f' \<Rightarrow> feed_run kd h es f')"

fun_cases feed_event_Failed: "feed_event kd h (Failed i) f = Some f'"

lemma length_remove_at: "i < length xs \<Longrightarrow> length (remove_at i xs) = length xs - 1"
  by (simp add: remove_at_def)

section \<open>Ticks\<close>

text \<open>A handler pushes at most one tick, which is valid and of the handler's venue.\<close>

definition pushes_at_most :: "nat \<Rightarrow> (tick \<Rightarrow> bool) \<Rightarrow> tick ring \<Rightarrow> tick ring \<Rightarrow> bool" where
  "pushes_at_most k P r r' \<longleftrightarrow> r' = r \<or> (\<exists>t. P t \<and> r' = snd (push k t r))"

lemma stod_nan_or: "stod s = Inr x \<Longrightarrow> \<exists>e t. strtod s = Some (x, e, t)"
  by (auto simp: stod_def split: option.splits if_splits prod.splits)

lemma pushes_same [simp]: "pushes_at_most k P r r"
  by (simp add: pushes_at_most_def)

lemma pushes_push: "P t \<Longrightarrow> pushes_at_most k P r (snd (push k t r))"
  by (auto simp: pushes_at_most_def)

lemma feed_tick_simps [simp]:
  "ts_ms (feed_tick now v b a l) = now" "venue (feed_tick now v b a l) = v" "valid (feed_tick now v b a l)"
  "bid (feed_tick now v b a l) = b" "ask (feed_tick now v b a l) = a" "last_px (feed_tick now v b a l) = l"
  by (simp_all add: feed_tick_def)

lemma handlers_push:
  "pushes_at_most k (\<lambda>t. valid t \<and> venue t = Binance \<and> ts_ms t = now) r (binance_handle bj k now msg r)"
  "pushes_at_most k (\<lambda>t. valid t \<and> venue t = Bybit \<and> ts_ms t = now \<and> \<not> bid t \<le> 0 \<and> \<not> ask t \<le> 0) r
     (snd (bybit_handle yj cfg k now msg r))"
  "pushes_at_most k (\<lambda>t. valid t \<and> venue t = Deribit \<and> ts_ms t = now \<and> bid t = ask t \<and> last_px t = bid t \<and> \<not> bid t \<le> 0) r
     (deribit_handle dj k now msg r)"
  unfolding binance_handle_def bybit_handle_def deribit_handle_def Let_def
  by (auto split: option.split prod.split sum.split intro!: pushes_push)

section \<open>The delay only grows\<close>

lemma feed_event_delay:
  assumes "feed_event kd h e f = Some f'"
  shows "delay f' = delay f \<or> delay f' = dmin (delay f * lit 2.0) (max_delay kd)"
  using assms by (cases e) (auto simp: feed_fail_eq spawn_session_def Let_def split: if_splits prod.splits)

text \<open>The delays the doubling passes through.\<close>

definition delay_steps :: "feed_kind \<Rightarrow> double list" where
  "delay_steps kd = (if kd = KBybit
     then map lit [2000, 4000, 8000, 16000, 32000, 60000]
     else map lit [2, 4, 8, 16, 32, 60])"

fun failures :: "feed_input list \<Rightarrow> nat" where
  "failures [] = 0"
| "failures (Failed _ # es) = Suc (failures es)"
| "failures (PongFailed # es) = Suc (failures es)"
| "failures (_ # es) = failures es"

lemma delay_steps_next:
  "n \<le> 5 \<Longrightarrow> dmin (delay_steps kd ! n * lit 2.0) (max_delay kd) = delay_steps kd ! min (Suc n) 5"
proof -
  assume "n \<le> 5"
  then consider "n = 0" | "n = 1" | "n = 2" | "n = 3" | "n = 4" | "n = 5" by linarith
  then show ?thesis
    by cases (simp_all add: delay_steps_def max_delay_def dmin_def exact_simps)
qed

lemma feed_run_delay:
  assumes "feed_run kd h es f = Some f'" "delay f = delay_steps kd ! n" "n \<le> 5" "\<not> f_stopped f" "Stop \<notin> set es"
  shows "delay f' = delay_steps kd ! min (n + failures es) 5 \<and> \<not> f_stopped f'"
  using assms
proof (induction es arbitrary: f n)
  case (Cons e es)
  then obtain f1 where f1: "feed_event kd h e f = Some f1" "feed_run kd h es f1 = Some f'"
    by (auto split: option.splits)
  have st: "\<not> f_stopped f1"
    using f1(1) Cons.prems by (cases e) (auto simp: feed_fail_eq spawn_session_def Let_def split: if_splits prod.splits)
  show ?case
  proof (cases "failures [e]")
    case 0
    then have "delay f1 = delay f"
      using f1(1) by (cases e) (auto simp: spawn_session_def Let_def split: if_splits prod.splits)
    moreover have "failures (e # es) = failures es" using 0 by (cases e) auto
    ultimately show ?thesis using Cons.IH [OF f1(2)] Cons.prems st by simp
  next
    case (Suc m)
    then have "delay f1 = dmin (delay f * lit 2.0) (max_delay kd)"
      using f1(1) Cons.prems(4) by (cases e) (auto simp: feed_fail_eq Let_def split: if_splits)
    then have "delay f1 = delay_steps kd ! min (Suc n) 5" using Cons.prems delay_steps_next by simp
    moreover have "failures (e # es) = Suc (failures es)" using Suc by (cases e) auto
    ultimately show ?thesis using Cons.IH [OF f1(2), of "min (Suc n) 5"] Cons.prems st
      by (simp add: min_add_distrib_left) (simp add: min_def split: if_splits)
  qed
qed simp

section \<open>One session at a time\<close>

lemma feed_one_session:
  assumes "kd \<noteq> KBybit" "feed_run kd h es f = Some f'"
    "length (sessions f) + length (timers f) \<le> 1" "pongs f = 0"
  shows "length (sessions f') + length (timers f') \<le> 1 \<and> pongs f' = 0"
  using assms(2-)
proof (induction es arbitrary: f)
  case (Cons e es)
  then obtain f1 where f1: "feed_event kd h e f = Some f1" "feed_run kd h es f1 = Some f'"
    by (auto split: option.splits)
  have "length (sessions f1) + length (timers f1) \<le> 1 \<and> pongs f1 = 0"
    using f1(1) Cons.prems(2,3) assms(1)
    by (cases e; cases "timers f"; cases "sessions f")
      (auto simp: feed_fail_eq spawn_session_def length_remove_at Let_def split: if_splits prod.splits)
  then show ?case using Cons.IH [OF f1(2)] by simp
qed simp

end
