(* ===== verification/Engine.thy ===== *)
theory Engine
  imports Aggregator Strategy Execution Feeds
begin

text \<open>
  The strategy worker of \<open>src/main.cpp\<close>: one turn of \<open>strategy_loop\<close> over the three rings, the
  aggregator, the strategy and the dispatcher, and histories of turns interleaved with
  the ticks and quotes that the reader threads push. The clock \<open>now_ms ()\<close> counts the
  milliseconds since its first call.
\<close>

record engine =
  fast_ring :: "tick ring"
  deribit_ring :: "tick ring"
  broker_ring :: "broker_quote ring"
  aggr :: aggregator
  e_strat :: strategy
  disp :: dispatcher

definition engine_init :: "nat \<Rightarrow> engine" where
  "engine_init k = \<lparr> fast_ring = ring_init k tick0, deribit_ring = ring_init k tick0,
     broker_ring = ring_init k quote0, aggr = aggregator_init, e_strat = strategy_init,
     disp = disp_start dispatcher_init \<rparr>"

text \<open>What a turn does once it has a lead price.\<close>

definition decide :: "nat \<Rightarrow> config \<Rightarrow> int64 \<Rightarrow> double \<Rightarrow> engine \<Rightarrow> engine \<times> tel_event list" where
  "decide k cfg now lead e = (case pop k (broker_ring e) of
     None \<Rightarrow> (e, [])
   | Some (q, br) \<Rightarrow>
       let e1 = e\<lparr> broker_ring := br \<rparr> in
       if \<not> quote_is_valid q then (e1, [])
       else
         let (d, th, ev1) = evaluate cfg lead q;
             (sig, s, ev2) = maybe_emit cfg d lead q now (e_strat e1);
             e2 = e1\<lparr> e_strat := s \<rparr>
         in (case sig of None \<Rightarrow> e2 | Some g \<Rightarrow> e2\<lparr> disp := submit g (disp e2) \<rparr>, ev1 @ ev2))"

definition strategy_turn :: "nat \<Rightarrow> (int64 \<Rightarrow> int \<times> int) \<Rightarrow> config \<Rightarrow> int64 \<Rightarrow> engine \<Rightarrow> (engine \<times> tel_event list) option" where
  "strategy_turn k localtime cfg now e = do {
     (lead, fr, dr, a, ev) \<leftarrow> agg_update k localtime cfg (fast_ring e) (deribit_ring e) now (aggr e);
     let e1 = e\<lparr> fast_ring := fr, deribit_ring := dr, aggr := a \<rparr>;
     case lead of
       None \<Rightarrow> Some (e1, ev)
     | Some l \<Rightarrow> (let (e2, ev2) = decide k cfg now l e1 in Some (e2, ev @ ev2)) }"

text \<open>A history: the readers' pushes, the worker's turns at their times, the dispatcher's turns.\<close>

datatype engine_op = FastTick tick | DeribitTick tick | Quote broker_quote | StrategyTurn int64 | DispatchTurn

fun engine_step :: "nat \<Rightarrow> (int64 \<Rightarrow> int \<times> int) \<Rightarrow> config \<Rightarrow> engine_op \<Rightarrow> engine \<Rightarrow> (engine \<times> exec_effect list) option" where
  "engine_step k lt cfg (FastTick t) e = Some (e\<lparr> fast_ring := snd (push k t (fast_ring e)) \<rparr>, [])"
| "engine_step k lt cfg (DeribitTick t) e = Some (e\<lparr> deribit_ring := snd (push k t (deribit_ring e)) \<rparr>, [])"
| "engine_step k lt cfg (Quote q) e = Some (e\<lparr> broker_ring := snd (push k q (broker_ring e)) \<rparr>, [])"
| "engine_step k lt cfg (StrategyTurn now) e =
     map_option (\<lambda>(e', ev). (e', map Tel ev)) (strategy_turn k lt cfg now e)"
| "engine_step k lt cfg DispatchTurn e = (case worker_turn cfg (disp e) of
     None \<Rightarrow> Some (e, [])
   | Some (d, eff) \<Rightarrow> Some (e\<lparr> disp := d \<rparr>, eff))"

fun engine_run :: "nat \<Rightarrow> (int64 \<Rightarrow> int \<times> int) \<Rightarrow> config \<Rightarrow> engine_op list \<Rightarrow> engine \<Rightarrow> (engine \<times> exec_effect list) option" where
  "engine_run k lt cfg [] e = Some (e, [])"
| "engine_run k lt cfg (op # ops) e = do {
     (e1, eff1) \<leftarrow> engine_step k lt cfg op e;
     (e2, eff2) \<leftarrow> engine_run k lt cfg ops e1;
     Some (e2, eff1 @ eff2) }"

section \<open>Turns end and keep the rings\<close>

definition engine_ok :: "nat \<Rightarrow> engine \<Rightarrow> bool" where
  "engine_ok k e \<longleftrightarrow> ring_ok k (fast_ring e) \<and> ring_ok k (deribit_ring e) \<and> ring_ok k (broker_ring e) \<and>
     window_ok (aggr e) \<and> d_running (disp e) \<and> \<not> d_stopped (disp e)"

lemma engine_ok_init: "k < 64 \<Longrightarrow> engine_ok k (engine_init k)"
  by (simp add: engine_ok_def engine_init_def ring_init_ok window_ok_init disp_start_def dispatcher_init_def)

lemma decide_frame:
  assumes "decide k cfg now l e = (e', ev)"
  shows "fast_ring e' = fast_ring e" "deribit_ring e' = deribit_ring e" "aggr e' = aggr e"
    "ring_ok k (broker_ring e) \<Longrightarrow> ring_ok k (broker_ring e')"
    "d_running (disp e') = d_running (disp e)" "d_stopped (disp e') = d_stopped (disp e)"
    "\<exists>t. e_strat e' = e_strat e\<lparr> last_signal_ms := t \<rparr>"
proof -
  have none: "\<exists>t. s = s\<lparr> last_signal_ms := t \<rparr>" for s :: strategy
    by (intro exI [of _ "last_signal_ms s"]) simp
  have emit: "maybe_emit cfg d l q now s = (sig, s', ev') \<Longrightarrow> \<exists>t. s' = s\<lparr> last_signal_ms := t \<rparr>" for d q s sig s' ev'
    using none [of s] by (auto simp: maybe_emit_def split: if_splits prod.splits)
  show "fast_ring e' = fast_ring e" "deribit_ring e' = deribit_ring e" "aggr e' = aggr e"
    "ring_ok k (broker_ring e) \<Longrightarrow> ring_ok k (broker_ring e')"
    "d_running (disp e') = d_running (disp e)" "d_stopped (disp e') = d_stopped (disp e)"
    using assms pop_ok
    by (auto simp: decide_def submit_def Let_def split: option.splits prod.splits if_splits)
  show "\<exists>t. e_strat e' = e_strat e\<lparr> last_signal_ms := t \<rparr>"
    using assms none [of "e_strat e"]
    by (auto simp: decide_def submit_def Let_def split: option.splits prod.splits if_splits dest!: emit)
qed

lemma strategy_turn_ok:
  assumes "engine_ok k e"
  shows "\<exists>e' ev. strategy_turn k lt cfg now e = Some (e', ev) \<and> engine_ok k e' \<and>
    (\<exists>t. e_strat e' = e_strat e\<lparr> last_signal_ms := t \<rparr>)"
proof -
  have ok: "ring_ok k (fast_ring e)" "ring_ok k (deribit_ring e)" "window_ok (aggr e)"
    using assms by (simp_all add: engine_ok_def)
  obtain lead fr dr a ev where u: "agg_update k lt cfg (fast_ring e) (deribit_ring e) now (aggr e) = Some (lead, fr, dr, a, ev)"
    "ring_ok k fr" "ring_ok k dr" using agg_update_total [OF ok(1,2)] by blast
  have w: "window_ok a" by (rule window_ok_update [OF ok(3,1,2) u(1)])
  let ?e = "e\<lparr> fast_ring := fr, deribit_ring := dr, aggr := a \<rparr>"
  have e1: "engine_ok k ?e" using assms u w by (simp add: engine_ok_def)
  show ?thesis
  proof (cases lead)
    case None
    then show ?thesis using u e1
      by (intro exI [of _ ?e] exI [of _ ev] conjI exI [of _ "last_signal_ms (e_strat e)"]) (simp_all add: strategy_turn_def)
  next
    case (Some l)
    obtain e2 ev2 where d: "decide k cfg now l ?e = (e2, ev2)" by (cases "decide k cfg now l ?e")
    have "engine_ok k e2" using decide_frame [OF d] e1 unfolding engine_ok_def by simp
    then show ?thesis using u Some d decide_frame(7) [OF d] by (simp add: strategy_turn_def)
  qed
qed

lemma engine_step_ok:
  assumes "engine_ok k e"
  shows "\<exists>e' eff. engine_step k lt cfg op e = Some (e', eff) \<and> engine_ok k e' \<and>
    (\<exists>t. e_strat e' = e_strat e\<lparr> last_signal_ms := t \<rparr>)"
proof -
  have keep: "\<exists>t. e_strat e = e_strat e\<lparr> last_signal_ms := t \<rparr>"
    by (intro exI [of _ "last_signal_ms (e_strat e)"]) simp
  show ?thesis
  proof (cases op)
    case (StrategyTurn now)
    then show ?thesis using strategy_turn_ok [OF assms, of lt cfg now] by auto
  next
    case DispatchTurn
    then show ?thesis using assms keep worker_turn_route [of "disp e" cfg]
      by (auto simp: engine_ok_def split: list.splits)
  qed (use assms keep push_ok in \<open>auto simp: engine_ok_def\<close>)
qed

text \<open>The worker never reports a placed or closed order: only the time of the last signal moves.\<close>

lemma engine_run_ok:
  assumes "engine_ok k e"
  shows "\<exists>e' eff. engine_run k lt cfg ops e = Some (e', eff) \<and> engine_ok k e' \<and>
    (\<exists>t. e_strat e' = e_strat e\<lparr> last_signal_ms := t \<rparr>)"
  using assms
proof (induction ops arbitrary: e)
  case Nil
  then show ?case by (auto intro: exI [of _ "last_signal_ms (e_strat e)"])
next
  case (Cons op ops)
  obtain e1 eff1 t where 1: "engine_step k lt cfg op e = Some (e1, eff1)" "engine_ok k e1"
    "e_strat e1 = e_strat e\<lparr> last_signal_ms := t \<rparr>" using engine_step_ok [OF Cons.prems] by blast
  obtain e2 eff2 u where 2: "engine_run k lt cfg ops e1 = Some (e2, eff2)" "engine_ok k e2"
    "e_strat e2 = e_strat e1\<lparr> last_signal_ms := u \<rparr>" using Cons.IH [OF 1(2)] by blast
  show ?case using 1 2 by (intro exI [of _ e2] exI [of _ "eff1 @ eff2"]) (auto intro: exI [of _ u])
qed

section \<open>The dry-run flag\<close>

definition with_dry_run :: "bool \<Rightarrow> config \<Rightarrow> config" where
  "with_dry_run b cfg = cfg\<lparr> run := (run cfg)\<lparr> dry_run := b \<rparr> \<rparr>"

lemma with_dry_run_simps [simp]:
  "strat (with_dry_run b cfg) = strat cfg" "weighting (with_dry_run b cfg) = weighting cfg"
  "fix_c (with_dry_run b cfg) = fix_c cfg" "dry_run_symbol (run (with_dry_run b cfg)) = dry_run_symbol (run cfg)"
  "trade_amount (run (with_dry_run b cfg)) = trade_amount (run cfg)"
  by (simp_all add: with_dry_run_def)

lemma dry_run_evaluate [simp]: "evaluate (with_dry_run b cfg) = evaluate cfg"
  by (intro ext) (simp add: evaluate_def dynamic_threshold_def s_round4_def)

lemma dry_run_emit [simp]: "maybe_emit (with_dry_run b cfg) = maybe_emit cfg"
  by (intro ext) (simp add: maybe_emit_def make_signal_def can_trade_now_def interval_spent_def cooling_down_def s_round4_def)

lemma dry_run_weights [simp]:
  "in_us_hours lt (with_dry_run b cfg) = in_us_hours lt cfg" "weights (with_dry_run b cfg) = weights cfg"
  by (intro ext, simp add: in_us_hours_def weights_def)+

lemma dry_run_lead_of [simp]: "lead_of lt (with_dry_run b cfg) = lead_of lt cfg"
  unfolding lead_of_def dry_run_weights with_dry_run_simps by (rule refl)

lemma dry_run_lead [simp]: "agg_update k lt (with_dry_run b cfg) = agg_update k lt cfg"
  unfolding agg_update_def dry_run_lead_of by (rule refl)

lemma dry_run_decide [simp]: "decide k (with_dry_run b cfg) = decide k cfg"
  unfolding decide_def dry_run_evaluate dry_run_emit by (rule refl)

lemma dry_run_turns [simp]:
  "strategy_turn k lt (with_dry_run b cfg) = strategy_turn k lt cfg" "worker_turn (with_dry_run b cfg) = worker_turn cfg"
  unfolding strategy_turn_def worker_turn_def dry_run_lead dry_run_decide with_dry_run_simps by (rule refl)+

lemma dry_run_step: "engine_step k lt (with_dry_run b cfg) op e = engine_step k lt cfg op e"
  by (cases op) simp_all

lemma dry_run_run: "engine_run k lt (with_dry_run b cfg) ops e = engine_run k lt cfg ops e"
  by (induction ops arbitrary: e) (simp_all add: dry_run_step)

section \<open>A clock behind the ticks\<close>

lemma windows_grow:
  assumes "ring_ok k rb" "ring_ok k rd" "agg_update k lt cfg rb rd now a = Some (lead, rb', rd', a', ev)"
    and "\<forall>t\<in>set (binance_win a) \<union> set (ring_items k rb) \<union> set (deribit_win a) \<union> set (ring_items k rd). now \<le> ts_ms t"
  shows "binance_win a' = binance_win a @ filter valid (ring_items k rb)"
    "deribit_win a' = deribit_win a @ filter valid (ring_items k rd)"
proof -
  have "filter (\<lambda>t. valid t \<and> \<not> stale now t) xs = filter valid xs" if "\<forall>t\<in>set xs. now \<le> ts_ms t" for xs
    using that stale_behind by (intro filter_cong) auto
  then show "binance_win a' = binance_win a @ filter valid (ring_items k rb)"
    "deribit_win a' = deribit_win a @ filter valid (ring_items k rd)"
    using assms(4) unfolding agg_update_windows [OF assms(1-3)] by (auto intro!: prune_old_behind)
qed

end
