(* ===== verification/BenchRing.thy ===== *)
theory BenchRing
  imports Telemetry "HOL-Library.Word"
begin

text \<open>
  The benchmark module of \<open>src/telemetry.cpp\<close>: the allocation of the sample ring, the
  stamps (\<open>bench_mark\<close>) and the statistics over the newest samples (\<open>bench_stats\<close>). The
  clocks are arguments; the counters keep their widths (\<open>size_t\<close> and \<open>uint64_t\<close> as 64-bit
  words, \<open>seq\<close> of a sample truncated to 32 bits).
\<close>

section \<open>Sorting doubles\<close>

text \<open>\<open>std::sort\<close> of an array of doubles with \<open><\<close>.\<close>

fun dinsert :: "double \<Rightarrow> double list \<Rightarrow> double list" where
  "dinsert x [] = [x]"
| "dinsert x (y # ys) = (if y < x then y # dinsert x ys else x # y # ys)"

definition dsort :: "double list \<Rightarrow> double list" where
  "dsort xs = foldr dinsert xs []"

lemma mset_dinsert [simp]: "mset (dinsert x xs) = add_mset x (mset xs)"
  by (induction xs) auto

lemma mset_dsort [simp]: "mset (dsort xs) = mset xs"
  by (induction xs) (simp_all add: dsort_def)

lemma set_dsort [simp]: "set (dsort xs) = set xs"
  by (metis mset_dsort set_mset_mset)

lemma length_dsort [simp]: "length (dsort xs) = length xs"
  by (metis mset_dsort size_mset)

lemma set_dinsert [simp]: "set (dinsert x xs) = insert x (set xs)"
  by (induction xs) auto

lemma sorted_dinsert:
  assumes "sorted_wrt (\<le>) xs" "\<not> is_nan x" "\<forall>y\<in>set xs. \<not> is_nan y"
  shows "sorted_wrt (\<le>) (dinsert x xs)"
  using assms
proof (induction xs)
  case (Cons y ys)
  show ?case
  proof (cases "y < x")
    case True
    then show ?thesis using Cons by (auto intro: dless_imp_le)
  next
    case False
    then have "x \<le> y" using Cons.prems by (simp add: not_dless)
    then show ?thesis using Cons.prems False by (auto intro: dle_trans)
  qed
qed simp

lemma sorted_dsort: "\<forall>y\<in>set xs. \<not> is_nan y \<Longrightarrow> sorted_wrt (\<le>) (dsort xs)"
proof (induction xs)
  case (Cons x xs)
  then show ?case using sorted_dinsert [of "dsort xs" x] by (simp add: dsort_def)
    (metis dsort_def set_dsort)
qed (simp add: dsort_def)

lemma dsort_nth_mono:
  assumes "\<forall>y\<in>set xs. \<not> is_nan y" "i \<le> j" "j < length xs"
  shows "dsort xs ! i \<le> dsort xs ! j"
proof (cases "i = j")
  case True
  have "dsort xs ! j \<in> set xs" using assms(3) by (metis length_dsort nth_mem set_dsort)
  then show ?thesis using assms(1) True by (simp add: dle_refl)
next
  case False
  then show ?thesis using sorted_dsort [OF assms(1)] assms by (simp add: sorted_wrt_iff_nth_less)
qed

section \<open>Allocation\<close>

text \<open>
  \<open>while ((cap << 1) <= bytes) cap <<= 1;\<close> on \<open>std::size_t\<close>. The shift wraps, so the loop
  is a partial function: for \<open>bytes \<ge> 2 ^ 63\<close> it reaches 0 and stays there.
\<close>

partial_function (option) cap_loop :: "64 word \<Rightarrow> 64 word \<Rightarrow> 64 word option" where
  "cap_loop bytes cap = (if push_bit 1 cap \<le> bytes then cap_loop bytes (push_bit 1 cap) else Some cap)"

declare cap_loop.simps [code]

definition kDefaultRingBytes :: "64 word" where
  "kDefaultRingBytes = push_bit 20 1"

record sample =
  s_ts_ns :: int64
  s_tsc :: "64 word"
  s_stage :: stage
  s_seq :: "32 word"
  s_valid :: bool

record bench_ring =
  ring_base :: "sample list option"
  ring_mask :: "64 word"
  ring_head :: "64 word"
  ring_pub :: "64 word"
  ring_seq :: "64 word"
  ring_tsc_hz :: double

definition bench_init :: bench_ring where
  "bench_init = \<lparr> ring_base = None, ring_mask = 0, ring_head = 0, ring_pub = 0, ring_seq = 0, ring_tsc_hz = 0 \<rparr>"

text \<open>A fresh anonymous mapping is zeroed.\<close>

definition sample0 :: sample where
  "sample0 = \<lparr> s_ts_ns = 0, s_tsc = 0, s_stage = TickRx, s_seq = 0, s_valid = False \<rparr>"

definition calibrate_tsc_hz :: "64 word \<Rightarrow> int64 \<Rightarrow> 64 word \<Rightarrow> int64 \<Rightarrow> double" where
  "calibrate_tsc_hz t0 n0 t1 n1 = (let dn = n1 - n0 in
     if dn \<le> 0 then 0 else double_of_int (uint (t1 - t0)) * lit 1000000000 / double_of_int dn)"

text \<open>The mapping takes \<open>cap * sizeof (LatencySample)\<close> bytes, a product of \<open>size_t\<close> that wraps.\<close>

definition byte_len :: "64 word \<Rightarrow> 64 word" where
  "byte_len cap = cap * 32"

definition alloc_bench_ring :: "(64 word \<Rightarrow> bool) \<Rightarrow> double \<Rightarrow> 64 word \<Rightarrow> bench_ring \<Rightarrow> (bool \<times> bench_ring) option" where
  "alloc_bench_ring mmap_ok tsc_hz bytes b =
     (if ring_base b \<noteq> None then Some (True, b)
      else let bytes' = (if bytes = 0 then kDefaultRingBytes else bytes) in
        case cap_loop bytes' 1 of
          None \<Rightarrow> None
        | Some cap \<Rightarrow>
            if \<not> mmap_ok (byte_len cap) then Some (False, b)
            else Some (True, b\<lparr> ring_base := Some (replicate (unat cap) sample0), ring_mask := cap - 1,
                              ring_head := 0, ring_pub := 0, ring_seq := 0, ring_tsc_hz := tsc_hz \<rparr>))"

section \<open>Stamps and statistics\<close>

definition bench_mark :: "int64 \<Rightarrow> 64 word \<Rightarrow> stage \<Rightarrow> bench_ring \<Rightarrow> bench_ring" where
  "bench_mark now_ns tsc st b = (case ring_base b of
     None \<Rightarrow> b
   | Some base \<Rightarrow>
       let idx = ring_head b AND ring_mask b;
           s = \<lparr> s_ts_ns = now_ns, s_tsc = tsc, s_stage = st, s_seq = ucast (ring_seq b), s_valid = True \<rparr>
       in b\<lparr> ring_base := Some (base[unat idx := s]), ring_head := ring_head b + 1,
             ring_seq := ring_seq b + 1, ring_pub := ring_pub b + 1 \<rparr>)"

record bench_stats_t =
  st_samples :: "64 word"
  avg_dt_ns :: double
  min_dt_ns :: double
  max_dt_ns :: double
  p50_dt_ns :: double
  p99_dt_ns :: double
  first_seq :: "64 word"
  last_seq :: "64 word"
  tsc_hz :: double

definition stats0 :: bench_stats_t where
  "stats0 = \<lparr> st_samples = 0, avg_dt_ns = 0, min_dt_ns = 0, max_dt_ns = 0, p50_dt_ns = 0,
     p99_dt_ns = 0, first_seq = 0, last_seq = 0, tsc_hz = 0 \<rparr>"

record stats_acc =
  a_dt :: "double list"
  a_sum :: double
  a_mn :: double
  a_mx :: double
  a_prev :: int64
  a_first :: "64 word"
  a_last :: "64 word"

definition acc0 :: stats_acc where
  "acc0 = \<lparr> a_dt = [], a_sum = 0, a_mn = lit 1000000000000000000, a_mx = - lit 1000000000000000000,
     a_prev = 0, a_first = 0, a_last = 0 \<rparr>"

definition stats_step :: "sample \<Rightarrow> stats_acc \<Rightarrow> stats_acc" where
  "stats_step s a =
     (if \<not> s_valid s then a
      else if a_prev a = 0 then a\<lparr> a_prev := s_ts_ns s, a_last := ucast (s_seq s), a_first := ucast (s_seq s) \<rparr>
      else let delta = a_prev a - s_ts_ns s; d = double_of_int delta;
               a1 = (if 0 \<le> delta
                 then a\<lparr> a_dt := a_dt a @ [d], a_sum := a_sum a + d,
                         a_mn := (if d < a_mn a then d else a_mn a),
                         a_mx := (if a_mx a < d then d else a_mx a) \<rparr>
                 else a)
           in a1\<lparr> a_prev := s_ts_ns s, a_first := ucast (s_seq s) \<rparr>)"

definition kMaxWindow :: size where
  "kMaxWindow = 4096"

definition newest :: "sample list \<Rightarrow> 64 word \<Rightarrow> 64 word \<Rightarrow> size \<Rightarrow> sample list" where
  "newest base msk pub n = map (\<lambda>k. base ! unat ((pub - 1 - of_nat k) AND msk)) [0..<n]"

definition p99_index :: "size \<Rightarrow> size" where
  "p99_index n = nat (int64_of (lit 0.99 * double_of_int (int (n - 1))))"

definition bench_stats :: "size \<Rightarrow> bench_ring \<Rightarrow> bench_stats_t" where
  "bench_stats window b = (case ring_base b of
     None \<Rightarrow> stats0
   | Some base \<Rightarrow>
       let st = stats0\<lparr> st_samples := ring_pub b, tsc_hz := ring_tsc_hz b \<rparr> in
       if ring_pub b = 0 then st
       else let n = min (unat (ring_pub b)) (min window kMaxWindow);
                a = fold stats_step (newest base (ring_mask b) (ring_pub b) n) acc0;
                st1 = st\<lparr> first_seq := a_first a, last_seq := a_last a \<rparr>;
                m = length (a_dt a); dt = dsort (a_dt a)
            in if m = 0 then st1\<lparr> st_samples := 0 \<rparr>
               else st1\<lparr> min_dt_ns := a_mn a, max_dt_ns := a_mx a,
                        avg_dt_ns := a_sum a / double_of_int (int m),
                        p50_dt_ns := dt ! (m div 2), p99_dt_ns := dt ! p99_index m,
                        st_samples := of_nat m \<rparr>)"

section \<open>The capacity loop\<close>

lemma unat_pow2:
  assumes "j < 64"
  shows "unat (2 ^ j :: 64 word) = 2 ^ j"
proof -
  have "(2 :: nat) ^ j < 2 ^ 64" using assms by (rule power_strict_increasing) simp
  then have "unat (of_nat (2 ^ j) :: 64 word) = 2 ^ j" by (simp only: unat_of_nat take_bit_eq_mod) simp
  then show ?thesis by simp
qed

lemma unat_pow: "j < 64 \<Longrightarrow> unat (push_bit j 1 :: 64 word) = 2 ^ j"
  by (simp add: push_bit_eq_mult unat_pow2)

lemma unat_shift: "j < 63 \<Longrightarrow> unat (push_bit 1 (push_bit j 1 :: 64 word)) = 2 ^ Suc j"
  using unat_pow [of "Suc j"] by (simp only: push_bit_push_bit plus_1_eq_Suc Suc_less_eq)

lemma cap_loop_pow:
  assumes "j \<le> 62" "unat bytes < 2 ^ 63" "2 ^ j \<le> unat bytes"
  shows "\<exists>i. j \<le> i \<and> i \<le> 62 \<and> cap_loop bytes (push_bit j 1) = Some (push_bit i 1) \<and>
    2 ^ i \<le> unat bytes \<and> unat bytes < 2 ^ Suc i"
  using assms
proof (induction "62 - j" arbitrary: j)
  case 0
  then have j: "j = 62" by simp
  have "\<not> push_bit 1 (push_bit 62 1) \<le> bytes"
    using 0 unat_shift [of 62] by (simp add: j word_le_nat_alt del: push_bit_push_bit)
  then have "cap_loop bytes (push_bit 62 1) = Some (push_bit 62 1)" by (subst cap_loop.simps) (simp only: if_False)
  then show ?case using 0 j by (intro exI [of _ 62]) simp
next
  case (Suc n)
  have sh: "push_bit 1 (push_bit j 1 :: 64 word) = push_bit (Suc j) 1" by (simp only: push_bit_push_bit plus_1_eq_Suc)
  show ?case
  proof (cases "2 ^ Suc j \<le> unat bytes")
    case True
    have n: "n = 62 - Suc j" "Suc j \<le> 62" using Suc.hyps(2) by simp_all
    obtain i where i: "Suc j \<le> i" "i \<le> 62" "cap_loop bytes (push_bit (Suc j) 1) = Some (push_bit i 1)"
        "2 ^ i \<le> unat bytes" "unat bytes < 2 ^ Suc i"
      using Suc.hyps(1) [OF n Suc.prems(2) True] by blast
    moreover have "push_bit 1 (push_bit j 1) \<le> bytes"
      using True unat_shift [of j] Suc.hyps(2) by (simp add: word_le_nat_alt del: push_bit_push_bit)
    ultimately have "cap_loop bytes (push_bit j 1) = Some (push_bit i 1)"
      by (subst cap_loop.simps) (simp only: if_True sh)
    then show ?thesis using i by (intro exI [of _ i]) simp
  next
    case False
    then have "\<not> push_bit 1 (push_bit j 1) \<le> bytes"
      using unat_shift [of j] Suc.hyps(2) by (simp add: word_le_nat_alt del: push_bit_push_bit)
    then have "cap_loop bytes (push_bit j 1) = Some (push_bit j 1)" by (subst cap_loop.simps) simp
    then show ?thesis using False Suc.prems by (intro exI [of _ j]) simp
  qed
qed

lemma cap_loop_result: "cap_loop bytes c = Some r \<Longrightarrow> \<not> push_bit 1 r \<le> bytes \<and> (\<exists>i. r = push_bit i c)"
proof (rule cap_loop.raw_induct [where P = "\<lambda>b c r. \<not> push_bit 1 r \<le> b \<and> (\<exists>i. r = push_bit i c)"])
  fix f b c r
  assume IH: "\<And>b c r. f b c = Some r \<Longrightarrow> \<not> push_bit 1 r \<le> b \<and> (\<exists>i. r = push_bit i c)"
    and r: "(if push_bit 1 c \<le> b then f b (push_bit 1 c) else Some c) = Some (r :: 64 word)"
  show "\<not> push_bit 1 r \<le> b \<and> (\<exists>i. r = push_bit i c)"
  proof (cases "push_bit 1 c \<le> b")
    case True
    then obtain i where "\<not> push_bit 1 r \<le> b" "r = push_bit i (push_bit 1 c)"
      using IH r by (metis (no_types))
    then show ?thesis by (metis push_bit_push_bit)
  next
    case False
    then show ?thesis using r by (auto intro: exI [of _ 0])
  qed
qed

lemma cap_loop_diverges:
  assumes "2 ^ 63 \<le> unat bytes"
  shows "cap_loop bytes 1 = None"
proof (rule ccontr)
  assume "cap_loop bytes 1 \<noteq> None"
  then obtain r i where r: "\<not> push_bit 1 r \<le> bytes" "r = push_bit i 1" using cap_loop_result by blast
  have sh: "push_bit 1 (push_bit i 1 :: 64 word) = push_bit (Suc i) 1"
    by (simp only: push_bit_push_bit plus_1_eq_Suc)
  have "unat (push_bit (Suc i) 1 :: 64 word) \<le> 2 ^ 63"
  proof (cases "Suc i < 64")
    case True
    then have "(2 :: nat) ^ Suc i \<le> 2 ^ 63" by (intro power_increasing) simp_all
    then show ?thesis using unat_pow [OF True] by simp
  next
    case False
    then have "push_bit (Suc i) (1 :: 64 word) = 0" by (intro bit_eqI) (auto simp: bit_push_bit_iff bit_1_iff simp del: push_bit_of_1)
    then show ?thesis by simp
  qed
  then show False using r assms by (simp add: sh word_le_nat_alt del: push_bit_of_1)
qed

lemma cap_loop_some:
  assumes "0 < unat bytes" "unat bytes < 2 ^ 63"
  shows "\<exists>i\<le>62. cap_loop bytes 1 = Some (push_bit i 1) \<and> 2 ^ i \<le> unat bytes \<and> unat bytes < 2 ^ Suc i"
  using cap_loop_pow [of 0 bytes] assms by simp

section \<open>The order statistics\<close>

lemma lit_not_nan [simp]: "\<not> is_nan (lit r)" "\<not> is_nan (double_of_int i)"
  by (simp_all add: is_nan_fval_of fval_of_simps double_of_int_def)

lemma minus_not_nan [simp]: "is_nan (- x) \<longleftrightarrow> is_nan x"
  by (simp add: is_nan_fval_of fval_of_simps) (cases "fval_of x"; simp)

text \<open>Every collected delta lies between the running minimum and maximum.\<close>

definition acc_ok :: "stats_acc \<Rightarrow> bool" where
  "acc_ok a \<longleftrightarrow> \<not> is_nan (a_mn a) \<and> \<not> is_nan (a_mx a) \<and>
     (\<forall>d\<in>set (a_dt a). \<not> is_nan d \<and> a_mn a \<le> d \<and> d \<le> a_mx a)"

lemma acc_ok_0 [inv_intros]: "acc_ok acc0"
  by (simp add: acc_ok_def acc0_def)

lemma acc_ok_step [inv_intros]:
  assumes "acc_ok a"
  shows "acc_ok (stats_step s a)"
proof -
  have "\<not> is_nan (double_of_int (a_prev a - s_ts_ns s))" by simp
  then show ?thesis using assms
    by (auto simp: acc_ok_def stats_step_def Let_def not_dless dle_refl
        intro: dle_trans dless_imp_le)
qed

lemma acc_ok_fold: "acc_ok a \<Longrightarrow> acc_ok (fold stats_step ss a)"
  by (induction ss arbitrary: a) (simp_all add: acc_ok_step)

lemma stats_step_length: "length (a_dt (stats_step s a)) \<le> Suc (length (a_dt a))"
  by (simp add: stats_step_def Let_def)

lemma stats_fold_length: "length (a_dt (fold stats_step ss a)) \<le> length (a_dt a) + length ss"
proof (induction ss arbitrary: a)
  case (Cons s ss)
  then show ?case using stats_step_length [of s a] by (simp add: le_trans [OF Cons.IH])
qed simp

lemma exact_of_nat: "n \<le> 2 ^ 53 \<Longrightarrow> exact (of_nat n)"
proof -
  assume "n \<le> 2 ^ 53"
  then have "\<bar>int n\<bar> \<le> 2 ^ 53" by simp
  from exact_dyadic [OF this, of 0] show ?thesis by simp
qed

lemma p99_index_bounds:
  assumes "3 \<le> n" "n \<le> kMaxWindow"
  shows "n div 2 \<le> p99_index n \<and> p99_index n < n"
proof -
  define m c r where "m = n - 1" and "c = fl64 (99 / 100)" and "r = fl64 (c * of_nat m)"
  have m: "m \<le> 4095" "n = Suc m" "2 \<le> m" using assms by (simp_all add: m_def kMaxWindow_def)
  have em: "exact (of_nat m)" "exact (of_nat (n div 2))" using m by (auto intro!: exact_of_nat)
  have ex: "exact (3 / 4)" "exact 1" by (simp_all add: exact_simps)
  have c: "3 / 4 \<le> c" "c \<le> 1"
    unfolding c_def using d64.above [of "3 / 4" "99 / 100"] d64.below [of 1 "99 / 100"] ex
    by (simp_all only: exact_def)
  then have "\<bar>c\<bar> < huge" using ex by (auto simp: exact_def)
  then have fc: "fval_of (lit (99 / 100)) = VFin c" by (simp add: fval_of_simps rnd64_Fin c_def)
  have "of_nat (n div 2) \<le> c * of_nat m"
  proof -
    have "of_nat (n div 2) \<le> (3 / 4 :: rat) * of_nat m"
    proof -
      have "4 * (n div 2) \<le> 3 * m" using m by linarith
      then have "rat_of_nat (4 * (n div 2)) \<le> of_nat (3 * m)" by (simp only: of_nat_le_iff)
      then show ?thesis by simp
    qed
    also have "\<dots> \<le> c * of_nat m" using c by (intro mult_right_mono) simp_all
    finally show ?thesis .
  qed
  then have r1: "of_nat (n div 2) \<le> r" unfolding r_def using em by (intro d64.above) (simp_all add: exact_def)
  have "c * of_nat m \<le> of_nat m" using c mult_right_mono [of c 1 "of_nat m"] by simp
  then have r2: "r \<le> of_nat m" unfolding r_def using em by (intro d64.below) (simp_all add: exact_def)
  have "rat_of_nat m \<le> 4095" using m by simp
  then have r4095: "r \<le> 4095" using r2 by simp
  have "\<bar>r\<bar> < huge" using r1 r2 em by (auto simp: exact_def)
  then have "fval_of (lit (99 / 100) * double_of_int (int m)) = VFin r"
    using fval_of_exact [OF em(1)] by (simp add: fval_of_simps(2-) fc double_of_int_def rnd64_Fin r_def)
  moreover have "0 \<le> r" using r1 by (meson of_nat_0_le_iff order_trans)
  moreover have fl: "int (n div 2) \<le> \<lfloor>r\<rfloor>" "\<lfloor>r\<rfloor> \<le> int m"
    using r1 r2 by (simp_all add: le_floor_iff floor_le_iff)
  ultimately have "int64_of (lit (99 / 100) * double_of_int (int m)) = \<lfloor>r\<rfloor>"
    using m r4095 by (simp add: int64_of_def trunc_rat_def Let_def)
  then have "p99_index n = nat \<lfloor>r\<rfloor>" by (simp add: p99_index_def m_def [symmetric] del: One_nat_def)
  then show ?thesis using fl m(2) by linarith
qed

lemma stats_ordered:
  assumes "ring_base b \<noteq> None" "ring_pub b \<noteq> 0"
    and a: "a = fold stats_step (newest (the (ring_base b)) (ring_mask b) (ring_pub b)
              (min (unat (ring_pub b)) (min window kMaxWindow))) acc0"
    and n: "3 \<le> length (a_dt a)"
  shows "min_dt_ns (bench_stats window b) \<le> p50_dt_ns (bench_stats window b)"
    "p50_dt_ns (bench_stats window b) \<le> p99_dt_ns (bench_stats window b)"
    "p99_dt_ns (bench_stats window b) \<le> max_dt_ns (bench_stats window b)"
proof -
  let ?n = "length (a_dt a)"
  have ok: "acc_ok a" unfolding a by (rule acc_ok_fold [OF acc_ok_0])
  have "?n \<le> kMaxWindow"
    using stats_fold_length [of "newest (the (ring_base b)) (ring_mask b) (ring_pub b)
      (min (unat (ring_pub b)) (min window kMaxWindow))" acc0] unfolding a
    by (simp add: acc0_def newest_def)
  from p99_index_bounds [OF n this] have idx: "?n div 2 \<le> p99_index ?n" "p99_index ?n < ?n" by simp_all
  have st: "bench_stats window b = stats0\<lparr> st_samples := of_nat ?n, tsc_hz := ring_tsc_hz b,
      first_seq := a_first a, last_seq := a_last a, min_dt_ns := a_mn a, max_dt_ns := a_mx a,
      avg_dt_ns := a_sum a / double_of_int (int ?n),
      p50_dt_ns := dsort (a_dt a) ! (?n div 2), p99_dt_ns := dsort (a_dt a) ! p99_index ?n \<rparr>"
    using assms n by (auto simp: bench_stats_def Let_def)
  have mem: "dsort (a_dt a) ! i \<in> set (a_dt a)" if "i < ?n" for i
    using that by (metis length_dsort nth_mem set_dsort)
  show "min_dt_ns (bench_stats window b) \<le> p50_dt_ns (bench_stats window b)"
    using ok mem [of "?n div 2"] n unfolding st by (simp add: acc_ok_def)
  show "p50_dt_ns (bench_stats window b) \<le> p99_dt_ns (bench_stats window b)"
    using ok dsort_nth_mono [OF _ idx] unfolding st by (simp add: acc_ok_def)
  show "p99_dt_ns (bench_stats window b) \<le> max_dt_ns (bench_stats window b)"
    using ok mem [OF idx(2)] unfolding st by (simp add: acc_ok_def)
qed

section \<open>The ring holds the newest stamps\<close>

text \<open>A stamp as the thread that makes it sees it: the two clocks and the stage.\<close>

type_synonym stamp = "int64 \<times> 64 word \<times> stage"

definition mark_all :: "stamp list \<Rightarrow> bench_ring \<Rightarrow> bench_ring" where
  "mark_all ms b = fold (\<lambda>(now, tsc, st). bench_mark now tsc st) ms b"

definition sample_of :: "nat \<Rightarrow> stamp \<Rightarrow> sample" where
  "sample_of i m = (case m of (now, tsc, st) \<Rightarrow>
     \<lparr> s_ts_ns = now, s_tsc = tsc, s_stage = st, s_seq = of_nat i, s_valid = True \<rparr>)"

definition bench_holds :: "nat \<Rightarrow> stamp list \<Rightarrow> bench_ring \<Rightarrow> bool" where
  "bench_holds j ms b \<longleftrightarrow> (\<exists>base. ring_base b = Some base \<and> length base = 2 ^ j \<and> j < 64 \<and>
     ring_mask b = 2 ^ j - 1 \<and> ring_head b = of_nat (length ms) \<and> ring_pub b = of_nat (length ms) \<and>
     ring_seq b = of_nat (length ms) \<and>
     (\<forall>i < length ms. length ms - i \<le> 2 ^ j \<longrightarrow> base ! (i mod 2 ^ j) = sample_of i (ms ! i)))"

lemma len64: "LENGTH(64) = 64"
  by simp

lemma masked_index:
  assumes "j < 64"
  shows "unat ((of_nat n :: 64 word) AND (2 ^ j - 1)) = n mod 2 ^ j"
proof -
  have "(2 :: nat) ^ j dvd 2 ^ 64" using assms by (intro le_imp_power_dvd) simp
  then have n: "n mod 2 ^ 64 mod 2 ^ j = n mod 2 ^ j" by (rule mod_mod_cancel)
  have "(1 :: 64 word) \<le> 2 ^ j" using unat_pow2 [OF assms] by (simp add: word_le_nat_alt)
  then have m: "unat (2 ^ j - 1 :: 64 word) = 2 ^ j - 1" by (simp add: unat_sub unat_pow2 assms)
  show ?thesis using and_kMask [of "n mod 2 ^ 64" j]
    by (simp only: unsigned_and_eq m kMask_def unat_of_nat) (simp only: n len64)
qed

lemma bench_holds_mark:
  assumes "bench_holds j ms b"
  shows "bench_holds j (ms @ [(now, tsc, st)]) (bench_mark now tsc st b)"
proof -
  obtain base where b: "ring_base b = Some base" "length base = 2 ^ j" "j < 64" "ring_mask b = 2 ^ j - 1"
    "ring_head b = of_nat (length ms)" "ring_pub b = of_nat (length ms)" "ring_seq b = of_nat (length ms)"
    and old: "\<And>i. i < length ms \<Longrightarrow> length ms - i \<le> 2 ^ j \<Longrightarrow> base ! (i mod 2 ^ j) = sample_of i (ms ! i)"
    using assms unfolding bench_holds_def by blast
  let ?s = "sample_of (length ms) (now, tsc, st)"
  have seq: "(ucast (of_nat (length ms) :: 64 word) :: 32 word) = of_nat (length ms)"
    by (simp add: unsigned_of_nat word_of_nat_eq_iff)
  have upd: "bench_mark now tsc st b = b\<lparr> ring_base := Some (base[length ms mod 2 ^ j := ?s]),
      ring_head := of_nat (Suc (length ms)), ring_seq := of_nat (Suc (length ms)), ring_pub := of_nat (Suc (length ms)) \<rparr>"
    using b by (simp add: bench_mark_def masked_index sample_of_def seq add.commute)
  have "base[length ms mod 2 ^ j := ?s] ! (i mod 2 ^ j) = sample_of i ((ms @ [(now, tsc, st)]) ! i)"
    if i: "i < Suc (length ms)" "Suc (length ms) - i \<le> 2 ^ j" for i
  proof (cases "i = length ms")
    case True
    then show ?thesis using b(2) by simp
  next
    case False
    then have "i mod 2 ^ j \<noteq> length ms mod 2 ^ j"
      using i mod_eq_dvd_iff_nat [of i "length ms" "2 ^ j"] nat_dvd_not_less [of "length ms - i" "2 ^ j"]
      by (metis Suc_diff_le Suc_leI less_SucE less_imp_le_nat not_less_eq_eq zero_less_diff linorder_not_le)
    then show ?thesis using False i old [of i] by (simp add: nth_append)
  qed
  then show ?thesis using b by (simp add: bench_holds_def upd)
qed

lemma bench_holds_all: "bench_holds j ms b \<Longrightarrow> bench_holds j (ms @ ms') (mark_all ms' b)"
proof (induction ms' arbitrary: ms b)
  case (Cons m ms')
  obtain now tsc st where m: "m = (now, tsc, st)" by (cases m) auto
  then show ?case using Cons.IH [OF bench_holds_mark [OF Cons.prems]] by (simp add: mark_all_def)
qed (simp add: mark_all_def)

lemma bench_holds_newest:
  assumes "bench_holds j ms b" "n \<le> length ms" "n \<le> 2 ^ j"
  shows "newest (the (ring_base b)) (ring_mask b) (ring_pub b) n =
    map (\<lambda>k. sample_of (length ms - 1 - k) (ms ! (length ms - 1 - k))) [0..<n]"
proof -
  have idx: "(of_nat (length ms) - 1 - of_nat k :: 64 word) = of_nat (length ms - 1 - k)" if "k < n" for k
    using that assms(2) by (simp add: of_nat_diff)
  obtain base where b: "ring_base b = Some base" "j < 64" "ring_mask b = 2 ^ j - 1" "ring_pub b = of_nat (length ms)"
    and old: "\<And>i. i < length ms \<Longrightarrow> length ms - i \<le> 2 ^ j \<Longrightarrow> base ! (i mod 2 ^ j) = sample_of i (ms ! i)"
    using assms unfolding bench_holds_def by blast
  have "base ! unat ((of_nat (length ms) - 1 - of_nat k :: 64 word) AND (2 ^ j - 1)) =
      sample_of (length ms - 1 - k) (ms ! (length ms - 1 - k))" if "k < n" for k
    unfolding idx [OF that] masked_index [OF b(2)] using that assms(2,3) by (intro old) auto
  then show ?thesis by (simp add: newest_def b)
qed

section \<open>The percentiles are ordered\<close>

lemma percentiles_ordered:
  assumes "3 \<le> unat (st_samples (bench_stats window b))" "ring_base b \<noteq> None"
  shows "min_dt_ns (bench_stats window b) \<le> p50_dt_ns (bench_stats window b) \<and>
    p50_dt_ns (bench_stats window b) \<le> p99_dt_ns (bench_stats window b) \<and>
    p99_dt_ns (bench_stats window b) \<le> max_dt_ns (bench_stats window b)"
proof -
  obtain bs where bs: "ring_base b = Some bs" using assms(2) by blast
  define a where "a = fold stats_step (newest (the (ring_base b)) (ring_mask b) (ring_pub b)
    (min (unat (ring_pub b)) (min window kMaxWindow))) acc0"
  have pub: "ring_pub b \<noteq> 0" using assms(1) by (auto simp: bench_stats_def bs Let_def stats0_def)
  have "length (a_dt a) \<le> 4096"
    using stats_fold_length [of "newest bs (ring_mask b) (ring_pub b) (min (unat (ring_pub b)) (min window kMaxWindow))" acc0]
    by (simp add: a_def bs newest_def acc0_def kMaxWindow_def)
  then have "unat (of_nat (length (a_dt a)) :: 64 word) = length (a_dt a)"
    by (simp add: unsigned_of_nat take_bit_nat_eq_self)
  moreover have "st_samples (bench_stats window b) = of_nat (length (a_dt a))"
    using pub by (simp add: bench_stats_def bs Let_def a_def)
  ultimately have "3 \<le> length (a_dt a)" using assms(1) by simp
  from stats_ordered [OF assms(2) pub a_def this] show ?thesis by simp
qed

end
