(* ===== verification/ExecSim.thy ===== *)
theory ExecSim
  imports Strategy
begin

text \<open>
  \<open>include/backtest/execution_simulator.hpp\<close> and \<open>src/backtest/execution_simulator.cpp\<close>: one
  latent order, filled or rejected at the first quote after its delay.
\<close>

datatype pnl_model = Instant | HoldConvergence

record exec_params =
  delay_ms :: int
  slippage_pts :: double
  spread_markup_pts :: double
  commission_per_lot :: double
  spread_cap_pts :: double
  slippage_cap_pts :: double
  quantity :: double
  model :: pnl_model
  hold_tol_pts :: double
  hold_max_ms :: int
  hold_exit_markup_pts :: double
  hold_exit_slip_pts :: double

definition params_default :: exec_params where
  "params_default = \<lparr> delay_ms = 5, slippage_pts = 0, spread_markup_pts = 0, commission_per_lot = 0,
     spread_cap_pts = lit 100.0, slippage_cap_pts = lit 100.0, quantity = lit 1.0,
     model = HoldConvergence, hold_tol_pts = lit 0.05, hold_max_ms = 0,
     hold_exit_markup_pts = 0, hold_exit_slip_pts = 0 \<rparr>"

datatype reject_reason = SpreadCap | SlippageCap | InvalidPrice

record fill =
  filled :: bool
  rejected :: bool
  reject_reason :: "reject_reason option"
  f_side :: side
  f_signal_ts :: int64
  f_fill_ts :: int64
  f_target_ts :: int64
  f_signal_mark :: double
  f_signal_bid :: double
  f_signal_ask :: double
  f_exec_bid :: double
  f_exec_ask :: double
  f_price :: double
  f_commission :: double
  f_slippage :: double

definition fill0 :: fill where
  "fill0 = \<lparr> filled = False, rejected = False, reject_reason = None, f_side = NoSide, f_signal_ts = 0,
     f_fill_ts = 0, f_target_ts = 0, f_signal_mark = 0, f_signal_bid = 0, f_signal_ask = 0,
     f_exec_bid = 0, f_exec_ask = 0, f_price = 0, f_commission = 0, f_slippage = 0 \<rparr>"

record sim =
  params :: exec_params
  pending :: bool
  s_side :: side
  s_signal_ts :: int64
  s_target_ts :: int64
  s_lane_mid :: double
  s_lag_bid :: double
  s_lag_ask :: double

definition sim_init :: "exec_params \<Rightarrow> sim" where
  "sim_init p = \<lparr> params = p, pending = False, s_side = NoSide, s_signal_ts = 0, s_target_ts = 0,
     s_lane_mid = 0, s_lag_bid = 0, s_lag_ask = 0 \<rparr>"

definition sim_submit :: "side \<Rightarrow> int64 \<Rightarrow> double \<Rightarrow> double \<Rightarrow> double \<Rightarrow> sim \<Rightarrow> bool \<times> sim" where
  "sim_submit sd signal_ts signal_mid lag_bid lag_ask s =
     (if pending s then (False, s)
      else if sd \<noteq> Buy \<and> sd \<noteq> Sell then (False, s)
      else if lag_bid \<le> 0 \<or> lag_ask \<le> 0 \<or> lag_ask < lag_bid then (False, s)
      else (True, s\<lparr> pending := True, s_side := sd, s_signal_ts := signal_ts,
                     s_target_ts := signal_ts + delay_ms (params s), s_lane_mid := signal_mid,
                     s_lag_bid := lag_bid, s_lag_ask := lag_ask \<rparr>))"

definition sim_cancel :: "sim \<Rightarrow> sim" where
  "sim_cancel s = s\<lparr> pending := False \<rparr>"

definition modelled_price :: "exec_params \<Rightarrow> side \<Rightarrow> double \<Rightarrow> double \<Rightarrow> double" where
  "modelled_price p sd eb ea =
     (if sd = Buy then ea + spread_markup_pts p + slippage_pts p
      else eb - spread_markup_pts p - slippage_pts p)"

text \<open>\<open>None\<close> is \<open>false\<close>: nothing pending, or not yet due.\<close>

definition at_fill :: "int64 \<Rightarrow> double \<Rightarrow> double \<Rightarrow> sim \<Rightarrow> (fill \<times> sim) option" where
  "at_fill now eb ea s =
     (if \<not> pending s then None
      else if now < s_target_ts s then None
      else
        let p = params s;
            spread = ea - eb;
            out = fill0\<lparr> f_side := s_side s, f_signal_ts := s_signal_ts s, f_fill_ts := now,
                    f_target_ts := s_target_ts s, f_signal_mark := s_lane_mid s,
                    f_signal_bid := s_lag_bid s, f_signal_ask := s_lag_ask s,
                    f_exec_bid := eb, f_exec_ask := ea \<rparr>;
            s' = s\<lparr> pending := False \<rparr>
        in if spread_cap_pts p < spread
           then Some (out\<lparr> rejected := True, reject_reason := Some SpreadCap \<rparr>, s')
           else
             let price = modelled_price p (s_side s) eb ea;
                 out2 = out\<lparr> f_price := price, f_slippage := slippage_pts p,
                          f_commission := commission_per_lot p * quantity p \<rparr>
             in if slippage_cap_pts p < slippage_pts p
                then Some (out2\<lparr> rejected := True, reject_reason := Some SlippageCap \<rparr>, s')
                else if \<not> 0 < price \<or> \<not> isfinite price
                then Some (out2\<lparr> rejected := True, reject_reason := Some InvalidPrice \<rparr>, s')
                else Some (out2\<lparr> filled := True \<rparr>, s'))"

section \<open>Outcomes\<close>

lemma at_fill_outcome:
  assumes "at_fill now eb ea s = Some (f, s')"
  shows "filled f \<noteq> rejected f" "\<not> pending s'" "params s' = params s" "s_target_ts s \<le> now"
    "f_side f = s_side s" "f_exec_bid f = eb" "f_exec_ask f = ea" "f_fill_ts f = now"
  using assms by (auto simp: at_fill_def fill0_def Let_def split: if_splits)

lemma at_fill_filled:
  assumes "at_fill now eb ea s = Some (f, s')" "filled f"
  shows "\<not> spread_cap_pts (params s) < ea - eb" "\<not> slippage_cap_pts (params s) < slippage_pts (params s)"
    "0 < f_price f" "isfinite (f_price f)" "f_price f = modelled_price (params s) (s_side s) eb ea"
    "f_commission f = commission_per_lot (params s) * quantity (params s)"
  using assms by (auto simp: at_fill_def fill0_def Let_def split: if_splits)

lemma at_fill_None: "at_fill now eb ea s = None \<longleftrightarrow> \<not> pending s \<or> now < s_target_ts s"
  by (auto simp: at_fill_def Let_def)

lemma sim_submit_True:
  assumes "sim_submit sd ts m b a s = (True, s')"
  shows "\<not> pending s" "pending s'" "params s' = params s" "s_target_ts s' = ts + delay_ms (params s)"
    "s_side s' = sd" "sd = Buy \<or> sd = Sell"
  using assms by (auto simp: sim_submit_def split: if_splits)

lemma sim_submit_False: "sim_submit sd ts m b a s = (False, s') \<Longrightarrow> s' = s"
  by (auto simp: sim_submit_def split: if_splits)

text \<open>A fill is never better than the book: a buyer pays at least the ask, a seller gets at most the bid.\<close>

definition costs_ok :: "exec_params \<Rightarrow> bool" where
  "costs_ok p \<longleftrightarrow> 0 \<le> spread_markup_pts p \<and> 0 \<le> slippage_pts p \<and> 0 \<le> commission_per_lot p * quantity p"

lemma dsub_le:
  assumes "0 \<le> b" "\<not> is_nan (a - b)"
  shows "(a - b :: double) \<le> a"
proof -
  have "\<not> is_nan a" using assms by (cases "fval_of a"; cases "fval_of b") (auto simp: double_defs)
  show ?thesis
  proof (cases "fval_of a"; cases "fval_of b")
    fix x y
    assume ab: "fval_of a = VFin x" "fval_of b = VFin y"
    then have "rnd64 x = VFin x" using val_ok [of a] fval_of_ok [of a] by (simp add: rnd64_Fin fval_ok_def val_fval_of)
    moreover have "vle (rnd64 (x - y)) (rnd64 x)" using assms(1) ab by (intro rnd64_mono) (simp add: double_defs)
    ultimately show ?thesis using ab by (simp add: double_defs)
  qed (use assms \<open>\<not> is_nan a\<close> in \<open>auto simp: double_defs\<close>)
qed

lemma price_at_book:
  assumes "costs_ok p" "isfinite (modelled_price p sd eb ea)"
  shows "sd = Buy \<Longrightarrow> ea \<le> modelled_price p sd eb ea" "sd \<noteq> Buy \<Longrightarrow> modelled_price p sd eb ea \<le> eb"
proof -
  have c: "0 \<le> spread_markup_pts p" "0 \<le> slippage_pts p" using assms(1) by (simp_all add: costs_ok_def)
  show "ea \<le> modelled_price p sd eb ea" if "sd = Buy"
  proof -
    have f: "isfinite (ea + spread_markup_pts p + slippage_pts p)" using assms(2) that by (simp add: modelled_price_def)
    then have "isfinite (ea + spread_markup_pts p)" using finite_add by blast
    then have "ea \<le> ea + spread_markup_pts p" using c by (intro dadd_ge finite_not_nan)
    also have "\<dots> \<le> ea + spread_markup_pts p + slippage_pts p" using c f by (intro dadd_ge finite_not_nan)
    finally show ?thesis using that by (simp add: modelled_price_def)
  qed
  show "modelled_price p sd eb ea \<le> eb" if "sd \<noteq> Buy"
  proof -
    have f: "isfinite (eb - spread_markup_pts p - slippage_pts p)" using assms(2) that by (simp add: modelled_price_def)
    then have f1: "isfinite (eb - spread_markup_pts p)" using finite_sub by blast
    have "eb - spread_markup_pts p - slippage_pts p \<le> eb - spread_markup_pts p" using c f by (intro dsub_le finite_not_nan)
    also have "\<dots> \<le> eb" using c f1 by (intro dsub_le finite_not_nan)
    finally show ?thesis using that by (simp add: modelled_price_def)
  qed
qed

end
