(* ===== verification/TickBinary.thy ===== *)
theory TickBinary
  imports Execution "HOL-Library.Word"
begin

text \<open>
  \<open>include/backtest/tick_binary.hpp\<close> and \<open>src/backtest/tick_binary.cpp\<close>: the conversion of CSV
  rows to fixed-size binary ticks, the reader that maps a file of them, and its binary
  search. A float is the double it widens to. A file is its length in bytes and the ticks
  that a mapping of it shows; the operating system's answers are arguments.
\<close>

unbundle bit_operations_syntax

record binary_tick =
  b_ts_ms :: int64
  b_bid :: double
  b_ask :: double
  b_volume :: double
  b_flags :: "32 word"

definition b_is_valid :: "binary_tick \<Rightarrow> bool" where
  "b_is_valid t \<longleftrightarrow> b_flags t AND 1 \<noteq> 0"

definition b_set_valid :: "bool \<Rightarrow> binary_tick \<Rightarrow> binary_tick" where
  "b_set_valid v t = t\<lparr> b_flags := (if v then b_flags t OR 1 else b_flags t AND NOT 1) \<rparr>"

definition b_mid :: "binary_tick \<Rightarrow> double" where
  "b_mid t = (b_bid t + b_ask t) * lit 0.5"

definition b_spread :: "binary_tick \<Rightarrow> double" where
  "b_spread t = b_ask t - b_bid t"

section \<open>CSV to binary\<close>

text \<open>The columns of a row are separated as by \<open>split\<close>. \<open>None\<close>: the row is skipped.\<close>

definition parse_tick_line :: "str \<Rightarrow> char \<Rightarrow> (int64 \<times> double \<times> double \<times> double) option" where
  "parse_tick_line line delim =
     (let cols = split delim line in
      if length cols < 4 then None
      else (case (stod (cols ! 0), stod (cols ! 1), stod (cols ! 2),
                  if cols ! 3 \<noteq> [] then stod (cols ! 3) else Inr 0) of
          (Inr raw_ts, Inr b, Inr a, Inr v) \<Rightarrow>
            let ts = int64_of (if lit 1000000000000 < raw_ts then raw_ts else raw_ts * lit 1000.0)
            in if 0 < b \<and> 0 < a then Some (ts, b, a, v) else None
        | _ \<Rightarrow> None))"

record csv_options =
  delimiter :: char
  has_header :: bool
  skip_rows :: size

definition csv_default :: csv_options where
  "csv_default = \<lparr> delimiter = CHR '','', has_header = True, skip_rows = 0 \<rparr>"

definition strip_cr :: "str \<Rightarrow> str" where
  "strip_cr line = (if line \<noteq> [] \<and> last line = CHR 0x0D then butlast line else line)"

definition make_tick :: "int64 \<times> double \<times> double \<times> double \<Rightarrow> binary_tick" where
  "make_tick r = (case r of (ts, b, a, v) \<Rightarrow>
     b_set_valid True \<lparr> b_ts_ms = ts, b_bid = to_float b, b_ask = to_float a,
                        b_volume = to_float v, b_flags = 0 \<rparr>)"

text \<open>The loop over \<open>std::getline\<close>, with the rows still to be skipped.\<close>

fun convert_loop :: "char \<Rightarrow> size \<Rightarrow> str list \<Rightarrow> binary_tick list" where
  "convert_loop delim skip [] = []"
| "convert_loop delim skip (line # rest) =
     (if line = [] then convert_loop delim skip rest
      else if 0 < skip then convert_loop delim (skip - 1) rest
      else (case parse_tick_line (strip_cr line) delim of
          None \<Rightarrow> convert_loop delim skip rest
        | Some r \<Rightarrow> make_tick r # convert_loop delim skip rest))"

definition getlines :: "str \<Rightarrow> str list" where
  "getlines s = (let ps = split CHR 0x0A s in if last ps = [] then butlast ps else ps)"

datatype convert_error = CannotRead | CannotWrite | NoValidRows

text \<open>The result is the number written and the new file.\<close>

definition convert :: "str option \<Rightarrow> bool \<Rightarrow> csv_options \<Rightarrow> convert_error + nat \<times> binary_tick list" where
  "convert csv writable opt = (case csv of
     None \<Rightarrow> Inl CannotRead
   | Some content \<Rightarrow>
       if \<not> writable then Inl CannotWrite
       else let skip = (if has_header opt then 1 + skip_rows opt else skip_rows opt);
                ts = convert_loop (delimiter opt) skip (getlines content)
            in if length ts = 0 then Inl NoValidRows else Inr (length ts, ts))"

section \<open>The mapped reader\<close>

record reader =
  base :: "binary_tick list option"
  cnt :: size
  file_len :: int64

definition reader_init :: reader where
  "reader_init = \<lparr> base = None, cnt = 0, file_len = 0 \<rparr>"

datatype open_error = OpenFailed | EmptyFile | BadSize | MmapFailed

text \<open>
  \<open>stat\<close> is \<open>None\<close> when the file cannot be opened, \<open>Some None\<close> when \<open>fstat\<close> fails; \<open>mmap\<close> gives
  the mapped ticks.
\<close>

definition reader_open :: "nat option option \<Rightarrow> binary_tick list option \<Rightarrow> reader \<Rightarrow> open_error + reader" where
  "reader_open stat mmap r =
     (if base r \<noteq> None then Inr r
      else case stat of
        None \<Rightarrow> Inl OpenFailed
      | Some None \<Rightarrow> Inl EmptyFile
      | Some (Some len) \<Rightarrow>
          if len = 0 then Inl EmptyFile
          else if len mod 24 \<noteq> 0 then Inl BadSize
          else (case mmap of
              None \<Rightarrow> Inl MmapFailed
            | Some ticks \<Rightarrow> Inr (r\<lparr> base := Some ticks, cnt := len div 24, file_len := int len \<rparr>)))"

definition reader_close :: "reader \<Rightarrow> reader" where
  "reader_close r = r\<lparr> base := None, cnt := 0, file_len := 0 \<rparr>"

definition is_open :: "reader \<Rightarrow> bool" where
  "is_open r \<longleftrightarrow> base r \<noteq> None"

text \<open>
  The search loop on \<open>std::size_t\<close>: \<open>hi = mid - 1\<close> wraps at 0, so that the loop is written
  with 64-bit words and as a partial function.
\<close>

partial_function (option) search_loop :: "binary_tick list \<Rightarrow> int64 \<Rightarrow> 64 word \<Rightarrow> 64 word \<Rightarrow> 64 word \<Rightarrow> 64 word option" where
  "search_loop ticks ts lo hi ans =
     (if lo \<le> hi
      then let mid = lo + (hi - lo) div 2 in
        if b_ts_ms (ticks ! unat mid) \<le> ts
        then search_loop ticks ts (mid + 1) hi mid
        else search_loop ticks ts lo (mid - 1) ans
      else Some ans)"

declare search_loop.simps [code]

text \<open>\<open>None\<close> is a loop that does not end; \<open>Some None\<close> is \<open>false\<close>.\<close>

definition find_at_or_before :: "int64 \<Rightarrow> reader \<Rightarrow> binary_tick option option" where
  "find_at_or_before ts r = (case base r of
     None \<Rightarrow> Some None
   | Some ticks \<Rightarrow>
       if cnt r = 0 then Some None
       else if ts < b_ts_ms (ticks ! 0) then Some None
       else map_option (\<lambda>ans. Some (ticks ! unat ans))
              (search_loop ticks ts 0 (of_nat (cnt r) - 1) 0))"

section \<open>What the converter writes\<close>

lemma or_1_and_1: "(w OR 1) AND 1 = (1 :: 32 word)"
  by (rule bit_word_eqI) (auto simp: bit_simps)

lemma b_valid_set [simp]: "b_is_valid (b_set_valid True t)"
  by (simp add: b_is_valid_def b_set_valid_def or_1_and_1)

lemma b_set_valid_fields [simp]:
  "b_ts_ms (b_set_valid v t) = b_ts_ms t" "b_bid (b_set_valid v t) = b_bid t" "b_ask (b_set_valid v t) = b_ask t"
  by (simp_all add: b_set_valid_def)

lemma to_float_pos: "0 < x \<Longrightarrow> 0 \<le> to_float x"
proof transfer
  fix v
  assume v: "vless (VFin 0) v"
  show "vle (VFin 0) (to_float_val v)"
  proof (cases v)
    case (VFin x)
    then have y: "0 \<le> fl32 x" using v by (intro d32.nonneg) simp
    moreover have "(0 :: rat) < 2 ^ 128" by (rule zero_less_power) simp
    ultimately have "\<not> fl32 x \<le> - (2 ^ 128)" by linarith
    then show ?thesis using VFin y by (simp add: to_float_val_def Let_def)
  qed (use v in \<open>simp_all add: to_float_val_def\<close>)
qed

lemma convert_loop_shape:
  "convert_loop d n ls = map make_tick (List.map_filter (\<lambda>l. parse_tick_line (strip_cr l) d)
     (drop n (filter (\<lambda>l. l \<noteq> []) ls)))"
  by (induction d n ls rule: convert_loop.induct)
    (auto simp: map_filter_simps drop_Cons' split: option.splits)

lemma parse_tick_line_pos:
  "parse_tick_line l d = Some (ts, b, a, v) \<Longrightarrow> 0 < b \<and> 0 < a"
  by (auto simp: parse_tick_line_def Let_def split: if_splits sum.splits)

section \<open>The binary search\<close>

lemma unat_mid:
  assumes "lo \<le> (hi :: 64 word)"
  shows "unat (lo + (hi - lo) div 2) = unat lo + (unat hi - unat lo) div 2"
proof -
  have d: "unat (hi - lo) = unat hi - unat lo" using assms by (simp add: unat_sub)
  have h: "unat ((hi - lo) div 2) = (unat hi - unat lo) div 2"
    using unat_div [of "hi - lo" 2] by (simp add: d)
  have "unat lo + (unat hi - unat lo) div 2 \<le> unat hi"
    using assms by (simp add: word_le_nat_alt)
  also have "unat hi < 2 ^ 64" using unsigned_less [of hi, where 'a = nat] by simp
  finally have small: "unat lo + (unat hi - unat lo) div 2 < 2 ^ 64" .
  then have "unat ((hi - lo) div 2) < 2 ^ 64" by (simp add: h)
  then show ?thesis using small unat_word_ariths(1) [of lo "(hi - lo) div 2"] by (simp add: h)
qed

text \<open>
  The loop keeps \<open>ans\<close> at a tick not after \<open>ts\<close>, everything below \<open>lo\<close> not after \<open>ts\<close>, and
  everything above \<open>hi\<close> after \<open>ts\<close>.
\<close>

lemma search_loop_correct:
  assumes "sorted (map b_ts_ms ticks)" "length ticks < 2 ^ 63"
    and "b_ts_ms (ticks ! 0) \<le> ts" "unat hi < length ticks" "unat lo \<le> Suc (unat hi)"
    and "unat ans < length ticks" "b_ts_ms (ticks ! unat ans) \<le> ts"
    and "unat lo = 0 \<or> unat lo = Suc (unat ans)"
    and "\<forall>i. unat hi < i \<longrightarrow> i < length ticks \<longrightarrow> ts < b_ts_ms (ticks ! i)"
  shows "\<exists>a. search_loop ticks ts lo hi ans = Some a \<and> unat a < length ticks \<and>
    b_ts_ms (ticks ! unat a) \<le> ts \<and> (\<forall>i. unat a < i \<longrightarrow> i < length ticks \<longrightarrow> ts < b_ts_ms (ticks ! i))"
  using assms(3-)
proof (induction "Suc (unat hi) - unat lo" arbitrary: lo hi ans rule: less_induct)
  case less
  show ?case
  proof (cases "lo \<le> hi")
    case False
    then have "unat lo = Suc (unat hi)" using less.prems(3) by (simp add: word_le_nat_alt)
    then have "unat ans = unat hi" using less.prems(6) by auto
    then show ?thesis using False less.prems by (subst search_loop.simps) auto
  next
    case True
    define m where "m = lo + (hi - lo) div 2"
    have um: "unat m = unat lo + (unat hi - unat lo) div 2" unfolding m_def by (rule unat_mid [OF True])
    have le: "unat lo \<le> unat hi" using True by (simp add: word_le_nat_alt)
    then have mb: "unat lo \<le> unat m" "unat m \<le> unat hi" by (simp_all add: um)
    have succ: "unat (m + 1) = Suc (unat m)"
      using mb less.prems(2) assms(2) by (simp add: unat_word_ariths)
    show ?thesis
    proof (cases "b_ts_ms (ticks ! unat m) \<le> ts")
      case le': True
      have "\<exists>a. search_loop ticks ts (m + 1) hi m = Some a \<and> unat a < length ticks \<and>
          b_ts_ms (ticks ! unat a) \<le> ts \<and> (\<forall>i. unat a < i \<longrightarrow> i < length ticks \<longrightarrow> ts < b_ts_ms (ticks ! i))"
        using le' mb le succ less.prems by (intro less.hyps) auto
      then show ?thesis using True le' by (subst search_loop.simps) (simp add: m_def Let_def)
    next
      case gt: False
      then have "unat m \<noteq> 0" using less.prems(1) by metis
      then have pred: "unat (m - 1) = unat m - 1"
        by (metis One_nat_def unat_minus_one unat_eq_zero)
      have above: "ts < b_ts_ms (ticks ! i)" if "unat m - 1 < i" "i < length ticks" for i
        using sorted_nth_mono [OF assms(1), of "unat m" i] that gt \<open>unat m \<noteq> 0\<close> by fastforce
      have "\<exists>a. search_loop ticks ts lo (m - 1) ans = Some a \<and> unat a < length ticks \<and>
          b_ts_ms (ticks ! unat a) \<le> ts \<and> (\<forall>i. unat a < i \<longrightarrow> i < length ticks \<longrightarrow> ts < b_ts_ms (ticks ! i))"
        using mb le pred \<open>unat m \<noteq> 0\<close> above less.prems by (intro less.hyps) auto
      then show ?thesis using True gt by (subst search_loop.simps) (simp add: m_def Let_def)
    qed
  qed
qed

end
