(* ===== verification/Backtest.thy ===== *)
theory Backtest
  imports ExecSim TickBinary
begin

text \<open>
  \<open>include/backtest/backtest_engine.hpp\<close> and \<open>src/backtest/backtest_engine.cpp\<close>: the replay of
  a lead and a lag tick stream through the production strategy and the execution simulator,
  its trade accounting and its statistics. The local variables of \<open>run_impl\<close> are the fields
  of the record \<open>bt\<close>, its lambdas are functions on that record, and the indices into the
  two streams are the suffixes still to be consumed.
\<close>

section \<open>std::sqrt\<close>

fun isqrt :: "nat \<Rightarrow> nat" where
  "isqrt m = (if m = 0 then 0 else
     let r = 2 * isqrt (m div 4) in if (r + 1) * (r + 1) \<le> m then r + 1 else r)"

declare isqrt.simps [simp del]

lemma isqrt_spec: "isqrt m * isqrt m \<le> m \<and> m < (isqrt m + 1) * (isqrt m + 1)"
proof (induction m rule: isqrt.induct)
  case (1 m)
  show ?case
  proof (cases "m = 0")
    case False
    define i where "i = isqrt (m div 4)"
    have IH: "i * i \<le> m div 4" "m div 4 < (i + 1) * (i + 1)" using 1 False by (simp_all add: i_def)
    have "4 * (i * i) \<le> m" "m < 4 * ((i + 1) * (i + 1))" using IH by linarith+
    moreover have "isqrt m = (if (2 * i + 1) * (2 * i + 1) \<le> m then 2 * i + 1 else 2 * i)"
      using False by (simp add: isqrt.simps [of m] i_def Let_def)
    ultimately show ?thesis by (simp add: algebra_simps)
  qed (simp add: isqrt.simps)
qed

text \<open>
  The square root is computed to 55 bits and a sticky bit, which the final rounding turns
  into the nearest double.
\<close>

definition dsqrt :: "double \<Rightarrow> double" where
  "dsqrt x = (case fval_of x of
     VNaN \<Rightarrow> d_nan | VPInf \<Rightarrow> d_inf | VNInf \<Rightarrow> d_nan
   | VFin q \<Rightarrow> if q < 0 then d_nan else if q = 0 then 0
       else let s = 55 - ilog2 q div 2; w = q * 4 powi s; n = isqrt (nat \<lfloor>w\<rfloor>)
            in lit ((if of_nat (n * n) = w then of_nat n else of_nat n + 1 / 2) * 2 powi (- s)))"

section \<open>Results\<close>

record trade =
  t_signal_ts :: int64
  t_fill_ts :: int64
  t_side :: side
  t_signal_mark :: double
  t_price :: double
  t_pnl :: double
  t_equity_after :: double
  t_rejected :: bool

record bt_result =
  start_ts :: int64
  end_ts :: int64
  lead_ticks :: nat
  lag_ticks :: nat
  signals :: nat
  fills :: nat
  rejections :: nat
  initial_capital :: double
  final_equity :: double
  total_pnl :: double
  gross_profit :: double
  gross_loss :: double
  profit_factor :: double
  max_drawdown :: double
  max_drawdown_pct :: double
  sharpe_per_trade :: double
  sharpe_annual :: double
  trades :: "trade list"
  r_delay_ms :: int

definition result0 :: bt_result where
  "result0 = \<lparr> start_ts = 0, end_ts = 0, lead_ticks = 0, lag_ticks = 0, signals = 0, fills = 0,
     rejections = 0, initial_capital = 0, final_equity = 0, total_pnl = 0, gross_profit = 0,
     gross_loss = 0, profit_factor = 0, max_drawdown = 0, max_drawdown_pct = 0,
     sharpe_per_trade = 0, sharpe_annual = 0, trades = [], r_delay_ms = 0 \<rparr>"

definition sharpe_of :: "trade list \<Rightarrow> nat \<Rightarrow> double" where
  "sharpe_of ts n_filled =
     (if n_filled < 2 then 0
      else
        let live = filter (\<lambda>t. \<not> t_rejected t) ts;
            sum = foldl (\<lambda>s t. s + t_pnl t) 0 live;
            mean = sum / double_of_int (int n_filled);
            var = foldl (\<lambda>v t. let d = t_pnl t - mean in v + d * d) 0 live / double_of_int (int n_filled);
            sd = dsqrt var
        in if sd \<le> lit (1 / 10 ^ 12) then 0 else mean / sd)"

section \<open>The state of a run\<close>

record position =
  p_side :: side
  p_sig_ts :: int64
  p_fill_ts :: int64
  p_price :: double
  p_comm :: double
  p_mark :: double

record bt =
  bs :: strategy
  sm :: sim
  lead_mid :: double
  lag_bid :: double
  lag_ask :: double
  last_bid :: double
  last_ask :: double
  last_lead :: double
  equity :: double
  peak :: double
  gross_p :: double
  gross_l :: double
  held :: "position option"
  out :: bt_result

definition record_trade :: "trade \<Rightarrow> bt \<Rightarrow> bt" where
  "record_trade tr b =
     (let tr1 = tr\<lparr> t_equity_after := equity b \<rparr>;
          o1 = (out b)\<lparr> trades := trades (out b) @ [tr1] \<rparr>;
          pk = dmax (peak b) (equity b);
          dd = pk - equity b;
          o2 = (if max_drawdown o1 < dd
                then o1\<lparr> max_drawdown := dd,
                         max_drawdown_pct := (if 0 < pk then dd / pk * lit 100.0 else 0) \<rparr>
                else o1)
      in b\<lparr> peak := pk, out := o2 \<rparr>)"

definition open_position :: "fill \<Rightarrow> bt \<Rightarrow> bt" where
  "open_position f b = b\<lparr> held := Some \<lparr> p_side = f_side f, p_sig_ts = f_signal_ts f,
     p_fill_ts = f_fill_ts f, p_price = f_price f, p_comm = f_commission f, p_mark = f_signal_mark f \<rparr> \<rparr>"

text \<open>The accounting that both models share: equity, gross profit or loss, and the fill count.\<close>

definition book_pnl :: "double \<Rightarrow> bt \<Rightarrow> bt" where
  "book_pnl pnl b =
     (let b1 = b\<lparr> equity := equity b + pnl \<rparr>;
          b2 = (if 0 \<le> pnl then b1\<lparr> gross_p := gross_p b1 + pnl \<rparr> else b1\<lparr> gross_l := gross_l b1 + (- pnl) \<rparr>)
      in b2\<lparr> out := (out b2)\<lparr> fills := fills (out b2) + 1 \<rparr> \<rparr>)"

definition should_close :: "exec_params \<Rightarrow> int64 \<Rightarrow> double \<Rightarrow> double \<Rightarrow> double \<Rightarrow> bool \<Rightarrow> position \<Rightarrow> bool" where
  "should_close p now cur_lead cur_bid cur_ask force pos =
     (if force then True
      else if 0 < hold_max_ms p \<and> hold_max_ms p \<le> now - p_fill_ts pos then True
      else \<bar>cur_lead - lit 0.5 * (cur_bid + cur_ask)\<bar> \<le> hold_tol_pts p)"

definition exit_pnl :: "exec_params \<Rightarrow> double \<Rightarrow> double \<Rightarrow> position \<Rightarrow> double" where
  "exit_pnl p cur_bid cur_ask pos =
     (let ex = (if p_side pos = Buy then cur_bid - hold_exit_slip_pts p - hold_exit_markup_pts p
                else cur_ask + hold_exit_slip_pts p + hold_exit_markup_pts p);
          raw = (if p_side pos = Buy then ex - p_price pos else p_price pos - ex)
      in raw - p_comm pos)"

definition close_open :: "exec_params \<Rightarrow> int64 \<Rightarrow> double \<Rightarrow> double \<Rightarrow> double \<Rightarrow> bool \<Rightarrow> bt \<Rightarrow> bt" where
  "close_open p now cur_lead cur_bid cur_ask force b = (case held b of
     None \<Rightarrow> b
   | Some pos \<Rightarrow>
       if \<not> should_close p now cur_lead cur_bid cur_ask force pos then b
       else
         let pnl = exit_pnl p cur_bid cur_ask pos;
             tr = \<lparr> t_signal_ts = p_sig_ts pos, t_fill_ts = now, t_side = p_side pos,
                    t_signal_mark = p_mark pos, t_price = p_price pos, t_pnl = pnl,
                    t_equity_after = 0, t_rejected = False \<rparr>;
             b1 = record_trade tr (book_pnl pnl b)
         in b1\<lparr> bs := on_order_closed pnl (p_comm pos) ''bt_close'' (bs b1), held := None \<rparr>)"

definition instant_pnl :: "fill \<Rightarrow> double" where
  "instant_pnl f =
     (let ex = (if f_side f = Buy then f_exec_bid f else f_exec_ask f);
          raw = (if f_side f = Buy then ex - f_price f else f_price f - ex)
      in raw - f_commission f)"

definition handle_fill :: "exec_params \<Rightarrow> int64 \<Rightarrow> bt \<Rightarrow> bt" where
  "handle_fill p now b =
     (if \<not> pending (sm b) then b
      else if now < s_target_ts (sm b) then b
      else (case at_fill now (lag_bid b) (lag_ask b) (sm b) of
          None \<Rightarrow> b
        | Some (f, s') \<Rightarrow>
            let b1 = b\<lparr> sm := s' \<rparr> in
            if filled f then
              (if model p = HoldConvergence then open_position f b1
               else
                 let pnl = instant_pnl f;
                     tr = \<lparr> t_signal_ts = f_signal_ts f, t_fill_ts = f_fill_ts f, t_side = f_side f,
                            t_signal_mark = f_signal_mark f, t_price = f_price f, t_pnl = pnl,
                            t_equity_after = 0, t_rejected = False \<rparr>;
                     b2 = book_pnl pnl b1;
                     b3 = b2\<lparr> bs := on_order_closed pnl (f_commission f) ''bt_close'' (bs b2) \<rparr>
                 in record_trade tr b3)
            else b1\<lparr> out := (out b1)\<lparr> rejections := rejections (out b1) + 1 \<rparr> \<rparr>))"

definition lead_step :: "binary_tick \<Rightarrow> bt \<Rightarrow> bt" where
  "lead_step t b =
     (if \<not> b_is_valid t then b
      else b\<lparr> lead_mid := b_mid t, out := (out b)\<lparr> lead_ticks := lead_ticks (out b) + 1 \<rparr> \<rparr>)"

definition lag_quote :: "int64 \<Rightarrow> bt \<Rightarrow> broker_quote" where
  "lag_quote now b = quote0\<lparr> q_ts_ms := now, q_bid := lag_bid b, q_ask := lag_ask b,
     q_spread := lag_ask b - lag_bid b, q_valid := True \<rparr>"

definition trade_signal :: "config \<Rightarrow> exec_params \<Rightarrow> int64 \<Rightarrow> bt \<Rightarrow> bt" where
  "trade_signal cfg p now b =
     (if 0 < lead_mid b \<and> 0 < lag_bid b \<and> 0 < lag_ask b
      then
        let q = lag_quote now b;
            (d, th, _) = evaluate cfg (lead_mid b) q;
            (sig, s, _) = maybe_emit cfg d (lead_mid b) q now (bs b);
            b1 = b\<lparr> bs := s \<rparr>
        in (case sig of None \<Rightarrow> b1
            | Some g \<Rightarrow>
                let (submitted, sm') = sim_submit (sig_side g) now (lead_mid b1) (lag_bid b1) (lag_ask b1) (sm b1);
                    b2 = b1\<lparr> sm := sm' \<rparr>
                in if submitted
                   then b2\<lparr> out := (out b2)\<lparr> signals := signals (out b2) + 1 \<rparr>,
                            bs := on_order_placed (sig_side g) (quantity p) (bs b2) \<rparr>
                   else b2)
      else b)"

text \<open>A valid lag tick: the quote, the due order, the held position, the strategy, the last quote.\<close>

definition see_quote :: "binary_tick \<Rightarrow> bt \<Rightarrow> bt" where
  "see_quote t b = b\<lparr> lag_bid := b_bid t, lag_ask := b_ask t, out := (out b)\<lparr> lag_ticks := lag_ticks (out b) + 1 \<rparr> \<rparr>"

definition ride :: "exec_params \<Rightarrow> int64 \<Rightarrow> bt \<Rightarrow> bt" where
  "ride p now b = (if held b \<noteq> None \<or> model p \<noteq> HoldConvergence
     then close_open p now (lead_mid b) (lag_bid b) (lag_ask b) False b else b)"

definition keep_last :: "bt \<Rightarrow> bt" where
  "keep_last b = b\<lparr> last_bid := lag_bid b, last_ask := lag_ask b, last_lead := lead_mid b \<rparr>"

definition lag_step :: "config \<Rightarrow> exec_params \<Rightarrow> binary_tick \<Rightarrow> bt \<Rightarrow> bt" where
  "lag_step cfg p t b =
     (if \<not> b_is_valid t then b
      else let now = b_ts_ms t
           in keep_last (trade_signal cfg p now (ride p now (handle_fill p now (see_quote t b)))))"

text \<open>The merge loop: the lead goes first on equal time stamps.\<close>

fun replay :: "config \<Rightarrow> exec_params \<Rightarrow> binary_tick list \<Rightarrow> binary_tick list \<Rightarrow> bt \<Rightarrow> bt" where
  "replay cfg p [] [] b = b"
| "replay cfg p (l # ls) [] b = replay cfg p ls [] (lead_step l b)"
| "replay cfg p [] (g # gs) b = replay cfg p [] gs (lag_step cfg p g b)"
| "replay cfg p (l # ls) (g # gs) b =
     (if b_ts_ms l \<le> b_ts_ms g then replay cfg p ls (g # gs) (lead_step l b)
      else replay cfg p (l # ls) gs (lag_step cfg p g b))"

definition bt_init :: "exec_params \<Rightarrow> int \<Rightarrow> bt_result \<Rightarrow> bt" where
  "bt_init p dly o0 = \<lparr> bs = strategy_init, sm = sim_init (p\<lparr> delay_ms := dly \<rparr>), lead_mid = 0,
     lag_bid = 0, lag_ask = 0, last_bid = 0, last_ask = 0, last_lead = 0,
     equity = initial_capital o0, peak = initial_capital o0, gross_p = 0, gross_l = 0,
     held = None, out = o0 \<rparr>"

definition force_close :: "exec_params \<Rightarrow> int \<Rightarrow> bt \<Rightarrow> bt" where
  "force_close p dly b = (case held b of
     None \<Rightarrow> b
   | Some pos \<Rightarrow>
       let b1 = (if last_bid b \<le> 0 \<or> last_ask b \<le> 0
                 then b\<lparr> last_bid := p_price pos, last_ask := p_price pos \<rparr> else b)
       in close_open p (end_ts (out b1) + dly + 2) (last_lead b1) (last_bid b1) (last_ask b1) True b1)"

definition finish :: "bt \<Rightarrow> bt_result" where
  "finish b =
     (let o1 = (out b)\<lparr> final_equity := equity b, total_pnl := equity b - initial_capital (out b),
          gross_profit := gross_p b, gross_loss := gross_l b,
          profit_factor := (if 0 < gross_l b then gross_p b / gross_l b
                            else if 0 < gross_p b then lit 1000000000 else 0),
          sharpe_per_trade := sharpe_of (trades (out b)) (fills (out b)) \<rparr>
      in o1\<lparr> sharpe_annual := sharpe_per_trade o1 * dsqrt (lit 252.0) \<rparr>)"

definition run_impl :: "config \<Rightarrow> reader \<Rightarrow> reader \<Rightarrow> exec_params \<Rightarrow> int \<Rightarrow> bt_result" where
  "run_impl cfg lead_r lag_r p dly =
     (let o0 = result0\<lparr> r_delay_ms := dly, initial_capital := quantity p * lit 1000.0 \<rparr> in
      case (base lead_r, base lag_r) of
        (Some lead, Some lag) \<Rightarrow>
          if cnt lead_r = 0 \<or> cnt lag_r = 0 then o0
          else
            let ls = take (cnt lead_r) lead; gs = take (cnt lag_r) lag;
                o1 = o0\<lparr> start_ts := min (b_ts_ms (hd ls)) (b_ts_ms (hd gs)),
                         end_ts := max (b_ts_ms (last ls)) (b_ts_ms (last gs)) \<rparr>;
                b1 = replay cfg p ls gs (bt_init p dly o1);
                b2 = handle_fill p (end_ts (out b1) + dly + 1) b1;
                b3 = force_close p dly b2
            in finish b3
      | _ \<Rightarrow> o0)"

definition bt_run :: "config \<Rightarrow> reader \<Rightarrow> reader \<Rightarrow> exec_params \<Rightarrow> bt_result" where
  "bt_run cfg lead_r lag_r p = run_impl cfg lead_r lag_r p (delay_ms p)"

record decay_row =
  dr_delay_ms :: int
  net_pnl :: double
  dr_sharpe :: double
  dr_fills :: nat
  dr_rejections :: nat

definition latency_decay_matrix :: "config \<Rightarrow> reader \<Rightarrow> reader \<Rightarrow> int list \<Rightarrow> exec_params \<Rightarrow> decay_row list" where
  "latency_decay_matrix cfg lead_r lag_r delays base_params = map (\<lambda>d.
     let p = base_params\<lparr> delay_ms := d \<rparr>; r = run_impl cfg lead_r lag_r p d
     in \<lparr> dr_delay_ms = d, net_pnl = total_pnl r, dr_sharpe = sharpe_per_trade r,
          dr_fills = fills r, dr_rejections = rejections r \<rparr>) delays"

section \<open>Accounting\<close>

lemma record_trade_fields [simp]:
  "bs (record_trade tr b) = bs b" "sm (record_trade tr b) = sm b" "equity (record_trade tr b) = equity b"
  "gross_p (record_trade tr b) = gross_p b" "gross_l (record_trade tr b) = gross_l b"
  "held (record_trade tr b) = held b" "lag_bid (record_trade tr b) = lag_bid b" "lag_ask (record_trade tr b) = lag_ask b"
  "fills (out (record_trade tr b)) = fills (out b)" "rejections (out (record_trade tr b)) = rejections (out b)"
  "signals (out (record_trade tr b)) = signals (out b)" "end_ts (out (record_trade tr b)) = end_ts (out b)"
  "initial_capital (out (record_trade tr b)) = initial_capital (out b)"
  "trades (out (record_trade tr b)) = trades (out b) @ [tr\<lparr> t_equity_after := equity b \<rparr>]"
  "peak (record_trade tr b) = dmax (peak b) (equity b)"
  "max_drawdown (out (record_trade tr b)) =
     (if max_drawdown (out b) < dmax (peak b) (equity b) - equity b then dmax (peak b) (equity b) - equity b
      else max_drawdown (out b))"
  by (simp_all add: record_trade_def Let_def)

lemma book_pnl_fields [simp]:
  "bs (book_pnl x b) = bs b" "sm (book_pnl x b) = sm b" "equity (book_pnl x b) = equity b + x"
  "gross_p (book_pnl x b) = (if 0 \<le> x then gross_p b + x else gross_p b)"
  "gross_l (book_pnl x b) = (if 0 \<le> x then gross_l b else gross_l b + (- x))"
  "held (book_pnl x b) = held b" "lag_bid (book_pnl x b) = lag_bid b" "lag_ask (book_pnl x b) = lag_ask b"
  "fills (out (book_pnl x b)) = fills (out b) + 1" "rejections (out (book_pnl x b)) = rejections (out b)"
  "signals (out (book_pnl x b)) = signals (out b)" "end_ts (out (book_pnl x b)) = end_ts (out b)"
  "initial_capital (out (book_pnl x b)) = initial_capital (out b)"
  "trades (out (book_pnl x b)) = trades (out b)" "peak (book_pnl x b) = peak b"
  "max_drawdown (out (book_pnl x b)) = max_drawdown (out b)"
  by (simp_all add: book_pnl_def Let_def)

text \<open>The books: what the counters, the equity and the gross amounts are of the list of trades.\<close>

definition books :: "bt \<Rightarrow> bool" where
  "books b \<longleftrightarrow> fills (out b) = length (trades (out b)) \<and> (\<forall>t\<in>set (trades (out b)). \<not> t_rejected t) \<and>
     equity b = foldl (\<lambda>e t. e + t_pnl t) (initial_capital (out b)) (trades (out b)) \<and>
     gross_p b = foldl (\<lambda>g t. g + t_pnl t) 0 (filter (\<lambda>t. 0 \<le> t_pnl t) (trades (out b))) \<and>
     gross_l b = foldl (\<lambda>g t. g + (- t_pnl t)) 0 (filter (\<lambda>t. \<not> 0 \<le> t_pnl t) (trades (out b)))"

lemma books_trade:
  assumes "books b" "\<not> t_rejected tr" "t_pnl tr = x"
  shows "books (record_trade tr (book_pnl x b))"
  using assms by (auto simp: books_def)

text \<open>Changes that leave the books alone.\<close>

lemma books_cong:
  "\<lbrakk> books b; trades (out b') = trades (out b); fills (out b') = fills (out b);
     initial_capital (out b') = initial_capital (out b); equity b' = equity b;
     gross_p b' = gross_p b; gross_l b' = gross_l b \<rbrakk> \<Longrightarrow> books b'"
  by (simp add: books_def)

lemma books_close_open:
  assumes "books b"
  shows "books (close_open p now l cb ca fc b)"
proof (cases "held b")
  case (Some pos)
  show ?thesis
  proof (cases "should_close p now l cb ca fc pos")
    case True
    let ?x = "exit_pnl p cb ca pos"
    let ?tr = "\<lparr> t_signal_ts = p_sig_ts pos, t_fill_ts = now, t_side = p_side pos, t_signal_mark = p_mark pos,
        t_price = p_price pos, t_pnl = ?x, t_equity_after = 0, t_rejected = False \<rparr>"
    have "books (record_trade ?tr (book_pnl ?x b))" using assms by (rule books_trade) simp_all
    then show ?thesis using Some True by (auto simp: close_open_def Let_def intro: books_cong)
  qed (use Some assms in \<open>simp add: close_open_def\<close>)
qed (use assms in \<open>simp add: close_open_def\<close>)

lemma books_handle_fill:
  assumes "books b"
  shows "books (handle_fill p now b)"
proof (cases "at_fill now (lag_bid b) (lag_ask b) (sm b)")
  case (Some fs)
  obtain f s' where fs: "fs = (f, s')" by (cases fs)
  let ?b1 = "b\<lparr> sm := s' \<rparr>" and ?x = "instant_pnl f"
  let ?b2 = "(book_pnl ?x ?b1)\<lparr> bs := on_order_closed ?x (f_commission f) ''bt_close'' (bs b) \<rparr>"
  have b1: "books ?b1" by (rule books_cong [OF assms]) simp_all
  have inst: "books (record_trade tr ?b2)" if "\<not> t_rejected tr" "t_pnl tr = ?x" for tr
    by (rule books_cong [OF books_trade [OF b1 that]]) simp_all
  have "books (open_position f ?b1)" by (rule books_cong [OF b1]) (simp_all add: open_position_def)
  moreover have "books (?b1\<lparr> out := (out ?b1)\<lparr> rejections := n \<rparr> \<rparr>)" for n
    by (rule books_cong [OF b1]) simp_all
  ultimately show ?thesis using assms inst Some fs
    by (simp add: handle_fill_def Let_def)
qed (use assms in \<open>simp add: handle_fill_def\<close>)

lemma books_trade_signal:
  assumes "books b"
  shows "books (trade_signal cfg p now b)"
  by (rule books_cong [OF assms]) (simp_all add: trade_signal_def Let_def split: prod.split option.split)

lemma books_steps:
  assumes "books b"
  shows "books (lead_step t b)" "books (lag_step cfg p t b)"
proof -
  show "books (lead_step t b)" by (rule books_cong [OF assms]) (simp_all add: lead_step_def)
  have "books (see_quote t b)" by (rule books_cong [OF assms]) (simp_all add: see_quote_def)
  then have "books (ride p n (handle_fill p n (see_quote t b)))" for n
    by (simp add: ride_def books_handle_fill books_close_open)
  then have "books (trade_signal cfg p n (ride p n (handle_fill p n (see_quote t b))))" for n
    by (rule books_trade_signal)
  then have "books (keep_last (trade_signal cfg p n (ride p n (handle_fill p n (see_quote t b)))))" for n
    by (rule books_cong) (simp_all add: keep_last_def)
  then show "books (lag_step cfg p t b)" using assms by (simp add: lag_step_def Let_def)
qed

lemma books_replay: "books b \<Longrightarrow> books (replay cfg p ls gs b)"
  by (induction cfg p ls gs b rule: replay.induct) (simp_all add: books_steps)

section \<open>Every signal is accounted for\<close>

lemma close_open_cases:
  obtains "close_open p now l cb ca fc b = b" "held b = None \<or> \<not> fc"
  | pos x where "held b = Some pos"
    "bs (close_open p now l cb ca fc b) = on_order_closed x (p_comm pos) ''bt_close'' (bs b)"
    "sm (close_open p now l cb ca fc b) = sm b" "held (close_open p now l cb ca fc b) = None"
    "fills (out (close_open p now l cb ca fc b)) = fills (out b) + 1"
    "rejections (out (close_open p now l cb ca fc b)) = rejections (out b)"
    "signals (out (close_open p now l cb ca fc b)) = signals (out b)"
    "end_ts (out (close_open p now l cb ca fc b)) = end_ts (out b)"
proof (cases "held b")
  case None
  then show ?thesis by (intro that(1)) (simp_all add: close_open_def)
next
  case (Some pos)
  show ?thesis
  proof (cases "should_close p now l cb ca fc pos")
    case True
    show ?thesis by (rule that(2) [OF Some]) (use Some True in \<open>simp_all add: close_open_def Let_def\<close>)
  next
    case False
    then have "\<not> fc" by (auto simp: should_close_def)
    then show ?thesis using Some False by (intro that(1)) (simp_all add: close_open_def)
  qed
qed

lemma handle_fill_cases:
  obtains "handle_fill p now b = b" "pending (sm b) \<Longrightarrow> now < s_target_ts (sm b)"
  | (opened) s' pos where "pending (sm b)" "\<not> pending s'" "params s' = params (sm b)" "sm (handle_fill p now b) = s'"
    "bs (handle_fill p now b) = bs b" "held (handle_fill p now b) = Some pos"
    "fills (out (handle_fill p now b)) = fills (out b)" "rejections (out (handle_fill p now b)) = rejections (out b)"
    "signals (out (handle_fill p now b)) = signals (out b)" "end_ts (out (handle_fill p now b)) = end_ts (out b)"
  | (instant) s' x c where "pending (sm b)" "\<not> pending s'" "params s' = params (sm b)" "sm (handle_fill p now b) = s'"
    "bs (handle_fill p now b) = on_order_closed x c ''bt_close'' (bs b)" "held (handle_fill p now b) = held b"
    "fills (out (handle_fill p now b)) = fills (out b) + 1" "rejections (out (handle_fill p now b)) = rejections (out b)"
    "signals (out (handle_fill p now b)) = signals (out b)" "end_ts (out (handle_fill p now b)) = end_ts (out b)"
  | (reject) s' where "pending (sm b)" "\<not> pending s'" "params s' = params (sm b)" "sm (handle_fill p now b) = s'"
    "bs (handle_fill p now b) = bs b" "held (handle_fill p now b) = held b"
    "fills (out (handle_fill p now b)) = fills (out b)" "rejections (out (handle_fill p now b)) = rejections (out b) + 1"
    "signals (out (handle_fill p now b)) = signals (out b)" "end_ts (out (handle_fill p now b)) = end_ts (out b)"
proof (cases "at_fill now (lag_bid b) (lag_ask b) (sm b)")
  case None
  then have "\<not> pending (sm b) \<or> now < s_target_ts (sm b)" by (simp add: at_fill_None)
  then show ?thesis by (intro that(1)) (auto simp: handle_fill_def)
next
  case (Some fs)
  obtain f s' where fs: "at_fill now (lag_bid b) (lag_ask b) (sm b) = Some (f, s')" using Some by (cases fs) auto
  then have due: "pending (sm b)" "\<not> now < s_target_ts (sm b)" by (metis at_fill_None option.distinct(1))+
  note o = at_fill_outcome [OF fs]
  consider "filled f" "model p = HoldConvergence" | "filled f" "model p \<noteq> HoldConvergence" | "\<not> filled f" by blast
  then show ?thesis
  proof cases
    case 1
    show ?thesis by (rule opened [OF due(1) o(2,3)]) (use fs due 1 in \<open>simp_all add: handle_fill_def open_position_def Let_def\<close>)
  next
    case 2
    show ?thesis by (rule instant [OF due(1) o(2,3)]) (use fs due 2 in \<open>simp_all add: handle_fill_def Let_def\<close>)
  next
    case 3
    show ?thesis by (rule reject [OF due(1) o(2,3)]) (use fs due 3 in \<open>simp_all add: handle_fill_def Let_def\<close>)
  qed
qed

lemma trade_signal_cases:
  obtains t where "trade_signal cfg p now b = b\<lparr> bs := (bs b)\<lparr> last_signal_ms := t \<rparr> \<rparr>"
  | (placed) s' t sd where "trade_signal cfg p now b = b\<lparr> sm := s', out := (out b)\<lparr> signals := signals (out b) + 1 \<rparr>,
       bs := on_order_placed sd (quantity p) ((bs b)\<lparr> last_signal_ms := t \<rparr>) \<rparr>"
     "\<not> pending (sm b)" "pending s'" "params s' = params (sm b)" "s_target_ts s' = now + delay_ms (params (sm b))"
     "can_trade_now cfg now (bs b)"
proof (cases "0 < lead_mid b \<and> 0 < lag_bid b \<and> 0 < lag_ask b")
  case False
  then have "trade_signal cfg p now b = b" by (auto simp: trade_signal_def)
  then show ?thesis by (intro that(1) [of "last_signal_ms (bs b)"]) simp
next
  case True
  obtain d th ev where e: "evaluate cfg (lead_mid b) (lag_quote now b) = (d, th, ev)" by (cases "evaluate cfg (lead_mid b) (lag_quote now b)")
  obtain so s ev' where m: "maybe_emit cfg d (lead_mid b) (lag_quote now b) now (bs b) = (so, s, ev')"
    by (cases "maybe_emit cfg d (lead_mid b) (lag_quote now b) now (bs b)")
  show ?thesis
  proof (cases so)
    case None
    then have "s = bs b" using m maybe_emit_None by blast
    then have "trade_signal cfg p now b = b" using True e m None by (simp add: trade_signal_def Let_def)
    then show ?thesis by (intro that(1) [of "last_signal_ms (bs b)"]) simp
  next
    case (Some g)
    then have s: "s = (bs b)\<lparr> last_signal_ms := now \<rparr>" "can_trade_now cfg now (bs b)" using m maybe_emit_Some by blast+
    obtain ok s' where sub: "sim_submit (sig_side g) now (lead_mid b) (lag_bid b) (lag_ask b) (sm b) = (ok, s')"
      by (cases "sim_submit (sig_side g) now (lead_mid b) (lag_bid b) (lag_ask b) (sm b)")
    show ?thesis
    proof (cases ok)
      case True': True
      have "sim_submit (sig_side g) now (lead_mid b) (lag_bid b) (lag_ask b) (sm b) = (True, s')"
        using sub True' by simp
      note t = sim_submit_True [OF this]
      show ?thesis
        by (rule placed [OF _ t(1,2,3,4) s(2)]) (use True e m Some sub True' s in \<open>simp add: trade_signal_def Let_def\<close>)
    next
      case False
      then have "s' = sm b" using sub sim_submit_False by simp
      then have "trade_signal cfg p now b = b\<lparr> bs := s \<rparr>" using True e m Some sub False by (simp add: trade_signal_def Let_def)
      then show ?thesis using s by (intro that(1) [of now]) simp
    qed
  qed
qed

definition in_flight :: "bt \<Rightarrow> nat" where
  "in_flight b = (if pending (sm b) then 1 else 0) + (if held b \<noteq> None then 1 else 0)"

text \<open>
  Placed orders are filled, rejected, in flight, or (with more than one lot allowed) were
  held when a later fill replaced them. The strategy's counters follow the same flow.
\<close>

definition flow_ok :: "config \<Rightarrow> bt \<Rightarrow> bool" where
  "flow_ok cfg b \<longleftrightarrow>
     fills (out b) + rejections (out b) + in_flight b \<le> signals (out b) \<and>
     open_lots (bs b) = int (signals (out b)) - int (fills (out b)) \<and>
     open_lots (bs b) \<le> max 0 (max_open_lots (strat cfg)) \<and>
     orders_this_interval (bs b) = int (signals (out b)) \<and> interval_start_ms (bs b) = 0 \<and>
     int (signals (out b)) \<le> max 0 (max_orders_per_interval (strat cfg)) \<and>
     (max_open_lots (strat cfg) \<le> 1 \<longrightarrow> fills (out b) + rejections (out b) + in_flight b = signals (out b))"

lemma flow_close_open:
  assumes "flow_ok cfg b"
  shows "flow_ok cfg (close_open p now l cb ca fc b)"
proof (rule close_open_cases [of p now l cb ca fc b])
  fix pos x
  assume c: "held b = Some pos" "bs (close_open p now l cb ca fc b) = on_order_closed x (p_comm pos) ''bt_close'' (bs b)"
    "sm (close_open p now l cb ca fc b) = sm b" "held (close_open p now l cb ca fc b) = None"
    "fills (out (close_open p now l cb ca fc b)) = fills (out b) + 1"
    "rejections (out (close_open p now l cb ca fc b)) = rejections (out b)"
    "signals (out (close_open p now l cb ca fc b)) = signals (out b)"
    "end_ts (out (close_open p now l cb ca fc b)) = end_ts (out b)"
  have "0 < open_lots (bs b)" using assms c(1) by (auto simp: flow_ok_def in_flight_def)
  then show ?thesis using assms c by (auto simp: flow_ok_def in_flight_def on_order_closed_def Let_def)
qed (use assms in simp)

lemma flow_handle_fill:
  assumes "flow_ok cfg b"
  shows "flow_ok cfg (handle_fill p now b)"
proof (cases p now b rule: handle_fill_cases)
  case (opened s' pos)
  have "held b = None" if "max_open_lots (strat cfg) \<le> 1"
    using assms opened(1) that by (auto simp: flow_ok_def in_flight_def split: if_splits)
  then show ?thesis using assms opened by (auto simp: flow_ok_def in_flight_def split: if_splits)
next
  case (instant s' x c)
  have "0 < open_lots (bs b)" using assms instant(1) by (auto simp: flow_ok_def in_flight_def)
  then show ?thesis using assms instant
    by (auto simp: flow_ok_def in_flight_def on_order_closed_def Let_def split: if_splits)
next
  case (reject s')
  then show ?thesis using assms by (auto simp: flow_ok_def in_flight_def split: if_splits)
qed (use assms in simp)

lemma flow_trade_signal:
  assumes "flow_ok cfg b"
  shows "flow_ok cfg (trade_signal cfg p now b)"
proof (cases cfg p now b rule: trade_signal_cases)
  case (1 t)
  show ?thesis unfolding 1 using assms by (simp add: flow_ok_def in_flight_def)
next
  case (placed s' t sd)
  have g: "open_lots (bs b) < max_open_lots (strat cfg)" "orders_this_interval (bs b) < max_orders_per_interval (strat cfg)"
    using placed(6) assms by (auto simp: can_trade_now_def interval_spent_def flow_ok_def split: if_splits)
  show ?thesis unfolding placed(1) using assms placed(2,3) g
    by (auto simp: flow_ok_def in_flight_def on_order_placed_def Let_def split: if_splits)
qed

lemma flow_cong:
  "\<lbrakk> flow_ok cfg b; bs b' = bs b; sm b' = sm b; held b' = held b; fills (out b') = fills (out b);
     rejections (out b') = rejections (out b); signals (out b') = signals (out b) \<rbrakk> \<Longrightarrow> flow_ok cfg b'"
  by (simp add: flow_ok_def in_flight_def)

lemma flow_steps:
  assumes "flow_ok cfg b"
  shows "flow_ok cfg (lead_step t b)" "flow_ok cfg (lag_step cfg p t b)"
proof -
  show "flow_ok cfg (lead_step t b)" by (rule flow_cong [OF assms]) (simp_all add: lead_step_def)
  have "flow_ok cfg (see_quote t b)" by (rule flow_cong [OF assms]) (simp_all add: see_quote_def)
  then have "flow_ok cfg (trade_signal cfg p n (ride p n (handle_fill p n (see_quote t b))))" for n
    by (simp add: ride_def flow_handle_fill flow_close_open flow_trade_signal)
  then have "flow_ok cfg (keep_last (trade_signal cfg p n (ride p n (handle_fill p n (see_quote t b)))))" for n
    by (rule flow_cong) (simp_all add: keep_last_def)
  then show "flow_ok cfg (lag_step cfg p t b)" using assms by (simp add: lag_step_def Let_def)
qed

lemma flow_replay: "flow_ok cfg b \<Longrightarrow> flow_ok cfg (replay cfg p ls gs b)"
  by (induction cfg p ls gs b rule: replay.induct) (simp_all add: flow_steps)

lemma flow_init: "signals o0 = 0 \<Longrightarrow> fills o0 = 0 \<Longrightarrow> rejections o0 = 0 \<Longrightarrow> flow_ok cfg (bt_init p d o0)"
  by (simp add: flow_ok_def in_flight_def bt_init_def strategy_init_def sim_init_def)

section \<open>The order that is due is due before the end\<close>

definition due_by :: "int64 \<Rightarrow> int \<Rightarrow> bt \<Rightarrow> bool" where
  "due_by T d b \<longleftrightarrow> delay_ms (params (sm b)) = d \<and> end_ts (out b) = T \<and> (pending (sm b) \<longrightarrow> s_target_ts (sm b) \<le> T + d)"

lemma due_by_steps:
  assumes "due_by T d b"
  shows "due_by T d (lead_step t b)" "b_ts_ms t \<le> T \<Longrightarrow> due_by T d (lag_step cfg p t b)"
proof -
  show "due_by T d (lead_step t b)" using assms by (simp add: due_by_def lead_step_def)
  have close: "due_by T d b' \<Longrightarrow> due_by T d (close_open p n l cb ca fc b')" for b' n l cb ca fc
    by (rule close_open_cases [of p n l cb ca fc b']) (simp_all add: due_by_def)
  have fill: "due_by T d b' \<Longrightarrow> due_by T d (handle_fill p n b')" for b' n
    by (cases p n b' rule: handle_fill_cases) (simp_all add: due_by_def)
  have sig: "due_by T d b' \<Longrightarrow> n \<le> T \<Longrightarrow> due_by T d (trade_signal cfg p n b')" for b' n
    by (cases cfg p n b' rule: trade_signal_cases) (simp_all add: due_by_def)
  have "due_by T d (see_quote t b)" using assms by (simp add: due_by_def see_quote_def)
  then have "b_ts_ms t \<le> T \<Longrightarrow> due_by T d (trade_signal cfg p (b_ts_ms t) (ride p (b_ts_ms t) (handle_fill p (b_ts_ms t) (see_quote t b))))"
    by (intro sig) (simp_all add: ride_def close fill)
  then show "b_ts_ms t \<le> T \<Longrightarrow> due_by T d (lag_step cfg p t b)"
    using assms by (simp add: lag_step_def Let_def keep_last_def due_by_def)
qed

lemma due_by_replay: "due_by T d b \<Longrightarrow> \<forall>t\<in>set gs. b_ts_ms t \<le> T \<Longrightarrow> due_by T d (replay cfg p ls gs b)"
  by (induction cfg p ls gs b rule: replay.induct) (simp_all add: due_by_steps)

section \<open>Whole runs\<close>

definition run_start :: "exec_params \<Rightarrow> int \<Rightarrow> binary_tick list \<Rightarrow> binary_tick list \<Rightarrow> bt" where
  "run_start p d ls gs = bt_init p d (result0\<lparr> r_delay_ms := d, initial_capital := quantity p * lit 1000.0,
     start_ts := min (b_ts_ms (hd ls)) (b_ts_ms (hd gs)), end_ts := max (b_ts_ms (last ls)) (b_ts_ms (last gs)) \<rparr>)"

definition run_end :: "config \<Rightarrow> exec_params \<Rightarrow> int \<Rightarrow> binary_tick list \<Rightarrow> binary_tick list \<Rightarrow> bt" where
  "run_end cfg p d ls gs = (let b1 = replay cfg p ls gs (run_start p d ls gs)
     in force_close p d (handle_fill p (end_ts (out b1) + d + 1) b1))"

lemma run_impl_cases:
  obtains "run_impl cfg lr gr p d = result0\<lparr> r_delay_ms := d, initial_capital := quantity p * lit 1000.0 \<rparr>"
  | lead lag where "base lr = Some lead" "base gr = Some lag"
    "run_impl cfg lr gr p d = finish (run_end cfg p d (take (cnt lr) lead) (take (cnt gr) lag))"
proof (cases "base lr")
  case (Some lead)
  note lead = Some
  show ?thesis
  proof (cases "base gr")
    case None
    then show ?thesis using lead by (intro that(1)) (simp add: run_impl_def Let_def)
  next
    case (Some lag)
    show ?thesis
    proof (cases "cnt lr = 0 \<or> cnt gr = 0")
      case True
      then show ?thesis using lead Some by (intro that(1)) (simp add: run_impl_def Let_def)
    next
      case False
      then show ?thesis using lead Some
        by (intro that(2) [OF lead Some]) (simp add: run_impl_def run_end_def run_start_def Let_def)
    qed
  qed
qed (intro that(1), simp add: run_impl_def Let_def)

lemma finish_fields [simp]:
  "fills (finish b) = fills (out b)" "rejections (finish b) = rejections (out b)" "signals (finish b) = signals (out b)"
  "trades (finish b) = trades (out b)" "final_equity (finish b) = equity b" "gross_profit (finish b) = gross_p b"
  "gross_loss (finish b) = gross_l b" "initial_capital (finish b) = initial_capital (out b)"
  "total_pnl (finish b) = equity b - initial_capital (out b)" "max_drawdown (finish b) = max_drawdown (out b)"
  by (simp_all add: finish_def Let_def)

lemma books_force_close: "books b \<Longrightarrow> books (force_close p d b)"
proof -
  assume b: "books b"
  have "books (b\<lparr> last_bid := x, last_ask := y \<rparr>)" for x y by (rule books_cong [OF b]) simp_all
  then show ?thesis using b by (simp add: force_close_def Let_def books_close_open split: option.split)
qed

lemma books_run_end: "books (run_end cfg p d ls gs)"
proof -
  have "books (run_start p d ls gs)" by (simp add: run_start_def bt_init_def books_def result0_def)
  then show ?thesis by (simp add: run_end_def Let_def books_force_close books_handle_fill books_replay)
qed

lemma flow_force_close: "flow_ok cfg b \<Longrightarrow> flow_ok cfg (force_close p d b)"
proof -
  assume b: "flow_ok cfg b"
  have "flow_ok cfg (b\<lparr> last_bid := x, last_ask := y \<rparr>)" for x y by (rule flow_cong [OF b]) simp_all
  then show ?thesis using b by (simp add: force_close_def Let_def flow_close_open split: option.split)
qed

lemma flow_run_end: "flow_ok cfg (run_end cfg p d ls gs)"
proof -
  have "flow_ok cfg (run_start p d ls gs)" unfolding run_start_def by (rule flow_init) (simp_all add: result0_def)
  then show ?thesis by (simp add: run_end_def Let_def flow_force_close flow_handle_fill flow_replay)
qed

lemma force_close_held: "held (force_close p d b) = None" "pending (sm (force_close p d b)) = pending (sm b)"
proof -
  have "held (close_open p n l cb ca True b') = None \<and> sm (close_open p n l cb ca True b') = sm b'" for n l cb ca b'
    by (rule close_open_cases [of p n l cb ca True b']) auto
  then show "held (force_close p d b) = None" "pending (sm (force_close p d b)) = pending (sm b)"
    by (simp_all add: force_close_def Let_def split: option.split)
qed

lemma nothing_in_flight:
  assumes "\<forall>t\<in>set gs. b_ts_ms t \<le> b_ts_ms (last gs)"
  shows "in_flight (run_end cfg p d ls gs) = 0"
proof -
  let ?T = "max (b_ts_ms (last ls)) (b_ts_ms (last gs))"
  let ?b = "replay cfg p ls gs (run_start p d ls gs)"
  have "due_by ?T d (run_start p d ls gs)"
    by (simp add: due_by_def run_start_def bt_init_def sim_init_def)
  then have due: "due_by ?T d ?b" using assms by (intro due_by_replay) auto
  have "\<not> pending (sm (handle_fill p (end_ts (out ?b) + d + 1) ?b))"
  proof (cases p "end_ts (out ?b) + d + 1" ?b rule: handle_fill_cases)
    case 1
    then show ?thesis using due by (auto simp: due_by_def)
  qed simp_all
  then show ?thesis by (simp add: in_flight_def run_end_def Let_def force_close_held)
qed

text \<open>Gross profit and drawdown are never negative.\<close>

definition dd_ok :: "bt \<Rightarrow> bool" where
  "dd_ok b \<longleftrightarrow> 0 \<le> gross_p b \<and> 0 \<le> max_drawdown (out b)"

lemma dd_close_open: "dd_ok b \<Longrightarrow> dd_ok (close_open p now l cb ca fc b)"
  by (auto simp: close_open_def Let_def dd_ok_def dadd_nonneg split: option.split
      intro: dle_trans dless_imp_le)

lemma dd_handle_fill: "dd_ok b \<Longrightarrow> dd_ok (handle_fill p now b)"
  by (auto simp: handle_fill_def open_position_def Let_def dd_ok_def dadd_nonneg split: option.split
      intro: dle_trans dless_imp_le)

lemma dd_steps:
  assumes "dd_ok b"
  shows "dd_ok (lead_step t b)" "dd_ok (lag_step cfg p t b)"
proof -
  show "dd_ok (lead_step t b)" using assms by (simp add: dd_ok_def lead_step_def)
  have sig: "dd_ok b' \<Longrightarrow> dd_ok (trade_signal cfg p n b')" for b' n
    by (cases cfg p n b' rule: trade_signal_cases) (simp_all add: dd_ok_def)
  have "dd_ok (see_quote t b)" using assms by (simp add: dd_ok_def see_quote_def)
  then have "dd_ok (trade_signal cfg p n (ride p n (handle_fill p n (see_quote t b))))" for n
    by (simp add: ride_def dd_handle_fill dd_close_open sig)
  then show "dd_ok (lag_step cfg p t b)" using assms by (simp add: lag_step_def Let_def keep_last_def dd_ok_def)
qed

lemma dd_replay: "dd_ok b \<Longrightarrow> dd_ok (replay cfg p ls gs b)"
  by (induction cfg p ls gs b rule: replay.induct) (simp_all add: dd_steps)

lemma dd_run_end: "dd_ok (run_end cfg p d ls gs)"
proof -
  have "dd_ok (run_start p d ls gs)" by (simp add: run_start_def bt_init_def dd_ok_def result0_def dle_refl finite_not_nan)
  then have "dd_ok (handle_fill p n (replay cfg p ls gs (run_start p d ls gs)))" for n by (simp add: dd_handle_fill dd_replay)
  then have "dd_ok ((handle_fill p n (replay cfg p ls gs (run_start p d ls gs)))\<lparr> last_bid := x, last_ask := y \<rparr>)"
    "dd_ok (handle_fill p n (replay cfg p ls gs (run_start p d ls gs)))" for n x y by (simp_all add: dd_ok_def)
  then show ?thesis by (simp add: run_end_def force_close_def Let_def dd_close_open split: option.split)
qed

section \<open>The instant model never earns\<close>

text \<open>Both legs are against the same uncrossed book, so that no trade has a positive profit.\<close>

lemma instant_pnl_nonpos:
  assumes f: "at_fill now (lag_bid b) (lag_ask b) (sm b) = Some (f, s')" "filled f"
    and c: "costs_ok (params (sm b))" and q: "lag_bid b \<le> lag_ask b"
  shows "instant_pnl f \<le> 0"
proof -
  note o = at_fill_outcome [OF f(1)]
  note g = at_fill_filled [OF f]
  have comm: "0 \<le> f_commission f" using c g(6) by (simp add: costs_ok_def)
  let ?raw = "if f_side f = Buy then f_exec_bid f - f_price f else f_price f - f_exec_ask f"
  have fin: "isfinite (modelled_price (params (sm b)) (s_side (sm b)) (lag_bid b) (lag_ask b))" using g(4,5) by simp
  have nan: "\<not> is_nan (lag_bid b)" "\<not> is_nan (lag_ask b)" using not_nan_of_le [OF q] by simp_all
  have sub: "x - y \<le> 0" if "x \<le> y" "isfinite x \<or> isfinite y" "\<not> is_nan x" "\<not> is_nan y" for x y :: double
  proof (rule dsub_nonpos [OF that(1)])
    show "\<not> is_nan (x - y)" using that(2-4)
      by (cases "fval_of x"; cases "fval_of y") (auto simp: double_defs)
  qed
  have raw: "?raw \<le> 0"
  proof (cases "f_side f = Buy")
    case True
    then have "lag_bid b \<le> f_price f" using price_at_book(1) [OF c fin] o(5) g(5) q by (metis dle_trans)
    then show ?thesis using True sub g(4) nan o(6) finite_not_nan by simp
  next
    case False
    then have "f_price f \<le> lag_ask b" using price_at_book(2) [OF c fin] o(5) g(5) q by (metis dle_trans)
    then show ?thesis using False sub g(4) nan o(7) finite_not_nan by simp
  qed
  have "\<not> is_nan (?raw - f_commission f)" using raw comm
    by (cases "fval_of ?raw"; cases "fval_of (f_commission f)") (simp_all add: double_defs)
  moreover have "?raw \<le> f_commission f" using raw comm by (rule dle_trans)
  ultimately have "?raw - f_commission f \<le> 0" by (intro dsub_nonpos)
  then show ?thesis by (simp add: instant_pnl_def Let_def split: if_splits)
qed

definition no_gain :: "exec_params \<Rightarrow> bt \<Rightarrow> bool" where
  "no_gain p b \<longleftrightarrow> held b = None \<and> lag_bid b \<le> lag_ask b \<and> costs_ok (params (sm b)) \<and>
     (\<forall>t\<in>set (trades (out b)). t_pnl t \<le> 0)"

lemma no_gain_fill:
  assumes "no_gain p b" "model p = Instant"
  shows "no_gain p (handle_fill p now b)"
proof (cases "at_fill now (lag_bid b) (lag_ask b) (sm b)")
  case (Some fs)
  obtain f s' where fs: "at_fill now (lag_bid b) (lag_ask b) (sm b) = Some (f, s')" using Some by (cases fs) auto
  have par: "params s' = params (sm b)" by (rule at_fill_outcome(3) [OF fs])
  have "filled f \<Longrightarrow> instant_pnl f \<le> 0" using instant_pnl_nonpos [OF fs] assms(1) by (simp add: no_gain_def)
  then show ?thesis using assms fs par by (auto simp: handle_fill_def no_gain_def Let_def)
qed (use assms in \<open>simp add: handle_fill_def\<close>)

lemma no_gain_steps:
  assumes "no_gain p b" "model p = Instant"
  shows "no_gain p (lead_step t b)" "(b_is_valid t \<longrightarrow> b_bid t \<le> b_ask t) \<Longrightarrow> no_gain p (lag_step cfg p t b)"
proof -
  show "no_gain p (lead_step t b)" using assms by (simp add: no_gain_def lead_step_def)
  have sig: "no_gain p b' \<Longrightarrow> no_gain p (trade_signal cfg p n b')" for b' n
    by (cases cfg p n b' rule: trade_signal_cases) (simp_all add: no_gain_def)
  have ride: "no_gain p b' \<Longrightarrow> no_gain p (ride p n b')" for b' n
    by (simp add: ride_def close_open_def no_gain_def)
  show "no_gain p (lag_step cfg p t b)" if "b_is_valid t \<longrightarrow> b_bid t \<le> b_ask t"
  proof (cases "b_is_valid t")
    case True
    then have "no_gain p (see_quote t b)" using assms that by (simp add: no_gain_def see_quote_def)
    then have "no_gain p (trade_signal cfg p n (ride p n (handle_fill p n (see_quote t b))))" for n
      by (intro sig ride no_gain_fill assms(2))
    then show ?thesis using True by (simp add: lag_step_def Let_def keep_last_def no_gain_def)
  qed (use assms in \<open>simp add: lag_step_def\<close>)
qed

lemma no_gain_replay:
  "no_gain p b \<Longrightarrow> model p = Instant \<Longrightarrow> \<forall>t\<in>set gs. b_is_valid t \<longrightarrow> b_bid t \<le> b_ask t \<Longrightarrow> no_gain p (replay cfg p ls gs b)"
  by (induction cfg p ls gs b rule: replay.induct) (simp_all add: no_gain_steps)

lemma no_gain_run_end:
  assumes "model p = Instant" "costs_ok p" "\<forall>t\<in>set gs. b_is_valid t \<longrightarrow> b_bid t \<le> b_ask t"
  shows "\<forall>t\<in>set (trades (out (run_end cfg p d ls gs))). t_pnl t \<le> 0"
proof -
  have "no_gain p (run_start p d ls gs)" using assms(2)
    by (simp add: run_start_def bt_init_def no_gain_def result0_def sim_init_def costs_ok_def dle_refl finite_not_nan)
  then have b: "no_gain p (handle_fill p n (replay cfg p ls gs (run_start p d ls gs)))" for n
    using assms by (intro no_gain_fill no_gain_replay)
  then show ?thesis by (simp add: run_end_def force_close_def Let_def no_gain_def)
qed

section \<open>What a replay counts\<close>

lemma run_impl_settled:
  assumes "max_open_lots (strat cfg) \<le> 1" "base gr = Some lag"
    and "\<forall>t\<in>set (take (cnt gr) lag). b_ts_ms t \<le> b_ts_ms (last (take (cnt gr) lag))"
  shows "signals (run_impl cfg lr gr p d) = fills (run_impl cfg lr gr p d) + rejections (run_impl cfg lr gr p d) \<and>
    int (signals (run_impl cfg lr gr p d)) \<le> max 0 (max_orders_per_interval (strat cfg)) \<and>
    int (rejections (run_impl cfg lr gr p d)) \<le> max 0 (max_open_lots (strat cfg))"
proof (cases rule: run_impl_cases [of cfg lr gr p d])
  case 1
  then show ?thesis by (simp add: result0_def)
next
  case (2 lead lag')
  let ?e = "run_end cfg p d (take (cnt lr) lead) (take (cnt gr) lag)"
  have r: "run_impl cfg lr gr p d = finish ?e" using 2 assms(2) by simp
  have "in_flight ?e = 0" using assms(3) by (rule nothing_in_flight)
  moreover have "flow_ok cfg ?e" by (rule flow_run_end)
  ultimately show ?thesis using assms(1) unfolding r flow_ok_def by auto
qed

section \<open>After a rejection\<close>

text \<open>The ticks of the two streams in the order of the merge loop, each with its step.\<close>

fun merged :: "binary_tick list \<Rightarrow> binary_tick list \<Rightarrow> (binary_tick + binary_tick) list" where
  "merged [] [] = []"
| "merged (l # ls) [] = Inl l # merged ls []"
| "merged [] (g # gs) = Inr g # merged [] gs"
| "merged (l # ls) (g # gs) =
     (if b_ts_ms l \<le> b_ts_ms g then Inl l # merged ls (g # gs) else Inr g # merged (l # ls) gs)"

definition tick_step :: "config \<Rightarrow> exec_params \<Rightarrow> binary_tick + binary_tick \<Rightarrow> bt \<Rightarrow> bt" where
  "tick_step cfg p x b = (case x of Inl t \<Rightarrow> lead_step t b | Inr t \<Rightarrow> lag_step cfg p t b)"

lemma replay_merged: "replay cfg p ls gs b = fold (tick_step cfg p) (merged ls gs) b"
  by (induction cfg p ls gs b rule: replay.induct) (simp_all add: tick_step_def)

lemma flow_tick_steps: "flow_ok cfg b \<Longrightarrow> flow_ok cfg (fold (tick_step cfg p) xs b)"
  by (induction xs arbitrary: b) (simp_all add: tick_step_def flow_steps split: sum.split)

lemma flow_run_start: "flow_ok cfg (run_start p d ls gs)"
  unfolding run_start_def by (rule flow_init) (simp_all add: result0_def)

lemma fill_counts:
  "signals (out (handle_fill p now b)) = signals (out b)" "rejections (out b) \<le> rejections (out (handle_fill p now b))"
  by (cases p now b rule: handle_fill_cases; simp)+

lemma close_counts:
  "signals (out (close_open p now l cb ca fc b)) = signals (out b)" "rejections (out (close_open p now l cb ca fc b)) = rejections (out b)"
  by (rule close_open_cases [of p now l cb ca fc b]; simp)+

lemma trade_rejections: "rejections (out (trade_signal cfg p now b)) = rejections (out b)"
  by (cases cfg p now b rule: trade_signal_cases) simp_all

text \<open>With one lot at most, the lot of a rejected order is never given back: no signal follows.\<close>

lemma trade_blocked:
  assumes "flow_ok cfg b" "max_open_lots (strat cfg) \<le> 1" "0 < rejections (out b)"
  shows "signals (out (trade_signal cfg p now b)) = signals (out b)"
proof (cases cfg p now b rule: trade_signal_cases)
  case (placed s' t sd)
  have "open_lots (bs b) < max_open_lots (strat cfg)" using placed(6) by (auto simp: can_trade_now_def split: if_splits)
  then show ?thesis using assms by (auto simp: flow_ok_def)
qed simp

lemma tick_blocked:
  assumes "flow_ok cfg b" "max_open_lots (strat cfg) \<le> 1" "0 < rejections (out b)"
  shows "signals (out (tick_step cfg p x b)) = signals (out b) \<and> 0 < rejections (out (tick_step cfg p x b))"
proof (cases x)
  case (Inr t)
  let ?n = "b_ts_ms t"
  let ?q = "ride p ?n (handle_fill p ?n (see_quote t b))"
  have "flow_ok cfg (see_quote t b)" by (rule flow_cong [OF assms(1)]) (simp_all add: see_quote_def)
  then have q: "flow_ok cfg ?q" by (simp add: ride_def flow_handle_fill flow_close_open)
  have s: "signals (out (see_quote t b)) = signals (out b)" "rejections (out (see_quote t b)) = rejections (out b)"
    by (simp_all add: see_quote_def)
  have c: "signals (out ?q) = signals (out b)" "0 < rejections (out ?q)"
    using fill_counts [where p = p and now = ?n and b = "see_quote t b"] s assms(3) by (auto simp: ride_def close_counts)
  have "signals (out (trade_signal cfg p ?n ?q)) = signals (out b)"
    using trade_blocked [OF q assms(2) c(2)] c(1) by simp
  moreover have "0 < rejections (out (trade_signal cfg p ?n ?q))" using c(2) by (simp add: trade_rejections)
  ultimately show ?thesis using assms(3) Inr by (simp add: tick_step_def lag_step_def keep_last_def Let_def)
qed (use assms(3) in \<open>simp add: tick_step_def lead_step_def\<close>)

lemma ticks_blocked:
  assumes "flow_ok cfg b" "max_open_lots (strat cfg) \<le> 1" "0 < rejections (out b)"
  shows "signals (out (fold (tick_step cfg p) ys b)) = signals (out b)"
  using assms
proof (induction ys arbitrary: b)
  case (Cons y ys)
  have "flow_ok cfg (fold (tick_step cfg p) [y] b)" by (rule flow_tick_steps) (rule Cons.prems(1))
  then show ?case using Cons.IH tick_blocked [OF Cons.prems] Cons.prems(2) by simp
qed simp

lemma force_close_signals: "signals (out (force_close p d b)) = signals (out b)"
  by (simp add: force_close_def Let_def close_counts split: option.split)

text \<open>So all signals of a replay come before its first rejection is known.\<close>

lemma run_blocked:
  assumes "base lr = Some lead" "base gr = Some lag" "cnt lr \<noteq> 0" "cnt gr \<noteq> 0" "max_open_lots (strat cfg) \<le> 1"
    and "xs @ ys = merged (take (cnt lr) lead) (take (cnt gr) lag)"
    and "b = fold (tick_step cfg p) xs (run_start p d (take (cnt lr) lead) (take (cnt gr) lag))" "0 < rejections (out b)"
  shows "signals (run_impl cfg lr gr p d) = signals (out b)"
proof -
  let ?ls = "take (cnt lr) lead" and ?gs = "take (cnt gr) lag"
  have r: "run_impl cfg lr gr p d = finish (run_end cfg p d ?ls ?gs)"
    using assms(1-4) by (simp add: run_impl_def run_end_def run_start_def Let_def)
  have "replay cfg p ?ls ?gs (run_start p d ?ls ?gs) = fold (tick_step cfg p) ys b"
    by (simp add: replay_merged assms(7) flip: assms(6))
  then have "signals (run_impl cfg lr gr p d) = signals (out (fold (tick_step cfg p) ys b))"
    unfolding r by (simp add: run_end_def Let_def force_close_signals fill_counts)
  moreover have "flow_ok cfg b" unfolding assms(7) by (rule flow_tick_steps [OF flow_run_start])
  ultimately show ?thesis using ticks_blocked assms(5,8) by simp
qed

end
