(* ===== verification/Replay.thy ===== *)
theory Replay
  imports Backtest
begin

text \<open>
  \<open>src/bin/tick_replay_main.cpp\<close>: the command line, the conversion helper, the parameters of a
  replay and the files it writes. The file system is an argument: what can be read, mapped
  and written under a path. What goes to the console is not modelled; one run gives its exit
  status and the files written, in order.
\<close>

section \<open>Arguments\<close>

record cli_args =
  a_lead :: str
  a_lag :: str
  a_report :: str
  a_equity :: str
  a_csv_in :: str
  a_csv_out :: str
  a_convert :: bool
  a_delay_ms :: int
  a_threshold :: double
  a_latency_buf :: double
  a_margin :: double
  a_max_loss :: double
  a_volume :: double
  a_pnl_model :: str
  a_hold_tol :: double
  a_hold_max_ms :: int
  a_ok :: bool

definition cli_default :: cli_args where
  "cli_default = \<lparr> a_lead = '''', a_lag = '''', a_report = ''build/backtest_report.json'', a_equity = '''',
     a_csv_in = '''', a_csv_out = '''', a_convert = False, a_delay_ms = 5, a_threshold = lit 0.5,
     a_latency_buf = lit 0.2, a_margin = lit 0.3, a_max_loss = lit 500.0, a_volume = lit 1.0, a_pnl_model = ''hold'',
     a_hold_tol = lit 0.05, a_hold_max_ms = 0, a_ok = True \<rparr>"

text \<open>The value of a flag, the arguments left after it and the settings; a missing value is empty.\<close>

fun flag_value :: "str list \<Rightarrow> cli_args \<Rightarrow> str \<times> str list \<times> cli_args" where
  "flag_value [] a = ([], [], a\<lparr> a_ok := False \<rparr>)"
| "flag_value (v # rest) a = (v, rest, a)"

text \<open>What a flag with one value stores.\<close>

definition store :: "str \<Rightarrow> (str \<Rightarrow> cli_args \<Rightarrow> cli_args) option" where
  "store arg =
     (if arg = ''--lead'' then Some (\<lambda>v a. a\<lparr> a_lead := v \<rparr>)
      else if arg = ''--lag'' then Some (\<lambda>v a. a\<lparr> a_lag := v \<rparr>)
      else if arg = ''--delay-ms'' then Some (\<lambda>v a. a\<lparr> a_delay_ms := atoi v \<rparr>)
      else if arg = ''--report'' then Some (\<lambda>v a. a\<lparr> a_report := v \<rparr>)
      else if arg = ''--equity'' then Some (\<lambda>v a. a\<lparr> a_equity := v \<rparr>)
      else if arg = ''--threshold'' then Some (\<lambda>v a. a\<lparr> a_threshold := atof v \<rparr>)
      else if arg = ''--latency-buffer'' then Some (\<lambda>v a. a\<lparr> a_latency_buf := atof v \<rparr>)
      else if arg = ''--margin'' then Some (\<lambda>v a. a\<lparr> a_margin := atof v \<rparr>)
      else if arg = ''--max-loss'' then Some (\<lambda>v a. a\<lparr> a_max_loss := atof v \<rparr>)
      else if arg = ''--volume'' then Some (\<lambda>v a. a\<lparr> a_volume := atof v \<rparr>)
      else if arg = ''--pnl-model'' then Some (\<lambda>v a. a\<lparr> a_pnl_model := v \<rparr>)
      else if arg = ''--hold-tol'' then Some (\<lambda>v a. a\<lparr> a_hold_tol := atof v \<rparr>)
      else if arg = ''--hold-max-ms'' then Some (\<lambda>v a. a\<lparr> a_hold_max_ms := atoi v \<rparr>)
      else None)"

lemma flag_value_shorter: "flag_value rest a = (v, rest1, a1) \<Longrightarrow> length rest1 \<le> length rest"
  by (cases rest) auto

datatype command = Help | Settings cli_args

text \<open>The loop over the arguments; \<open>--help\<close> returns at once.\<close>

function parse_args :: "str list \<Rightarrow> cli_args \<Rightarrow> command" where
  "parse_args [] a = Settings a"
| "parse_args (arg # rest) a =
     (if arg = ''--convert-csv''
      then let (v, rest1, a1) = flag_value rest (a\<lparr> a_convert := True \<rparr>);
               (w, rest2, a2) = flag_value rest1 (a1\<lparr> a_csv_in := v \<rparr>)
           in parse_args rest2 (a2\<lparr> a_csv_out := w \<rparr>)
      else case store arg of
          Some f \<Rightarrow> let (v, rest1, a1) = flag_value rest a in parse_args rest1 (f v a1)
        | None \<Rightarrow> if arg = ''--help'' \<or> arg = ''-h'' then Help else parse_args rest (a\<lparr> a_ok := False \<rparr>))"
  by pat_completeness auto
termination
  by (relation "measure (\<lambda>(args, _). length args)") (auto dest!: flag_value_shorter [OF sym])

section \<open>A replay\<close>

definition replay_config :: "environment \<Rightarrow> cli_args \<Rightarrow> config" where
  "replay_config getenv a =
     (let c = from_env getenv
      in c\<lparr> strat := (strat c)\<lparr> threshold_pips := a_threshold a, latency_buffer_pips := a_latency_buf a,
              min_profit_margin_pips := a_margin a, max_daily_loss := a_max_loss a, interval_seconds := 0,
              max_orders_per_interval := 1000000 \<rparr> \<rparr>)"

definition replay_params :: "cli_args \<Rightarrow> exec_params" where
  "replay_params a = params_default\<lparr> delay_ms := a_delay_ms a, slippage_pts := 0, spread_cap_pts := lit 50.0,
     slippage_cap_pts := lit 50.0, quantity := a_volume a,
     model := (if a_pnl_model a = ''instant'' then Instant else HoldConvergence),
     hold_tol_pts := a_hold_tol a, hold_max_ms := a_hold_max_ms a \<rparr>"

definition decay_delays :: "int list" where
  "decay_delays = [0, 5, 15, 30, 50, 100]"

definition quoted :: "str \<Rightarrow> str" where
  "quoted s = CHR 0x22 # s @ [CHR 0x22]"

definition newline :: str where
  "newline = [CHR 0x0A]"

definition decay_text :: "decay_row \<Rightarrow> str" where
  "decay_text m = ''{'' @ quoted ''delay_ms'' @ '':'' @ show_int (dr_delay_ms m) @ '','' @ quoted ''pnl'' @ '':'' @
     fmt_f 6 (net_pnl m) @ '','' @ quoted ''sharpe'' @ '':'' @ fmt_f 4 (dr_sharpe m) @ '','' @ quoted ''fills'' @ '':'' @
     show_nat (dr_fills m) @ '','' @ quoted ''rejections'' @ '':'' @ show_nat (dr_rejections m) @ ''}''"

fun decay_list :: "decay_row list \<Rightarrow> str" where
  "decay_list [] = []"
| "decay_list [m] = decay_text m"
| "decay_list (m # ms) = decay_text m @ CHR '','' # decay_list ms"

definition report_text :: "cli_args \<Rightarrow> bt_result \<Rightarrow> decay_row list \<Rightarrow> str" where
  "report_text a r ms =
     ''{'' @ newline @
     ''  '' @ quoted ''engine'' @ '': '' @ quoted ''lead_lag_tick_replay'' @ '','' @ newline @
     ''  '' @ quoted ''lead_file'' @ '': '' @ quoted (a_lead a) @ '','' @ newline @
     ''  '' @ quoted ''lag_file'' @ '': '' @ quoted (a_lag a) @ '','' @ newline @
     ''  '' @ quoted ''run_delay_ms'' @ '': '' @ show_int (a_delay_ms a) @ '','' @ newline @
     ''  '' @ quoted ''ticks'' @ '': { '' @ quoted ''lead'' @ '': '' @ show_nat (lead_ticks r) @ '', '' @ quoted ''lag'' @ '': '' @
       show_nat (lag_ticks r) @ '' },'' @ newline @
     ''  '' @ quoted ''signals'' @ '': '' @ show_nat (signals r) @ '','' @ newline @
     ''  '' @ quoted ''fills'' @ '': '' @ show_nat (fills r) @ '','' @ newline @
     ''  '' @ quoted ''rejections'' @ '': '' @ show_nat (rejections r) @ '','' @ newline @
     ''  '' @ quoted ''pnl'' @ '': { '' @ quoted ''total'' @ '': '' @ fmt_f 6 (total_pnl r) @ '', '' @ quoted ''gross_profit'' @ '': '' @
       fmt_f 6 (gross_profit r) @ '', '' @ quoted ''gross_loss'' @ '': '' @ fmt_f 6 (gross_loss r) @ '', '' @
       quoted ''profit_factor'' @ '': '' @ fmt_f 4 (profit_factor r) @ '' },'' @ newline @
     ''  '' @ quoted ''sharpe'' @ '': { '' @ quoted ''per_trade'' @ '': '' @ fmt_f 4 (sharpe_per_trade r) @ '', '' @
       quoted ''annualized'' @ '': '' @ fmt_f 4 (sharpe_annual r) @ '' },'' @ newline @
     ''  '' @ quoted ''drawdown'' @ '': { '' @ quoted ''max'' @ '': '' @ fmt_f 4 (max_drawdown r) @ '', '' @
       quoted ''max_pct'' @ '': '' @ fmt_f 2 (max_drawdown_pct r) @ '' },'' @ newline @
     ''  '' @ quoted ''equity'' @ '': { '' @ quoted ''initial'' @ '': '' @ fmt_f 2 (initial_capital r) @ '', '' @
       quoted ''final'' @ '': '' @ fmt_f 2 (final_equity r) @ '' },'' @ newline @
     ''  '' @ quoted ''latency_decay'' @ '': ['' @ decay_list ms @ '']'' @ newline @ ''}'' @ newline"

definition trade_line :: "trade \<Rightarrow> str" where
  "trade_line t = show_int (t_fill_ts t) @ '','' @
     (case t_side t of Buy \<Rightarrow> ''BUY'' | Sell \<Rightarrow> ''SELL'' | NoSide \<Rightarrow> ''HOLD'') @ '','' @ fmt_f 6 (t_price t) @ '','' @
     fmt_f 6 (t_pnl t) @ '','' @ fmt_f 6 (t_equity_after t) @ newline"

definition equity_text :: "bt_result \<Rightarrow> str" where
  "equity_text r = ''fill_ts_ms,side,fill_price,pnl,equity'' @ newline @ concat (map trade_line (trades r))"

record file_system =
  fs_text :: "str \<Rightarrow> str option"
  fs_writable :: "str \<Rightarrow> bool"
  fs_stat :: "str \<Rightarrow> nat option option"
  fs_mmap :: "str \<Rightarrow> binary_tick list option"

datatype file_output = TickFile str "binary_tick list" | TextFile str str

text \<open>The input is read after the output was truncated.\<close>

definition csv_text :: "file_system \<Rightarrow> cli_args \<Rightarrow> str option" where
  "csv_text fs a = (if a_csv_in a = a_csv_out a \<and> fs_writable fs (a_csv_out a)
     then map_option (\<lambda>_. []) (fs_text fs (a_csv_in a)) else fs_text fs (a_csv_in a))"

definition convert_main :: "file_system \<Rightarrow> cli_args \<Rightarrow> int \<times> file_output list" where
  "convert_main fs a =
     (if a_csv_in a = [] \<or> a_csv_out a = [] then (2, [])
      else case convert (csv_text fs a) (fs_writable fs (a_csv_out a)) csv_default of
          Inl NoValidRows \<Rightarrow> (1, [TickFile (a_csv_out a) []])
        | Inl _ \<Rightarrow> (1, [])
        | Inr (_, ts) \<Rightarrow> (0, [TickFile (a_csv_out a) ts]))"

definition open_stream :: "file_system \<Rightarrow> str \<Rightarrow> open_error + reader" where
  "open_stream fs p = reader_open (fs_stat fs p) (fs_mmap fs p) reader_init"

definition replay_files :: "file_system \<Rightarrow> environment \<Rightarrow> cli_args \<Rightarrow> reader \<Rightarrow> reader \<Rightarrow> int \<times> file_output list" where
  "replay_files fs getenv a lead lag =
     (let cfg = replay_config getenv a; p = replay_params a;
          r = bt_run cfg lead lag p; ms = latency_decay_matrix cfg lead lag decay_delays p
      in if \<not> fs_writable fs (a_report a) then (1, [])
         else (0, TextFile (a_report a) (report_text a r ms) #
                  (if a_equity a \<noteq> [] \<and> fs_writable fs (a_equity a) then [TextFile (a_equity a) (equity_text r)] else [])))"

definition replay_main :: "file_system \<Rightarrow> environment \<Rightarrow> str list \<Rightarrow> int \<times> file_output list" where
  "replay_main fs getenv args = (case parse_args args cli_default of
     Help \<Rightarrow> (0, [])
   | Settings a \<Rightarrow>
       if \<not> a_ok a then (2, [])
       else if a_convert a then convert_main fs a
       else if a_lead a = [] \<or> a_lag a = [] then (2, [])
       else (case open_stream fs (a_lead a) of
           Inl _ \<Rightarrow> (1, [])
         | Inr lead \<Rightarrow> (case open_stream fs (a_lag a) of
             Inl _ \<Rightarrow> (1, [])
           | Inr lag \<Rightarrow> replay_files fs getenv a lead lag)))"

section \<open>The command line is read back\<close>

definition args_of :: "cli_args \<Rightarrow> str list" where
  "args_of a = [''--lead'', a_lead a, ''--lag'', a_lag a, ''--delay-ms'', show_int (a_delay_ms a), ''--report'', a_report a,
     ''--equity'', a_equity a, ''--threshold'', fmt_f 6 (a_threshold a), ''--latency-buffer'', fmt_f 6 (a_latency_buf a),
     ''--margin'', fmt_f 6 (a_margin a), ''--max-loss'', fmt_f 6 (a_max_loss a), ''--volume'', fmt_f 6 (a_volume a),
     ''--pnl-model'', a_pnl_model a, ''--hold-tol'', fmt_f 6 (a_hold_tol a), ''--hold-max-ms'', show_int (a_hold_max_ms a)]"

text \<open>The settings as the text carries them: numbers at six decimals.\<close>

definition printed :: "cli_args \<Rightarrow> cli_args" where
  "printed a = a\<lparr> a_threshold := decimals 6 (a_threshold a), a_latency_buf := decimals 6 (a_latency_buf a),
     a_margin := decimals 6 (a_margin a), a_max_loss := decimals 6 (a_max_loss a), a_volume := decimals 6 (a_volume a),
     a_hold_tol := decimals 6 (a_hold_tol a) \<rparr>"

lemma parse_args_flag:
  "store arg = Some f \<Longrightarrow> arg \<noteq> ''--convert-csv'' \<Longrightarrow> parse_args (arg # v # rest) a = parse_args rest (f v a)"
  by simp

definition int32 :: "int \<Rightarrow> bool" where
  "int32 n \<longleftrightarrow> - (2 ^ 31) \<le> n \<and> n < 2 ^ 31"

lemma parse_args_of:
  assumes "\<forall>x\<in>{a_threshold a, a_latency_buf a, a_margin a, a_max_loss a, a_volume a, a_hold_tol a}. isfinite x"
    and "int32 (a_delay_ms a)" "int32 (a_hold_max_ms a)"
  shows "parse_args (args_of a) cli_default =
    Settings (printed a\<lparr> a_csv_in := [], a_csv_out := [], a_convert := False, a_ok := True \<rparr>)"
proof -
  have n: "atoi (show_int (a_delay_ms a)) = a_delay_ms a" "atoi (show_int (a_hold_max_ms a)) = a_hold_max_ms a"
    using assms(2,3) by (simp_all add: atoi_show_int int32_def)
  have d: "isfinite x \<Longrightarrow> atof (fmt_f 6 x) = decimals 6 x" for x by (simp add: atof_fmt_f)
  show ?thesis
    using assms(1) by (simp add: args_of_def parse_args_flag store_def n d printed_def cli_default_def)
qed

section \<open>What a replay reports\<close>

lemma replay_main_success:
  assumes "parse_args args cli_default = Settings a" "\<not> a_convert a" "replay_main fs getenv args = (0, outs)"
  obtains lead lag rest where "open_stream fs (a_lead a) = Inr lead" "open_stream fs (a_lag a) = Inr lag"
    "outs = TextFile (a_report a) (report_text a (bt_run (replay_config getenv a) lead lag (replay_params a))
       (latency_decay_matrix (replay_config getenv a) lead lag decay_delays (replay_params a))) # rest" "length rest \<le> 1"
  using assms by (auto simp: replay_main_def replay_files_def Let_def split: if_splits sum.splits)

lemma open_stream_base: "open_stream fs p = Inr r \<Longrightarrow> \<exists>ticks len. base r = Some ticks \<and> fs_mmap fs p = Some ticks \<and>
   fs_stat fs p = Some (Some len) \<and> cnt r = len div 24"
  by (auto simp: open_stream_def reader_open_def reader_init_def split: option.splits if_splits)

end
