(* ===== verification/FixMsg.thy ===== *)
theory FixMsg
  imports Config
begin

text \<open>
  The FIX 4.4 message layer that \<open>src/fix_executor.cpp\<close> and \<open>src/fix_client.cpp\<close> have in common:
  fields, the framed message with BodyLength and CheckSum, the formats of prices and
  quantities, the tag scanner, and one step of the splitter that cuts frames out of the
  received bytes. The UTC time stamp of tag 52 is an argument.
\<close>

definition SOH :: char where
  "SOH = CHR 0x01"

section \<open>Building\<close>

definition fix_field :: "nat \<Rightarrow> str \<Rightarrow> str" where
  "fix_field tag v = show_nat tag @ ''='' @ v @ [SOH]"

definition fix_field_int :: "nat \<Rightarrow> int64 \<Rightarrow> str" where
  "fix_field_int tag v = fix_field tag (show_int v)"

definition fix_field_double :: "nat \<Rightarrow> double \<Rightarrow> str" where
  "fix_field_double tag v = fix_field tag (take 47 (fmt_f 5 v))"

definition fix_header :: "char \<Rightarrow> str \<Rightarrow> str \<Rightarrow> int64 \<Rightarrow> str \<Rightarrow> str" where
  "fix_header msg_type sender target sq utc =
     fix_field 35 [msg_type] @ fix_field 49 sender @ fix_field 56 target @ fix_field_int 34 sq @ fix_field 52 utc"

definition byte_sum :: "str \<Rightarrow> nat" where
  "byte_sum msg = sum_list (map of_char msg)"

definition fix_preamble :: str where
  "fix_preamble = ''8=FIX.4.4'' @ [SOH]"

definition fix_unsummed :: "char \<Rightarrow> str \<Rightarrow> str \<Rightarrow> str \<Rightarrow> int64 \<Rightarrow> str \<Rightarrow> str" where
  "fix_unsummed msg_type body sender target sq utc =
     (let hdr = fix_header msg_type sender target sq utc
      in fix_preamble @ ''9='' @ show_nat (length hdr + length body) @ [SOH] @ hdr @ body)"

definition fix_frame :: "char \<Rightarrow> str \<Rightarrow> str \<Rightarrow> str \<Rightarrow> int64 \<Rightarrow> str \<Rightarrow> str" where
  "fix_frame msg_type body sender target sq utc =
     (let msg = fix_unsummed msg_type body sender target sq utc
      in msg @ ''10='' @ pad0 3 (byte_sum msg mod 256) @ [SOH])"

definition fmt_px :: "double \<Rightarrow> str" where
  "fmt_px px = (let s = strip_zeros (take 47 (fmt_f 5 px)) in if s = [] then ''0'' else s)"

definition fmt_qty :: "double \<Rightarrow> str" where
  "fmt_qty q = take 63 (fmt_g q)"

section \<open>Reading\<close>

definition is_digits :: "str \<Rightarrow> bool" where
  "is_digits s \<longleftrightarrow> s \<noteq> [] \<and> (\<forall>c\<in>set s. is_digit c)"

text \<open>The scanner: the loop index is the suffix still to be scanned.\<close>

function scan_tag :: "str \<Rightarrow> int \<Rightarrow> str" where
  "scan_tag f tag =
     (if f = [] then []
      else case find_char CHR ''='' f of
        None \<Rightarrow> []
      | Some eq \<Rightarrow>
          let soh = find_char_from SOH f eq; tagn = take eq f in
          if is_digits tagn \<and> atoi tagn = tag
          then (case soh of None \<Rightarrow> drop (eq + 1) f | Some s \<Rightarrow> substr f (eq + 1) (s - eq - 1))
          else (case soh of None \<Rightarrow> [] | Some s \<Rightarrow> scan_tag (drop (s + 1) f) tag))"
  by auto
termination
  by (relation "measure (\<lambda>(f, _). length f)") auto

declare scan_tag.simps [simp del]

definition kMaxMsgLen :: int64 where
  "kMaxMsgLen = 2 ^ 20"

datatype split_result = Incomplete str | Resync str | Frame str str

text \<open>One turn of the loop of \<open>process_inbound\<close> on the buffered bytes.\<close>

definition split_frame :: "str \<Rightarrow> split_result" where
  "split_frame inbound =
     (case find_sub fix_preamble inbound of
        None \<Rightarrow> Incomplete (if 16 < length inbound then drop (length inbound - 16) inbound else inbound)
      | Some header \<Rightarrow>
          let buf = drop header inbound in
          (case find_sub ''9='' buf of
             None \<Rightarrow> Incomplete buf
           | Some p9 \<Rightarrow>
               (case find_char_from SOH buf (p9 + 2) of
                  None \<Rightarrow> Incomplete buf
                | Some p9e \<Rightarrow>
                    let blen_s = substr buf (p9 + 2) (p9e - p9 - 2) in
                    if \<not> is_digits blen_s then Resync (drop 1 buf)
                    else let blen = atol blen_s in
                      if blen < 0 \<or> kMaxMsgLen < blen then Resync (drop 1 buf)
                      else let total = p9e + 1 + nat blen + 7 in
                        if length buf < total then Incomplete buf
                        else Frame (take total buf) (drop total buf))))"

lemma split_frame_shorter:
  "split_frame s = Resync r \<Longrightarrow> length r < length s"
  "split_frame s = Frame f r \<Longrightarrow> length r < length s"
  by (auto simp: split_frame_def Let_def split: option.splits if_splits
      dest!: find_char_from_Some find_sub_Some_length)

section \<open>Fields and the scanner\<close>

definition fields_text :: "(nat \<times> str) list \<Rightarrow> str" where
  "fields_text fs = concat (map (\<lambda>(t, v). fix_field t v) fs)"

lemma fields_text_simps [simp]:
  "fields_text [] = []" "fields_text ((t, v) # fs) = fix_field t v @ fields_text fs"
  "fields_text (fs @ gs) = fields_text fs @ fields_text gs"
  by (simp_all add: fields_text_def)

definition no_soh :: "str \<Rightarrow> bool" where
  "no_soh v \<longleftrightarrow> SOH \<notin> set v"

lemma plain_no_soh: "\<forall>c\<in>set v. plain c \<Longrightarrow> no_soh v"
  using plain_not_separator by (auto simp: no_soh_def SOH_def)

lemma show_nat_eq: "CHR ''='' \<notin> set (show_nat n)" "is_digits (show_nat n)" "no_soh (show_nat n)"
  using show_nat_plain [of n] plain_not_separator show_nat_digits [of n]
  by (auto simp: is_digits_def no_soh_def SOH_def)

lemma atoi_show_nat: "n < 2 ^ 31 \<Longrightarrow> atoi (show_nat n) = int n"
  using atoi_show_int [of "int n"] by (simp add: show_int_def)

lemma scan_tag_field:
  assumes "no_soh v" "t < 2 ^ 31"
  shows "scan_tag (fix_field t v @ s) tag = (if int t = tag then v else scan_tag s tag)"
proof -
  let ?f = "show_nat t @ CHR ''='' # v @ SOH # s" and ?e = "length (show_nat t)"
  have eq: "find_char CHR ''='' ?f = Some ?e" by (rule find_char_append) (rule show_nat_eq)
  have "find_char SOH (CHR ''='' # v @ SOH # s) = Some (Suc (length v))"
    using find_char_append [of SOH "CHR ''='' # v" s] assms(1) by (simp add: no_soh_def SOH_def)
  then have soh: "find_char_from SOH ?f ?e = Some (Suc (length v) + ?e)"
    by (simp add: find_char_from_def)
  have at: "atoi (show_nat t) = int t" using assms(2) by (rule atoi_show_nat)
  have "fix_field t v @ s = ?f" by (simp add: fix_field_def)
  moreover have "scan_tag ?f tag = (if int t = tag then v else scan_tag s tag)"
    by (subst scan_tag.simps)
      (simp add: eq soh show_nat_eq at substr_def Let_def)
  ultimately show ?thesis by simp
qed

lemma scan_tag_Nil [simp]: "scan_tag [] tag = []"
  by (subst scan_tag.simps) simp

text \<open>On a text of fields the scanner is the lookup of the first field with the tag.\<close>

lemma scan_tag_fields:
  assumes "\<forall>(t, v)\<in>set fs. no_soh v \<and> t < 2 ^ 31"
  shows "scan_tag (fields_text fs) (int t) = (case map_of fs t of Some v \<Rightarrow> v | None \<Rightarrow> [])"
  using assms by (induction fs) (auto simp: scan_tag_field)

text \<open>A frame is the text of its fields.\<close>

definition frame_fields :: "char \<Rightarrow> (nat \<times> str) list \<Rightarrow> str \<Rightarrow> str \<Rightarrow> int64 \<Rightarrow> str \<Rightarrow> (nat \<times> str) list" where
  "frame_fields msg_type fs sender target sq utc =
     (let msg = fix_unsummed msg_type (fields_text fs) sender target sq utc in
      [(8, ''FIX.4.4''),
       (9, show_nat (length (fix_header msg_type sender target sq utc) + length (fields_text fs))),
       (35, [msg_type]), (49, sender), (56, target), (34, show_int sq), (52, utc)] @ fs @
      [(10, pad0 3 (byte_sum msg mod 256))])"

lemma show_nat_small [simp]:
  "show_nat 8 = ''8''" "show_nat 9 = ''9''" "show_nat 10 = ''10''"
  by code_simp+

lemma fix_frame_fields:
  "fix_frame msg_type (fields_text fs) sender target sq utc = fields_text (frame_fields msg_type fs sender target sq utc)"
  by (simp add: fix_frame_def frame_fields_def Let_def fix_unsummed_def fix_preamble_def fix_header_def
      fix_field_int_def fix_field_def SOH_def)

lemma pad0_no_soh: "no_soh (pad0 k n)"
proof -
  have "\<not> is_digit CHR 0x01" by (simp add: is_digit_def)
  then show ?thesis using pad0_digits [of k n] by (auto simp: no_soh_def SOH_def)
qed

lemma show_int_no_soh: "no_soh (show_int n)"
  using show_int_plain plain_no_soh by blast

lemma frame_scan:
  assumes "\<forall>(t, v)\<in>set fs. no_soh v \<and> t < 2 ^ 31" "no_soh [msg_type]" "no_soh sender" "no_soh target" "no_soh utc"
  shows "scan_tag (fix_frame msg_type (fields_text fs) sender target sq utc) (int t) =
    (case map_of (frame_fields msg_type fs sender target sq utc) t of Some v \<Rightarrow> v | None \<Rightarrow> [])"
proof -
  have "\<forall>(t, v)\<in>set (frame_fields msg_type fs sender target sq utc). no_soh v \<and> t < 2 ^ 31"
    using assms by (auto simp: frame_fields_def Let_def pad0_no_soh show_int_no_soh show_nat_eq)
      (auto simp: no_soh_def SOH_def)
  from scan_tag_fields [OF this] show ?thesis by (simp only: fix_frame_fields)
qed

section \<open>Framing\<close>

lemma find_9: "find_sub ''9='' (fix_preamble @ ''9='' @ s) = Some 10"
  by (simp add: fix_preamble_def SOH_def)

lemma length_fix_preamble: "length fix_preamble = 10"
  by (simp add: fix_preamble_def)

text \<open>A whole frame at the front of the buffer is cut off, whatever follows it.\<close>

lemma split_frame_frame:
  assumes "length (fix_header m sender target sq utc) + length body \<le> 2 ^ 20"
  shows "split_frame (fix_frame m body sender target sq utc @ s) = Frame (fix_frame m body sender target sq utc) s"
proof -
  let ?n = "length (fix_header m sender target sq utc) + length body"
  let ?hb = "fix_header m sender target sq utc @ body"
  let ?ck = "pad0 3 (byte_sum (fix_unsummed m body sender target sq utc) mod 256)"
  let ?rest = "?hb @ ''10='' @ ?ck @ [SOH]"
  let ?f = "fix_frame m body sender target sq utc"
  have f: "?f = fix_preamble @ ''9='' @ show_nat ?n @ SOH # ?rest"
    by (simp add: fix_frame_def fix_unsummed_def Let_def)
  have ck: "length ?ck = 3" by (intro length_pad0) simp_all
  have len: "length ?f = 13 + length (show_nat ?n) + ?n + 7"
    by (simp add: f length_fix_preamble ck)
  have h: "find_sub fix_preamble (?f @ s) = Some 0" by (simp add: f)
  have p9: "find_sub ''9='' (?f @ s) = Some 10" unfolding f using find_9 by simp
  have "drop 12 (?f @ s) = show_nat ?n @ SOH # ?rest @ s"
    by (simp add: f length_fix_preamble)
  then have p9e: "find_char_from SOH (?f @ s) 12 = Some (12 + length (show_nat ?n))"
    using show_nat_eq(3) [of ?n] by (simp add: find_char_from_def no_soh_def)
  have bl: "substr (?f @ s) 12 (length (show_nat ?n)) = show_nat ?n"
    by (simp add: substr_def f length_fix_preamble)
  have "atol (show_nat ?n) = int ?n"
    using atoll_show_int [of "int ?n"] assms by (simp add: atol_def show_int_def flip: of_nat_add)
  then show ?thesis using assms
    by (simp add: split_frame_def h p9 p9e bl show_nat_eq kMaxMsgLen_def len Let_def)
qed

section \<open>Segmentation\<close>

text \<open>The frames of a buffer and what stays in it: \<open>process_inbound\<close> without the handlers.\<close>

function split_all :: "str \<Rightarrow> str list \<times> str" where
  "split_all s = (case split_frame s of
     Incomplete r \<Rightarrow> ([], r)
   | Resync r \<Rightarrow> split_all r
   | Frame f r \<Rightarrow> (let (fs, r') = split_all r in (f # fs, r')))"
  by auto
termination
  by (relation "measure length") (auto dest: split_frame_shorter)

declare split_all.simps [simp del]

lemma find_sub_append: "find_sub p s = Some i \<Longrightarrow> find_sub p (s @ t) = Some i"
proof (induction s arbitrary: i)
  case Nil
  then show ?case by (cases t) (auto split: if_splits)
next
  case (Cons c s)
  have "starts_with p (c # s) \<Longrightarrow> starts_with p ((c # s) @ t)"
    unfolding starts_with_iff_prefix by (rule prefix_prefix)
  moreover have "find_sub p (c # s) = Some i \<Longrightarrow> \<not> starts_with p (c # s) \<Longrightarrow> \<not> starts_with p ((c # s) @ t)"
  proof
    assume a: "find_sub p (c # s) = Some i" "\<not> starts_with p (c # s)" "starts_with p ((c # s) @ t)"
    then have "length p \<le> length (c # s)" using find_sub_Some_length [OF a(1)] by simp
    then have "prefix p (c # s)" using a(3) unfolding starts_with_iff_prefix
      by (metis prefix_length_prefix prefix_def prefix_same_cases prefix_order.antisym prefix_length_le)
    then show False using a(2) by (simp add: starts_with_iff_prefix)
  qed
  ultimately show ?case using Cons by (auto split: if_splits)
qed

lemma find_char_append_Some: "find_char c s = Some i \<Longrightarrow> find_char c (s @ t) = Some i"
  by (induction s arbitrary: i) (auto split: if_splits)

lemma find_char_from_append: "find_char_from c s n = Some i \<Longrightarrow> find_char_from c (s @ t) n = Some i"
  using find_char_append_Some [of c "drop n s" _ "drop (n - length s) t"] by (auto simp: find_char_from_def)

lemma find_sub_drop:
  "find_sub p s = Some i \<Longrightarrow> k \<le> i \<Longrightarrow> find_sub p (drop k s) = Some (i - k)"
proof (induction s arbitrary: i k)
  case (Cons c s)
  then show ?case by (cases k) (auto split: if_splits)
qed (auto split: if_splits)

lemma find_sub_drop_None: "find_sub p s = None \<Longrightarrow> find_sub p (drop k s) = None"
proof (induction s arbitrary: k)
  case (Cons c s)
  then show ?case by (cases k) (auto split: if_splits)
qed auto

text \<open>A header that was not in the buffer can only start in its last nine bytes.\<close>

lemma find_sub_late:
  assumes "find_sub p s = None" "find_sub p (s @ t) = Some i"
  shows "length s < i + length p"
proof (rule ccontr)
  assume "\<not> length s < i + length p"
  then have l: "i + length p \<le> length s" by simp
  have "starts_with p (drop i (s @ t))" using find_sub_Some_starts [OF assms(2)] by simp
  then have "prefix p (drop i s @ t)" using l by (simp add: starts_with_iff_prefix)
  then have "prefix p (drop i s)" using l by (metis length_drop le_diff_conv2 add.commute add_leD1 prefix_append prefix_length_le append_eq_append_conv_if prefix_def le_add_diff_inverse prefix_prefix prefix_same_cases prefix_length_prefix)
  moreover have "p \<noteq> []" using assms(1) by (cases s) auto
  ultimately show False using find_sub_None [OF assms(1), of i] l
    by (cases p) (auto simp: starts_with_iff_prefix)
qed

lemma split_frame_from_header:
  assumes "find_sub fix_preamble s = Some i"
  shows "split_frame s = split_frame (drop i s)"
  using find_sub_drop [OF assms, of i] assms by (simp add: split_frame_def)

lemma split_frame_no_header:
  "find_sub fix_preamble s = None \<Longrightarrow> split_frame s = Incomplete (drop (length s - 16) s)"
  by (auto simp: split_frame_def)

lemma split_frame_tail:
  assumes "find_sub fix_preamble s = None"
  shows "split_frame (s @ t) = split_frame (drop (length s - 16) s @ t)"
proof (cases "find_sub fix_preamble (s @ t)")
  case None
  have "find_sub fix_preamble (drop (length s - 16) s @ t) = None"
    using find_sub_drop_None [OF None, of "length s - 16"] by simp
  then show ?thesis using None
    by (cases "16 \<le> length s") (simp_all add: split_frame_no_header add.commute)
next
  case (Some i)
  have k: "length s - 16 \<le> i" using find_sub_late [OF assms Some] by (simp add: length_fix_preamble)
  have f: "find_sub fix_preamble (drop (length s - 16) s @ t) = Some (i - (length s - 16))"
    using find_sub_drop [OF Some k] by simp
  have "drop (i - (length s - 16)) (drop (length s - 16) s @ t) = drop i (s @ t)"
    using k by (simp add: drop_append)
  then show ?thesis using split_frame_from_header [OF Some] split_frame_from_header [OF f] by simp
qed

definition cut_frame :: "str \<Rightarrow> nat \<Rightarrow> nat \<Rightarrow> split_result" where
  "cut_frame buf p9 p9e =
     (let blen_s = substr buf (p9 + 2) (p9e - p9 - 2); blen = atol blen_s; total = p9e + 1 + nat blen + 7
      in if \<not> is_digits blen_s \<or> blen < 0 \<or> kMaxMsgLen < blen then Resync (drop 1 buf)
         else if length buf < total then Incomplete buf else Frame (take total buf) (drop total buf))"

lemma split_frame_cut:
  assumes "find_sub fix_preamble s = Some 0"
  shows "split_frame s = (case find_sub ''9='' s of None \<Rightarrow> Incomplete s
    | Some p9 \<Rightarrow> (case find_char_from SOH s (p9 + 2) of None \<Rightarrow> Incomplete s | Some p9e \<Rightarrow> cut_frame s p9 p9e))"
  using assms by (simp add: split_frame_def cut_frame_def Let_def split: option.splits)

lemma cut_frame_append:
  assumes "p9 + 2 \<le> p9e" "p9e < length s"
  shows "cut_frame s p9 p9e = Frame f r \<Longrightarrow> cut_frame (s @ t) p9 p9e = Frame f (r @ t)"
    and "cut_frame s p9 p9e = Resync r \<Longrightarrow> cut_frame (s @ t) p9 p9e = Resync (r @ t)"
    and "cut_frame s p9 p9e = Incomplete r \<Longrightarrow> r = s"
proof -
  have "substr (s @ t) (p9 + 2) (p9e - p9 - 2) = substr s (p9 + 2) (p9e - p9 - 2)"
    using assms by (simp add: substr_def)
  note sub = this
  show "cut_frame s p9 p9e = Frame f r \<Longrightarrow> cut_frame (s @ t) p9 p9e = Frame f (r @ t)"
    unfolding cut_frame_def sub Let_def by (simp split: if_splits)
  show "cut_frame s p9 p9e = Resync r \<Longrightarrow> cut_frame (s @ t) p9 p9e = Resync (r @ t)"
    unfolding cut_frame_def sub Let_def using assms by (cases s) (simp_all split: if_splits)
  show "cut_frame s p9 p9e = Incomplete r \<Longrightarrow> r = s"
    unfolding cut_frame_def Let_def by (simp split: if_splits)
qed

text \<open>The position of the delimiter that ends the BodyLength of a buffer.\<close>

definition body_length_at :: "str \<Rightarrow> (nat \<times> nat) option" where
  "body_length_at s = (case find_sub ''9='' s of None \<Rightarrow> None
     | Some p9 \<Rightarrow> map_option (Pair p9) (find_char_from SOH s (p9 + 2)))"

lemma body_length_at_Some:
  "body_length_at s = Some (p9, p9e) \<Longrightarrow> p9 + 2 \<le> p9e \<and> p9e < length s \<and> body_length_at (s @ t) = Some (p9, p9e)"
  using find_sub_append [of "''9=''" s p9 t] find_char_from_append [of SOH s "p9 + 2" p9e t]
  by (auto simp: body_length_at_def split: option.splits dest: find_char_from_Some)

lemma split_frame_body:
  assumes "find_sub fix_preamble s = Some 0"
  shows "split_frame s = (case body_length_at s of None \<Rightarrow> Incomplete s | Some (p9, p9e) \<Rightarrow> cut_frame s p9 p9e)"
  using split_frame_cut [OF assms] by (simp add: body_length_at_def split: option.splits)

lemma split_frame_whole:
  assumes h: "find_sub fix_preamble s = Some 0"
  shows "split_frame s = Frame f r \<Longrightarrow> split_frame (s @ t) = Frame f (r @ t)"
    and "split_frame s = Resync r \<Longrightarrow> split_frame (s @ t) = Resync (r @ t)"
    and "split_frame s = Incomplete r \<Longrightarrow> r = s"
  unfolding split_frame_body [OF h] split_frame_body [OF find_sub_append [OF h, of t]]
  by (cases "body_length_at s"; use cut_frame_append body_length_at_Some [of s _ _ t] in fastforce)+

lemma split_frame_append:
  shows "split_frame s = Frame f r \<Longrightarrow> split_frame (s @ t) = Frame f (r @ t)"
    and "split_frame s = Resync r \<Longrightarrow> split_frame (s @ t) = Resync (r @ t)"
    and "split_frame s = Incomplete r \<Longrightarrow> split_frame (s @ t) = split_frame (r @ t)"
proof -
  have late: "split_frame s = split_frame (drop i s) \<and> split_frame (s @ t) = split_frame (drop i s @ t)
      \<and> find_sub fix_preamble (drop i s) = Some 0" if i: "find_sub fix_preamble s = Some i" for i
    using split_frame_from_header [OF i] split_frame_from_header [OF find_sub_append [OF i, of t]]
      find_sub_drop [OF i, of i] find_sub_Some_length [OF i] by (simp add: drop_append)
  note whole = split_frame_whole(1) [of "drop _ s" _ _ t] split_frame_whole(2) [of "drop _ s" _ t] split_frame_whole(3) [of "drop _ s"]
  show "split_frame s = Frame f r \<Longrightarrow> split_frame (s @ t) = Frame f (r @ t)"
    using late whole(1) by (cases "find_sub fix_preamble s") (fastforce simp: split_frame_no_header)+
  show "split_frame s = Resync r \<Longrightarrow> split_frame (s @ t) = Resync (r @ t)"
    using late whole(2) by (cases "find_sub fix_preamble s") (fastforce simp: split_frame_no_header)+
  show "split_frame s = Incomplete r \<Longrightarrow> split_frame (s @ t) = split_frame (r @ t)"
    using late whole(3) split_frame_tail [of s t]
    by (cases "find_sub fix_preamble s") (fastforce simp: split_frame_no_header)+
qed

text \<open>How the bytes were cut into reads does not matter to the frames found in them.\<close>

lemma split_all_append:
  "split_all (s @ t) = (let (fs, r) = split_all s; (gs, r') = split_all (r @ t) in (fs @ gs, r'))"
proof (induction s rule: split_all.induct)
  case (1 s)
  show ?case
  proof (cases "split_frame s")
    case (Incomplete r)
    then show ?thesis using split_frame_append(3) [OF Incomplete, of t]
      by (simp add: split_all.simps [of s] split_all.simps [of "s @ t"] split_all.simps [of "r @ t"] split: prod.splits)
  next
    case (Resync r)
    then show ?thesis using 1(1) [OF Resync] split_frame_append(2) [OF Resync, of t]
      by (simp add: split_all.simps [of s] split_all.simps [of "s @ t"])
  next
    case (Frame f r)
    then show ?thesis using 1(2) [OF Frame] split_frame_append(1) [OF Frame, of t]
      by (simp add: split_all.simps [of s] split_all.simps [of "s @ t"] split: prod.splits)
  qed
qed

text \<open>Frames that were built by \<open>fix_frame\<close> come out one by one.\<close>

definition built :: "str \<Rightarrow> bool" where
  "built f \<longleftrightarrow> (\<exists>m body sender target sq utc. f = fix_frame m body sender target sq utc
     \<and> length (fix_header m sender target sq utc) + length body \<le> 2 ^ 20)"

lemma built_frame:
  "length (fix_header m sender target sq utc) + length body \<le> 2 ^ 20 \<Longrightarrow> built (fix_frame m body sender target sq utc)"
  unfolding built_def by blast

lemma split_all_Nil [simp]: "split_all [] = ([], [])"
  by (simp add: split_all.simps split_frame_def fix_preamble_def)

lemma split_all_built:
  "\<forall>f\<in>set fs. built f \<Longrightarrow> split_all (concat fs @ s) = (let (gs, r) = split_all s in (fs @ gs, r))"
proof (induction fs)
  case (Cons f fs)
  have "split_frame (f @ concat fs @ s) = Frame f (concat fs @ s)"
    using Cons.prems split_frame_frame by (auto simp: built_def)
  then show ?case using Cons by (simp add: split_all.simps [of "f @ concat fs @ s"] split: prod.splits)
qed (simp split: prod.splits)

end
