(* ===== verification/FixExecutor.thy ===== *)
theory FixExecutor
  imports FixMsg
begin

text \<open>
  \<open>include/llm/fix_executor.h\<close> and \<open>src/fix_executor.cpp\<close>: the FIX 4.4 order session. The
  object is a record; every callback of the session thread is a function on it, and what it
  does to the outside (starting an asynchronous write, arming the read or the timer, stopping
  the \<open>io_context\<close>, calling the result callback) is appended to \<open>fx_out\<close>. The order in
  which the library runs the callbacks is the list of inputs of \<open>fx_run\<close>. One reading of
  the clocks serves one callback.
\<close>

section \<open>State\<close>

record clk =
  ck_ms :: int64
  ck_utc :: str

record fx_order =
  fo_instrument :: str
  fo_side :: str
  fo_volume :: double
  fo_stop :: double
  fo_take :: double
  fo_id :: int64
  fo_cl :: str
  fo_t0 :: int64

record fx_result =
  fr_ok :: bool
  fr_status :: str
  fr_order_id :: int64
  fr_cl :: str
  fr_broker_id :: str
  fr_latency :: double
  fr_error :: str

datatype fx_effect = StartWrite str | SyncWrite str | ArmRead | ArmTimer int64 | IoStop | Report fx_result

record fx =
  fx_running :: bool
  fx_stopped :: bool
  fx_connected :: bool
  fx_stream :: bool
  fx_in_run :: bool
  fx_io_stopped :: bool
  fx_seq_out :: int64
  fx_seq_in :: int64
  fx_last_recv :: int64
  fx_last_send :: int64
  fx_inbound :: str
  fx_wqueue :: "str list"
  fx_writing :: bool
  fx_orders :: "fx_order list"
  fx_limit :: nat
  fx_pending :: "str \<rightharpoonup> fx_order"
  fx_next_id :: int64
  fx_out :: "fx_effect list"

definition fx_init :: fx where
  "fx_init = \<lparr> fx_running = False, fx_stopped = False, fx_connected = False, fx_stream = False, fx_in_run = False,
     fx_io_stopped = False,     fx_seq_out = 1, fx_seq_in = 0, fx_last_recv = 0, fx_last_send = 0, fx_inbound = [], fx_wqueue = [],
     fx_writing = False, fx_orders = [], fx_limit = 256, fx_pending = Map.empty, fx_next_id = 1, fx_out = [] \<rparr>"

definition emit :: "fx_effect \<Rightarrow> fx \<Rightarrow> fx" where
  "emit e s = s\<lparr>fx_out := fx_out s @ [e]\<rparr>"

definition io_stop :: "fx \<Rightarrow> fx" where
  "io_stop s = emit IoStop (s\<lparr>fx_io_stopped := True\<rparr>)"

section \<open>Builders\<close>

definition build_msg :: "config \<Rightarrow> clk \<Rightarrow> char \<Rightarrow> str \<Rightarrow> fx \<Rightarrow> str \<times> fx" where
  "build_msg cfg ck m body s =
     (fix_frame m body (fix_sender_comp_id (fix_c cfg)) (fix_target_comp_id (fix_c cfg)) (fx_seq_out s) (ck_utc ck),
      s\<lparr>fx_seq_out := fx_seq_out s + 1\<rparr>)"

definition build_logon :: "config \<Rightarrow> clk \<Rightarrow> fx \<Rightarrow> str \<times> fx" where
  "build_logon cfg ck =
     build_msg cfg ck CHR ''A''
       (fix_field 98 ''0'' @
        fix_field_int 108 (if 0 < fix_heartbeat_s (fix_c cfg) then fix_heartbeat_s (fix_c cfg) else 30) @
        fix_field 141 ''Y'' @
        fix_field 553 (fix_account_id (fix_c cfg)) @
        fix_field 554 (fix_password (fix_c cfg)))"

definition build_logout :: "config \<Rightarrow> clk \<Rightarrow> fx \<Rightarrow> str \<times> fx" where
  "build_logout cfg ck = build_msg cfg ck CHR ''5'' (fix_field 58 ''client shutting down, bye'')"

definition build_heartbeat :: "config \<Rightarrow> clk \<Rightarrow> str \<Rightarrow> fx \<Rightarrow> str \<times> fx" where
  "build_heartbeat cfg ck test_req_id =
     build_msg cfg ck CHR ''0'' (if test_req_id = [] then [] else fix_field 112 test_req_id)"

definition order_fields :: "config \<Rightarrow> clk \<Rightarrow> fx_order \<Rightarrow> (nat \<times> str) list" where
  "order_fields cfg ck job =
     [(11, fo_cl job), (1, fix_account_id (fix_c cfg)), (55, fo_instrument job),
      (54, if fo_side job = ''buy'' then ''1'' else ''2''), (38, fmt_qty (fo_volume job)),
      (40, ''1''), (59, ''3''), (60, ck_utc ck)] @
     (if 0 < fo_stop job then [(99, take 47 (fmt_f 5 (fo_stop job)))] else []) @
     (if 0 < fo_take job then [(100, take 47 (fmt_f 5 (fo_take job)))] else [])"

definition build_order :: "config \<Rightarrow> clk \<Rightarrow> fx_order \<Rightarrow> fx \<Rightarrow> str \<times> fx" where
  "build_order cfg ck job = build_msg cfg ck CHR ''D'' (fields_text (order_fields cfg ck job))"

definition build_resend_request :: "config \<Rightarrow> clk \<Rightarrow> int64 \<Rightarrow> fx \<Rightarrow> str \<times> fx" where
  "build_resend_request cfg ck begin_seq =
     build_msg cfg ck CHR ''3'' (fix_field_int 7 begin_seq @ fix_field_int 8 0)"

section \<open>The write queue\<close>

definition pump_write :: "fx \<Rightarrow> fx" where
  "pump_write s =
     (if fx_writing s \<or> \<not> fx_stream s \<or> fx_wqueue s = [] then s
      else emit (StartWrite (hd (fx_wqueue s))) (s\<lparr>fx_writing := True\<rparr>))"

definition io_write :: "clk \<Rightarrow> str \<times> fx \<Rightarrow> fx" where
  "io_write ck = (\<lambda>(f, s). pump_write (s\<lparr>fx_last_send := ck_ms ck, fx_wqueue := fx_wqueue s @ [f]\<rparr>))"

definition write_done :: "bool \<Rightarrow> fx \<Rightarrow> fx" where
  "write_done ec s =
     (let s = s\<lparr>fx_writing := False, fx_wqueue := tl (fx_wqueue s)\<rparr>
      in if ec then io_stop (s\<lparr>fx_connected := False\<rparr>) else pump_write s)"

section \<open>Orders\<close>

definition fx_execute :: "clk \<Rightarrow> str \<Rightarrow> str \<Rightarrow> double \<Rightarrow> double \<Rightarrow> double \<Rightarrow> fx \<Rightarrow> fx" where
  "fx_execute ck instrument sd volume stop_price take_price s =
     (if instrument = [] \<or> (sd \<noteq> ''buy'' \<and> sd \<noteq> ''sell'') \<or> volume \<le> 0 then s
      else let j = \<lparr> fo_instrument = instrument, fo_side = sd, fo_volume = volume, fo_stop = stop_price,
                     fo_take = take_price, fo_id = fx_next_id s, fo_cl = ''LL'' @ show_int (fx_next_id s),
                     fo_t0 = ck_ms ck \<rparr>;
               s = s\<lparr>fx_next_id := fx_next_id s + 1\<rparr>
           in if fx_limit s \<le> length (fx_orders s) then s else s\<lparr>fx_orders := fx_orders s @ [j]\<rparr>)"

definition send_job :: "config \<Rightarrow> clk \<Rightarrow> fx_order \<Rightarrow> fx \<Rightarrow> fx" where
  "send_job cfg ck job s = io_write ck (build_order cfg ck job (s\<lparr>fx_pending := (fx_pending s)(fo_cl job \<mapsto> job)\<rparr>))"

definition io_drain_orders :: "config \<Rightarrow> clk \<Rightarrow> fx \<Rightarrow> fx" where
  "io_drain_orders cfg ck s =
     (let local = fx_orders s; s = s\<lparr>fx_orders := []\<rparr>
      in if local = [] then s
         else if \<not> fx_connected s then s\<lparr>fx_orders := local @ fx_orders s\<rparr>
         else fold (send_job cfg ck) local s)"

section \<open>Handlers\<close>

definition exec_result :: "clk \<Rightarrow> str \<Rightarrow> fx_order \<Rightarrow> fx_result option" where
  "exec_result ck frame job =
     (let exectype = scan_tag frame 150;
          ordstat = scan_tag frame 39;
          res = (\<lambda>ok st er. Some \<lparr> fr_ok = ok, fr_status = st, fr_order_id = fo_id job, fr_cl = scan_tag frame 11,
                   fr_broker_id = scan_tag frame 37, fr_latency = double_of_int (ck_ms ck - fo_t0 job), fr_error = er \<rparr>)
      in if exectype = ''2'' then res True ''FILLED'' []
         else if exectype = ''1'' then res True ''PARTIAL'' []
         else if exectype = ''8'' \<or> exectype = ''3'' \<or> ordstat = ''8'' then res False ''REJECTED'' (scan_tag frame 58)
         else if exectype = ''4'' then res False ''CANCELED'' []
         else if exectype = ''0'' then res True ''NEW'' []
         else None)"

definition on_execution_report :: "clk \<Rightarrow> str \<Rightarrow> fx \<Rightarrow> fx" where
  "on_execution_report ck frame s =
     (let cl = scan_tag frame 11 in
      if cl = [] then s
      else case fx_pending s cl of
          None \<Rightarrow> s
        | Some job \<Rightarrow>
            (case exec_result ck frame job of
               None \<Rightarrow> s
             | Some r \<Rightarrow> emit (Report r) (s\<lparr>fx_pending := (fx_pending s)(cl := None)\<rparr>)))"

definition on_test_request :: "config \<Rightarrow> clk \<Rightarrow> str \<Rightarrow> fx \<Rightarrow> fx" where
  "on_test_request cfg ck frame s = io_write ck (build_heartbeat cfg ck (scan_tag frame 112) s)"

definition on_sequence_reset :: "fx \<Rightarrow> fx" where
  "on_sequence_reset s = s\<lparr>fx_seq_in := 0\<rparr>"

definition track_seq :: "config \<Rightarrow> clk \<Rightarrow> str \<Rightarrow> fx \<Rightarrow> fx" where
  "track_seq cfg ck f s =
     (let sns = scan_tag f 34 in
      if \<not> is_digits sns then s
      else let sn = atol sns in
        if sn \<le> 0 then s
        else if fx_seq_in s = 0 then s\<lparr>fx_seq_in := sn\<rparr>
        else if fx_seq_in s + 1 < sn
          then let s = s\<lparr>fx_seq_in := sn\<rparr> in io_write ck (build_resend_request cfg ck (fx_seq_in s) s)
        else s\<lparr>fx_seq_in := max (fx_seq_in s) sn\<rparr>)"

definition handle_frame :: "config \<Rightarrow> clk \<Rightarrow> str \<Rightarrow> fx \<Rightarrow> fx" where
  "handle_frame cfg ck f s =
     (let s = track_seq cfg ck f (s\<lparr>fx_last_recv := ck_ms ck\<rparr>);
          mt = scan_tag f 35
      in if mt = ''A'' then s
         else if mt = ''0'' then s
         else if mt = ''8'' then on_execution_report ck f s
         else if mt = ''1'' then on_test_request cfg ck f s
         else if mt = ''4'' then on_sequence_reset s
         else s)"

section \<open>Reading\<close>

text \<open>What the handlers leave alone.\<close>

definition same_session :: "fx \<Rightarrow> fx \<Rightarrow> bool" where
  "same_session s t \<longleftrightarrow> fx_inbound t = fx_inbound s \<and> fx_running t = fx_running s \<and> fx_stopped t = fx_stopped s
     \<and> fx_connected t = fx_connected s \<and> fx_stream t = fx_stream s \<and> fx_in_run t = fx_in_run s \<and> fx_io_stopped t = fx_io_stopped s
     \<and> fx_orders t = fx_orders s \<and> fx_limit t = fx_limit s \<and> fx_next_id t = fx_next_id s"

lemma same_session_refl [simp]: "same_session s s"
  by (simp add: same_session_def)

lemma same_session_trans [trans]: "same_session s t \<Longrightarrow> same_session t u \<Longrightarrow> same_session s u"
  by (simp add: same_session_def)

lemmas build_defs = build_msg_def build_logon_def build_logout_def build_heartbeat_def build_order_def
  build_resend_request_def

lemma pump_write_same: "same_session s (pump_write s)"
  by (simp add: pump_write_def emit_def same_session_def)

lemma io_write_same: "same_session s (io_write ck (f, s))"
  by (auto simp: io_write_def same_session_def pump_write_def emit_def)

lemma build_msg_same: "same_session s (snd (build_msg cfg ck m b s))"
  by (simp add: build_msg_def same_session_def)

lemma io_write_build_same: "same_session s (io_write ck (build_msg cfg ck m b s))"
  using same_session_trans [OF build_msg_same io_write_same] by (metis surjective_pairing)

lemma track_seq_same: "same_session s (track_seq cfg ck f s)"
proof -
  have u: "same_session s (s\<lparr>fx_seq_in := n\<rparr>)" for n by (simp add: same_session_def)
  show ?thesis
    unfolding track_seq_def Let_def build_resend_request_def
    using u same_session_trans [OF u io_write_build_same] by (simp split: if_split)
qed

lemma on_execution_report_same: "same_session s (on_execution_report ck f s)"
  by (auto simp: on_execution_report_def Let_def emit_def same_session_def split: option.splits)

lemma on_test_request_same: "same_session s (on_test_request cfg ck f s)"
  unfolding on_test_request_def build_heartbeat_def by (rule io_write_build_same)

lemma handle_frame_same: "same_session s (handle_frame cfg ck f s)"
proof -
  have "same_session s (s\<lparr>fx_last_recv := ck_ms ck\<rparr>)" by (simp add: same_session_def)
  also have "same_session \<dots> (track_seq cfg ck f (s\<lparr>fx_last_recv := ck_ms ck\<rparr>))" by (rule track_seq_same)
  finally have t: "same_session s (track_seq cfg ck f (s\<lparr>fx_last_recv := ck_ms ck\<rparr>))" .
  have r: "same_session t (on_sequence_reset t)" for t by (simp add: on_sequence_reset_def same_session_def)
  show ?thesis
    unfolding handle_frame_def Let_def
    using t same_session_trans [OF t on_execution_report_same] same_session_trans [OF t on_test_request_same]
      same_session_trans [OF t r] by (simp split: if_split)
qed

text \<open>\<open>process_inbound\<close>: frame after frame until the buffer holds no whole one or the object was
  stopped meanwhile.\<close>

function process_inbound :: "config \<Rightarrow> clk \<Rightarrow> fx \<Rightarrow> fx" where
  "process_inbound cfg ck s =
     (case split_frame (fx_inbound s) of
        Incomplete r \<Rightarrow> s\<lparr>fx_inbound := r\<rparr>
      | Resync r \<Rightarrow> process_inbound cfg ck (s\<lparr>fx_inbound := r\<rparr>)
      | Frame f r \<Rightarrow>
          let s = handle_frame cfg ck f (s\<lparr>fx_inbound := r\<rparr>)
          in if fx_stopped s \<or> \<not> fx_running s then s else process_inbound cfg ck s)"
  by auto
termination
  using handle_frame_same
  by (relation "measure (\<lambda>(_, _, s). length (fx_inbound s))") (auto simp: same_session_def dest: split_frame_shorter)

declare process_inbound.simps [simp del]

definition start_read :: "fx \<Rightarrow> fx" where
  "start_read s = (if fx_stopped s \<or> \<not> fx_stream s \<or> \<not> fx_connected s then s else emit ArmRead s)"

datatype read_result = ReadBytes str | ReadAborted | ReadError

fun on_read :: "config \<Rightarrow> clk \<Rightarrow> read_result \<Rightarrow> fx \<Rightarrow> fx" where
  "on_read cfg ck ReadAborted s = s"
| "on_read cfg ck ReadError s = io_stop s"
| "on_read cfg ck (ReadBytes b) s =
     start_read (process_inbound cfg ck (s\<lparr>fx_last_recv := ck_ms ck, fx_inbound := fx_inbound s @ b\<rparr>))"

section \<open>Heartbeat\<close>

definition kDefaultHbMs :: int64 where
  "kDefaultHbMs = 30000"

definition hb_ms :: "config \<Rightarrow> int64" where
  "hb_ms cfg = (if 0 < fix_heartbeat_s (fix_c cfg) then fix_heartbeat_s (fix_c cfg) * 1000 else kDefaultHbMs)"

definition start_hb_timer :: "config \<Rightarrow> fx \<Rightarrow> fx" where
  "start_hb_timer cfg s = (if fx_stopped s \<or> \<not> fx_connected s then s else emit (ArmTimer (hb_ms cfg)) s)"

definition on_hb_timer :: "config \<Rightarrow> clk \<Rightarrow> bool \<Rightarrow> fx \<Rightarrow> fx" where
  "on_hb_timer cfg ck ec s =
     (let hb = hb_ms cfg; now = ck_ms ck in
      if ec then s
      else if \<not> fx_connected s \<or> \<not> fx_running s \<or> fx_stopped s then s
      else if hb * 3 div 2 < now - fx_last_recv s then io_stop s
      else let s = (if hb \<le> now - fx_last_send s then io_write ck (build_heartbeat cfg ck [] s) else s)
           in start_hb_timer cfg s)"

section \<open>Lifecycle\<close>

definition fx_start :: "fx \<Rightarrow> fx" where
  "fx_start s = (if fx_running s then s else s\<lparr>fx_running := True, fx_stopped := False\<rparr>)"

definition fx_stop :: "fx \<Rightarrow> fx" where
  "fx_stop s = (if fx_stopped s then s else s\<lparr>fx_stopped := True, fx_running := False\<rparr>)"

text \<open>The handler that \<open>stop()\<close> posts.\<close>

definition posted_logout :: "config \<Rightarrow> clk \<Rightarrow> fx \<Rightarrow> fx" where
  "posted_logout cfg ck s =
     (let s = (if fx_stream s \<and> fx_connected s
               then (let (lg, s) = build_logout cfg ck s in emit (SyncWrite lg) s) else s)
      in io_stop s)"

text \<open>\<open>connect()\<close>: a refused connection leaves a stream object behind, an exception does not.\<close>

datatype connect_result = Up | Refused | Threw

definition run_read_loop :: "config \<Rightarrow> clk \<Rightarrow> fx \<Rightarrow> fx" where
  "run_read_loop cfg ck s =
     (let s = io_drain_orders cfg ck (s\<lparr>fx_in_run := True, fx_io_stopped := False\<rparr>);
          s = s\<lparr>fx_last_recv := ck_ms ck\<rparr>
      in start_hb_timer cfg (start_read s))"

definition session_connect :: "config \<Rightarrow> clk \<Rightarrow> connect_result \<Rightarrow> fx \<Rightarrow> fx" where
  "session_connect cfg ck r s =
     (case r of
        Threw \<Rightarrow> s\<lparr>fx_stream := False\<rparr>
      | Refused \<Rightarrow> s\<lparr>fx_stream := True\<rparr>
      | Up \<Rightarrow>
          let s = s\<lparr>fx_stream := True, fx_connected := True, fx_seq_out := 1\<rparr>;
              s = io_write ck (build_logon cfg ck s)
          in run_read_loop cfg ck s)"

text \<open>After \<open>io_.stop()\<close> the call of \<open>io_.run()\<close> returns and the session is torn down.\<close>

definition session_end :: "fx \<Rightarrow> fx" where
  "session_end s = s\<lparr>fx_connected := False, fx_stream := False, fx_in_run := False\<rparr>"

definition settle :: "fx \<Rightarrow> fx" where
  "settle s = (if fx_io_stopped s then session_end s else s)"

section \<open>Inputs\<close>

datatype fx_input =
    FxExecute str str double double double
  | FxStart | FxStop
  | FxConnect connect_result
  | FxPosted
  | FxWritten bool
  | FxRead read_result
  | FxHbTimer bool
  | FxLogout

fun fx_step :: "config \<Rightarrow> clk \<times> fx_input \<Rightarrow> fx \<Rightarrow> fx" where
  "fx_step cfg (ck, FxExecute i sd v sl tp) s = fx_execute ck i sd v sl tp s"
| "fx_step cfg (ck, FxStart) s = fx_start s"
| "fx_step cfg (ck, FxStop) s = fx_stop s"
| "fx_step cfg (ck, FxConnect r) s =
     (if \<not> fx_in_run s \<and> fx_running s \<and> \<not> fx_stopped s then session_connect cfg ck r s else s)"
| "fx_step cfg (ck, FxPosted) s = (if fx_in_run s then io_drain_orders cfg ck s else s)"
| "fx_step cfg (ck, FxWritten ec) s = (if fx_in_run s \<and> fx_writing s then settle (write_done ec s) else s)"
| "fx_step cfg (ck, FxRead r) s = (if fx_in_run s then settle (on_read cfg ck r s) else s)"
| "fx_step cfg (ck, FxHbTimer ec) s = (if fx_in_run s then settle (on_hb_timer cfg ck ec s) else s)"
| "fx_step cfg (ck, FxLogout) s = (if fx_in_run s then settle (posted_logout cfg ck s) else s)"

definition fx_run :: "config \<Rightarrow> (clk \<times> fx_input) list \<Rightarrow> fx \<Rightarrow> fx" where
  "fx_run cfg = fold (fx_step cfg)"

section \<open>A sequence gap\<close>

text \<open>The request begins at the number just received and has the type of a reject.\<close>

lemma gap_requests_from_received:
  assumes "scan_tag f 34 = show_int sn" "0 < fx_seq_in s" "fx_seq_in s + 1 < sn" "sn < 2 ^ 63"
  shows "fx_wqueue (track_seq cfg ck f s) = fx_wqueue s @
    [fix_frame CHR ''3'' (fields_text [(7, show_int sn), (8, ''0'')]) (fix_sender_comp_id (fix_c cfg))
       (fix_target_comp_id (fix_c cfg)) (fx_seq_out s) (ck_utc ck)] \<and> fx_seq_in (track_seq cfg ck f s) = sn"
proof -
  have "is_digits (show_int sn)" "atol (show_int sn) = sn"
    using assms atoll_show_int [of sn] by (simp_all add: show_int_def show_nat_eq atol_def)
  moreover have "show_int 0 = ''0''" by code_simp
  ultimately show ?thesis
    using assms by (simp add: track_seq_def Let_def io_write_def build_resend_request_def build_msg_def pump_write_def emit_def fix_field_int_def)
qed

end
