(* ===== verification/FixSession.thy ===== *)
theory FixSession
  imports FixExecutor
begin

text \<open>
  What a session of \<open>FixExecutor\<close> promises: the frames it handles do not depend on how the
  transport cut the bytes, and the frames it puts on the wire are numbered from the Logon on, up to
  the Logout that \<open>stop ()\<close> writes past the queue.
\<close>

section \<open>Reading in pieces\<close>

lemma inbound_last:
  "s\<lparr>fx_inbound := r, fx_last_recv := n\<rparr> = s\<lparr>fx_last_recv := n, fx_inbound := r\<rparr>"
  "s\<lparr>fx_inbound := r, fx_last_send := n\<rparr> = s\<lparr>fx_last_send := n, fx_inbound := r\<rparr>"
  "s\<lparr>fx_inbound := r, fx_seq_in := n\<rparr> = s\<lparr>fx_seq_in := n, fx_inbound := r\<rparr>"
  "s\<lparr>fx_inbound := r, fx_seq_out := n\<rparr> = s\<lparr>fx_seq_out := n, fx_inbound := r\<rparr>"
  "s\<lparr>fx_inbound := r, fx_wqueue := q\<rparr> = s\<lparr>fx_wqueue := q, fx_inbound := r\<rparr>"
  by simp_all

lemma pump_write_inbound [simp]: "pump_write (s\<lparr>fx_inbound := r\<rparr>) = (pump_write s)\<lparr>fx_inbound := r\<rparr>"
  by (simp add: pump_write_def emit_def)

lemma io_write_inbound [simp]: "io_write ck (f, s\<lparr>fx_inbound := r\<rparr>) = (io_write ck (f, s))\<lparr>fx_inbound := r\<rparr>"
  by (simp add: io_write_def inbound_last)

lemma io_write_build_inbound [simp]:
  "io_write ck (build_msg cfg ck m b (s\<lparr>fx_inbound := r\<rparr>)) = (io_write ck (build_msg cfg ck m b s))\<lparr>fx_inbound := r\<rparr>"
  by (simp add: build_msg_def inbound_last)

lemma track_seq_inbound: "track_seq cfg ck f (s\<lparr>fx_inbound := r\<rparr>) = (track_seq cfg ck f s)\<lparr>fx_inbound := r\<rparr>"
  by (simp add: track_seq_def Let_def build_resend_request_def inbound_last)

lemma on_execution_report_inbound:
  "on_execution_report ck f (s\<lparr>fx_inbound := r\<rparr>) = (on_execution_report ck f s)\<lparr>fx_inbound := r\<rparr>"
  by (simp add: on_execution_report_def Let_def emit_def split: option.split)

lemma handle_frame_inbound: "handle_frame cfg ck f (s\<lparr>fx_inbound := r\<rparr>) = (handle_frame cfg ck f s)\<lparr>fx_inbound := r\<rparr>"
  by (simp add: inbound_last track_seq_inbound handle_frame_def Let_def on_execution_report_inbound on_test_request_def build_heartbeat_def
      on_sequence_reset_def)

lemma fold_handle_inbound:
  "fold (handle_frame cfg ck) fs (s\<lparr>fx_inbound := r\<rparr>) = (fold (handle_frame cfg ck) fs s)\<lparr>fx_inbound := r\<rparr>"
  by (induction fs arbitrary: s) (simp_all add: handle_frame_inbound)

text \<open>While the object runs, \<open>process_inbound\<close> handles the frames of its buffer in order.\<close>

lemma process_inbound_split:
  "fx_running s \<Longrightarrow> \<not> fx_stopped s \<Longrightarrow>
   process_inbound cfg ck s =
     (let (fs, r) = split_all (fx_inbound s) in (fold (handle_frame cfg ck) fs s)\<lparr>fx_inbound := r\<rparr>)"
proof (induction cfg ck s rule: process_inbound.induct)
  case (1 cfg ck s)
  show ?case
  proof (cases "split_frame (fx_inbound s)")
    case (Incomplete r)
    then show ?thesis by (simp add: process_inbound.simps split_all.simps [of "fx_inbound s"])
  next
    case (Resync r)
    then show ?thesis using 1 Resync
      by (simp add: fold_handle_inbound process_inbound.simps [of cfg ck s] split_all.simps [of "fx_inbound s"] split: prod.splits)
  next
    case (Frame f r)
    let ?t = "handle_frame cfg ck f (s\<lparr>fx_inbound := r\<rparr>)"
    have t: "fx_running ?t \<and> \<not> fx_stopped ?t \<and> fx_inbound ?t = r"
      using handle_frame_same [of "s\<lparr>fx_inbound := r\<rparr>" cfg ck f] 1(3,4) by (simp add: same_session_def)
    then show ?thesis using 1(2) [OF Frame refl] t Frame
      by (simp add: fold_handle_inbound process_inbound.simps [of cfg ck s] split_all.simps [of "fx_inbound s"] handle_frame_inbound
          split: prod.splits)
  qed
qed

definition feed_bytes :: "config \<Rightarrow> clk \<Rightarrow> str \<Rightarrow> fx \<Rightarrow> fx" where
  "feed_bytes cfg ck b s = process_inbound cfg ck (s\<lparr>fx_inbound := fx_inbound s @ b\<rparr>)"

lemma fold_handle_same: "same_session s (fold (handle_frame cfg ck) fs s)"
  by (induction fs arbitrary: s) (use handle_frame_same same_session_trans in fastforce)+

lemma feed_bytes_append:
  assumes "fx_running s" "\<not> fx_stopped s"
  shows "feed_bytes cfg ck b (feed_bytes cfg ck a s) = feed_bytes cfg ck (a @ b) s"
proof -
  obtain fs r where fs: "split_all (fx_inbound s @ a) = (fs, r)" by (cases "split_all (fx_inbound s @ a)")
  obtain gs r' where gs: "split_all (r @ b) = (gs, r')" by (cases "split_all (r @ b)")
  have one: "feed_bytes cfg ck a s = (fold (handle_frame cfg ck) fs s)\<lparr>fx_inbound := r\<rparr>"
    using assms by (simp add: feed_bytes_def process_inbound_split fs fold_handle_inbound)
  have "fx_running (fold (handle_frame cfg ck) fs s)" "\<not> fx_stopped (fold (handle_frame cfg ck) fs s)"
    using assms fold_handle_same [of s cfg ck fs] by (simp_all add: same_session_def)
  then have "feed_bytes cfg ck b (feed_bytes cfg ck a s) =
    (fold (handle_frame cfg ck) gs (fold (handle_frame cfg ck) fs s))\<lparr>fx_inbound := r'\<rparr>"
    unfolding one by (simp add: feed_bytes_def process_inbound_split gs fold_handle_inbound)
  moreover have "split_all (fx_inbound s @ a @ b) = (fs @ gs, r')"
    using split_all_append [of "fx_inbound s @ a" b] by (simp add: fs gs)
  ultimately show ?thesis using assms
    by (simp add: feed_bytes_def process_inbound_split fold_handle_inbound)
qed

lemma feed_bytes_running:
  "fx_running s \<Longrightarrow> \<not> fx_stopped s \<Longrightarrow> fx_running (feed_bytes cfg ck b s) \<and> \<not> fx_stopped (feed_bytes cfg ck b s)"
  using fold_handle_same [of s cfg ck] 
  by (simp add: feed_bytes_def process_inbound_split fold_handle_inbound same_session_def split: prod.split)

lemma feed_bytes_pieces:
  assumes "fx_running s" "\<not> fx_stopped s"
  shows "fold (feed_bytes cfg ck) (p # ps) s = feed_bytes cfg ck (concat (p # ps)) s"
  using assms
proof (induction ps arbitrary: p s)
  case (Cons q ps)
  have "fold (feed_bytes cfg ck) (p # q # ps) s = feed_bytes cfg ck (concat (q # ps)) (feed_bytes cfg ck p s)"
    using Cons.IH [of "feed_bytes cfg ck p s" q] feed_bytes_running [OF Cons.prems] by simp
  then show ?case using feed_bytes_append [OF Cons.prems] by simp
qed simp

lemma feed_bytes_built:
  assumes "fx_running s" "\<not> fx_stopped s" "fx_inbound s = []" "\<forall>f\<in>set fs. built f"
  shows "feed_bytes cfg ck (concat fs) s = fold (handle_frame cfg ck) fs s"
proof -
  have "fx_inbound (fold (handle_frame cfg ck) fs s) = []"
    using fold_handle_same [of s cfg ck fs] assms(3) by (simp add: same_session_def)
  then have "(fold (handle_frame cfg ck) fs s)\<lparr>fx_inbound := []\<rparr> = fold (handle_frame cfg ck) fs s"
    by (cases "fold (handle_frame cfg ck) fs s") simp
  then show ?thesis
    using assms split_all_built [of fs "[]"] by (simp add: feed_bytes_def process_inbound_split fold_handle_inbound)
qed

section \<open>The frames of a session\<close>

fun started :: "fx_effect list \<Rightarrow> str list" where
  "started [] = []"
| "started (StartWrite f # es) = f # started es"
| "started (e # es) = started es"

lemma started_append [simp]: "started (es @ es') = started es @ started es'"
  by (induction es rule: started.induct) simp_all

text \<open>All that is written: the frames of the queue and the Logout.\<close>

fun on_wire :: "fx_effect list \<Rightarrow> str list" where
  "on_wire [] = []"
| "on_wire (StartWrite f # es) = f # on_wire es"
| "on_wire (SyncWrite f # es) = f # on_wire es"
| "on_wire (e # es) = on_wire es"

lemma on_wire_append [simp]: "on_wire (es @ es') = on_wire es @ on_wire es'"
  by (induction es rule: on_wire.induct) simp_all

text \<open>The frame with index \<open>i\<close> of a session has MsgSeqNum \<open>i + 1\<close>, and exactly the first one is
  the Logon.\<close>

definition session_frame :: "config \<Rightarrow> nat \<Rightarrow> str \<Rightarrow> bool" where
  "session_frame cfg i f \<longleftrightarrow> (\<exists>m body utc.
     f = fix_frame m body (fix_sender_comp_id (fix_c cfg)) (fix_target_comp_id (fix_c cfg)) (int i + 1) utc
     \<and> (m = CHR ''A'' \<longleftrightarrow> i = 0))"

definition numbered :: "config \<Rightarrow> str list \<Rightarrow> bool" where
  "numbered cfg fs \<longleftrightarrow> (\<forall>i<length fs. session_frame cfg i (fs ! i))"

lemma numbered_snoc: "numbered cfg (fs @ [f]) \<longleftrightarrow> numbered cfg fs \<and> session_frame cfg (length fs) f"
  by (auto simp: numbered_def nth_append less_Suc_eq)

lemma numbered_append: "numbered cfg (fs @ gs) \<Longrightarrow> numbered cfg fs"
  by (simp add: numbered_def nth_append) (metis trans_less_add1)

text \<open>What was started since the session began, with what still waits in the queue.\<close>

definition queued :: "fx \<Rightarrow> str list" where
  "queued s = (if fx_writing s then tl (fx_wqueue s) else fx_wqueue s)"

definition session_frames :: "nat \<Rightarrow> fx \<Rightarrow> str list" where
  "session_frames k s = started (drop k (fx_out s)) @ queued s"

definition session_inv :: "config \<Rightarrow> nat \<Rightarrow> fx \<Rightarrow> bool" where
  "session_inv cfg k s \<longleftrightarrow> k \<le> length (fx_out s) \<and> numbered cfg (session_frames k s) \<and> session_frames k s \<noteq> [] \<and>
     (fx_writing s \<longrightarrow> fx_wqueue s \<noteq> []) \<and> fx_seq_out s = int (length (session_frames k s)) + 1 \<and>
     on_wire (drop k (fx_out s)) = started (drop k (fx_out s))"

lemma pump_write_session:
  "session_inv cfg k s \<Longrightarrow> session_inv cfg k (pump_write s)"
  by (cases "fx_wqueue s") (auto simp: session_inv_def session_frames_def queued_def pump_write_def emit_def)

lemma emit_session:
  "on_wire [e] = [] \<Longrightarrow> session_inv cfg k s \<Longrightarrow> session_inv cfg k (emit e s)"
proof -
  have "queued (emit e s) = queued s" by (simp add: emit_def queued_def)
  moreover assume "on_wire [e] = []" "session_inv cfg k s"
  moreover from this(1) have "started [e] = []" by (cases e) simp_all
  ultimately show ?thesis by (simp add: session_inv_def session_frames_def) (simp add: emit_def)
qed

lemma io_write_session:
  assumes "session_inv cfg k s" "m \<noteq> CHR ''A''"
  shows "session_inv cfg k (io_write ck (build_msg cfg ck m b s))"
proof -
  let ?f = "fst (build_msg cfg ck m b s)" and ?s = "snd (build_msg cfg ck m b s)"
  let ?t = "?s\<lparr>fx_last_send := ck_ms ck, fx_wqueue := fx_wqueue ?s @ [?f]\<rparr>"
  have fr: "session_frames k ?t = session_frames k s @ [?f]"
    using assms(1) by (simp add: session_inv_def session_frames_def queued_def build_msg_def)
  have "session_frame cfg (length (session_frames k s)) ?f"
    using assms unfolding session_frame_def session_inv_def by (auto simp: build_msg_def)
  then have "session_inv cfg k ?t"
    using assms(1) unfolding session_inv_def fr numbered_snoc by (simp add: build_msg_def)
  then have "session_inv cfg k (pump_write ?t)" by (rule pump_write_session)
  then show ?thesis by (cases "build_msg cfg ck m b s") (simp add: io_write_def)
qed

definition same_frames :: "fx \<Rightarrow> fx \<Rightarrow> bool" where
  "same_frames s t \<longleftrightarrow> fx_out t = fx_out s \<and> fx_wqueue t = fx_wqueue s \<and> fx_writing t = fx_writing s \<and> fx_seq_out t = fx_seq_out s"

lemma same_frames_session: "session_inv cfg k s \<Longrightarrow> same_frames s t \<Longrightarrow> session_inv cfg k t"
proof -
  assume s: "session_inv cfg k s" "same_frames s t"
  then have "session_frames k t = session_frames k s"
    by (simp add: session_frames_def queued_def same_frames_def)
  then show ?thesis using s by (simp add: session_inv_def same_frames_def)
qed

lemma send_job_session: "session_inv cfg k s \<Longrightarrow> session_inv cfg k (send_job cfg ck j s)"
  unfolding send_job_def build_order_def
  by (rule io_write_session, erule same_frames_session) (simp_all add: same_frames_def)

lemma io_drain_session: "session_inv cfg k s \<Longrightarrow> session_inv cfg k (io_drain_orders cfg ck s)"
proof -
  assume s: "session_inv cfg k s"
  have e: "session_inv cfg k (s\<lparr>fx_orders := os\<rparr>)" for os
    using s by (rule same_frames_session) (simp add: same_frames_def)
  have "session_inv cfg k t \<Longrightarrow> session_inv cfg k (fold (send_job cfg ck) js t)" for js t
    by (induction js arbitrary: t) (simp_all add: send_job_session)
  then show ?thesis using e s by (simp add: io_drain_orders_def Let_def)
qed

lemma track_seq_session: "session_inv cfg k s \<Longrightarrow> session_inv cfg k (track_seq cfg ck f s)"
proof -
  assume s: "session_inv cfg k s"
  have e: "session_inv cfg k (s\<lparr>fx_seq_in := n\<rparr>)" for n
    using s by (rule same_frames_session) (simp add: same_frames_def)
  show ?thesis using s e io_write_session [OF e]
    by (simp add: track_seq_def Let_def build_resend_request_def)
qed

lemma handle_frame_session: "session_inv cfg k s \<Longrightarrow> session_inv cfg k (handle_frame cfg ck f s)"
proof -
  assume s: "session_inv cfg k s"
  let ?t = "track_seq cfg ck f (s\<lparr>fx_last_recv := ck_ms ck\<rparr>)"
  have t: "session_inv cfg k ?t"
    by (rule track_seq_session, rule same_frames_session [OF s]) (simp add: same_frames_def)
  have "session_inv cfg k (on_execution_report ck f ?t)"
    unfolding on_execution_report_def Let_def
    using t same_frames_session [OF t] by (auto simp: same_frames_def split: option.split intro!: emit_session)
  moreover have "session_inv cfg k (on_test_request cfg ck f ?t)"
    unfolding on_test_request_def build_heartbeat_def using t by (rule io_write_session) simp
  moreover have "session_inv cfg k (on_sequence_reset ?t)"
    using t by (rule same_frames_session) (simp add: same_frames_def on_sequence_reset_def)
  ultimately show ?thesis using t by (simp add: handle_frame_def Let_def)
qed

lemma process_inbound_session: "session_inv cfg k s \<Longrightarrow> session_inv cfg k (process_inbound cfg ck s)"
proof (induction cfg ck s rule: process_inbound.induct)
  case (1 cfg ck s)
  have e: "session_inv cfg k (s\<lparr>fx_inbound := r\<rparr>)" for r
    using 1(3) by (rule same_frames_session) (simp add: same_frames_def)
  show ?case
    using 1(1,2) e handle_frame_session [OF e]
    by (simp add: process_inbound.simps [of cfg ck s] Let_def split: split_result.split)
qed

text \<open>One step inside a session keeps it; after the session ended nothing more is started.\<close>

definition logged_out :: "config \<Rightarrow> nat \<Rightarrow> fx \<Rightarrow> bool" where
  "logged_out cfg k s \<longleftrightarrow> (\<exists>ls. on_wire (drop k (fx_out s)) = started (drop k (fx_out s)) @ ls \<and> length ls \<le> 1 \<and>
     (\<forall>lg\<in>set ls. \<exists>ck u. lg = fst (build_logout cfg ck u) \<and>
        fx_seq_out u = int (length (started (drop k (fx_out s))) + length (queued s)) + 1))"

definition session_run_inv :: "config \<Rightarrow> nat \<Rightarrow> fx \<Rightarrow> bool" where
  "session_run_inv cfg k s \<longleftrightarrow> (if fx_in_run s then session_inv cfg k s
     else numbered cfg (started (drop k (fx_out s))) \<and> k \<le> length (fx_out s) \<and> logged_out cfg k s)"

lemma session_inv_logged_out: "session_inv cfg k s \<Longrightarrow> logged_out cfg k s"
  unfolding logged_out_def by (intro exI [of _ "[]"]) (simp add: session_inv_def)

lemma session_inv_run: "session_inv cfg k s \<Longrightarrow> session_run_inv cfg k s"
  using numbered_append session_inv_logged_out by (auto simp: session_inv_def session_run_inv_def session_frames_def)

lemma settle_run: "session_inv cfg k s \<Longrightarrow> session_run_inv cfg k (settle s)"
proof -
  assume s: "session_inv cfg k s"
  have "session_inv cfg k (settle s)"
    using s by (rule same_frames_session) (simp add: same_frames_def settle_def session_end_def)
  then show ?thesis by (rule session_inv_run)
qed

fun is_connect :: "fx_input \<Rightarrow> bool" where
  "is_connect (FxConnect r) = True"
| "is_connect e = False"

lemma io_stop_session:
  assumes "session_inv cfg k s"
  shows "session_inv cfg k (io_stop s)"
proof -
  have "session_inv cfg k (s\<lparr>fx_io_stopped := True\<rparr>)"
    using assms by (rule same_frames_session) (simp add: same_frames_def)
  then show ?thesis by (simp add: io_stop_def emit_session)
qed

lemma on_read_session: "session_inv cfg k s \<Longrightarrow> session_inv cfg k (on_read cfg ck r s)"
proof (cases r)
  case (ReadBytes b)
  assume s: "session_inv cfg k s"
  have "session_inv cfg k (s\<lparr>fx_last_recv := ck_ms ck, fx_inbound := fx_inbound s @ b\<rparr>)"
    using s by (rule same_frames_session) (simp add: same_frames_def)
  from process_inbound_session [OF this] show ?thesis
    by (simp add: ReadBytes start_read_def emit_session)
qed (simp_all add: io_stop_session)

lemma start_hb_timer_session: "session_inv cfg k s \<Longrightarrow> session_inv cfg k (start_hb_timer cfg s)"
  by (simp add: start_hb_timer_def emit_session)

lemma on_hb_timer_session: "session_inv cfg k s \<Longrightarrow> session_inv cfg k (on_hb_timer cfg ck ec s)"
  by (auto simp: on_hb_timer_def Let_def build_heartbeat_def intro!: start_hb_timer_session io_stop_session io_write_session)

lemma write_done_session: "session_inv cfg k s \<Longrightarrow> fx_writing s \<Longrightarrow> session_inv cfg k (write_done ec s)"
proof -
  assume s: "session_inv cfg k s" "fx_writing s"
  then have t: "session_inv cfg k (s\<lparr>fx_writing := False, fx_wqueue := tl (fx_wqueue s)\<rparr>)"
    by (simp add: session_inv_def session_frames_def queued_def)
  have "session_inv cfg k (s\<lparr>fx_writing := False, fx_wqueue := tl (fx_wqueue s), fx_connected := False\<rparr>)"
    using t by (rule same_frames_session) (simp add: same_frames_def)
  then show ?thesis using t by (simp add: write_done_def Let_def pump_write_session io_stop_session)
qed


text \<open>The Logout is the last frame of its session; its number follows that of the frames still queued.\<close>

lemma posted_logout_ends:
  assumes "session_inv cfg k s"
  shows "session_run_inv cfg k (settle (posted_logout cfg ck s))"
proof -
  let ?t = "settle (posted_logout cfg ck s)"
  define ls where "ls = (if fx_stream s \<and> fx_connected s then [fst (build_logout cfg ck s)] else [])"
  have o: "fx_out ?t = fx_out s @ map SyncWrite ls @ [IoStop]" "fx_wqueue ?t = fx_wqueue s" "fx_writing ?t = fx_writing s" "\<not> fx_in_run ?t"
    by (auto simp: posted_logout_def build_logout_def build_msg_def io_stop_def emit_def settle_def session_end_def ls_def Let_def)
  have l: "started (map SyncWrite ls) = []" "on_wire (map SyncWrite ls) = ls" for ls by (induction ls) simp_all
  have d: "started (drop k (fx_out ?t)) = started (drop k (fx_out s))" "on_wire (drop k (fx_out ?t)) = on_wire (drop k (fx_out s)) @ ls"
    using assms by (simp_all add: o(1) l session_inv_def)
  have q: "queued ?t = queued s" by (simp add: queued_def o)
  have n: "fx_seq_out s = int (length (started (drop k (fx_out s))) + length (queued s)) + 1"
    using assms by (simp add: session_inv_def session_frames_def)
  have "numbered cfg (started (drop k (fx_out s)))"
    using assms numbered_append by (auto simp: session_inv_def session_frames_def)
  moreover have "logged_out cfg k ?t"
    unfolding logged_out_def d q
    using assms n by (intro exI [of _ ls]) (auto simp: session_inv_def ls_def)
  ultimately show ?thesis using assms o(1,4) d(1) by (simp add: session_run_inv_def session_inv_def)
qed

lemma same_frames_logged_out:
  assumes "logged_out cfg k s" "same_frames s t"
  shows "logged_out cfg k t"
proof -
  have "queued t = queued s" "fx_out t = fx_out s" using assms(2) by (simp_all add: same_frames_def queued_def)
  then show ?thesis using assms(1) unfolding logged_out_def by metis
qed

lemma session_step:
  assumes "session_run_inv cfg k s" "\<not> is_connect i"
  shows "session_run_inv cfg k (fx_step cfg (ck, i) s)"
proof -
  have f: "session_run_inv cfg k t" if "same_frames s t" "fx_in_run t = fx_in_run s" for t
    using assms(1) that same_frames_session [of cfg k s t] same_frames_logged_out [of cfg k s t]
    by (auto simp: session_run_inv_def same_frames_def split: if_splits)
  have x: "session_run_inv cfg k (fx_execute ck a b c d e s)" for a b c d e
    by (rule f) (simp_all add: fx_execute_def Let_def same_frames_def)
  have st: "session_run_inv cfg k (fx_start s)" "session_run_inv cfg k (fx_stop s)"
    by (rule f; simp add: fx_start_def fx_stop_def same_frames_def)+
  show ?thesis
  proof (cases "fx_in_run s")
    case False
    then show ?thesis using assms x st by (cases i) simp_all
  next
    case True
    then have s: "session_inv cfg k s" using assms(1) by (simp add: session_run_inv_def)
    show ?thesis
      using True assms(2) x st s posted_logout_ends [OF s] settle_run io_drain_session [OF s, THEN session_inv_run]
        write_done_session [OF s, THEN settle_run] on_read_session [OF s, THEN settle_run]
        on_hb_timer_session [OF s, THEN settle_run] session_inv_run [OF s]
      by (cases i) simp_all
  qed
qed

lemma session_start:
  assumes "fx_wqueue s = []" "\<not> fx_writing s"
  shows "session_inv cfg (length (fx_out s)) (session_connect cfg ck Up s)"
proof -
  let ?s = "s\<lparr>fx_stream := True, fx_connected := True, fx_seq_out := 1\<rparr>"
  have "session_frame cfg 0 (fst (build_logon cfg ck ?s))"
    by (auto simp: session_frame_def build_logon_def build_msg_def)
  then have "session_inv cfg (length (fx_out s)) (io_write ck (build_logon cfg ck ?s))"
    using assms by (simp add: io_write_def build_logon_def build_msg_def pump_write_def emit_def session_inv_def
        session_frames_def queued_def numbered_def)
  then have l: "session_inv cfg (length (fx_out s)) ((io_write ck (build_logon cfg ck ?s))\<lparr>fx_in_run := True, fx_io_stopped := False\<rparr>)"
    by (rule same_frames_session) (simp add: same_frames_def)
  have "session_inv cfg (length (fx_out s)) ((io_drain_orders cfg ck
    ((io_write ck (build_logon cfg ck ?s))\<lparr>fx_in_run := True, fx_io_stopped := False\<rparr>))\<lparr>fx_last_recv := ck_ms ck\<rparr>)"
    by (rule same_frames_session [OF io_drain_session [OF l]]) (simp add: same_frames_def)
  then show ?thesis
    by (simp add: session_connect_def Let_def run_read_loop_def start_hb_timer_session start_read_def emit_session)
qed

text \<open>A session that starts with an empty write queue sends the Logon first and then numbers its
  frames without a gap, up to the Logout.\<close>

lemma session_numbered:
  assumes "fx_wqueue s = []" "\<not> fx_writing s" "\<forall>(ck', i)\<in>set ins. \<not> is_connect i"
    and "t = fx_run cfg ins (session_connect cfg ck Up s)"
  shows "numbered cfg (started (drop (length (fx_out s)) (fx_out t))) \<and> logged_out cfg (length (fx_out s)) t \<and>
    (fx_in_run t \<longrightarrow> on_wire (drop (length (fx_out s)) (fx_out t)) = started (drop (length (fx_out s)) (fx_out t)))"
proof -
  have "session_run_inv cfg k t \<Longrightarrow> \<forall>(ck', i)\<in>set ins. \<not> is_connect i \<Longrightarrow> session_run_inv cfg k (fx_run cfg ins t)" for k t
  proof (induction ins arbitrary: t)
    case (Cons x ins)
    then show ?case using session_step [of cfg k t "snd x" "fst x"] by (auto simp: fx_run_def)
  qed (simp add: fx_run_def)
  from this [OF session_inv_run [OF session_start [OF assms(1,2), of cfg ck]] assms(3)]
  have "session_run_inv cfg (length (fx_out s)) t" by (simp add: assms(4))
  then show ?thesis
    using numbered_append session_inv_logged_out by (auto simp: session_run_inv_def session_inv_def session_frames_def split: if_splits)
qed

end
