(* ===== verification/FixBooks.thy ===== *)
theory FixBooks
  imports FixSession
begin

text \<open>
  The order books of \<open>FixExecutor\<close>: an accepted order is in the mailbox, in
  \<open>pending_orders_\<close> or reported, in exactly one of them, and the mailbox stays bounded.
\<close>

section \<open>The books: every accepted order has one place\<close>

fun reports :: "fx_effect list \<Rightarrow> fx_result list" where
  "reports [] = []"
| "reports (Report r # es) = r # reports es"
| "reports (e # es) = reports es"

lemma reports_append [simp]: "reports (es @ es') = reports es @ reports es'"
  by (induction es rule: reports.induct) simp_all

definition cl_of :: "int64 \<Rightarrow> str" where
  "cl_of n = ''LL'' @ show_int n"

lemma show_int_inject: "show_int m = show_int n \<Longrightarrow> m = n"
proof -
  assume e: "show_int m = show_int n"
  have "show_nat k \<noteq> CHR ''-'' # xs" "CHR ''-'' # xs \<noteq> show_nat k" for k xs
    using show_nat_Cons [of k] by (auto simp: is_digit_def)
  then show ?thesis using e e [symmetric] by (auto simp: show_int_def split: if_splits dest!: show_nat_inj)
qed

lemma cl_of_inject [simp]: "cl_of m = cl_of n \<longleftrightarrow> m = n"
  using show_int_inject by (auto simp: cl_of_def)

text \<open>\<open>L\<close> are the jobs that were accepted and not sent yet.\<close>

definition order_books :: "fx_order list \<Rightarrow> fx \<Rightarrow> bool" where
  "order_books L s \<longleftrightarrow>
     (\<forall>j\<in>set L \<union> ran (fx_pending s). fo_id j < fx_next_id s \<and> fo_cl j = cl_of (fo_id j)) \<and>
     (\<forall>k j. fx_pending s k = Some j \<longrightarrow> fo_cl j = k) \<and>
     (\<forall>r\<in>set (reports (fx_out s)). fr_order_id r < fx_next_id s \<and> fr_cl r = cl_of (fr_order_id r)) \<and>
     distinct (map fo_cl L @ map fr_cl (reports (fx_out s))) \<and>
     dom (fx_pending s) \<inter> set (map fo_cl L @ map fr_cl (reports (fx_out s))) = {}"

definition places :: "fx_order list \<Rightarrow> fx \<Rightarrow> str set" where
  "places L s = set (map fo_cl L) \<union> dom (fx_pending s) \<union> set (map fr_cl (reports (fx_out s)))"

definition same_books :: "fx \<Rightarrow> fx \<Rightarrow> bool" where
  "same_books s t \<longleftrightarrow> fx_pending t = fx_pending s \<and> fx_next_id t = fx_next_id s \<and> reports (fx_out t) = reports (fx_out s)"

lemma same_books_books: "same_books s t \<Longrightarrow> order_books L s = order_books L t \<and> places L t = places L s"
  by (simp add: same_books_def order_books_def places_def)

lemma same_books_trans [trans]: "same_books s t \<Longrightarrow> same_books t u \<Longrightarrow> same_books s u"
  by (simp add: same_books_def)

lemma same_books_refl [simp]: "same_books s s"
  by (simp add: same_books_def)

lemma io_write_books: "same_books s (io_write ck (build_msg cfg ck m b s))"
  by (simp add: io_write_def build_msg_def pump_write_def emit_def same_books_def)

lemma send_job_books:
  assumes "order_books (j # L) s"
  shows "order_books L (send_job cfg ck j s)" "places L (send_job cfg ck j s) = places (j # L) s"
proof -
  let ?s = "s\<lparr>fx_pending := (fx_pending s)(fo_cl j \<mapsto> j)\<rparr>"
  have "order_books L ?s" "places L ?s = places (j # L) s"
    using assms by (auto simp: order_books_def places_def ran_def split: if_splits)
  then show "order_books L (send_job cfg ck j s)" "places L (send_job cfg ck j s) = places (j # L) s"
    using same_books_books [OF io_write_books [of ?s]] by (simp_all add: send_job_def build_order_def)
qed

lemma send_jobs_books:
  "order_books (js @ L) s \<Longrightarrow> order_books L (fold (send_job cfg ck) js s) \<and> places L (fold (send_job cfg ck) js s) = places (js @ L) s"
  by (induction js arbitrary: s) (simp_all add: send_job_books)

lemma track_seq_books: "same_books s (track_seq cfg ck f s)"
proof -
  have u: "same_books s (s\<lparr>fx_seq_in := n\<rparr>)" for n by (simp add: same_books_def)
  show ?thesis
    unfolding track_seq_def Let_def build_resend_request_def
    using u same_books_trans [OF u io_write_books] by (simp split: if_split)
qed

lemma exec_result_cl:
  "exec_result ck f j = Some r \<Longrightarrow> fr_cl r = scan_tag f 11 \<and> fr_order_id r = fo_id j"
  by (auto simp: exec_result_def Let_def split: if_splits)

lemma books_pending:
  assumes "order_books L s" "fx_pending s k = Some j"
  shows "fo_cl j = k" "fo_id j < fx_next_id s" "k = cl_of (fo_id j)"
proof -
  have "j \<in> ran (fx_pending s)" using assms(2) by (rule ranI)
  then have "fo_id j < fx_next_id s \<and> fo_cl j = cl_of (fo_id j)" using assms(1) unfolding order_books_def by blast
  moreover have "fo_cl j = k" using assms unfolding order_books_def by blast
  ultimately show "fo_id j < fx_next_id s" "fo_cl j = k" "k = cl_of (fo_id j)" by simp_all
qed

lemma books_report:
  assumes b: "order_books L s" and p: "fx_pending s k = Some j" and r: "fr_cl r = k" "fr_order_id r = fo_id j"
  shows "order_books L (s\<lparr>fx_pending := (fx_pending s)(k := None), fx_out := fx_out s @ [Report r]\<rparr>)"
proof -
  have j: "fo_cl j = k" "fo_id j < fx_next_id s" "fo_cl j = cl_of (fo_id j)"
    using books_pending [OF b p] by simp_all
  let ?R = "reports (fx_out s)" and ?m = "(fx_pending s)(k := None)"
  have ran: "ran ?m \<subseteq> ran (fx_pending s)" by (auto simp: ran_def)
  have k: "k \<in> dom (fx_pending s)" using p by blast
  note b = b [unfolded order_books_def]
  have "\<forall>j\<in>set L \<union> ran ?m. fo_id j < fx_next_id s \<and> fo_cl j = cl_of (fo_id j)" using b ran by blast
  moreover have "\<forall>k j. ?m k = Some j \<longrightarrow> fo_cl j = k" using b by simp
  moreover have "\<forall>r\<in>set (?R @ [r]). fr_order_id r < fx_next_id s \<and> fr_cl r = cl_of (fr_order_id r)"
    using b j r by simp
  moreover have "distinct (map fo_cl L @ map fr_cl (?R @ [r]))"
  proof -
    have "k \<notin> set (map fo_cl L @ map fr_cl ?R)" "distinct (map fo_cl L @ map fr_cl ?R)" using b k by blast+
    then show ?thesis using r by simp
  qed
  moreover have "dom ?m \<inter> set (map fo_cl L @ map fr_cl (?R @ [r])) = {}"
  proof -
    have "dom ?m = dom (fx_pending s) - {k}" by simp
    moreover have "set (map fo_cl L @ map fr_cl (?R @ [r])) = set (map fo_cl L @ map fr_cl ?R) \<union> {k}" using r by simp
    ultimately show ?thesis using b by blast
  qed
  ultimately show ?thesis unfolding order_books_def by simp
qed

lemma on_execution_report_books:
  assumes "order_books L s"
  shows "order_books L (on_execution_report ck f s)" "places L (on_execution_report ck f s) = places L s"
proof -
  have "order_books L (on_execution_report ck f s) \<and> places L (on_execution_report ck f s) = places L s"
  proof (cases "fx_pending s (scan_tag f 11)")
    case None
    then show ?thesis using assms by (simp add: on_execution_report_def Let_def)
  next
    case (Some j)
    show ?thesis
    proof (cases "exec_result ck f j")
      case None
      then show ?thesis using assms Some by (simp add: on_execution_report_def Let_def)
    next
      case (Some r)
      have r: "fr_cl r = scan_tag f 11" "fr_order_id r = fo_id j" using exec_result_cl [OF Some] by simp_all
      let ?s = "s\<lparr>fx_pending := (fx_pending s)(scan_tag f 11 := None), fx_out := fx_out s @ [Report r]\<rparr>"
      have "on_execution_report ck f s = (if scan_tag f 11 = [] then s else ?s)"
        using Some \<open>fx_pending s (scan_tag f 11) = Some j\<close> by (simp add: on_execution_report_def Let_def emit_def)
      moreover have "places L ?s = places L s"
        using \<open>fx_pending s (scan_tag f 11) = Some j\<close> r by (auto simp: places_def)
      moreover have "order_books L ?s"
        using assms \<open>fx_pending s (scan_tag f 11) = Some j\<close> r by (rule books_report)
      ultimately show ?thesis using assms by simp
    qed
  qed
  then show "order_books L (on_execution_report ck f s)" "places L (on_execution_report ck f s) = places L s" by simp_all
qed

definition keeps :: "fx \<Rightarrow> fx \<Rightarrow> bool" where
  "keeps s t \<longleftrightarrow> (\<forall>L. order_books L s \<longrightarrow> order_books L t \<and> places L t = places L s)"

lemma same_books_keeps: "same_books s t \<Longrightarrow> keeps s t"
  using same_books_books by (auto simp: keeps_def)

lemma keeps_trans [trans]: "keeps s t \<Longrightarrow> keeps t u \<Longrightarrow> keeps s u"
  by (simp add: keeps_def)

lemma handle_frame_keeps: "keeps s (handle_frame cfg ck f s)"
proof -
  have "same_books s (s\<lparr>fx_last_recv := ck_ms ck\<rparr>)" by (simp add: same_books_def)
  also have "same_books \<dots> (track_seq cfg ck f (s\<lparr>fx_last_recv := ck_ms ck\<rparr>))" by (rule track_seq_books)
  finally have t: "keeps s (track_seq cfg ck f (s\<lparr>fx_last_recv := ck_ms ck\<rparr>))" by (rule same_books_keeps)
  have e: "keeps t (on_execution_report ck f t)" for t
    using on_execution_report_books by (simp add: keeps_def)
  have q: "keeps t (on_test_request cfg ck f t)" for t
    unfolding on_test_request_def build_heartbeat_def by (rule same_books_keeps, rule io_write_books)
  have r: "keeps t (on_sequence_reset t)" for t
    by (rule same_books_keeps) (simp add: on_sequence_reset_def same_books_def)
  show ?thesis
    unfolding handle_frame_def Let_def
    using t keeps_trans [OF t e] keeps_trans [OF t q] keeps_trans [OF t r] by (simp split: if_split)
qed

lemma process_inbound_keeps: "keeps s (process_inbound cfg ck s)"
proof (induction cfg ck s rule: process_inbound.induct)
  case (1 cfg ck s)
  have e: "keeps s (s\<lparr>fx_inbound := r\<rparr>)" for r
    by (rule same_books_keeps) (simp add: same_books_def)
  show ?case
  proof (cases "split_frame (fx_inbound s)")
    case (Incomplete r)
    then show ?thesis using e by (simp add: process_inbound.simps [of cfg ck s])
  next
    case (Resync r)
    then show ?thesis using keeps_trans [OF e 1(1) [OF Resync]] by (simp add: process_inbound.simps [of cfg ck s])
  next
    case (Frame f r)
    have h: "keeps s (handle_frame cfg ck f (s\<lparr>fx_inbound := r\<rparr>))" using e handle_frame_keeps by (rule keeps_trans)
    then show ?thesis using keeps_trans [OF h 1(2) [OF Frame refl]] Frame
      by (simp add: process_inbound.simps [of cfg ck s] Let_def)
  qed
qed


text \<open>The whole record: the mailbox is within its bound and the books are in order.\<close>

definition fx_ok :: "fx \<Rightarrow> bool" where
  "fx_ok s \<longleftrightarrow> length (fx_orders s) \<le> fx_limit s \<and> order_books (fx_orders s) s"

definition stays :: "fx \<Rightarrow> fx \<Rightarrow> bool" where
  "stays s t \<longleftrightarrow> fx_limit t = fx_limit s \<and> (fx_ok s \<longrightarrow> fx_ok t \<and> places (fx_orders t) t = places (fx_orders s) s)"

definition goes_on :: "fx \<Rightarrow> fx \<Rightarrow> bool" where
  "goes_on s t \<longleftrightarrow> fx_limit t = fx_limit s \<and> (fx_ok s \<longrightarrow> fx_ok t \<and> places (fx_orders s) s \<subseteq> places (fx_orders t) t)"

lemma stays_refl [simp]: "stays s s"
  by (simp add: stays_def)

lemma stays_trans [trans]: "stays s t \<Longrightarrow> stays t u \<Longrightarrow> stays s u"
  by (simp add: stays_def)

lemma stays_goes_on: "stays s t \<Longrightarrow> goes_on s t"
  by (simp add: stays_def goes_on_def)

lemma goes_on_refl [simp]: "goes_on s s"
  by (simp add: goes_on_def)

lemma goes_on_trans [trans]: "goes_on s t \<Longrightarrow> goes_on t u \<Longrightarrow> goes_on s u"
  by (auto simp: goes_on_def)

lemma keeps_stays: "keeps s t \<Longrightarrow> fx_orders t = fx_orders s \<Longrightarrow> fx_limit t = fx_limit s \<Longrightarrow> stays s t"
  by (simp add: keeps_def stays_def fx_ok_def)

lemma same_books_stays: "same_books s t \<Longrightarrow> fx_orders t = fx_orders s \<Longrightarrow> fx_limit t = fx_limit s \<Longrightarrow> stays s t"
  using same_books_keeps keeps_stays by blast

lemma io_write_stays: "stays s (io_write ck (build_msg cfg ck m b s))"
  using io_write_build_same [of s ck cfg m b] by (intro same_books_stays io_write_books) (simp_all add: same_session_def)

lemma process_inbound_fields: "fx_orders (process_inbound cfg ck s) = fx_orders s \<and> fx_limit (process_inbound cfg ck s) = fx_limit s"
proof (induction cfg ck s rule: process_inbound.induct)
  case (1 cfg ck s)
  then show ?case
    using handle_frame_same [of "s\<lparr>fx_inbound := r\<rparr>" cfg ck f for r f]
    by (simp add: process_inbound.simps [of cfg ck s] Let_def same_session_def split: split_result.split)
qed

lemma process_inbound_stays: "stays s (process_inbound cfg ck s)"
  using process_inbound_keeps process_inbound_fields by (intro keeps_stays) auto

lemma execute_goes_on: "goes_on s (fx_execute ck i sd v sl tp s)"
proof -
  let ?j = "\<lparr> fo_instrument = i, fo_side = sd, fo_volume = v, fo_stop = sl, fo_take = tp, fo_id = fx_next_id s,
      fo_cl = cl_of (fx_next_id s), fo_t0 = ck_ms ck \<rparr>"
  let ?n = "s\<lparr>fx_next_id := fx_next_id s + 1\<rparr>"
  have b: "order_books (fx_orders s) ?n \<and> order_books (fx_orders s @ [?j]) ?n"
    and p: "places (fx_orders s @ [?j]) ?n = places (fx_orders s) s \<union> {cl_of (fx_next_id s)}"
      "places (fx_orders s) ?n = places (fx_orders s) s" if s: "order_books (fx_orders s) s"
  proof -
    let ?O = "map fo_cl (fx_orders s)" and ?R = "map fr_cl (reports (fx_out s))"
    note b = s [unfolded order_books_def]
    have new: "cl_of (fx_next_id s) \<notin> set (?O @ ?R)" using b by auto
    have "cl_of (fx_next_id s) \<notin> dom (fx_pending s)"
    proof
      assume "cl_of (fx_next_id s) \<in> dom (fx_pending s)"
      then obtain j where "fx_pending s (cl_of (fx_next_id s)) = Some j" by blast
      then show False using books_pending [OF s] by fastforce
    qed
    moreover have "distinct (?O @ ?R)" "dom (fx_pending s) \<inter> set (?O @ ?R) = {}" using b by blast+
    moreover have "\<forall>j\<in>set (fx_orders s) \<union> ran (fx_pending s). fo_id j < fx_next_id s + 1 \<and> fo_cl j = cl_of (fo_id j)"
    proof
      fix j assume "j \<in> set (fx_orders s) \<union> ran (fx_pending s)"
      then have "fo_id j < fx_next_id s \<and> fo_cl j = cl_of (fo_id j)" using b by blast
      then show "fo_id j < fx_next_id s + 1 \<and> fo_cl j = cl_of (fo_id j)" by simp
    qed
    moreover have "\<forall>r\<in>set (reports (fx_out s)). fr_order_id r < fx_next_id s + 1 \<and> fr_cl r = cl_of (fr_order_id r)"
    proof
      fix r assume "r \<in> set (reports (fx_out s))"
      then have "fr_order_id r < fx_next_id s \<and> fr_cl r = cl_of (fr_order_id r)" using b by blast
      then show "fr_order_id r < fx_next_id s + 1 \<and> fr_cl r = cl_of (fr_order_id r)" by simp
    qed
    moreover have "\<forall>k j. fx_pending s k = Some j \<longrightarrow> fo_cl j = k" using b by blast
    ultimately show "order_books (fx_orders s) ?n \<and> order_books (fx_orders s @ [?j]) ?n"
      using new unfolding order_books_def by simp
    show "places (fx_orders s @ [?j]) ?n = places (fx_orders s) s \<union> {cl_of (fx_next_id s)}"
      "places (fx_orders s) ?n = places (fx_orders s) s" by (auto simp: places_def)
  qed
  have n: "goes_on s ?n" using b p by (simp add: goes_on_def fx_ok_def)
  have j: "goes_on s (?n\<lparr>fx_orders := fx_orders s @ [?j]\<rparr>)" if "length (fx_orders s) < fx_limit s"
  proof -
    have "order_books L (t\<lparr>fx_orders := q\<rparr>) = order_books L t" "places L (t\<lparr>fx_orders := q\<rparr>) = places L t" for L t q
      by (simp_all add: order_books_def places_def)
    then show ?thesis using b p that by (auto simp: goes_on_def fx_ok_def)
  qed
  show ?thesis using n j by (simp add: fx_execute_def Let_def cl_of_def)
qed

lemma io_drain_stays: "stays s (io_drain_orders cfg ck s)"
proof -
  let ?s = "s\<lparr>fx_orders := []\<rparr>"
  have f: "fx_orders (fold (send_job cfg ck) js t) = fx_orders t \<and> fx_limit (fold (send_job cfg ck) js t) = fx_limit t" for js t
  proof (induction js arbitrary: t)
    case (Cons j js)
    have "same_session (t\<lparr>fx_pending := p\<rparr>) (io_write ck (build_order cfg ck j (t\<lparr>fx_pending := p\<rparr>)))" for p
      unfolding build_order_def by (rule io_write_build_same)
    then show ?case using Cons by (simp add: send_job_def same_session_def)
  qed simp
  have "order_books (fx_orders s) s = order_books (fx_orders s @ []) ?s" "places (fx_orders s) s = places (fx_orders s @ []) ?s"
    by (simp_all add: order_books_def places_def)
  then show ?thesis using send_jobs_books [of "fx_orders s" "[]" ?s cfg ck] f [of "fx_orders s" ?s]
    by (auto simp: io_drain_orders_def Let_def stays_def fx_ok_def)
qed

text \<open>The fields that the books do not read.\<close>

definition same_mail :: "fx \<Rightarrow> fx \<Rightarrow> bool" where
  "same_mail s t \<longleftrightarrow> same_books s t \<and> fx_orders t = fx_orders s \<and> fx_limit t = fx_limit s"

lemma same_mail_stays: "same_mail s t \<Longrightarrow> stays s t"
  by (simp add: same_mail_def same_books_stays)

lemmas mail_defs = same_mail_def same_books_def start_read_def start_hb_timer_def io_stop_def settle_def session_end_def
  fx_start_def fx_stop_def pump_write_def emit_def

lemma quiet_ops:
  "same_mail s (settle s)" "same_mail s (io_stop s)" "same_mail s (start_read s)" "same_mail s (start_hb_timer cfg s)"
  "same_mail s (fx_start s)" "same_mail s (fx_stop s)" "same_mail s (write_done ec s)"
  "same_mail s (s\<lparr>fx_stream := b\<rparr>)" "same_mail s (s\<lparr>fx_in_run := b, fx_io_stopped := c\<rparr>)" "same_mail s (s\<lparr>fx_last_recv := n\<rparr>)"
  "same_mail s (s\<lparr>fx_last_recv := n, fx_inbound := x\<rparr>)" "same_mail s (s\<lparr>fx_stream := b, fx_connected := c, fx_seq_out := n\<rparr>)"
  by (simp_all add: mail_defs write_done_def Let_def)

lemmas quiet = quiet_ops [THEN same_mail_stays]

lemma on_read_stays: "stays s (on_read cfg ck r s)"
  by (cases r) (auto intro: quiet stays_trans [OF stays_trans [OF quiet(11) process_inbound_stays] quiet(3)])

lemma on_hb_timer_stays: "stays s (on_hb_timer cfg ck ec s)"
  using stays_trans [OF io_write_stays quiet(4)] quiet(2,4)
  by (simp add: on_hb_timer_def Let_def build_heartbeat_def)

lemma posted_logout_stays: "stays s (posted_logout cfg ck s)"
  by (rule same_mail_stays)
    (simp add: posted_logout_def build_logout_def build_msg_def Let_def mail_defs)

lemma session_connect_stays: "stays s (session_connect cfg ck r s)"
proof (cases r)
  case Up
  have "stays s (s\<lparr>fx_stream := True, fx_connected := True, fx_seq_out := 1\<rparr>)" by (rule quiet)
  also have "stays \<dots> (io_write ck (build_logon cfg ck (s\<lparr>fx_stream := True, fx_connected := True, fx_seq_out := 1\<rparr>)))"
    unfolding build_logon_def by (rule io_write_stays)
  finally show ?thesis
    unfolding Up session_connect_def connect_result.case Let_def run_read_loop_def
    by (rule stays_trans [OF stays_trans [OF stays_trans [OF stays_trans [OF stays_trans]
          quiet(10)] quiet(3)] quiet(4)])
      (rule quiet io_drain_stays)+
qed (simp_all add: session_connect_def quiet)

fun is_execute :: "fx_input \<Rightarrow> bool" where
  "is_execute (FxExecute i sd v sl tp) \<longleftrightarrow> True"
| "is_execute _ \<longleftrightarrow> False"

text \<open>Only a call of \<open>execute\<close> brings a new order.\<close>

lemma fx_step_stays: "\<not> is_execute (snd i) \<Longrightarrow> stays s (fx_step cfg i s)"
  by (cases "(cfg, i, s)" rule: fx_step.cases)
    (auto intro: quiet session_connect_stays io_drain_stays stays_trans [OF _ quiet(1)]
      on_read_stays on_hb_timer_stays posted_logout_stays)

lemma fx_step_goes_on: "goes_on s (fx_step cfg i s)"
proof (cases "is_execute (snd i)")
  case True
  then show ?thesis using execute_goes_on by (cases i; cases "snd i") auto
qed (simp add: stays_goes_on fx_step_stays)

lemma fx_run_stays:
  assumes "\<forall>i\<in>set ins. \<not> is_execute (snd i)"
  shows "stays s (fx_run cfg ins s)"
  using assms unfolding fx_run_def
proof (induction ins arbitrary: s)
  case (Cons i ins)
  then show ?case using stays_trans [OF fx_step_stays [of i s cfg]] by simp
qed simp

interpretation fx_machine: progressing "fx_step cfg" goes_on for cfg
  by unfold_locales (auto intro: goes_on_trans fx_step_goes_on)

lemma fx_run_goes_on: "goes_on s (fx_run cfg ins s)"
  unfolding fx_run_def by (rule fx_machine.run_rel)

lemma fx_init_ok: "fx_ok fx_init"
  by (simp add: fx_ok_def fx_init_def order_books_def)

lemma fx_run_ok: "fx_ok (fx_run cfg ins fx_init) \<and> fx_limit (fx_run cfg ins fx_init) = 256"
  using fx_run_goes_on [of fx_init cfg ins] fx_init_ok by (simp add: goes_on_def fx_init_def)

end
