(* ===== verification/FixClient.thy ===== *)
theory FixClient
  imports FixExecutor Strategy
begin

text \<open>
  \<open>include/llm/fix_client.h\<close> and \<open>src/fix_client.cpp\<close>: the plain TCP FIX client. The answer of
  the socket to a frame (\<open>send_frame\<close>) is an argument; the frames handed to it are recorded,
  each with the answer. \<open>clk\<close> is the reading of the clocks, one per turn of the loop.
\<close>

section \<open>State\<close>

record fc =
  fc_running :: bool
  fc_connected :: bool
  fc_open :: bool
  fc_seq_out :: int64
  fc_orders :: "signal list"
  fc_last_beat :: int64
  fc_last_recv :: int64
  fc_sent :: "(str \<times> bool) list"

definition fc_init :: fc where
  "fc_init = \<lparr> fc_running = False, fc_connected = False, fc_open = False, fc_seq_out = 1, fc_orders = [],
     fc_last_beat = 0, fc_last_recv = 0, fc_sent = [] \<rparr>"

definition kFIXHeartbeatS :: int64 where
  "kFIXHeartbeatS = 30"

section \<open>Builders\<close>

definition build_fix :: "clk \<Rightarrow> char \<Rightarrow> str \<Rightarrow> str \<Rightarrow> str \<Rightarrow> int64 \<Rightarrow> str" where
  "build_fix ck msg_type body sender target sq = fix_frame msg_type body sender target sq (ck_utc ck)"

definition fc_logon :: "clk \<Rightarrow> int64 \<Rightarrow> str \<Rightarrow> str \<Rightarrow> int64 \<Rightarrow> str" where
  "fc_logon ck sq sender target heartbeat_s =
     build_fix ck CHR ''A'' (fix_field 98 ''0'' @ fix_field_int 108 heartbeat_s @ fix_field 141 ''Y'') sender target sq"

definition new_order_fields :: "signal \<Rightarrow> config \<Rightarrow> (nat \<times> str) list" where
  "new_order_fields s cfg =
     [(11, if reason s = [] then ''LEADLAG'' else reason s),
      (55, symbol s),
      (54, if sig_side s = Buy then ''1'' else ''2''),
      (38, show_int (int64_of (if 0 < trade_amount (run cfg) then trade_amount (run cfg) else 1))),
      (40, ''1''), (59, ''3''),
      (1, dry_run_symbol (run cfg)),
      (44, take 47 (fmt_f 6 (sig_lead s)))]"

definition new_order_single :: "clk \<Rightarrow> signal \<Rightarrow> config \<Rightarrow> int64 \<Rightarrow> str \<Rightarrow> str \<Rightarrow> str" where
  "new_order_single ck s cfg sq sender target =
     build_fix ck CHR ''D'' (fields_text (new_order_fields s cfg)) sender target sq"

definition fc_heartbeat :: "clk \<Rightarrow> int64 \<Rightarrow> str \<Rightarrow> str \<Rightarrow> str" where
  "fc_heartbeat ck sq sender target = build_fix ck CHR ''0'' [] sender target sq"

section \<open>Operations\<close>

definition fc_start :: "fc \<Rightarrow> fc" where
  "fc_start s = s\<lparr>fc_running := True\<rparr>"

definition close_socket :: "fc \<Rightarrow> fc" where
  "close_socket s = s\<lparr>fc_open := False, fc_connected := False\<rparr>"

definition fc_stop :: "fc \<Rightarrow> fc" where
  "fc_stop s = close_socket (s\<lparr>fc_running := False\<rparr>)"

definition send_order :: "signal \<Rightarrow> fc \<Rightarrow> fc" where
  "send_order sg s = s\<lparr>fc_orders := fc_orders s @ [sg]\<rparr>"

definition send_frame :: "(str \<Rightarrow> bool) \<Rightarrow> str \<Rightarrow> fc \<Rightarrow> bool \<times> fc" where
  "send_frame sock frame s =
     (if \<not> fc_open s then (False, s)
      else (sock frame, s\<lparr>fc_sent := fc_sent s @ [(frame, sock frame)]\<rparr>))"

text \<open>The loop over the swapped-out mailbox: a failed send leaves it with the rest unsent.\<close>

fun drain_outbox :: "config \<Rightarrow> clk \<Rightarrow> (str \<Rightarrow> bool) \<Rightarrow> signal list \<Rightarrow> fc \<Rightarrow> bool \<times> fc" where
  "drain_outbox cfg ck sock [] s = (True, s)"
| "drain_outbox cfg ck sock (sg # local) s =
     (let frame = new_order_single ck sg cfg (fc_seq_out s) (fix_sender_comp_id (fix_c cfg)) (fix_target_comp_id (fix_c cfg));
          s = s\<lparr>fc_seq_out := fc_seq_out s + 1\<rparr>;
          (ok, s) = send_frame sock frame s
      in if \<not> ok then (False, s\<lparr>fc_connected := False\<rparr>) else drain_outbox cfg ck sock local s)"

definition fc_beat :: "config \<Rightarrow> clk \<Rightarrow> (str \<Rightarrow> bool) \<Rightarrow> fc \<Rightarrow> bool \<times> fc" where
  "fc_beat cfg ck sock s =
     (if kFIXHeartbeatS * 1000 \<le> ck_ms ck - fc_last_beat s
      then let (ok, s) = send_frame sock (fc_heartbeat ck (fc_seq_out s) (fix_sender_comp_id (fix_c cfg))
                           (fix_target_comp_id (fix_c cfg))) (s\<lparr>fc_seq_out := fc_seq_out s + 1\<rparr>)
           in if \<not> ok then (False, s\<lparr>fc_connected := False\<rparr>) else (True, s\<lparr>fc_last_beat := ck_ms ck\<rparr>)
      else (True, s))"

text \<open>One turn of \<open>run_event_loop\<close>.\<close>

definition fc_turn :: "config \<Rightarrow> clk \<Rightarrow> (str \<Rightarrow> bool) \<Rightarrow> fc \<Rightarrow> fc" where
  "fc_turn cfg ck sock s =
     (if \<not> (fc_running s \<and> fc_connected s) then s
      else let (ok, s) = drain_outbox cfg ck sock (fc_orders s) (s\<lparr>fc_orders := []\<rparr>) in
        if \<not> ok then s
        else let (ok, s) = fc_beat cfg ck sock s in
          if \<not> ok then s
          else if kFIXHeartbeatS * 1500 < ck_ms ck - fc_last_recv s then s\<lparr>fc_connected := False\<rparr> else s)"

text \<open>One round of \<open>session_loop\<close> up to the event loop: connect, send the Logon.\<close>

definition fc_connect :: "config \<Rightarrow> clk \<Rightarrow> bool \<Rightarrow> (str \<Rightarrow> bool) \<Rightarrow> fc \<Rightarrow> fc" where
  "fc_connect cfg ck up sock s =
     (if \<not> fc_running s then s
      else let s = s\<lparr>fc_connected := False\<rparr> in
        if \<not> up then close_socket s
        else let s = s\<lparr>fc_open := True\<rparr>;
                 lg = fc_logon ck (fc_seq_out s) (fix_sender_comp_id (fix_c cfg)) (fix_target_comp_id (fix_c cfg)) kFIXHeartbeatS;
                 (ok, s) = send_frame sock lg s
             in if ok then s\<lparr>fc_connected := True, fc_last_beat := ck_ms ck, fc_last_recv := ck_ms ck\<rparr>
                else close_socket s)"

definition fc_turns :: "config \<Rightarrow> (clk \<times> (str \<Rightarrow> bool)) list \<Rightarrow> fc \<Rightarrow> fc" where
  "fc_turns cfg = fold (\<lambda>(ck, sock). fc_turn cfg ck sock)"

section \<open>What a session does\<close>

definition sends :: "fc \<Rightarrow> bool \<times> fc \<Rightarrow> bool" where
  "sends s r \<longleftrightarrow> fc_running (snd r) = fc_running s \<and> fc_last_recv (snd r) = fc_last_recv s \<and> fc_orders (snd r) = fc_orders s
     \<and> (\<not> fst r \<longrightarrow> \<not> fc_connected (snd r))"

lemma drain_outbox_sends: "sends s (drain_outbox cfg ck sock js s)"
proof (induction js arbitrary: s)
  case (Cons j js)
  let ?f = "new_order_single ck j cfg (fc_seq_out s) (fix_sender_comp_id (fix_c cfg)) (fix_target_comp_id (fix_c cfg))"
  show ?case
    using Cons [of "s\<lparr>fc_seq_out := fc_seq_out s + 1, fc_sent := fc_sent s @ [(?f, True)]\<rparr>"]
    by (simp add: Let_def send_frame_def sends_def)
qed (simp add: sends_def)

lemma fc_beat_sends: "sends s (fc_beat cfg ck sock s)"
  by (simp add: fc_beat_def Let_def send_frame_def sends_def)

lemma fc_turn_fields:
  "fc_last_recv (fc_turn cfg ck sock s) = fc_last_recv s \<and> fc_running (fc_turn cfg ck sock s) = fc_running s \<and>
   (fc_last_recv s + 45000 < ck_ms ck \<and> fc_running s \<longrightarrow> \<not> fc_connected (fc_turn cfg ck sock s))"
proof -
  obtain ok t where d: "drain_outbox cfg ck sock (fc_orders s) (s\<lparr>fc_orders := []\<rparr>) = (ok, t)" by fastforce
  obtain ok' u where b: "fc_beat cfg ck sock t = (ok', u)" by fastforce
  show ?thesis
    using drain_outbox_sends [of "s\<lparr>fc_orders := []\<rparr>" cfg ck sock "fc_orders s"] fc_beat_sends [of t cfg ck sock]
    by (auto simp: fc_turn_def d b sends_def kFIXHeartbeatS_def)
qed

text \<open>Nothing ever moves \<open>last_recv\<close>: a turn later than 1.5 heartbeats after the Logon ends
  every session.\<close>

lemma fc_turn_stays_down: "\<not> fc_connected s \<Longrightarrow> fc_turn cfg ck sock s = s"
  by (simp add: fc_turn_def)

lemma fc_turns_timeout:
  assumes "fc_running s" "fc_last_recv s + 45000 < ck_ms ck"
  shows "\<not> fc_connected (fc_turns cfg (ins @ [(ck, sock)]) s)"
proof -
  have "fc_running (fc_turns cfg ins u) = fc_running u \<and> fc_last_recv (fc_turns cfg ins u) = fc_last_recv u" for u
    by (induction ins rule: rev_induct)
      (simp_all add: fc_turns_def case_prod_unfold fc_turn_fields [THEN conjunct1]
        fc_turn_fields [THEN conjunct2, THEN conjunct1])
  then have "\<not> fc_connected (fc_turn cfg ck sock (fc_turns cfg ins s))"
    using assms fc_turn_fields [of cfg ck sock "fc_turns cfg ins s"] by simp
  then show ?thesis by (simp add: fc_turns_def)
qed

text \<open>While every send succeeds, the mailbox goes out in order with consecutive numbers.\<close>

fun order_frames :: "config \<Rightarrow> clk \<Rightarrow> int64 \<Rightarrow> signal list \<Rightarrow> str list" where
  "order_frames cfg ck n [] = []"
| "order_frames cfg ck n (sg # sgs) =
     new_order_single ck sg cfg n (fix_sender_comp_id (fix_c cfg)) (fix_target_comp_id (fix_c cfg)) # order_frames cfg ck (n + 1) sgs"

lemma drain_outbox_all:
  assumes "\<forall>f. sock f" "fc_open s"
  shows "drain_outbox cfg ck sock js s =
    (True, s\<lparr>fc_seq_out := fc_seq_out s + int (length js),
       fc_sent := fc_sent s @ map (\<lambda>f. (f, True)) (order_frames cfg ck (fc_seq_out s) js)\<rparr>)"
  using assms(2) by (induction js arbitrary: s) (simp_all add: assms(1) Let_def send_frame_def algebra_simps)

text \<open>A session's first order carries the number the Logon had.\<close>

lemma fc_logon_repeats_seq:
  assumes "fc_running s" "\<forall>f. sock f" "ck_ms ck' < ck_ms ck + 30000"
  shows "map fst (drop (length (fc_sent s)) (fc_sent (fc_turn cfg ck' sock (fc_connect cfg ck True sock s)))) =
    fc_logon ck (fc_seq_out s) (fix_sender_comp_id (fix_c cfg)) (fix_target_comp_id (fix_c cfg)) 30
    # order_frames cfg ck' (fc_seq_out s) (fc_orders s)"
  using assms by (simp add: fc_connect_def fc_turn_def Let_def send_frame_def drain_outbox_all fc_beat_def
      kFIXHeartbeatS_def comp_def)

end
