(* ===== verification/Oanda.thy ===== *)
theory Oanda
  imports Config Ring
begin

text \<open>
  \<open>include/llm/oanda_executor.h\<close> and \<open>src/oanda_executor.cpp\<close>: market orders over the OANDA REST
  interface. The object is a record, with the position of the worker thread in its loop; one
  input is one call from outside or one turn of the worker. The network is a script held in
  the state: the outcome of every connect and of every request, in order, and an exhausted
  script fails. What is posted and reported is appended to \<open>oe_out\<close>.
\<close>

section \<open>Text\<close>

fun json_escape :: "char \<Rightarrow> str" where
  "json_escape c =
     (if c = CHR 0x22 then [CHR 0x5C, CHR 0x22]
      else if c = CHR 0x5C then [CHR 0x5C, CHR 0x5C]
      else if c = CHR 0x0A then [CHR 0x5C, CHR ''n'']
      else if c = CHR 0x0D then [CHR 0x5C, CHR ''r'']
      else [c])"

definition json_str :: "str \<Rightarrow> str" where
  "json_str s = CHR 0x22 # concat (map json_escape s) @ [CHR 0x22]"

definition blank :: "char \<Rightarrow> bool" where
  "blank c \<longleftrightarrow> c \<in> {CHR '' '', CHR 0x09, CHR 0x0D, CHR 0x0A}"

definition trim_view :: "str \<Rightarrow> str" where
  "trim_view s = rev (dropWhile blank (rev (dropWhile blank s)))"

definition distance_str :: "double \<Rightarrow> str" where
  "distance_str pips = (let s = strip_zeros (take 39 (fmt_f 6 pips)) in if s = [] then ''0'' else s)"

section \<open>State\<close>

record oanda_result =
  or_ok :: bool
  or_http :: int
  or_id :: int
  or_latency :: double
  or_tx :: str
  or_error :: str

definition oanda_result0 :: oanda_result where
  "oanda_result0 = \<lparr> or_ok = False, or_http = 0, or_id = 0, or_latency = 0, or_tx = [], or_error = [] \<rparr>"

record oanda_job =
  oj_instrument :: str
  oj_side :: str
  oj_units :: double
  oj_sl :: double
  oj_tp :: double

text \<open>What a request comes to: an exception with its text, one without, or a response with its
  status, body and the latency measured.\<close>

datatype post_outcome = Threw str | ThrewUnknown | Response int str double

datatype oanda_effect = Posted str str str str | Reported oanda_result

datatype worker_pos = NoThread | Entering | AtHead | Waiting | Exited

record oe =
  oe_running :: bool
  oe_connected :: bool
  oe_stream :: bool
  oe_host :: str
  oe_jobs :: "oanda_job list"
  oe_wake :: bool
  oe_limit :: size
  oe_next_id :: int
  oe_pos :: worker_pos
  oe_connects :: "bool list"
  oe_posts :: "post_outcome list"
  oe_out :: "oanda_effect list"

definition oe_init :: "bool list \<Rightarrow> post_outcome list \<Rightarrow> oe" where
  "oe_init cs ps = \<lparr> oe_running = False, oe_connected = False, oe_stream = False,
     oe_host = ''api-fxpractice.oanda.com'', oe_jobs = [], oe_wake = False, oe_limit = 256, oe_next_id = 0,
     oe_pos = NoThread, oe_connects = cs, oe_posts = ps, oe_out = [] \<rparr>"

section \<open>Connection\<close>

definition oe_connect :: "oe \<Rightarrow> bool \<times> oe" where
  "oe_connect s =
     (let ok = (oe_connects s \<noteq> [] \<and> hd (oe_connects s))
      in (ok, s\<lparr> oe_connects := tl (oe_connects s), oe_connected := ok, oe_stream := ok \<rparr>))"

definition oe_disconnect :: "oe \<Rightarrow> oe" where
  "oe_disconnect s = s\<lparr> oe_connected := False, oe_stream := False \<rparr>"

definition oe_is_connected :: "oe \<Rightarrow> bool" where
  "oe_is_connected s \<longleftrightarrow> oe_connected s \<and> oe_stream s"

definition oe_ready :: "oe \<Rightarrow> bool \<times> oe" where
  "oe_ready s = (if oe_is_connected s then (True, s) else oe_connect s)"

section \<open>One order\<close>

definition order_target :: "config \<Rightarrow> str" where
  "order_target cfg = ''/v3/accounts/'' @ oanda_account_id (oanda cfg) @ ''/orders''"

definition order_body :: "oanda_job \<Rightarrow> str" where
  "order_body job = ''{\"order\":{'' @ ''\"type\":\"MARKET\",'' @
     ''\"instrument\":'' @ json_str (oj_instrument job) @ '','' @
     ''\"units\":'' @ json_str (show_int (int64_of (oj_units job))) @ '','' @
     ''\"timeInForce\":\"FOK\",'' @ ''\"positionFill\":\"DEFAULT\",'' @
     ''\"stopLossOnFill\":{\"distance\":\"'' @ distance_str (oj_sl job) @ ''\"},'' @
     ''\"takeProfitOnFill\":{\"distance\":\"'' @ distance_str (oj_tp job) @ ''\"}'' @ ''}}''"

definition transaction_of :: "str \<Rightarrow> str" where
  "transaction_of body =
     (let b = trim_view body; key = ''\"id\":''
      in case find_sub key b of None \<Rightarrow> [] | Some p \<Rightarrow> drop (p + length key) b)"

definition read_response :: "nat \<Rightarrow> int \<Rightarrow> str \<Rightarrow> double \<Rightarrow> oanda_result \<Rightarrow> oanda_result" where
  "read_response attempt status body latency out =
     (let out = out\<lparr> or_latency := latency, or_http := status, or_ok := 200 \<le> status \<and> status < 300 \<rparr>
      in if or_ok out then out\<lparr> or_tx := transaction_of body \<rparr>
         else out\<lparr> or_error := ''HTTP '' @ show_int status @ '': '' @ take 256 body @
                (if 1 < attempt then '' (after reconnect)'' else []) \<rparr>)"

definition oe_post :: "config \<Rightarrow> oanda_job \<Rightarrow> oe \<Rightarrow> post_outcome \<times> oe" where
  "oe_post cfg job s =
     (case oe_posts s of [] \<Rightarrow> Threw ''end of stream'' | p # ps \<Rightarrow> p,
      s\<lparr> oe_posts := tl (oe_posts s),
         oe_out := oe_out s @ [Posted (order_target cfg) (oe_host s) (oanda_token (oanda cfg)) (order_body job)] \<rparr>)"

text \<open>The loop of at most two attempts; the first argument is what is left of it.\<close>

fun attempts :: "nat \<Rightarrow> nat \<Rightarrow> config \<Rightarrow> oanda_job \<Rightarrow> oanda_result \<Rightarrow> oe \<Rightarrow> oanda_result \<times> oe" where
  "attempts 0 attempt cfg job out s = (out, s)"
| "attempts (Suc n) attempt cfg job out s =
     (let (ok, s) = oe_ready s in
      if \<not> ok then (out, s)
      else let (res, s) = oe_post cfg job s in
        case res of
          Response status body latency \<Rightarrow> (read_response attempt status body latency out, s)
        | Threw e \<Rightarrow>
            attempts n (attempt + 1) cfg job
              (if attempt = 2 then out\<lparr> or_error := ''exec exception: '' @ e @ '' (reconnect retry also failed)'', or_ok := False \<rparr>
               else out) (oe_disconnect s)
        | ThrewUnknown \<Rightarrow>
            attempts n (attempt + 1) cfg job
              (if attempt = 2 then out\<lparr> or_error := ''exec exception (unknown)'', or_ok := False \<rparr> else out)
              (oe_disconnect s))"

definition send_market_order :: "config \<Rightarrow> oanda_job \<Rightarrow> oe \<Rightarrow> oanda_result \<times> oe" where
  "send_market_order cfg job s =
     (let s = s\<lparr> oe_next_id := oe_next_id s + 1 \<rparr>
      in attempts 2 1 cfg job (oanda_result0\<lparr> or_id := oe_next_id s \<rparr>) s)"

section \<open>Calls and the worker\<close>

definition oe_start :: "oe \<Rightarrow> oe" where
  "oe_start s = (if oe_running s then s else s\<lparr> oe_running := True, oe_pos := Entering \<rparr>)"

text \<open>The join that ends \<open>stop ()\<close> is the remaining turns of the worker.\<close>

definition oe_stop :: "oe \<Rightarrow> oe" where
  "oe_stop s = (if \<not> oe_running s then s else s\<lparr> oe_running := False, oe_wake := True \<rparr>)"

definition oe_execute :: "oanda_job \<Rightarrow> oe \<Rightarrow> oe" where
  "oe_execute j s =
     (if oj_instrument j = [] \<or> (oj_side j \<noteq> ''buy'' \<and> oj_side j \<noteq> ''sell'') then s
      else if oe_limit s \<le> length (oe_jobs s) then s
      else s\<lparr> oe_jobs := oe_jobs s @ [j], oe_wake := True \<rparr>)"

definition take_job :: "config \<Rightarrow> oe \<Rightarrow> oe" where
  "take_job cfg s =
     (let s = s\<lparr> oe_wake := False \<rparr> in
      case pop_front (oe_jobs s) of
        None \<Rightarrow> if \<not> oe_running s then oe_disconnect s\<lparr> oe_pos := Exited \<rparr> else s\<lparr> oe_pos := AtHead \<rparr>
      | Some (job, js) \<Rightarrow>
          let (r, s) = send_market_order cfg job (s\<lparr> oe_jobs := js \<rparr>)
          in s\<lparr> oe_out := oe_out s @ [Reported r], oe_pos := AtHead \<rparr>)"

definition oe_turn :: "config \<Rightarrow> oe \<Rightarrow> oe" where
  "oe_turn cfg s =
     (case oe_pos s of
        Entering \<Rightarrow>
          let s = s\<lparr> oe_host := (if oanda_host (oanda cfg) = [] then ''api-fxpractice.oanda.com'' else oanda_host (oanda cfg)) \<rparr>;
              s = (if oe_running s then snd (oe_connect s) else s)
          in s\<lparr> oe_pos := AtHead \<rparr>
      | AtHead \<Rightarrow> if oe_running s then s\<lparr> oe_pos := Waiting \<rparr> else oe_disconnect s\<lparr> oe_pos := Exited \<rparr>
      | Waiting \<Rightarrow> if oe_wake s \<or> \<not> oe_running s then take_job cfg s else s
      | _ \<Rightarrow> s)"

datatype oe_input = OeStart | OeStop | OeExecute oanda_job | OeTurn

fun oe_step :: "config \<Rightarrow> oe_input \<Rightarrow> oe \<Rightarrow> oe" where
  "oe_step cfg OeStart s = oe_start s"
| "oe_step cfg OeStop s = oe_stop s"
| "oe_step cfg (OeExecute j) s = oe_execute j s"
| "oe_step cfg OeTurn s = oe_turn cfg s"

definition oe_run :: "config \<Rightarrow> oe_input list \<Rightarrow> oe \<Rightarrow> oe" where
  "oe_run cfg = fold (oe_step cfg)"

section \<open>The mailbox\<close>

text \<open>\<open>execute ()\<close> with acceptable arguments and the worker's dequeue are a bounded FIFO.\<close>

lemma oe_execute_jobs:
  "oj_instrument j \<noteq> [] \<Longrightarrow> oj_side j = ''buy'' \<or> oj_side j = ''sell'' \<Longrightarrow>
    oe_jobs (oe_execute j s) = push_limited (oe_limit s) j (oe_jobs s)"
  by (auto simp: oe_execute_def push_limited_def)

lemma oe_execute_frame [simp]:
  "oe_limit (oe_execute j s) = oe_limit s" "oe_pos (oe_execute j s) = oe_pos s" "oe_out (oe_execute j s) = oe_out s"
  "oe_running (oe_execute j s) = oe_running s" "oe_next_id (oe_execute j s) = oe_next_id s"
  by (simp_all add: oe_execute_def)

section \<open>One order is posted at most twice\<close>

definition outcome_at :: "oe \<Rightarrow> nat \<Rightarrow> post_outcome" where
  "outcome_at s i = (if i < length (oe_posts s) then oe_posts s ! i else Threw ''end of stream'')"

definition request_of :: "config \<Rightarrow> oanda_job \<Rightarrow> oe \<Rightarrow> oanda_effect" where
  "request_of cfg job s = Posted (order_target cfg) (oe_host s) (oanda_token (oanda cfg)) (order_body job)"

fun answered :: "post_outcome \<Rightarrow> bool" where
  "answered (Response _ _ _) = True"
| "answered _ = False"

lemma oe_connect_frame [simp]:
  "oe_out (snd (oe_connect s)) = oe_out s" "oe_posts (snd (oe_connect s)) = oe_posts s"
  "oe_host (snd (oe_connect s)) = oe_host s" "oe_jobs (snd (oe_connect s)) = oe_jobs s"
  "oe_running (snd (oe_connect s)) = oe_running s" "oe_wake (snd (oe_connect s)) = oe_wake s"
  "oe_next_id (snd (oe_connect s)) = oe_next_id s" "oe_limit (snd (oe_connect s)) = oe_limit s"
  "oe_pos (snd (oe_connect s)) = oe_pos s"
  by (simp_all add: oe_connect_def Let_def)

lemma oe_disconnect_frame [simp]:
  "oe_out (oe_disconnect s) = oe_out s" "oe_posts (oe_disconnect s) = oe_posts s" "oe_host (oe_disconnect s) = oe_host s"
  "oe_jobs (oe_disconnect s) = oe_jobs s" "oe_running (oe_disconnect s) = oe_running s" "oe_wake (oe_disconnect s) = oe_wake s"
  "oe_next_id (oe_disconnect s) = oe_next_id s" "oe_limit (oe_disconnect s) = oe_limit s" "oe_pos (oe_disconnect s) = oe_pos s"
  by (simp_all add: oe_disconnect_def)

lemma oe_ready_frame [simp]:
  "oe_out (snd (oe_ready s)) = oe_out s" "oe_posts (snd (oe_ready s)) = oe_posts s" "oe_host (snd (oe_ready s)) = oe_host s"
  "oe_jobs (snd (oe_ready s)) = oe_jobs s" "oe_running (snd (oe_ready s)) = oe_running s"
  "oe_wake (snd (oe_ready s)) = oe_wake s" "oe_next_id (snd (oe_ready s)) = oe_next_id s"
  "oe_limit (snd (oe_ready s)) = oe_limit s" "oe_pos (snd (oe_ready s)) = oe_pos s"
  by (simp_all add: oe_ready_def)

text \<open>The state after a request over an open connection.\<close>

definition posted :: "config \<Rightarrow> oanda_job \<Rightarrow> oe \<Rightarrow> oe" where
  "posted cfg job s = (snd (oe_ready s))\<lparr> oe_posts := tl (oe_posts s), oe_out := oe_out s @ [request_of cfg job s] \<rparr>"

lemma oe_post_ready: "oe_post cfg job (snd (oe_ready s)) = (outcome_at s 0, posted cfg job s)"
  by (simp add: oe_post_def outcome_at_def request_of_def posted_def split: list.split)

lemma posted_frame [simp]:
  "oe_posts (posted cfg job s) = tl (oe_posts s)" "oe_out (posted cfg job s) = oe_out s @ [request_of cfg job s]"
  "oe_host (posted cfg job s) = oe_host s" "oe_next_id (posted cfg job s) = oe_next_id s"
  by (simp_all add: posted_def)

lemma outcome_after: "outcome_at (oe_disconnect (posted cfg job s)) i = outcome_at s (Suc i)"
  by (auto simp: outcome_at_def nth_tl)

lemma request_after: "request_of cfg job (oe_disconnect (posted cfg job s)) = request_of cfg job s"
  by (simp add: request_of_def)

text \<open>What one order does to the object: nothing to its queue, its host or its worker.\<close>

definition same_worker :: "oe \<Rightarrow> oe \<Rightarrow> bool" where
  "same_worker s t \<longleftrightarrow> oe_host t = oe_host s \<and> oe_jobs t = oe_jobs s \<and> oe_running t = oe_running s \<and>
     oe_wake t = oe_wake s \<and> oe_limit t = oe_limit s \<and> oe_pos t = oe_pos s"

lemma same_worker_trans: "same_worker s t \<Longrightarrow> same_worker t u \<Longrightarrow> same_worker s u"
  by (simp add: same_worker_def)

lemma same_worker_posted: "same_worker s (posted cfg job s)" "same_worker s (oe_disconnect (posted cfg job s))"
  "same_worker s (snd (oe_ready s))"
  by (simp_all add: same_worker_def posted_def)

text \<open>The requests that were sent, the outcomes that were used, and when the result is a success.\<close>

definition attempted :: "config \<Rightarrow> oanda_job \<Rightarrow> nat \<Rightarrow> oe \<Rightarrow> oanda_result \<times> oe \<Rightarrow> bool" where
  "attempted cfg job m s = (\<lambda>(r, t). oe_out t = oe_out s @ replicate m (request_of cfg job s) \<and>
     oe_posts t = drop m (oe_posts s) \<and> (\<forall>i. Suc i < m \<longrightarrow> \<not> answered (outcome_at s i)) \<and>
     (or_ok r \<longleftrightarrow> 0 < m \<and> (\<exists>st b l. outcome_at s (m - 1) = Response st b l \<and> 200 \<le> st \<and> st < 300)))"

lemma attempted_Suc:
  assumes "attempted cfg job m (oe_disconnect (posted cfg job s)) rt" "\<not> answered (outcome_at s 0)"
  shows "attempted cfg job (Suc m) s rt"
proof -
  obtain r t where rt: "rt = (r, t)" by fastforce
  have "\<not> answered (outcome_at s i)" if "Suc i < Suc m" for i
    using that assms unfolding rt attempted_def by (cases i) (auto simp: outcome_after)
  moreover have "or_ok r \<longleftrightarrow> (\<exists>st b l. outcome_at s m = Response st b l \<and> 200 \<le> st \<and> st < 300)"
    using assms unfolding rt attempted_def by (cases m) (auto simp: outcome_after)
  ultimately show ?thesis
    using assms(1) unfolding rt attempted_def by (simp add: request_after drop_Suc replicate_app_Cons_same)
qed

lemma attempts_spec:
  assumes "\<not> or_ok out"
  shows "or_id (fst (attempts n k cfg job out s)) = or_id out \<and> oe_next_id (snd (attempts n k cfg job out s)) = oe_next_id s \<and>
    same_worker s (snd (attempts n k cfg job out s)) \<and> (\<exists>m\<le>n. attempted cfg job m s (attempts n k cfg job out s))"
  using assms
proof (induction n arbitrary: k out s)
  case (Suc n)
  obtain ok where u: "oe_ready s = (ok, snd (oe_ready s))" by (metis surjective_pairing)
  show ?case
  proof (cases ok)
    case False
    then have "attempts (Suc n) k cfg job out s = (out, snd (oe_ready s))" by (subst attempts.simps, subst u) simp
    moreover have "attempted cfg job 0 s (out, snd (oe_ready s))" using Suc.prems by (simp add: attempted_def)
    ultimately show ?thesis using same_worker_posted(3) by auto
  next
    case True
    then have e: "attempts (Suc n) k cfg job out s = (case outcome_at s 0 of
          Response st b l \<Rightarrow> (read_response k st b l out, posted cfg job s)
        | Threw e \<Rightarrow> attempts n (k + 1) cfg job (if k = 2 then out\<lparr> or_error := ''exec exception: '' @ e @
            '' (reconnect retry also failed)'', or_ok := False \<rparr> else out) (oe_disconnect (posted cfg job s))
        | ThrewUnknown \<Rightarrow> attempts n (k + 1) cfg job (if k = 2 then out\<lparr> or_error := ''exec exception (unknown)'',
            or_ok := False \<rparr> else out) (oe_disconnect (posted cfg job s)))"
      by (subst attempts.simps, subst u) (simp add: oe_post_ready split: post_outcome.split)
    have retry: "or_id (fst (attempts n (k + 1) cfg job o' t)) = or_id out \<and> oe_next_id (snd (attempts n (k + 1) cfg job o' t)) = oe_next_id s \<and>
        same_worker s (snd (attempts n (k + 1) cfg job o' t)) \<and> (\<exists>m\<le>Suc n. attempted cfg job m s (attempts n (k + 1) cfg job o' t))"
      if "\<not> answered (outcome_at s 0)" "\<not> or_ok o'" "or_id o' = or_id out" "t = oe_disconnect (posted cfg job s)" for o' t
    proof -
      have "\<exists>m\<le>n. attempted cfg job m t (attempts n (k + 1) cfg job o' t)" using Suc.IH [OF that(2)] by blast
      then obtain m where "m \<le> n" "attempted cfg job m (oe_disconnect (posted cfg job s)) (attempts n (k + 1) cfg job o' t)"
        unfolding \<open>t = oe_disconnect (posted cfg job s)\<close> by blast
      then have "\<exists>m\<le>Suc n. attempted cfg job m s (attempts n (k + 1) cfg job o' t)"
        using attempted_Suc [OF _ that(1)] by (intro exI [of _ "Suc m"]) simp
      then show ?thesis
        using Suc.IH [OF that(2), of "k + 1" t] that same_worker_trans [OF same_worker_posted(2) [of s cfg job]] by auto
    qed
    show ?thesis
    proof (cases "outcome_at s 0")
      case (Response st b l)
      have "attempted cfg job 1 s (read_response k st b l out, posted cfg job s)"
        using Response by (simp add: attempted_def read_response_def Let_def drop_Suc)
      then show ?thesis using e Response same_worker_posted(1) by (auto simp: read_response_def Let_def)
    qed (use e Suc.prems retry in simp)+
  qed
qed (auto simp: same_worker_def attempted_def)

lemma send_market_order_spec:
  "or_id (fst (send_market_order cfg job s)) = oe_next_id s + 1 \<and> oe_next_id (snd (send_market_order cfg job s)) = oe_next_id s + 1 \<and>
   same_worker s (snd (send_market_order cfg job s)) \<and> (\<exists>m\<le>2. attempted cfg job m s (send_market_order cfg job s))"
proof -
  have "same_worker s (s\<lparr> oe_next_id := oe_next_id s + 1 \<rparr>)" by (simp add: same_worker_def)
  moreover have "attempted cfg job m (s\<lparr> oe_next_id := oe_next_id s + 1 \<rparr>) x = attempted cfg job m s x" for m x
    by (simp add: attempted_def request_of_def outcome_at_def)
  ultimately show ?thesis
    using attempts_spec [of "oanda_result0\<lparr> or_id := oe_next_id s + 1 \<rparr>" 2 1 cfg job "s\<lparr> oe_next_id := oe_next_id s + 1 \<rparr>"]
      same_worker_trans
    by (auto simp: send_market_order_def Let_def oanda_result0_def)
qed

section \<open>Runs\<close>

text \<open>The numbers of the reported results.\<close>

fun report_ids :: "oanda_effect list \<Rightarrow> int list" where
  "report_ids [] = []"
| "report_ids (Reported r # es) = or_id r # report_ids es"
| "report_ids (_ # es) = report_ids es"

lemma report_ids_append [simp]: "report_ids (xs @ ys) = report_ids xs @ report_ids ys"
  by (induction xs rule: report_ids.induct) auto

lemma report_ids_requests [simp]: "report_ids (replicate m (request_of cfg job s)) = []"
  by (induction m) (simp_all add: request_of_def)

text \<open>The worker takes the first order, reports it under the next number and sleeps.\<close>

lemma take_job_some:
  assumes "oe_jobs s = job # js"
  shows "oe_jobs (take_job cfg s) = js \<and> oe_wake (take_job cfg s) = False \<and> oe_pos (take_job cfg s) = AtHead \<and>
    oe_running (take_job cfg s) = oe_running s \<and> oe_limit (take_job cfg s) = oe_limit s \<and>
    oe_next_id (take_job cfg s) = oe_next_id s + 1 \<and>
    report_ids (oe_out (take_job cfg s)) = report_ids (oe_out s) @ [oe_next_id s + 1]"
proof -
  let ?s = "s\<lparr> oe_wake := False, oe_jobs := js \<rparr>"
  obtain r t where rt: "send_market_order cfg job ?s = (r, t)" by fastforce
  obtain m where m: "attempted cfg job m ?s (r, t)" using send_market_order_spec [of cfg job ?s] rt by auto
  then have "oe_out t = oe_out s @ replicate m (request_of cfg job ?s)" by (simp add: attempted_def)
  moreover have "or_id r = oe_next_id s + 1" "oe_next_id t = oe_next_id s + 1" "same_worker ?s t"
    using send_market_order_spec [of cfg job ?s] rt by auto
  ultimately show ?thesis using assms rt by (simp add: take_job_def same_worker_def)
qed

lemma take_job_none:
  "oe_jobs s = [] \<Longrightarrow> oe_jobs (take_job cfg s) = [] \<and> oe_out (take_job cfg s) = oe_out s \<and>
    oe_running (take_job cfg s) = oe_running s \<and> oe_limit (take_job cfg s) = oe_limit s \<and>
    oe_next_id (take_job cfg s) = oe_next_id s \<and> oe_wake (take_job cfg s) = False \<and>
    oe_pos (take_job cfg s) = (if oe_running s then AtHead else Exited)"
  by (simp add: take_job_def)

definition oe_ok :: "oe \<Rightarrow> bool" where
  "oe_ok s \<longleftrightarrow> length (oe_jobs s) \<le> oe_limit s \<and> 0 \<le> oe_next_id s \<and>
     report_ids (oe_out s) = [1..oe_next_id s] \<and> (oe_pos s = NoThread \<or> oe_pos s = Exited \<longrightarrow> \<not> oe_running s)"

lemma oe_ok_init: "oe_ok (oe_init cs ps)"
  by (simp add: oe_ok_def oe_init_def)

lemma oe_ok_take_job: "oe_ok s \<Longrightarrow> oe_ok (take_job cfg s)"
  using take_job_none [of s] take_job_some [of s]
  by (cases "oe_jobs s") (auto simp: oe_ok_def upto_rec2)

lemma oe_ok_turn [inv_intros]: "oe_ok s \<Longrightarrow> oe_ok (oe_turn cfg s)"
  using oe_ok_take_job [of s cfg]
  by (cases "oe_pos s") (auto simp: oe_turn_def oe_ok_def Let_def)

lemma oe_ok_step [inv_intros]: "oe_ok s \<Longrightarrow> oe_ok (oe_step cfg i s)"
proof (cases i)
  case (OeExecute j)
  assume "oe_ok s"
  then show ?thesis using OeExecute by (auto simp: oe_ok_def oe_execute_def)
qed (simp_all add: oe_ok_turn, auto simp: oe_start_def oe_stop_def oe_ok_def)

interpretation oe_machine: machine "oe_step cfg" oe_ok "\<lambda>_. True" for cfg
  by unfold_locales (rule oe_ok_step)

lemma oe_ok_run: "oe_ok s \<Longrightarrow> oe_ok (oe_run cfg ins s)"
  unfolding oe_run_def by (rule oe_machine.run_inv) simp_all

lemma oe_step_limit: "oe_limit (oe_step cfg i s) = oe_limit s"
proof -
  have "oe_limit (take_job cfg s) = oe_limit s" for s
    using take_job_none [of s] take_job_some [of s] by (cases "oe_jobs s") auto
  then show ?thesis
    by (cases i; cases "oe_pos s") (auto simp: oe_start_def oe_stop_def oe_turn_def Let_def)
qed

interpretation oe_limit: progressing "oe_step cfg" "\<lambda>s t. oe_limit t = oe_limit s" for cfg
  by unfold_locales (simp_all add: oe_step_limit)

lemma oe_run_limit: "oe_limit (oe_run cfg ins s) = oe_limit s"
  unfolding oe_run_def by (rule oe_limit.run_rel)

section \<open>The worker sleeps on a backlog\<close>

lemma turns_asleep: "oe_pos s = Waiting \<Longrightarrow> oe_running s \<Longrightarrow> \<not> oe_wake s \<Longrightarrow> (oe_turn cfg ^^ n) s = s"
  by (induction n) (simp_all add: oe_turn_def)

lemma turns_after_job:
  assumes "oe_pos s = AtHead" "oe_running s" "\<not> oe_wake s"
  shows "oe_jobs ((oe_turn cfg ^^ n) s) = oe_jobs s \<and> oe_out ((oe_turn cfg ^^ n) s) = oe_out s"
proof (cases n)
  case (Suc m)
  let ?t = "s\<lparr> oe_pos := Waiting \<rparr>"
  have "(oe_turn cfg ^^ n) s = (oe_turn cfg ^^ m) ?t"
    using Suc assms by (simp add: funpow_swap1 oe_turn_def)
  also have "\<dots> = ?t" using assms by (intro turns_asleep) simp_all
  finally show ?thesis by simp
qed simp

lemma one_job_per_wake:
  assumes "oe_pos s = Waiting" "oe_running s" "oe_wake s" "oe_jobs s = job # js"
  shows "oe_jobs ((oe_turn cfg ^^ Suc n) s) = js \<and>
    report_ids (oe_out ((oe_turn cfg ^^ Suc n) s)) = report_ids (oe_out s) @ [oe_next_id s + 1]"
proof -
  have "(oe_turn cfg ^^ Suc n) s = (oe_turn cfg ^^ n) (take_job cfg s)"
    using assms by (simp add: funpow_swap1 oe_turn_def)
  then show ?thesis using take_job_some [OF assms(4), of cfg] turns_after_job [of "take_job cfg s" n cfg] assms(2) by simp
qed

lemma execute_all_jobs:
  assumes "\<forall>j\<in>set js. oj_instrument j \<noteq> [] \<and> (oj_side j = ''buy'' \<or> oj_side j = ''sell'')"
    and "length (oe_jobs s) + length js \<le> oe_limit s" "js \<noteq> []"
  shows "oe_jobs (fold oe_execute js s) = oe_jobs s @ js \<and> oe_wake (fold oe_execute js s) \<and>
    oe_pos (fold oe_execute js s) = oe_pos s \<and> oe_running (fold oe_execute js s) = oe_running s \<and>
    oe_out (fold oe_execute js s) = oe_out s \<and> oe_next_id (fold oe_execute js s) = oe_next_id s"
  using assms
proof (induction js arbitrary: s)
  case (Cons j js)
  have e: "oe_jobs (oe_execute j s) = oe_jobs s @ [j]" "oe_wake (oe_execute j s)"
    using Cons.prems by (auto simp: oe_execute_def)
  then show ?case using Cons by (cases "js = []") auto
qed simp

section \<open>Stopping ends the worker\<close>

lemma stopped_worker_exits:
  assumes "\<not> oe_running s" "oe_pos s \<noteq> NoThread"
  shows "oe_pos ((oe_turn cfg ^^ 3) s) = Exited"
proof -
  have x: "oe_pos t = Exited \<Longrightarrow> oe_turn cfg t = t" for t by (simp add: oe_turn_def)
  have h: "oe_pos t = AtHead \<Longrightarrow> \<not> oe_running t \<Longrightarrow> oe_pos (oe_turn cfg t) = Exited" for t by (simp add: oe_turn_def)
  have w: "oe_pos t = Waiting \<Longrightarrow> \<not> oe_running t \<Longrightarrow>
      oe_pos (oe_turn cfg t) = Exited \<or> oe_pos (oe_turn cfg t) = AtHead \<and> \<not> oe_running (oe_turn cfg t)" for t
    using take_job_none [of t] take_job_some [of t] by (cases "oe_jobs t") (auto simp: oe_turn_def)
  have e: "oe_pos t = Entering \<Longrightarrow> \<not> oe_running t \<Longrightarrow> oe_pos (oe_turn cfg t) = AtHead \<and> \<not> oe_running (oe_turn cfg t)" for t
    by (simp add: oe_turn_def Let_def)
  show ?thesis using assms x h w e by (cases "oe_pos s") (simp_all add: numeral_3_eq_3, metis+)
qed

section \<open>JSON strings\<close>

text \<open>A reader of JSON strings, for the escapes that the writer uses.\<close>

fun json_body :: "str \<Rightarrow> (str \<times> str) option" where
  "json_body [] = None"
| "json_body (c # s) =
     (if c = CHR 0x22 then Some ([], s)
      else if c = CHR 0x5C then (case s of
          [] \<Rightarrow> None
        | d # s' \<Rightarrow>
            map_option (\<lambda>(t, r). ((if d = CHR ''n'' then CHR 0x0A else if d = CHR ''r'' then CHR 0x0D else d) # t, r)) (json_body s'))
      else map_option (\<lambda>(t, r). (c # t, r)) (json_body s))"

lemma json_body_escaped: "json_body (concat (map json_escape s) @ CHR 0x22 # r) = Some (s, r)"
  by (induction s) auto

lemma json_str_read: "\<exists>t. json_str s @ r = CHR 0x22 # t \<and> json_body t = Some (s, r)"
  using json_body_escaped [of s r] by (simp add: json_str_def)

end
