(* ===== verification/CTrader.thy ===== *)
theory CTrader
  imports Config Ring
begin

text \<open>
  \<open>include/llm/ctrader_executor.h\<close> and \<open>src/ctrader_executor.cpp\<close>: market orders over the cTrader
  Open API. Protocol buffers are an argument, the record \<open>codec\<close> of serialisers and parsers: a
  message is the list of its fields, read and written by name as the code does by reflection.
  A connection is what arrives on it and the number of bytes its peer still takes. No read of the
  code has a time limit, so that what arrives may end with the connection, end in silence, or not end: an
  operation that reads is \<open>None\<close> when it does not return. The connects to come are a script in the state,
  where an exhausted script fails. What is sent and reported is appended to \<open>ct_out\<close>.
\<close>

unbundle bit_operations_syntax

section \<open>Messages\<close>

datatype pval = PInt int | PStr str | PEnum str | PMsg "(str \<times> pval) list" | PMany "pval list"

type_synonym message = "(str \<times> pval) list"

record codec =
  serialize :: "str \<Rightarrow> message \<Rightarrow> str option"
  parse :: "str \<Rightarrow> str \<Rightarrow> message option"
  wrap :: "int \<Rightarrow> str \<Rightarrow> str option"
  unwrap :: "str \<Rightarrow> (int \<times> str) option"

definition int_field :: "message \<Rightarrow> str \<Rightarrow> int" where
  "int_field m n = (case map_of m n of Some (PInt i) \<Rightarrow> i | _ \<Rightarrow> 0)"

definition str_field :: "message \<Rightarrow> str \<Rightarrow> str" where
  "str_field m n = (case map_of m n of Some (PStr s) \<Rightarrow> s | _ \<Rightarrow> [])"

definition enum_name :: "message \<Rightarrow> str \<Rightarrow> str" where
  "enum_name m n = (case map_of m n of Some (PEnum s) \<Rightarrow> s | _ \<Rightarrow> [])"

fun as_message :: "pval \<Rightarrow> message" where
  "as_message (PMsg m) = m"
| "as_message _ = []"

definition msg_field :: "message \<Rightarrow> str \<Rightarrow> message" where
  "msg_field m n = (case map_of m n of Some v \<Rightarrow> as_message v | None \<Rightarrow> [])"

definition many_field :: "message \<Rightarrow> str \<Rightarrow> message list" where
  "many_field m n = (case map_of m n of Some (PMany vs) \<Rightarrow> map as_message vs | _ \<Rightarrow> [])"

definition APPLICATION_AUTH_REQ :: int where "APPLICATION_AUTH_REQ = 2100"
definition APPLICATION_AUTH_RES :: int where "APPLICATION_AUTH_RES = 2101"
definition ACCOUNT_AUTH_REQ :: int where "ACCOUNT_AUTH_REQ = 2102"
definition ACCOUNT_AUTH_RES :: int where "ACCOUNT_AUTH_RES = 2103"
definition NEW_ORDER_REQ :: int where "NEW_ORDER_REQ = 2106"
definition SYMBOLS_LIST_REQ :: int where "SYMBOLS_LIST_REQ = 2114"
definition SYMBOLS_LIST_RES :: int where "SYMBOLS_LIST_RES = 2115"
definition SYMBOL_BY_ID_REQ :: int where "SYMBOL_BY_ID_REQ = 2116"
definition SYMBOL_BY_ID_RES :: int where "SYMBOL_BY_ID_RES = 2117"
definition SUBSCRIBE_SPOTS_REQ :: int where "SUBSCRIBE_SPOTS_REQ = 2127"
definition SUBSCRIBE_SPOTS_RES :: int where "SUBSCRIBE_SPOTS_RES = 2128"
definition EXECUTION_EVENT :: int where "EXECUTION_EVENT = 2126"
definition ORDER_ERROR_EVENT :: int where "ORDER_ERROR_EVENT = 2132"
definition SPOT_EVENT :: int where "SPOT_EVENT = 2131"
definition ERROR_RES :: int where "ERROR_RES = 2142"
definition CLIENT_DISCONNECT :: int where "CLIENT_DISCONNECT = 2148"
definition kPriceScale :: int where "kPriceScale = 100000"

lemmas payload_types = APPLICATION_AUTH_REQ_def APPLICATION_AUTH_RES_def ACCOUNT_AUTH_REQ_def ACCOUNT_AUTH_RES_def
  NEW_ORDER_REQ_def SYMBOLS_LIST_REQ_def SYMBOLS_LIST_RES_def SYMBOL_BY_ID_REQ_def SYMBOL_BY_ID_RES_def
  SUBSCRIBE_SPOTS_REQ_def SUBSCRIBE_SPOTS_RES_def EXECUTION_EVENT_def ORDER_ERROR_EVENT_def SPOT_EVENT_def
  ERROR_RES_def CLIENT_DISCONNECT_def

section \<open>State\<close>

record ct_result =
  cr_ok :: bool
  cr_status :: str
  cr_order_id :: int64
  cr_position_id :: int64
  cr_latency :: double
  cr_error :: str

definition ct_result0 :: ct_result where
  "ct_result0 = \<lparr> cr_ok = False, cr_status = [], cr_order_id = 0, cr_position_id = 0, cr_latency = 0, cr_error = [] \<rparr>"

record ct_job =
  cj_symbol :: str
  cj_side :: str
  cj_volume :: double
  cj_sl :: double
  cj_tp :: double

record sym_info =
  si_id :: int64
  si_digits :: int
  si_pip :: int
  si_lot :: int64
  si_valid :: bool

definition sym_info0 :: sym_info where
  "sym_info0 = \<lparr> si_id = 0, si_digits = 0, si_pip = 1, si_lot = 1000000, si_valid = False \<rparr>"

text \<open>
  What arrives on a connection: the peer closes it, sends nothing more and leaves it open, or sends
  a byte; it may send for ever.
\<close>

codatatype arrivals = PeerClosed | PeerSilent | Byte char arrivals

record wire_link =
  l_in :: arrivals
  l_room :: size

text \<open>
  An attempt to connect: the resolver, the connect or the handshake throws, the peer never answers, or a connection.
\<close>

datatype dial = Refuses | Hangs | Opens wire_link

datatype ct_effect = Sent int str | Answered ct_result | Dropped ct_job

record ct =
  ct_running :: bool
  ct_stopped :: bool
  ct_connected :: bool
  ct_link :: "wire_link option"
  ct_account :: int64
  ct_sym :: sym_info
  ct_bid :: double
  ct_ask :: double
  ct_jobs :: "ct_job list"
  ct_wake :: bool
  ct_limit :: size
  ct_next_id :: int
  ct_links :: "dial list"
  ct_out :: "ct_effect list"

text \<open>The constructor: the account number must be the whole text.\<close>

definition account_number :: "str \<Rightarrow> int64" where
  "account_number v = (case strtol (takeWhile (\<lambda>c. c \<noteq> CHR 0x00) v) of
     None \<Rightarrow> 0
   | Some (n, r) \<Rightarrow> if r = [] then n else 0)"

definition ct_init :: "config \<Rightarrow> dial list \<Rightarrow> ct" where
  "ct_init cfg ls = \<lparr> ct_running = False, ct_stopped = False, ct_connected = False, ct_link = None,
     ct_account = account_number (ctrader_account_id (ctrader cfg)), ct_sym = sym_info0, ct_bid = 0, ct_ask = 0,
     ct_jobs = [], ct_wake = False, ct_limit = 256, ct_next_id = 0, ct_links = ls, ct_out = [] \<rparr>"

section \<open>Frames\<close>

definition byte_char :: "32 word \<Rightarrow> char" where
  "byte_char w = char_of (unat (w AND 0xFF))"

definition frame_header :: "32 word \<Rightarrow> str" where
  "frame_header n = [byte_char (drop_bit 24 n), byte_char (drop_bit 16 n), byte_char (drop_bit 8 n), byte_char n]"

definition char_byte :: "char \<Rightarrow> 32 word" where
  "char_byte c = of_nat (of_char c)"

definition frame_length :: "str \<Rightarrow> 32 word" where
  "frame_length h = push_bit 24 (char_byte (h ! 0)) OR push_bit 16 (char_byte (h ! 1)) OR
     push_bit 8 (char_byte (h ! 2)) OR char_byte (h ! 3)"

definition ct_send_frame :: "str \<Rightarrow> ct \<Rightarrow> bool \<times> ct" where
  "ct_send_frame payload s = (case ct_link s of
     None \<Rightarrow> (False, s)
   | Some l \<Rightarrow>
       let n = of_nat (length payload) :: 32 word in
       if l_room l < 4 + unat n then (False, s\<lparr> ct_link := Some (l\<lparr> l_room := 0 \<rparr>) \<rparr>)
       else (True, s\<lparr> ct_link := Some (l\<lparr> l_room := l_room l - (4 + unat n) \<rparr>) \<rparr>))"

text \<open>
  \<open>asio::read\<close> of exactly \<open>n\<close> bytes: what was read, or \<open>None\<close> inside when the connection ended
  first, with what arrives after it. It does not return when fewer bytes ever come.
\<close>

primrec take_in :: "nat \<Rightarrow> arrivals \<Rightarrow> (str option \<times> arrivals) option" where
  "take_in 0 a = Some (Some [], a)"
| "take_in (Suc n) a = (case a of
     PeerClosed \<Rightarrow> Some (None, PeerClosed)
   | PeerSilent \<Rightarrow> None
   | Byte c b \<Rightarrow> map_option (\<lambda>(bs, r). (map_option ((#) c) bs, r)) (take_in n b))"

definition read_frame :: "ct \<Rightarrow> (str option \<times> ct) option" where
  "read_frame s = (case ct_link s of
     None \<Rightarrow> Some (None, s)
   | Some l \<Rightarrow>
       let got = (\<lambda>i. s\<lparr> ct_link := Some (l\<lparr> l_in := i \<rparr>) \<rparr>) in
       Option.bind (take_in 4 (l_in l)) (\<lambda>(len, rest). case len of
         None \<Rightarrow> Some (None, got rest)
       | Some h \<Rightarrow>
           let n = frame_length h in
           if n = 0 \<or> push_bit 20 1 < n then Some (None, got rest)
           else map_option (\<lambda>(body, rest). (body, got rest)) (take_in (unat n) rest)))"

text \<open>The bytes of a text, then what arrives after them.\<close>

definition bytes_then :: "str \<Rightarrow> arrivals \<Rightarrow> arrivals" where
  "bytes_then bs a = foldr Byte bs a"

lemma bytes_then_simps [simp]:
  "bytes_then [] a = a" "bytes_then (c # bs) a = Byte c (bytes_then bs a)" "bytes_then (xs @ ys) a = bytes_then xs (bytes_then ys a)"
  by (simp_all add: bytes_then_def)

lemma take_in_bytes: "take_in (length bs) (bytes_then bs a) = Some (Some bs, a)"
  by (induction bs) simp_all

definition frame :: "str \<Rightarrow> str" where
  "frame payload = frame_header (of_nat (length payload)) @ payload"

lemma char_byte_char: "char_byte (byte_char w) = w AND 0xFF"
proof -
  have "unat (w AND 0xFF) < 256"
    by (rule le_less_trans [OF word_and_le1 [THEN word_le_nat_alt [THEN iffD1]]]) simp
  then show ?thesis by (simp add: char_byte_def byte_char_def)
qed

lemma length_frame_header [simp]: "length (frame_header n) = 4"
  by (simp add: frame_header_def)

lemma join_bytes:
  fixes n m :: "32 word"
  assumes "\<And>i. i < 32 \<Longrightarrow> bit m i \<longleftrightarrow> i < 8"
  shows "push_bit 24 (drop_bit 24 n AND m) OR push_bit 16 (drop_bit 16 n AND m) OR
    push_bit 8 (drop_bit 8 n AND m) OR (n AND m) = n"
proof (rule bit_word_eqI)
  fix i assume i: "i < LENGTH(32)"
  then consider "i < 8" | "8 \<le> i" "i < 16" | "16 \<le> i" "i < 24" | "24 \<le> i" "i < 32" by fastforce
  then show "bit (push_bit 24 (drop_bit 24 n AND m) OR push_bit 16 (drop_bit 16 n AND m) OR
      push_bit 8 (drop_bit 8 n AND m) OR (n AND m)) i = bit n i"
    by cases (auto simp: bit_simps assms)
qed

lemma frame_length_header: "frame_length (frame_header n) = n"
proof -
  have "bit (0xFF :: 32 word) i \<longleftrightarrow> i < 8" if "i < 32" for i
  proof -
    have "(0xFF :: 32 word) = mask 8" by (simp add: mask_eq_exp_minus_1)
    then show ?thesis using that by (simp only: bit_mask_iff) simp
  qed
  from join_bytes [of "0xFF", OF this]
  show ?thesis by (simp add: frame_length_def frame_header_def char_byte_char nth_Cons' del: push_bit_and)
qed

lemma read_header: "take_in 4 (bytes_then (frame p) a) = Some (Some (frame_header (of_nat (length p))), bytes_then p a)"
  using take_in_bytes [of "frame_header (of_nat (length p))" "bytes_then p a"] by (simp add: frame_def)

lemma read_frame_frame:
  assumes "ct_link s = Some l" "l_in l = bytes_then (frame p) rest" "p \<noteq> []" "length p \<le> 2 ^ 20"
  shows "read_frame s = Some (Some p, s\<lparr> ct_link := Some (l\<lparr> l_in := rest \<rparr>) \<rparr>)"
proof -
  have u: "unat (of_nat (length p) :: 32 word) = length p"
    using assms(4) by (simp add: unsigned_of_nat take_bit_nat_eq_self)
  have "(of_nat (length p) :: 32 word) \<noteq> 0" using assms(3) u by (metis length_0_conv unsigned_0)
  moreover have "\<not> push_bit 20 1 < (of_nat (length p) :: 32 word)"
    using assms(4) u by (simp add: word_less_nat_alt)
  ultimately show ?thesis
    using assms u by (simp add: read_frame_def read_header frame_length_header take_in_bytes Let_def)
qed

text \<open>The connection is closed after at most \<open>n\<close> more bytes.\<close>

primrec closes_within :: "nat \<Rightarrow> arrivals \<Rightarrow> bool" where
  "closes_within 0 a = (case a of PeerClosed \<Rightarrow> True | _ \<Rightarrow> False)"
| "closes_within (Suc n) a = (case a of PeerClosed \<Rightarrow> True | PeerSilent \<Rightarrow> False | Byte _ b \<Rightarrow> closes_within n b)"

definition closes :: "arrivals \<Rightarrow> bool" where
  "closes a \<longleftrightarrow> (\<exists>n. closes_within n a)"

lemma closes_within_Closed [simp]: "closes_within n PeerClosed"
  by (cases n) simp_all

lemma closes_simps [simp]: "closes PeerClosed" "\<not> closes PeerSilent" "closes (Byte c a) \<longleftrightarrow> closes a"
proof -
  show "closes PeerClosed" by (simp add: closes_def)
  show "\<not> closes PeerSilent"
  proof -
    have "\<not> closes_within n PeerSilent" for n by (cases n) simp_all
    then show ?thesis by (simp add: closes_def)
  qed
  have "\<exists>n. closes_within n (Byte c a)" if "closes_within n a" for n
    using that by (intro exI [of _ "Suc n"]) simp
  moreover have "\<exists>m. closes_within m a" if "closes_within n (Byte c a)" for n
    using that by (cases n) auto
  ultimately show "closes (Byte c a) \<longleftrightarrow> closes a" unfolding closes_def by blast
qed

lemma closes_bytes [simp]: "closes (bytes_then bs a) \<longleftrightarrow> closes a"
  by (induction bs) simp_all

text \<open>A read returns on a connection that closes.\<close>

lemma take_in_closes:
  "closes_within n a \<Longrightarrow> \<exists>x r. take_in k a = Some (x, r) \<and> closes_within (n - k) r \<and> (x \<noteq> None \<longrightarrow> k \<le> n)"
proof (induction k arbitrary: n a)
  case (Suc k)
  show ?case
  proof (cases a)
    case (Byte c b)
    then obtain m where m: "n = Suc m" "closes_within m b" using Suc.prems by (cases n) auto
    from Suc.IH [OF m(2)] show ?thesis using Byte m(1) by auto
  qed (use Suc.prems in \<open>cases n; simp\<close>)+
qed simp

section \<open>Requests\<close>

text \<open>An advisory event updates the spot; an error event ends the exchange.\<close>

definition dispatch_other :: "codec \<Rightarrow> str \<Rightarrow> int \<Rightarrow> ct \<Rightarrow> str option \<times> ct" where
  "dispatch_other pc raw type s =
     (if type = SPOT_EVENT then
        (case parse pc ''ProtoOASpotEvent'' raw of
           None \<Rightarrow> (None, s)
         | Some ev \<Rightarrow> (None, s\<lparr> ct_bid := double_of_int (int_field ev ''bid'') / double_of_int kPriceScale,
                                ct_ask := double_of_int (int_field ev ''ask'') / double_of_int kPriceScale \<rparr>))
      else if type = ORDER_ERROR_EVENT then (Some (''order rejected: '' @ take 64 raw), s)
      else if type = ERROR_RES then (Some (''api error: '' @ take 64 raw), s)
      else if type = CLIENT_DISCONNECT then (Some ''client disconnected by server'', s)
      else (None, s))"

lemma dispatch_other_link [simp]:
  "ct_link (snd (dispatch_other pc raw ty s)) = ct_link s" "ct_connected (snd (dispatch_other pc raw ty s)) = ct_connected s"
  "ct_sym (snd (dispatch_other pc raw ty s)) = ct_sym s" "ct_jobs (snd (dispatch_other pc raw ty s)) = ct_jobs s"
  "ct_out (snd (dispatch_other pc raw ty s)) = ct_out s" "ct_next_id (snd (dispatch_other pc raw ty s)) = ct_next_id s"
  "ct_links (snd (dispatch_other pc raw ty s)) = ct_links s"
  by (simp_all add: dispatch_other_def split: option.split)

text \<open>
  The receive loop of \<open>exchange ()\<close>: the payload, empty on failure, with the error text. It has no
  time limit: it goes on with every event that is not the one it waits for.
\<close>

partial_function (option) await :: "codec \<Rightarrow> int \<Rightarrow> ct \<Rightarrow> ((str \<times> str) \<times> ct) option" where
  "await pc expect s =
     (case read_frame s of
        None \<Rightarrow> None
      | Some (x, s1) \<Rightarrow>
          (case x of
             None \<Rightarrow> Some (([], ''read failed (transport)''), s1)
           | Some f \<Rightarrow>
               (case unwrap pc f of
                  None \<Rightarrow> await pc expect s1
                | Some (got, body) \<Rightarrow>
                    if got = expect then Some ((body, []), s1)
                    else (case fst (dispatch_other pc body got s1) of
                        Some e \<Rightarrow> Some (([], e), snd (dispatch_other pc body got s1))
                      | None \<Rightarrow> await pc expect (snd (dispatch_other pc body got s1))))))"

declare await.simps [code]

definition exchange :: "codec \<Rightarrow> int \<Rightarrow> str \<Rightarrow> int \<Rightarrow> ct \<Rightarrow> ((str \<times> str) \<times> ct) option" where
  "exchange pc ptype body expect s = (case wrap pc ptype body of
     None \<Rightarrow> Some (([], ''serialize ProtoMessage''), s)
   | Some raw \<Rightarrow>
       let (ok, s1) = ct_send_frame raw s in
       if \<not> ok then Some (([], ''send failed (transport)''), s1)
       else await pc expect (s1\<lparr> ct_out := ct_out s1 @ [Sent ptype body] \<rparr>))"

section \<open>Connecting\<close>

definition disconnect :: "ct \<Rightarrow> ct" where
  "disconnect s = s\<lparr> ct_connected := False, ct_link := None, ct_bid := 0, ct_ask := 0 \<rparr>"

text \<open>The outcome of a step: \<open>None\<close> when it does not return, else its value or error text and the object.\<close>

type_synonym 'a outcome = "((str + 'a) \<times> ct) option"

text \<open>One typed request: the payload of the answer or the error text.\<close>

definition request :: "codec \<Rightarrow> str \<Rightarrow> message \<Rightarrow> str \<Rightarrow> int \<Rightarrow> int \<Rightarrow> ct \<Rightarrow> str outcome" where
  "request pc name m unserialized ptype expect s = (case serialize pc name m of
     None \<Rightarrow> Some (Inl unserialized, s)
   | Some body \<Rightarrow> map_option (\<lambda>((resp, err), s1). (if resp = [] then Inl err else Inr resp, s1)) (exchange pc ptype body expect s))"

text \<open>Going on with the answer of a step unless it failed.\<close>

definition and_then :: "'a outcome \<Rightarrow> ('a \<Rightarrow> ct \<Rightarrow> 'b outcome) \<Rightarrow> 'b outcome" where
  "and_then r k = Option.bind r (\<lambda>(x, s). case x of Inl e \<Rightarrow> Some (Inl e, s) | Inr y \<Rightarrow> k y s)"

definition or_else :: "str \<Rightarrow> 'a outcome \<Rightarrow> 'a outcome" where
  "or_else d r = map_option (\<lambda>(x, s). (map_sum (\<lambda>e. if e = [] then d else e) id x, s)) r"

definition parsed :: "codec \<Rightarrow> str \<Rightarrow> str \<Rightarrow> str \<Rightarrow> ct \<Rightarrow> message outcome" where
  "parsed pc name unparsed raw s = Some (case parse pc name raw of None \<Rightarrow> (Inl unparsed, s) | Some m \<Rightarrow> (Inr m, s))"

definition authenticate :: "config \<Rightarrow> codec \<Rightarrow> ct \<Rightarrow> str outcome" where
  "authenticate cfg pc s =
     and_then (or_else ''app auth timed out''
        (request pc ''ProtoOAApplicationAuthReq''
          [(''clientId'', PStr (ctrader_client_id (ctrader cfg))), (''clientSecret'', PStr (ctrader_client_secret (ctrader cfg)))]
          ''serialize app req'' APPLICATION_AUTH_REQ APPLICATION_AUTH_RES s)) (\<lambda>_ s.
     or_else ''account auth timed out''
        (request pc ''ProtoOAAccountAuthReq''
          [(''ctidTraderAccountId'', PInt (ct_account s)), (''accessToken'', PStr (ctrader_access_token (ctrader cfg)))]
          ''serialize acc req'' ACCOUNT_AUTH_REQ ACCOUNT_AUTH_RES s))"

definition norm_symbol :: "str \<Rightarrow> str" where
  "norm_symbol s = map toupper (filter isalnum s)"

definition symbol_id :: "str \<Rightarrow> message list \<Rightarrow> int64" where
  "symbol_id want ls = (case find (\<lambda>l. norm_symbol (str_field l ''symbolName'') = want) ls of
     None \<Rightarrow> 0 | Some l \<Rightarrow> int_field l ''symbolId'')"

definition symbol_details :: "int64 \<Rightarrow> message \<Rightarrow> sym_info" where
  "symbol_details i sp = \<lparr> si_id = i, si_digits = int_field sp ''digits'', si_pip = int_field sp ''pipPosition'',
     si_lot = (if int_field sp ''lotSize'' \<le> 0 then 1000000 else int_field sp ''lotSize''), si_valid = True \<rparr>"

definition resolve_symbol :: "codec \<Rightarrow> str \<Rightarrow> ct \<Rightarrow> sym_info outcome" where
  "resolve_symbol pc name s =
     and_then (request pc ''ProtoOASymbolsListReq'' [(''ctidTraderAccountId'', PInt (ct_account s))]
        ''serialize list req'' SYMBOLS_LIST_REQ SYMBOLS_LIST_RES s) (\<lambda>resp s.
     and_then (parsed pc ''ProtoOASymbolsListRes'' ''parse list res'' resp s) (\<lambda>m s.
     let i = symbol_id (norm_symbol name) (many_field m ''symbol'') in
     if i = 0 then Some (Inl (''symbol not found: '' @ name), s)
     else
       and_then (request pc ''ProtoOASymbolByIdReq'' [(''ctidTraderAccountId'', PInt (ct_account s)), (''symbolId'', PMany [PInt i])]
          ''serialize by-id req'' SYMBOL_BY_ID_REQ SYMBOL_BY_ID_RES s) (\<lambda>resp s.
       and_then (parsed pc ''ProtoOASymbolByIdRes'' ''parse by-id res'' resp s) (\<lambda>m s.
       Some (case many_field m ''symbol'' of [] \<Rightarrow> Inl ''empty symbol-by-id res'' | sp # _ \<Rightarrow> Inr (symbol_details i sp), s)))))"

text \<open>
  Waiting for the first spot of the symbol: the first argument is the number of times the loop
  looks at the clock before the deadline of five seconds; a read in between has no deadline.
\<close>

fun await_spot :: "nat \<Rightarrow> codec \<Rightarrow> ct \<Rightarrow> unit outcome" where
  "await_spot 0 pc s = Some (Inl ''spot snapshot not received'', s)"
| "await_spot (Suc n) pc s = Option.bind (read_frame s) (\<lambda>(x, s1). case x of
     None \<Rightarrow> Some (Inl ''read failed during subscribe'', s1)
   | Some raw \<Rightarrow> (case unwrap pc raw of
       None \<Rightarrow> await_spot n pc s1
     | Some (type, body) \<Rightarrow>
         if type = SPOT_EVENT then (case parse pc ''ProtoOASpotEvent'' body of
             None \<Rightarrow> await_spot n pc s1
           | Some ev \<Rightarrow>
               if int_field ev ''symbolId'' = si_id (ct_sym s1)
               then Some (Inr (), s1\<lparr> ct_bid := double_of_int (int_field ev ''bid'') / double_of_int kPriceScale,
                                 ct_ask := double_of_int (int_field ev ''ask'') / double_of_int kPriceScale \<rparr>)
               else await_spot n pc s1)
         else await_spot n pc s1))"

definition subscribe_spot :: "nat \<Rightarrow> codec \<Rightarrow> ct \<Rightarrow> unit outcome" where
  "subscribe_spot polls pc s =
     and_then (request pc ''ProtoOASubscribeSpotsReq''
        [(''ctidTraderAccountId'', PInt (ct_account s)), (''symbolId'', PMany [PInt (si_id (ct_sym s))])]
        ''serialize subscribe req'' SUBSCRIBE_SPOTS_REQ SUBSCRIBE_SPOTS_RES s)
     (\<lambda>_. await_spot polls pc)"

definition open_link :: "ct \<Rightarrow> (bool \<times> ct) option" where
  "open_link s =
     (let s1 = (if ct_link s \<noteq> None then disconnect s else s);
          s2 = s1\<lparr> ct_links := tl (ct_links s1) \<rparr>
      in case ct_links s1 of
          Opens l # _ \<Rightarrow> Some (True, s2\<lparr> ct_link := Some l, ct_connected := True \<rparr>)
        | Hangs # _ \<Rightarrow> None
        | _ \<Rightarrow> Some (False, disconnect s2))"

definition handshake :: "config \<Rightarrow> codec \<Rightarrow> nat \<Rightarrow> ct \<Rightarrow> unit outcome" where
  "handshake cfg pc polls s =
     and_then (authenticate cfg pc s) (\<lambda>_ s.
     and_then (resolve_symbol pc (if ctrader_symbol (ctrader cfg) = [] then ''XAU/USD'' else ctrader_symbol (ctrader cfg)) s) (\<lambda>info s.
     subscribe_spot polls pc (s\<lparr> ct_sym := info \<rparr>)))"

definition connect :: "config \<Rightarrow> codec \<Rightarrow> nat \<Rightarrow> ct \<Rightarrow> (bool \<times> ct) option" where
  "connect cfg pc polls s = Option.bind (open_link s) (\<lambda>(up, s1).
     if \<not> up then Some (False, s1)
     else map_option (\<lambda>(r, s2). case r of Inl _ \<Rightarrow> (False, disconnect s2) | Inr _ \<Rightarrow> (True, s2)) (handshake cfg pc polls s1))"

definition is_connected :: "ct \<Rightarrow> bool" where
  "is_connected s \<longleftrightarrow> ct_connected s \<and> ct_link s \<noteq> None"

section \<open>Placing an order\<close>

text \<open>\<open>std::pow (10.0, k)\<close>, correctly rounded.\<close>

definition pow10 :: "int \<Rightarrow> double" where
  "pow10 k = lit (10 powi k)"

definition order_message :: "ct \<Rightarrow> sym_info \<Rightarrow> ct_job \<Rightarrow> message" where
  "order_message s info job =
     (let buy = (cj_side job = ''buy'' \<or> cj_side job = ''BUY'');
          volume = llround (cj_volume job * double_of_int (si_lot info));
          pip = pow10 (5 - si_pip info);
          rel_sl = llround (cj_sl job * pip);
          rel_tp = llround (cj_tp job * pip)
      in [(''ctidTraderAccountId'', PInt (ct_account s)), (''symbolId'', PInt (si_id info)),
          (''orderType'', PEnum ''MARKET''), (''tradeSide'', PEnum (if buy then ''BUY'' else ''SELL'')),
          (''volume'', PInt volume)] @
         (if 0 < rel_sl then [(''relativeStopLoss'', PInt rel_sl)] else []) @
         (if 0 < rel_tp then [(''relativeTakeProfit'', PInt rel_tp)] else []) @
         (if 0 < rel_sl \<or> 0 < rel_tp then [(''stopTriggerMethod'', PEnum ''TRADE'')] else []) @
         [(''clientOrderId'', PStr (''LL'' @ show_int (ct_next_id s)))])"

definition short_status :: "str \<Rightarrow> str" where
  "short_status st = (if st = ''ORDER_ACCEPTED'' then ''ACCEPTED''
     else if st = ''ORDER_FILLED'' then ''FILLED''
     else if st = ''ORDER_REJECTED'' then ''REJECTED'' else st)"

definition event_result :: "double \<Rightarrow> message \<Rightarrow> ct_result" where
  "event_result latency ev =
     (let status = short_status (enum_name ev ''executionType'');
          ok = (status = ''ACCEPTED'' \<or> status = ''FILLED'')
      in \<lparr> cr_ok = ok, cr_status = status, cr_order_id = int_field (msg_field ev ''order'') ''orderId'',
           cr_position_id = int_field (msg_field ev ''position'') ''positionId'', cr_latency = latency,
           cr_error = (if ok then [] else ''order rejected: '' @ status) \<rparr>)"

definition failed_result :: "str \<Rightarrow> ct_result" where
  "failed_result e = ct_result0\<lparr> cr_error := e \<rparr>"

definition submit_order :: "codec \<Rightarrow> (int \<Rightarrow> double) \<Rightarrow> sym_info \<Rightarrow> ct_job \<Rightarrow> ct \<Rightarrow> (ct_result \<times> ct) option" where
  "submit_order pc clock info job s =
     (let s1 = s\<lparr> ct_next_id := ct_next_id s + 1 \<rparr> in
      map_option (\<lambda>(x, s2). case x of
          Inl e \<Rightarrow> (failed_result (if e = [] then ''no execution event (timeout)'' else e), s2)
        | Inr resp \<Rightarrow> (case parse pc ''ProtoOAExecutionEvent'' resp of
            None \<Rightarrow> (failed_result ''parse execution event''\<lparr> cr_latency := clock (ct_next_id s2) \<rparr>, s2)
          | Some ev \<Rightarrow> (event_result (clock (ct_next_id s2)) ev, s2)))
        (request pc ''ProtoOANewOrderReq'' (order_message s1 info job) ''serialize order req'' NEW_ORDER_REQ EXECUTION_EVENT s1))"

definition place_order :: "codec \<Rightarrow> (int \<Rightarrow> double) \<Rightarrow> ct_job \<Rightarrow> ct \<Rightarrow> (ct_result \<times> ct) option" where
  "place_order pc clock job s =
     (if \<not> si_valid (ct_sym s) \<or> si_id (ct_sym s) = 0
      then Option.bind (resolve_symbol pc (cj_symbol job) s) (\<lambda>(x, s1). case x of
          Inl e \<Rightarrow> Some (failed_result (''symbol resolve: '' @ e), s1)
        | Inr info \<Rightarrow> submit_order pc clock info job (s1\<lparr> ct_sym := info \<rparr>))
      else submit_order pc clock (ct_sym s) job s)"

section \<open>Calls and the worker\<close>

definition ct_start :: "ct \<Rightarrow> ct" where
  "ct_start s = (if ct_running s then s else s\<lparr> ct_running := True, ct_stopped := False \<rparr>)"

definition ct_stop :: "ct \<Rightarrow> ct" where
  "ct_stop s =
     (let s1 = s\<lparr> ct_stopped := True, ct_wake := True \<rparr>;
          s2 = (if ct_link s1 \<noteq> None then disconnect s1 else s1)
      in s2\<lparr> ct_running := False \<rparr>)"

definition ct_execute :: "ct_job \<Rightarrow> ct \<Rightarrow> ct" where
  "ct_execute j s = s\<lparr> ct_jobs := push_limited (ct_limit s) j (ct_jobs s), ct_wake := True \<rparr>"

text \<open>One order over an open connection, with the second attempt after a reconnect.\<close>

definition try_order :: "config \<Rightarrow> codec \<Rightarrow> nat \<Rightarrow> (int \<Rightarrow> double) \<Rightarrow> ct_job \<Rightarrow> ct \<Rightarrow> (ct_result \<times> ct) option" where
  "try_order cfg pc polls clock job s = Option.bind (place_order pc clock job s) (\<lambda>(r, s1).
     if cr_ok r then Some (r, s1)
     else Option.bind (connect cfg pc polls (disconnect s1)) (\<lambda>(up, s2).
       if up then place_order pc clock job s2 else Some (r, s2)))"

definition work_job :: "config \<Rightarrow> codec \<Rightarrow> nat \<Rightarrow> (int \<Rightarrow> double) \<Rightarrow> ct_job \<Rightarrow> ct \<Rightarrow> ct option" where
  "work_job cfg pc polls clock job s =
     Option.bind (if is_connected s then Some (True, s) else connect cfg pc polls s) (\<lambda>(up, s1).
       if \<not> up then Some (s1\<lparr> ct_out := ct_out s1 @ [Dropped job] \<rparr>)
       else map_option (\<lambda>(r, s2). s2\<lparr> ct_out := ct_out s2 @ [Answered r] \<rparr>) (try_order cfg pc polls clock job s1))"

text \<open>
  A turn of the worker; with \<open>wake_\<close> unset it stays blocked. A turn that does not return is \<open>None\<close>: neither
  does the \<open>join\<close> of \<open>stop ()\<close> then, which closes the connection only after it.
\<close>

definition ct_turn :: "config \<Rightarrow> codec \<Rightarrow> nat \<Rightarrow> (int \<Rightarrow> double) \<Rightarrow> ct \<Rightarrow> ct option" where
  "ct_turn cfg pc polls clock s =
     (if \<not> ct_running s \<or> ct_stopped s \<or> \<not> ct_wake s then Some s
      else case pop_front (ct_jobs s) of
        None \<Rightarrow> Some (s\<lparr> ct_wake := False \<rparr>)
      | Some (job, js) \<Rightarrow> work_job cfg pc polls clock job (s\<lparr> ct_jobs := js, ct_wake := js \<noteq> [] \<rparr>))"

primrec ct_turns :: "config \<Rightarrow> codec \<Rightarrow> nat \<Rightarrow> (int \<Rightarrow> double) \<Rightarrow> nat \<Rightarrow> ct \<Rightarrow> ct option" where
  "ct_turns cfg pc polls clock 0 s = Some s"
| "ct_turns cfg pc polls clock (Suc n) s = Option.bind (ct_turn cfg pc polls clock s) (ct_turns cfg pc polls clock n)"

section \<open>What an exchange keeps\<close>

text \<open>The parts of the object that no request touches.\<close>

definition same_orders :: "ct \<Rightarrow> ct \<Rightarrow> bool" where
  "same_orders s t \<longleftrightarrow> ct_jobs t = ct_jobs s \<and> ct_wake t = ct_wake s \<and> ct_limit t = ct_limit s \<and>
     ct_running t = ct_running s \<and> ct_stopped t = ct_stopped s \<and> ct_account t = ct_account s"

definition orders_sent :: "ct_effect list \<Rightarrow> nat" where
  "orders_sent es = length (filter (\<lambda>e. case e of Sent ty _ \<Rightarrow> ty = NEW_ORDER_REQ | _ \<Rightarrow> False) es)"

text \<open>Every connection, the open one and those to come, is closed by its peer some time.\<close>

definition dial_closes :: "dial \<Rightarrow> bool" where
  "dial_closes d \<longleftrightarrow> (case d of Refuses \<Rightarrow> True | Hangs \<Rightarrow> False | Opens l \<Rightarrow> closes (l_in l))"

definition all_close :: "ct \<Rightarrow> bool" where
  "all_close s \<longleftrightarrow> (\<forall>l. ct_link s = Some l \<longrightarrow> closes (l_in l)) \<and> (\<forall>d\<in>set (ct_links s). dial_closes d)"

text \<open>At most \<open>n\<close> more order messages, and nothing else that matters to the queue.\<close>

definition sends_orders :: "nat \<Rightarrow> ct \<Rightarrow> ct \<Rightarrow> bool" where
  "sends_orders n s t \<longleftrightarrow> same_orders s t \<and> (all_close s \<longrightarrow> all_close t) \<and>
     (\<exists>es. ct_out t = ct_out s @ es \<and> orders_sent es \<le> n \<and> (\<forall>e\<in>set es. \<exists>ty b. e = Sent ty b))"

lemma orders_sent_append [simp]: "orders_sent (xs @ ys) = orders_sent xs + orders_sent ys"
  by (simp add: orders_sent_def)

lemma orders_sent_simps [simp]:
  "orders_sent [] = 0" "orders_sent (Answered r # es) = orders_sent es" "orders_sent (Dropped j # es) = orders_sent es"
  "orders_sent (Sent ty b # es) = (if ty = NEW_ORDER_REQ then Suc (orders_sent es) else orders_sent es)"
  by (simp_all add: orders_sent_def)

lemma all_close_fields [simp]:
  "all_close (s\<lparr> ct_out := es \<rparr>) = all_close s" "all_close (s\<lparr> ct_jobs := js \<rparr>) = all_close s" "all_close (s\<lparr> ct_wake := b \<rparr>) = all_close s"
  by (simp_all add: all_close_def)

lemma sends_same: "same_orders s t \<Longrightarrow> ct_out t = ct_out s \<Longrightarrow> (all_close s \<Longrightarrow> all_close t) \<Longrightarrow> sends_orders 0 s t"
  by (simp add: sends_orders_def)

lemma sends_refl [simp]: "sends_orders n s s"
  by (simp add: sends_orders_def same_orders_def)

lemma sends_trans: "sends_orders m s t \<Longrightarrow> sends_orders n t u \<Longrightarrow> sends_orders (m + n) s u"
proof -
  assume "sends_orders m s t" "sends_orders n t u"
  then obtain es fs where "ct_out t = ct_out s @ es" "orders_sent es \<le> m" "\<forall>e\<in>set es. \<exists>ty b. e = Sent ty b"
    "ct_out u = ct_out t @ fs" "orders_sent fs \<le> n" "\<forall>e\<in>set fs. \<exists>ty b. e = Sent ty b" "same_orders s t" "same_orders t u"
    "all_close s \<longrightarrow> all_close u"
    unfolding sends_orders_def by blast
  then have "ct_out u = ct_out s @ (es @ fs)" "orders_sent (es @ fs) \<le> m + n" "same_orders s u"
    "\<forall>e\<in>set (es @ fs). \<exists>ty b. e = Sent ty b" "all_close s \<longrightarrow> all_close u"
    by (auto simp: same_orders_def)
  then show "sends_orders (m + n) s u" unfolding sends_orders_def by blast
qed

lemma sends_mono: "sends_orders m s t \<Longrightarrow> m \<le> n \<Longrightarrow> sends_orders n s t"
  unfolding sends_orders_def by (meson le_trans)

lemmas quiet_trans = sends_trans [of 0 _ _ 0, simplified]

text \<open>An operation that returns when the connections close, and then has sent at most \<open>n\<close> order messages.\<close>

definition orderly :: "nat \<Rightarrow> ct \<Rightarrow> ('a \<times> ct) option \<Rightarrow> bool" where
  "orderly n s r \<longleftrightarrow> (\<forall>x t. r = Some (x, t) \<longrightarrow> sends_orders n s t) \<and> (all_close s \<longrightarrow> r \<noteq> None)"

lemma orderly_Some [simp]: "orderly n s (Some p) \<longleftrightarrow> sends_orders n s (snd p)"
  by (cases p) (auto simp: orderly_def)

lemma orderly_mono: "orderly m s r \<Longrightarrow> m \<le> n \<Longrightarrow> orderly n s r"
  unfolding orderly_def using sends_mono by blast

lemma orderly_map:
  assumes "orderly n s r" "\<And>x t. sends_orders n s t \<Longrightarrow> sends_orders n s (snd (f (x, t)))"
  shows "orderly n s (map_option f r)"
proof (cases r)
  case None
  then show ?thesis using assms(1) by (simp add: orderly_def)
next
  case (Some p)
  then show ?thesis using assms by (cases p) simp
qed

lemma orderly_bind:
  assumes "orderly m s r" "\<And>x t. orderly n t (k x t)"
  shows "orderly (m + n) s (Option.bind r (\<lambda>(x, t). k x t))"
proof (cases r)
  case None
  then show ?thesis using assms(1) by (simp add: orderly_def)
next
  case (Some p)
  obtain x t where p: "p = (x, t)" by fastforce
  have t: "sends_orders m s t" using assms(1) Some p by simp
  then have "sends_orders (m + n) s u" if "k x t = Some (y, u)" for y u
    using sends_trans assms(2) [of t x] that by (auto simp: orderly_def)
  moreover have "all_close s \<longrightarrow> k x t \<noteq> None"
    using assms(2) [of t x] t unfolding orderly_def sends_orders_def by blast
  ultimately show ?thesis using Some p by (auto simp: orderly_def)
qed

lemma orderly_pre:
  assumes "sends_orders m s t" "orderly n t r"
  shows "orderly (m + n) s r"
  using assms sends_trans [OF assms(1)] unfolding orderly_def sends_orders_def by blast

lemmas quiet_bind = orderly_bind [where m = 0, simplified]
lemmas quiet_pre = orderly_pre [where m = 0, simplified]

lemma link_moves:
  assumes "ct_link s = Some l" "closes (l_in l) \<Longrightarrow> closes i"
  shows "sends_orders 0 s (s\<lparr> ct_link := Some (l\<lparr> l_in := i \<rparr>) \<rparr>)"
  using assms by (intro sends_same) (auto simp: same_orders_def all_close_def)

lemma take_in_rest: "take_in n a = Some (x, r) \<Longrightarrow> closes a \<Longrightarrow> closes r"
proof (induction n arbitrary: a x r)
  case (Suc n)
  then show ?case by (cases a) auto
qed simp

lemma read_frame_quiet: "read_frame s = Some (x, t) \<Longrightarrow> sends_orders 0 s t"
proof (cases "ct_link s")
  case (Some l)
  assume r: "read_frame s = Some (x, t)"
  obtain h rest where h: "take_in 4 (l_in l) = Some (h, rest)"
    using r Some by (cases "take_in 4 (l_in l)") (auto simp: read_frame_def Let_def)
  have 1: "closes (l_in l) \<Longrightarrow> closes rest" using take_in_rest [OF h] .
  then have 2: "closes (l_in l) \<Longrightarrow> closes r" if "take_in n rest = Some (y, r)" for n y r
    using take_in_rest [OF that] by blast
  show ?thesis using r Some h 1 2
    by (auto simp: read_frame_def Let_def split: option.splits if_splits intro!: link_moves)
qed (simp add: read_frame_def)

text \<open>Reading a frame from a connection that closes returns, with less to come.\<close>

lemma read_frame_closes:
  assumes "ct_link s = Some l" "closes_within n (l_in l)"
  shows "\<exists>x i. read_frame s = Some (x, s\<lparr> ct_link := Some (l\<lparr> l_in := i \<rparr>) \<rparr>) \<and>
    (x \<noteq> None \<longrightarrow> 4 \<le> n \<and> closes_within (n - 4) i)"
proof -
  have mono: "closes_within m a" if "closes_within k a" "k \<le> m" for k m a
    using that
  proof (induction m arbitrary: k a)
    case (Suc m)
    then show ?case by (cases k; cases a) auto
  qed simp
  obtain h rest where h: "take_in 4 (l_in l) = Some (h, rest)" "closes_within (n - 4) rest" "h \<noteq> None \<longrightarrow> 4 \<le> n"
    using take_in_closes [OF assms(2), of 4] by blast
  obtain y r where r: "take_in (unat (frame_length (the h))) rest = Some (y, r)"
    "closes_within (n - 4 - unat (frame_length (the h))) r"
    using take_in_closes [OF h(2), of "unat (frame_length (the h))"] by blast
  have "closes_within (n - 4) r" by (rule mono [OF r(2)]) simp
  then show ?thesis using assms(1) h r(1) by (auto simp: read_frame_def Let_def split: option.split)
qed

lemma dispatch_quiet: "sends_orders 0 s (snd (dispatch_other pc raw ty s))"
  by (rule sends_same) (auto simp: dispatch_other_def same_orders_def all_close_def split: option.splits if_splits)

lemma ct_send_frame_quiet: "sends_orders 0 s (snd (ct_send_frame p s))"
  by (rule sends_same) (auto simp: ct_send_frame_def same_orders_def all_close_def Let_def split: option.splits if_splits)

text \<open>When the receive loop ends it has sent nothing, and on a connection that closes it ends.\<close>

lemma await_quiet:
  assumes "await pc ex s = Some r"
  shows "sends_orders 0 s (snd r)"
proof (rule await.raw_induct [OF _ assms, where P = "\<lambda>pc ex s r. sends_orders 0 s (snd r)"])
  fix rec :: "codec \<Rightarrow> int \<Rightarrow> ct \<Rightarrow> ((str \<times> str) \<times> ct) option" and pc ex s r
  assume ih: "\<And>pc ex s r. rec pc ex s = Some r \<Longrightarrow> sends_orders 0 s (snd r)"
  assume b: "(case read_frame s of None \<Rightarrow> None | Some (x, s1) \<Rightarrow>
      (case x of None \<Rightarrow> Some (([], ''read failed (transport)''), s1)
       | Some f \<Rightarrow> (case unwrap pc f of None \<Rightarrow> rec pc ex s1
          | Some (got, body) \<Rightarrow> if got = ex then Some ((body, []), s1)
              else (case fst (dispatch_other pc body got s1) of
                  Some e \<Rightarrow> Some (([], e), snd (dispatch_other pc body got s1))
                | None \<Rightarrow> rec pc ex (snd (dispatch_other pc body got s1)))))) = Some r"
  then obtain x s1 where x: "read_frame s = Some (x, s1)" by (cases "read_frame s") auto
  note q = read_frame_quiet [OF x]
  then have d: "sends_orders 0 s (snd (dispatch_other pc body got s1))" for body got
    using quiet_trans dispatch_quiet by blast
  show "sends_orders 0 s (snd r)"
    using b x q d by (auto split: option.splits if_splits dest!: ih intro: quiet_trans quiet_trans [OF d])
qed

lemma await_returns:
  assumes "ct_link s = Some l" "closes_within n (l_in l)"
  shows "await pc ex s \<noteq> None"
  using assms
proof (induction n arbitrary: s l rule: less_induct)
  case (less n)
  obtain x i where x: "read_frame s = Some (x, s\<lparr> ct_link := Some (l\<lparr> l_in := i \<rparr>) \<rparr>)" "x \<noteq> None \<longrightarrow> 4 \<le> n \<and> closes_within (n - 4) i"
    using read_frame_closes [OF less.prems] by blast
  show ?case
  proof (cases x)
    case None
    then show ?thesis using x(1) by (subst await.simps) simp
  next
    case (Some f)
    then have "await pc ex t \<noteq> None" if "ct_link t = Some (l\<lparr> l_in := i \<rparr>)" for t
      using less.IH [of "n - 4" t] x(2) that by simp
    then show ?thesis using x(1) Some by (subst await.simps) (auto split: option.split)
  qed
qed

definition order_cost :: "int \<Rightarrow> nat" where
  "order_cost ty = (if ty = NEW_ORDER_REQ then 1 else 0)"

lemma await_orderly: "orderly 0 s (await pc ex s)"
proof (cases "ct_link s")
  case None
  then have "read_frame s = Some (None, s)" by (simp add: read_frame_def)
  then show ?thesis by (subst await.simps) simp
next
  case (Some l)
  then show ?thesis
    using await_quiet [of pc ex s] await_returns [OF Some, of _ pc ex] by (fastforce simp: orderly_def all_close_def closes_def)
qed

lemma exchange_orderly: "orderly (order_cost ty) s (exchange pc ty body ex s)"
proof (cases "wrap pc ty body")
  case (Some raw)
  obtain ok s1 where f: "ct_send_frame raw s = (ok, s1)" by fastforce
  then have q: "sends_orders 0 s s1" using ct_send_frame_quiet [of s raw] by simp
  let ?t = "s1\<lparr> ct_out := ct_out s1 @ [Sent ty body] \<rparr>"
  have "sends_orders (order_cost ty) s1 ?t"
    by (simp add: sends_orders_def same_orders_def order_cost_def all_close_def)
  then have "orderly (order_cost ty) s (await pc ex ?t)"
    using orderly_pre [OF sends_trans [OF q] await_orderly] by simp
  then show ?thesis using Some f sends_mono [OF q] by (cases ok) (simp_all add: exchange_def)
qed (simp add: exchange_def)

lemma request_orderly: "orderly (order_cost ty) s (request pc nm m e ty ex s)"
proof (cases "serialize pc nm m")
  case (Some body)
  then show ?thesis
    unfolding request_def by (auto simp: split_beta intro!: orderly_map exchange_orderly)
qed (simp add: request_def)

lemma request_quiet: "ty \<noteq> NEW_ORDER_REQ \<Longrightarrow> orderly 0 s (request pc nm m e ty ex s)"
  using request_orderly [of ty s pc nm m e ex] by (simp add: order_cost_def)

lemma disconnect_quiet [simp]: "sends_orders n s t \<Longrightarrow> sends_orders n s (disconnect t)"
  by (erule sends_trans [of n s t 0, simplified], rule sends_same)
    (simp_all add: same_orders_def disconnect_def all_close_def)

lemma and_then_quiet:
  assumes "orderly 0 s r" "\<And>x t. orderly 0 t (k x t)"
  shows "orderly 0 s (and_then r k)"
proof -
  have "orderly 0 t (case x of Inl e \<Rightarrow> Some (Inl e, t) | Inr y \<Rightarrow> k y t)" for x t
    using assms(2) by (simp split: sum.split)
  then show ?thesis unfolding and_then_def by (rule quiet_bind [OF assms(1)])
qed

lemma or_else_quiet: "orderly 0 s r \<Longrightarrow> orderly 0 s (or_else d r)"
  unfolding or_else_def by (rule orderly_map) simp_all

lemma parsed_quiet: "orderly 0 s (parsed pc nm e raw s)"
  by (simp add: parsed_def split: option.split)

lemma authenticate_quiet: "orderly 0 s (authenticate cfg pc s)"
  unfolding authenticate_def by (intro and_then_quiet or_else_quiet request_quiet) (simp_all add: payload_types)

lemma resolve_symbol_quiet: "orderly 0 s (resolve_symbol pc nm s)"
proof -
  have i: "orderly 0 t (if c then Some (Inl e, t) else x)" if "orderly 0 t x" for t c e x
    using that by simp
  show ?thesis
    unfolding resolve_symbol_def Let_def
    by (intro and_then_quiet i request_quiet parsed_quiet) (simp_all add: payload_types)
qed

lemma read_frame_orderly: "orderly 0 s (read_frame s)"
proof (cases "ct_link s")
  case (Some l)
  have "read_frame s \<noteq> None" if "all_close s"
    using that Some read_frame_closes [OF Some] by (fastforce simp: all_close_def closes_def)
  then show ?thesis using read_frame_quiet by (auto simp: orderly_def)
qed (simp add: read_frame_def)

lemma sends_spot: "sends_orders 0 s (s\<lparr> ct_bid := b, ct_ask := a \<rparr>)"
  by (simp add: sends_orders_def same_orders_def all_close_def)

lemma await_spot_quiet: "orderly 0 s (await_spot n pc s)"
proof (induction n arbitrary: s)
  case (Suc n)
  show ?case
    unfolding await_spot.simps
    by (rule quiet_bind [OF read_frame_orderly]) (auto simp: sends_spot Suc split: option.split)
qed simp

lemma handshake_quiet: "orderly 0 s (handshake cfg pc polls s)"
proof -
  have "sends_orders 0 t (t\<lparr> ct_sym := i \<rparr>)" for t i by (simp add: sends_orders_def same_orders_def all_close_def)
  moreover have "orderly 0 v (subscribe_spot polls pc v)" for v
    unfolding subscribe_spot_def
    by (intro and_then_quiet request_quiet await_spot_quiet) (simp_all add: payload_types)
  ultimately have u: "orderly 0 t (subscribe_spot polls pc (t\<lparr> ct_sym := i \<rparr>))" for t i
    by (blast intro: quiet_pre)
  show ?thesis
    unfolding handshake_def
    by (intro and_then_quiet authenticate_quiet resolve_symbol_quiet u)
qed

lemma open_link_quiet: "orderly 0 s (open_link s)"
proof -
  let ?s = "if ct_link s \<noteq> None then disconnect s else s"
  have "sends_orders 0 s ?s" by simp
  moreover have "orderly 0 t (case ct_links t of Opens l # _ \<Rightarrow> Some (True, t\<lparr> ct_links := tl (ct_links t), ct_link := Some l, ct_connected := True \<rparr>)
        | Hangs # _ \<Rightarrow> None | _ \<Rightarrow> Some (False, disconnect (t\<lparr> ct_links := tl (ct_links t) \<rparr>)))" for t
  proof -
    have "sends_orders 0 t (t\<lparr> ct_links := tl (ct_links t) \<rparr>)"
      by (rule sends_same) (cases "ct_links t"; simp add: same_orders_def all_close_def)+
    then have d: "sends_orders 0 t (disconnect (t\<lparr> ct_links := tl (ct_links t) \<rparr>))" by simp
    show ?thesis
    proof (cases "ct_links t")
      case (Cons x xs)
      have "sends_orders 0 t (t\<lparr> ct_links := xs, ct_link := Some l, ct_connected := True \<rparr>)" if "x = Opens l" for l
        by (rule sends_same) (simp_all add: same_orders_def all_close_def dial_closes_def Cons that)
      moreover have "\<not> all_close t" if "x = Hangs" using Cons that by (simp add: all_close_def dial_closes_def)
      ultimately show ?thesis using d Cons by (cases x) (simp_all add: orderly_def)
    qed (use d in simp)
  qed
  ultimately show ?thesis using quiet_pre unfolding open_link_def Let_def by blast
qed

lemma connect_quiet: "orderly 0 s (connect cfg pc polls s)"
proof -
  have "orderly 0 t (map_option (\<lambda>(r, s2). case r of Inl _ \<Rightarrow> (False, disconnect s2) | Inr _ \<Rightarrow> (True, s2)) (handshake cfg pc polls t))" for t
    by (rule orderly_map [OF handshake_quiet]) (simp split: sum.split)
  then show ?thesis unfolding connect_def by (intro quiet_bind [OF open_link_quiet]) simp
qed

section \<open>Every queued order is settled, with at most two order messages\<close>

lemma submit_order_sends: "orderly 1 s (submit_order pc clock info job s)"
proof -
  let ?s = "s\<lparr> ct_next_id := ct_next_id s + 1 \<rparr>"
  have "orderly 1 ?s (request pc nm m e NEW_ORDER_REQ ex ?s)" for nm m e ex
    using request_orderly [of NEW_ORDER_REQ ?s] by (simp add: order_cost_def)
  moreover have "sends_orders 0 s ?s" by (simp add: sends_orders_def same_orders_def all_close_def)
  ultimately have "orderly 1 s (request pc nm m e NEW_ORDER_REQ ex ?s)" for nm m e ex
    by (blast intro: quiet_pre)
  then show ?thesis
    unfolding submit_order_def Let_def by (rule orderly_map) (simp split: sum.split option.split)
qed

lemma place_order_sends: "orderly 1 s (place_order pc clock job s)"
proof -
  have "sends_orders 0 t (t\<lparr> ct_sym := i \<rparr>)" for t i by (simp add: sends_orders_def same_orders_def all_close_def)
  then have u: "orderly 1 t (submit_order pc clock i job (t\<lparr> ct_sym := j \<rparr>))" for t i j
    by (blast intro: quiet_pre submit_order_sends)
  have "orderly 1 t (case x of Inl e \<Rightarrow> Some (failed_result (''symbol resolve: '' @ e), t)
      | Inr info \<Rightarrow> submit_order pc clock info job (t\<lparr> ct_sym := info \<rparr>))" for x t
    using u by (simp split: sum.split)
  from quiet_bind [OF resolve_symbol_quiet this] submit_order_sends
  show ?thesis by (simp add: place_order_def)
qed

lemma try_order_sends: "orderly 2 s (try_order cfg pc polls clock job s)"
proof -
  have "orderly 0 t (connect cfg pc polls (disconnect t))" for t
    using quiet_pre [OF disconnect_quiet [OF sends_refl] connect_quiet] .
  moreover have "orderly 1 t (if up then place_order pc clock job t else Some (r, t))" for up r t
    using place_order_sends by simp
  ultimately have "orderly 1 t (Option.bind (connect cfg pc polls (disconnect t)) (\<lambda>(up, s2). if up then place_order pc clock job s2 else Some (r, s2)))" for r t
    by (rule quiet_bind)
  then have "orderly (1 + 1) s (try_order cfg pc polls clock job s)"
    unfolding try_order_def by (intro orderly_bind place_order_sends) simp
  then show ?thesis by (simp add: numeral_2_eq_2)
qed

fun settled :: "ct_effect list \<Rightarrow> nat" where
  "settled [] = 0"
| "settled (Sent _ _ # es) = settled es"
| "settled (_ # es) = Suc (settled es)"

lemma settled_append [simp]: "settled (xs @ ys) = settled xs + settled ys"
  by (induction xs rule: settled.induct) auto

lemma settled_sent: "\<forall>e\<in>set es. \<exists>ty b. e = Sent ty b \<Longrightarrow> settled es = 0"
  by (induction es rule: settled.induct) auto

text \<open>One order settled once, for at most two order messages; the queue is untouched.\<close>

definition one_order :: "ct_effect list \<Rightarrow> bool" where
  "one_order es \<longleftrightarrow> settled es = 1 \<and> orders_sent es \<le> 2"

definition settles :: "ct \<Rightarrow> ct \<Rightarrow> bool" where
  "settles s t \<longleftrightarrow> same_orders s t \<and> (all_close s \<longrightarrow> all_close t) \<and> (\<exists>es. ct_out t = ct_out s @ es \<and> one_order es)"

lemma settles_after:
  assumes "sends_orders n s t" "n \<le> 2" "settled [e] = 1" "orders_sent [e] = 0"
  shows "settles s (t\<lparr> ct_out := ct_out t @ [e] \<rparr>)"
proof -
  obtain es where es: "ct_out t = ct_out s @ es" "orders_sent es \<le> n" "\<forall>e\<in>set es. \<exists>ty b. e = Sent ty b"
    using assms(1) unfolding sends_orders_def by blast
  then have "one_order (es @ [e])" using assms(2-4) settled_sent [OF es(3)] by (simp add: one_order_def)
  moreover have "same_orders s (t\<lparr> ct_out := ct_out t @ [e] \<rparr>)" "all_close s \<longrightarrow> all_close (t\<lparr> ct_out := ct_out t @ [e] \<rparr>)"
    using assms(1) by (simp_all add: sends_orders_def same_orders_def)
  ultimately show ?thesis using es(1) by (simp add: settles_def)
qed

lemma work_job_settles:
  "work_job cfg pc polls clock job s = Some t \<Longrightarrow> settles s t"
  "all_close s \<Longrightarrow> work_job cfg pc polls clock job s \<noteq> None"
proof -
  let ?c = "if is_connected s then Some (True, s) else connect cfg pc polls s"
  have c: "orderly 0 s ?c" using connect_quiet by simp
  have o: "orderly 2 u (try_order cfg pc polls clock job u)" for u by (rule try_order_sends)
  show "settles s t" if w: "work_job cfg pc polls clock job s = Some t"
  proof -
    obtain up s1 where 1: "?c = Some (up, s1)" using w by (cases ?c) (auto simp: work_job_def)
    then have s1: "sends_orders 0 s s1" using c by (simp add: orderly_def)
    show ?thesis
    proof (cases up)
      case True
      then obtain r s2 where 2: "try_order cfg pc polls clock job s1 = Some (r, s2)" and t: "t = s2\<lparr> ct_out := ct_out s2 @ [Answered r] \<rparr>"
        using w 1 by (auto simp: work_job_def)
      have "sends_orders 2 s s2" using sends_trans [OF s1] o [of s1] 2 by (fastforce simp: orderly_def)
      then show ?thesis unfolding t by (rule settles_after) simp_all
    next
      case False
      then have t: "t = s1\<lparr> ct_out := ct_out s1 @ [Dropped job] \<rparr>" using w 1 by (simp add: work_job_def)
      show ?thesis unfolding t by (rule settles_after [OF s1]) simp_all
    qed
  qed
  show "work_job cfg pc polls clock job s \<noteq> None" if a: "all_close s"
  proof -
    obtain up s1 where 1: "?c = Some (up, s1)" using c a unfolding orderly_def by (cases ?c) auto
    then have "all_close s1" using c a by (simp add: orderly_def sends_orders_def)
    then have "try_order cfg pc polls clock job s1 \<noteq> None" using o [of s1] by (simp add: orderly_def)
    then show ?thesis using 1 by (auto simp: work_job_def)
  qed
qed

definition awake :: "ct \<Rightarrow> bool" where
  "awake s \<longleftrightarrow> ct_running s \<and> \<not> ct_stopped s \<and> (ct_jobs s \<noteq> [] \<longrightarrow> ct_wake s)"

lemma turn_settles:
  assumes "awake s" "ct_turn cfg pc polls clock s = Some t"
  shows "awake t \<and> ct_jobs t = tl (ct_jobs s) \<and> (all_close s \<longrightarrow> all_close t) \<and>
    (if ct_jobs s = [] then ct_out t = ct_out s else \<exists>es. ct_out t = ct_out s @ es \<and> one_order es)"
proof (cases "ct_jobs s")
  case Nil
  then have "t = s \<or> t = s\<lparr> ct_wake := False \<rparr>" using assms by (auto simp: ct_turn_def split: if_splits)
  then show ?thesis using assms(1) Nil by (auto simp: awake_def)
next
  case (Cons j js)
  let ?s = "s\<lparr> ct_jobs := js, ct_wake := js \<noteq> [] \<rparr>"
  have "work_job cfg pc polls clock j ?s = Some t" using assms Cons by (simp add: awake_def ct_turn_def)
  then have t: "settles ?s t" by (rule work_job_settles)
  show ?thesis using t assms(1) Cons by (simp add: awake_def settles_def same_orders_def)
qed

lemma turn_returns:
  assumes "all_close s"
  shows "ct_turn cfg pc polls clock s \<noteq> None"
proof -
  have "all_close (s\<lparr> ct_jobs := js, ct_wake := w \<rparr>)" for js w using assms by simp
  then show ?thesis using work_job_settles(2) by (auto simp: ct_turn_def split: option.split)
qed

text \<open>After \<open>n\<close> turns that returned the first \<open>n\<close> orders are settled, each in effects of its own.\<close>

lemma turns_settle:
  assumes "awake s" "ct_turns cfg pc polls clock n s = Some t"
  shows "\<exists>ess. ct_jobs t = drop n (ct_jobs s) \<and> ct_out t = ct_out s @ concat ess \<and>
    length ess = min n (length (ct_jobs s)) \<and> (\<forall>es\<in>set ess. one_order es)"
  using assms
proof (induction n arbitrary: s)
  case (Suc n)
  obtain u where u: "ct_turn cfg pc polls clock s = Some u" "ct_turns cfg pc polls clock n u = Some t"
    using Suc.prems(2) by (cases "ct_turn cfg pc polls clock s") simp_all
  note 1 = turn_settles [OF Suc.prems(1) u(1)]
  obtain ess where ess: "ct_jobs t = drop n (ct_jobs u)" "ct_out t = ct_out u @ concat ess"
    "length ess = min n (length (ct_jobs u))" "\<forall>es\<in>set ess. one_order es"
    using Suc.IH [OF _ u(2)] 1 by blast
  show ?case
  proof (cases "ct_jobs s")
    case Nil
    then show ?thesis using 1 ess by (intro exI [of _ ess]) simp
  next
    case (Cons j js)
    then obtain es where "ct_out u = ct_out s @ es" "one_order es" using 1 by auto
    then show ?thesis using 1 ess Cons by (intro exI [of _ "es # ess"]) simp
  qed
qed simp

lemma turns_return:
  assumes "awake s" "all_close s"
  shows "ct_turns cfg pc polls clock n s \<noteq> None"
  using assms
proof (induction n arbitrary: s)
  case (Suc n)
  obtain t where t: "ct_turn cfg pc polls clock s = Some t" using turn_returns [OF Suc.prems(2)] by blast
  then show ?case using Suc.IH [of t] turn_settles [OF Suc.prems(1) t] Suc.prems(2) by simp
qed simp

lemma awake_calls [inv_intros]:
  "awake s \<Longrightarrow> awake (ct_execute j s)" "\<not> ct_running s \<Longrightarrow> ct_jobs s \<noteq> [] \<longrightarrow> ct_wake s \<Longrightarrow> awake (ct_start s)"
  by (auto simp: awake_def ct_execute_def ct_start_def)

section \<open>The next execution event answers\<close>

lemma await_hit:
  assumes "ct_link s = Some l" "l_in l = bytes_then (frame f) rest" "f \<noteq> []" "length f \<le> 2 ^ 20" "unwrap pc f = Some (expect, body)"
  shows "await pc expect s = Some ((body, []), s\<lparr> ct_link := Some (l\<lparr> l_in := rest \<rparr>) \<rparr>)"
  using read_frame_frame [OF assms(1-4)] assms(5) by (subst await.simps) simp

text \<open>The bytes of the message of the next order, before the four of its length.\<close>

definition order_bytes :: "codec \<Rightarrow> ct_job \<Rightarrow> ct \<Rightarrow> str option" where
  "order_bytes pc job s =
     Option.bind (serialize pc ''ProtoOANewOrderReq'' (order_message (s\<lparr> ct_next_id := ct_next_id s + 1 \<rparr>) (ct_sym s) job))
       (wrap pc NEW_ORDER_REQ)"

lemma order_bytes_cong:
  "ct_account t = ct_account s \<Longrightarrow> ct_sym t = ct_sym s \<Longrightarrow> ct_next_id t = ct_next_id s \<Longrightarrow> order_bytes pc job t = order_bytes pc job s"
  by (simp add: order_bytes_def order_message_def)

text \<open>An order that is written as a whole, up to the wait for its answer.\<close>

lemma place_order_sent:
  assumes "order_bytes pc job s = Some raw" "length raw < 2 ^ 32" "ct_link s = Some l" "4 + length raw \<le> l_room l"
    and "si_valid (ct_sym s)" "si_id (ct_sym s) \<noteq> 0"
  shows "\<exists>b. place_order pc clock job s = map_option (\<lambda>((resp, err), s2).
      if resp = [] then (failed_result (if err = [] then ''no execution event (timeout)'' else err), s2)
      else (case parse pc ''ProtoOAExecutionEvent'' resp of
          None \<Rightarrow> (failed_result ''parse execution event''\<lparr> cr_latency := clock (ct_next_id s2) \<rparr>, s2)
        | Some ev \<Rightarrow> (event_result (clock (ct_next_id s2)) ev, s2)))
    (await pc EXECUTION_EVENT (s\<lparr> ct_next_id := ct_next_id s + 1, ct_link := Some (l\<lparr> l_room := l_room l - (4 + length raw) \<rparr>),
       ct_out := ct_out s @ [Sent NEW_ORDER_REQ b] \<rparr>))"
proof -
  let ?s = "s\<lparr> ct_next_id := ct_next_id s + 1 \<rparr>"
  obtain b where b: "serialize pc ''ProtoOANewOrderReq'' (order_message ?s (ct_sym s) job) = Some b"
    "wrap pc NEW_ORDER_REQ b = Some raw" using assms(1) by (auto simp: order_bytes_def split: Option.bind_splits)
  have u: "unat (of_nat (length raw) :: 32 word) = length raw"
    using assms(2) by (simp add: unsigned_of_nat take_bit_nat_eq_self)
  have send: "ct_send_frame raw ?s = (True, ?s\<lparr> ct_link := Some (l\<lparr> l_room := l_room l - (4 + length raw) \<rparr>) \<rparr>)"
    using assms(3,4) u by (simp add: ct_send_frame_def Let_def)
  let ?t = "s\<lparr> ct_next_id := ct_next_id s + 1, ct_link := Some (l\<lparr> l_room := l_room l - (4 + length raw) \<rparr>),
       ct_out := ct_out s @ [Sent NEW_ORDER_REQ b] \<rparr>"
  have e: "exchange pc NEW_ORDER_REQ b EXECUTION_EVENT ?s = await pc EXECUTION_EVENT ?t"
    using b(2) send by (simp add: exchange_def)
  show ?thesis
  proof (cases "await pc EXECUTION_EVENT ?t")
    case None
    then show ?thesis using assms(5,6) b(1) e
      by (intro exI [of _ b]) (simp add: place_order_def submit_order_def request_def)
  next
    case (Some p)
    then show ?thesis using assms(5,6) b(1) e
      by (intro exI [of _ b], cases p) (simp add: place_order_def submit_order_def request_def split_beta)
  qed
qed

text \<open>A frame that carries the execution event \<open>ev\<close>.\<close>

definition event_frame :: "codec \<Rightarrow> str \<Rightarrow> message \<Rightarrow> bool" where
  "event_frame pc f ev \<longleftrightarrow> f \<noteq> [] \<and> length f \<le> 2 ^ 20 \<and>
     (\<exists>body. body \<noteq> [] \<and> unwrap pc f = Some (EXECUTION_EVENT, body) \<and> parse pc ''ProtoOAExecutionEvent'' body = Some ev)"

lemma place_order_answer:
  assumes "order_bytes pc job s = Some raw" "length raw < 2 ^ 32" "ct_link s = Some l" "4 + length raw \<le> l_room l"
    and "si_valid (ct_sym s)" "si_id (ct_sym s) \<noteq> 0" "l_in l = bytes_then (frame f) rest" "event_frame pc f ev"
  shows "\<exists>b. place_order pc clock job s = Some (event_result (clock (ct_next_id s + 1)) ev,
    s\<lparr> ct_next_id := ct_next_id s + 1, ct_link := Some (l\<lparr> l_room := l_room l - (4 + length raw), l_in := rest \<rparr>),
       ct_out := ct_out s @ [Sent NEW_ORDER_REQ b] \<rparr>)"
proof -
  obtain body where body: "body \<noteq> []" "unwrap pc f = Some (EXECUTION_EVENT, body)" "parse pc ''ProtoOAExecutionEvent'' body = Some ev"
    and f: "f \<noteq> []" "length f \<le> 2 ^ 20" using assms(8) unfolding event_frame_def by blast
  obtain b where b: "place_order pc clock job s = map_option (\<lambda>((resp, err), s2).
      if resp = [] then (failed_result (if err = [] then ''no execution event (timeout)'' else err), s2)
      else (case parse pc ''ProtoOAExecutionEvent'' resp of
          None \<Rightarrow> (failed_result ''parse execution event''\<lparr> cr_latency := clock (ct_next_id s2) \<rparr>, s2)
        | Some ev \<Rightarrow> (event_result (clock (ct_next_id s2)) ev, s2)))
    (await pc EXECUTION_EVENT (s\<lparr> ct_next_id := ct_next_id s + 1, ct_link := Some (l\<lparr> l_room := l_room l - (4 + length raw) \<rparr>),
       ct_out := ct_out s @ [Sent NEW_ORDER_REQ b] \<rparr>))" using place_order_sent [OF assms(1-6)] by blast
  let ?t = "s\<lparr> ct_next_id := ct_next_id s + 1, ct_link := Some (l\<lparr> l_room := l_room l - (4 + length raw) \<rparr>),
       ct_out := ct_out s @ [Sent NEW_ORDER_REQ b] \<rparr>"
  have "await pc EXECUTION_EVENT ?t = Some ((body, []), ?t\<lparr> ct_link := Some (l\<lparr> l_room := l_room l - (4 + length raw), l_in := rest \<rparr>) \<rparr>)"
    using await_hit [of ?t "l\<lparr> l_room := l_room l - (4 + length raw) \<rparr>" f rest pc EXECUTION_EVENT body] assms(7) f body(2) by simp
  then show ?thesis using b body(1,3) by (intro exI [of _ b]) simp
qed

text \<open>The symbol of an order is not looked at once a symbol was resolved.\<close>

lemma place_order_symbol:
  "si_valid (ct_sym s) \<Longrightarrow> si_id (ct_sym s) \<noteq> 0 \<Longrightarrow>
    place_order pc clock (job\<lparr> cj_symbol := x \<rparr>) s = place_order pc clock job s"
  by (simp add: place_order_def submit_order_def order_message_def)

text \<open>An answer with an empty payload counts as none.\<close>

lemma empty_answer_fails:
  assumes "ct_link s = Some l" "l_in l = bytes_then (frame f) rest" "f \<noteq> []" "length f \<le> 2 ^ 20"
    and "unwrap pc f = Some (ex, [])" "serialize pc nm m = Some b" "wrap pc ty b = Some raw" "4 + length raw \<le> l_room l" "length raw < 2 ^ 32"
  shows "\<exists>t. request pc nm m e ty ex s = Some (Inl [], t)"
proof -
  let ?l = "l\<lparr> l_room := l_room l - (4 + length raw) \<rparr>"
  let ?t = "s\<lparr> ct_link := Some ?l, ct_out := ct_out s @ [Sent ty b] \<rparr>"
  have "ct_send_frame raw s = (True, s\<lparr> ct_link := Some ?l \<rparr>)"
    using assms(1,8,9) by (simp add: ct_send_frame_def Let_def unsigned_of_nat take_bit_nat_eq_self)
  moreover have "await pc ex ?t = Some (([], []), ?t\<lparr> ct_link := Some (?l\<lparr> l_in := rest \<rparr>) \<rparr>)"
    using await_hit [of ?t ?l f rest pc ex "[]"] assms by simp
  ultimately show ?thesis using assms by (simp add: request_def exchange_def)
qed

section \<open>Waits without end\<close>

text \<open>An order on a connection that is open and silent: the turn never returns, nor does a stop.\<close>

lemma await_silent:
  assumes "ct_link s = Some l" "l_in l = PeerSilent"
  shows "await pc ex s = None"
proof -
  have "take_in 4 PeerSilent = None" by (simp add: numeral_eq_Suc)
  then show ?thesis using assms by (subst await.simps) (simp add: read_frame_def Let_def)
qed

text \<open>The same when the peer sends the same event, such as a spot, again and again.\<close>

primcorec spots :: "str \<Rightarrow> str \<Rightarrow> arrivals" where
  "spots f bs = (case bs of c # cs \<Rightarrow> Byte c (spots f cs) | [] \<Rightarrow> Byte (hd f) (spots f (tl f)))"

lemma spots_cycle:
  assumes "f \<noteq> []"
  shows "spots f bs = bytes_then bs (spots f f)"
proof (induction bs)
  case (Cons c bs)
  have "spots f (c # bs) = Byte c (spots f bs)" by (subst spots.code) simp
  then show ?case using Cons by simp
next
  case Nil
  obtain c cs where f: "f = c # cs" using assms by (cases f) auto
  have "spots f [] = spots f f" by (subst (1 2) spots.code) (simp add: f)
  then show ?case by simp
qed

lemma await_spots:
  assumes "ct_link s = Some l" "l_in l = bytes_then (frame f) (l_in l)" "f \<noteq> []" "length f \<le> 2 ^ 20"
    and "unwrap pc f = Some (SPOT_EVENT, body)" "ex \<noteq> SPOT_EVENT"
  shows "await pc ex s = None"
proof (rule ccontr)
  let ?P = "\<lambda>pc' ex' (t :: ct) (r :: (str \<times> str) \<times> ct). pc' = pc \<and> ex' = ex \<and> ct_link t = Some l \<longrightarrow> False"
  assume "await pc ex s \<noteq> None"
  then obtain r where "await pc ex s = Some r" by blast
  have "?P pc ex s r"
  proof (rule await.raw_induct [OF _ \<open>await pc ex s = Some r\<close>, where P = ?P], intro impI)
    fix rec :: "codec \<Rightarrow> int \<Rightarrow> ct \<Rightarrow> ((str \<times> str) \<times> ct) option" and pc' ex' and t :: ct and r
    assume ih: "\<And>pc' ex' t r. rec pc' ex' t = Some r \<Longrightarrow> ?P pc' ex' t r" and c: "pc' = pc \<and> ex' = ex \<and> ct_link t = Some l"
    assume b: "(case read_frame t of None \<Rightarrow> None | Some (x, s1) \<Rightarrow>
      (case x of None \<Rightarrow> Some (([], ''read failed (transport)''), s1)
       | Some f \<Rightarrow> (case unwrap pc' f of None \<Rightarrow> rec pc' ex' s1
          | Some (got, body) \<Rightarrow> if got = ex' then Some ((body, []), s1)
              else (case fst (dispatch_other pc' body got s1) of
                  Some e \<Rightarrow> Some (([], e), snd (dispatch_other pc' body got s1))
                | None \<Rightarrow> rec pc' ex' (snd (dispatch_other pc' body got s1)))))) = Some r"
    let ?t = "t\<lparr> ct_link := Some l \<rparr>"
    have "read_frame t = Some (Some f, ?t)" using read_frame_frame [of t l f "l_in l"] assms(2-4) c by simp
    moreover have "fst (dispatch_other pc body SPOT_EVENT ?t) = None" by (simp add: dispatch_other_def split: option.split)
    ultimately have "rec pc ex (snd (dispatch_other pc body SPOT_EVENT ?t)) = Some r" using b c assms(5,6) by simp
    from ih [OF this] show False by simp
  qed
  then show False using assms(1) by simp
qed

text \<open>Then the worker's turn does not return either.\<close>

lemma turn_blocks:
  assumes "awake s" "ct_jobs s = job # js" "ct_connected s" "ct_link s = Some l" "l_in l = PeerSilent \<or> l_in l = bytes_then (frame f) (l_in l) \<and>
      f \<noteq> [] \<and> length f \<le> 2 ^ 20 \<and> unwrap pc f = Some (SPOT_EVENT, body)"
    and "order_bytes pc job s = Some raw" "length raw < 2 ^ 32" "4 + length raw \<le> l_room l" "si_valid (ct_sym s)" "si_id (ct_sym s) \<noteq> 0"
  shows "ct_turn cfg pc polls clock s = None"
proof -
  let ?s = "s\<lparr> ct_jobs := js, ct_wake := js \<noteq> [] \<rparr>" and ?l = "l\<lparr> l_room := l_room l - (4 + length raw) \<rparr>"
  have w: "await pc EXECUTION_EVENT t = None" if "ct_link t = Some ?l" for t
    using await_silent [OF that] await_spots [OF that, of f pc body EXECUTION_EVENT] assms(5) by (auto simp: payload_types)
  have "order_bytes pc job ?s = Some raw" using assms(6) order_bytes_cong [of ?s s] by simp
  from place_order_sent [OF this assms(7), of l clock] have "place_order pc clock job ?s = None"
    using assms(4,8-10) w by auto
  then have "work_job cfg pc polls clock job ?s = None"
    using assms(3,4) by (simp add: work_job_def is_connected_def try_order_def)
  then show ?thesis using assms(1,2) by (simp add: ct_turn_def awake_def)
qed

end
