(* ===== verification/LeadSignal.thy ===== *)
theory LeadSignal
  imports Config
begin

text \<open>
  \<open>src/lead_lag.cpp\<close>, the stand-alone version of the bot: its configuration and the signal
  generator. Time points of the steady clock are nanoseconds; durations in seconds are
  doubles that the comparisons of \<open>std::chrono\<close> convert to nanoseconds.
\<close>

section \<open>Configuration\<close>

record lcfg =
  ll_binance_symbol :: str
  ll_binance_host :: str
  ll_binance_port :: str
  ll_binance_path :: str
  ll_window :: double
  ll_threshold :: double
  ll_cooldown :: double
  ll_symbol :: str
  ll_host :: str
  ll_port :: str
  ll_path :: str
  ll_token :: str
  ll_account :: str
  ll_tif :: str
  ll_use_json :: bool
  ll_timeout_ms :: int
  ll_retry_ms :: int
  ll_amount :: double
  ll_sl :: int
  ll_tp :: int
  ll_max_open :: int
  ll_threads :: size
  ll_base_s :: double
  ll_max_s :: double
  ll_dry_run :: bool
  ll_log_ticks :: bool
  ll_log_dir :: str

definition lcfg_default :: lcfg where
  "lcfg_default = \<lparr> ll_binance_symbol = ''btcusdt'', ll_binance_host = ''stream.binance.com'', ll_binance_port = ''9443'',
     ll_binance_path = '''', ll_window = lit 2.0, ll_threshold = lit 0.05, ll_cooldown = lit 30.0,
     ll_symbol = ''BTC/USD'', ll_host = ''api.fxcm.com'', ll_port = ''443'', ll_path = ''/trading/open_trade'',
     ll_token = '''', ll_account = '''', ll_tif = ''FOK'', ll_use_json = False, ll_timeout_ms = 3000, ll_retry_ms = 100,
     ll_amount = lit 0.001, ll_sl = 50, ll_tp = 100, ll_max_open = 1, ll_threads = 1, ll_base_s = lit 2.0,
     ll_max_s = lit 60.0, ll_dry_run = True, ll_log_ticks = False, ll_log_dir = ''.'' \<rparr>"

text \<open>A variable that is set is taken, even when it is empty.\<close>

definition over :: "environment \<Rightarrow> str \<Rightarrow> (str \<Rightarrow> 'a) \<Rightarrow> 'a \<Rightarrow> 'a" where
  "over getenv name f d = (case getenv name of None \<Rightarrow> d | Some v \<Rightarrow> f v)"

definition lcfg_from_env :: "environment \<Rightarrow> lcfg" where
  "lcfg_from_env getenv =
     (let c = lcfg_default;
          c1 = c\<lparr> ll_binance_symbol := over getenv ''BINANCE_SYMBOL'' id (ll_binance_symbol c),
            ll_token := over getenv ''FXCM_TOKEN'' id (ll_token c),
            ll_symbol := over getenv ''FXCM_SYMBOL'' id (ll_symbol c),
            ll_amount := over getenv ''FXCM_AMOUNT'' atof (ll_amount c),
            ll_sl := over getenv ''FXCM_SL_PIPS'' atoi (ll_sl c),
            ll_tp := over getenv ''FXCM_TP_PIPS'' atoi (ll_tp c),
            ll_account := over getenv ''FXCM_ACCOUNT_ID'' id (ll_account c),
            ll_tif := over getenv ''FXCM_TIME_IN_FORCE'' id (ll_tif c),
            ll_use_json := over getenv ''FXCM_USE_JSON'' (\<lambda>v. v = ''1'') (ll_use_json c),
            ll_timeout_ms := over getenv ''FXCM_TIMEOUT_MS'' atoi (ll_timeout_ms c),
            ll_retry_ms := over getenv ''FXCM_RETRY_DELAY_MS'' atoi (ll_retry_ms c),
            ll_window := over getenv ''WINDOW_SECONDS'' atof (ll_window c),
            ll_threshold := over getenv ''THRESHOLD_PCT'' atof (ll_threshold c),
            ll_cooldown := over getenv ''COOLDOWN_SECONDS'' atof (ll_cooldown c),
            ll_dry_run := over getenv ''DRY_RUN'' (\<lambda>v. if v = ''0'' then False else ll_dry_run c) (ll_dry_run c),
            ll_log_ticks := over getenv ''LOG_TICKS'' (\<lambda>v. if v = ''1'' then True else ll_log_ticks c) (ll_log_ticks c),
            ll_log_dir := over getenv ''LOG_DIR'' id (ll_log_dir c) \<rparr>
      in c1\<lparr> ll_binance_path := ''/ws/'' @ ll_binance_symbol c1 @ ''@trade'' \<rparr>)"

section \<open>The signal generator\<close>

record lead_signal =
  ls_direction :: str
  ls_reason :: str
  ls_ref :: double
  ls_change :: double

type_synonym instant = int

record generator =
  g_buf :: "(instant \<times> double) list"
  g_last :: "instant option"

definition generator_init :: generator where
  "generator_init = \<lparr> g_buf = [], g_last = None \<rparr>"

text \<open>\<open>d < std::chrono::duration<double> (secs)\<close> for an integral \<open>d\<close> of nanoseconds.\<close>

definition shorter :: "int \<Rightarrow> double \<Rightarrow> bool" where
  "shorter d secs \<longleftrightarrow> double_of_int d < secs * lit 1000000000"

definition longer :: "int \<Rightarrow> double \<Rightarrow> bool" where
  "longer d secs \<longleftrightarrow> secs * lit 1000000000 < double_of_int d"

definition prune_buf :: "lcfg \<Rightarrow> instant \<Rightarrow> (instant \<times> double) list \<Rightarrow> (instant \<times> double) list" where
  "prune_buf cfg now = dropWhile (\<lambda>(t, _). longer (now - t) (ll_window cfg + 1))"

definition ref_price_at :: "instant \<Rightarrow> (instant \<times> double) list \<Rightarrow> double" where
  "ref_price_at cutoff buf = (case find (\<lambda>(t, _). cutoff \<le> t) buf of Some (_, p) \<Rightarrow> p | None \<Rightarrow> snd (hd buf))"

definition in_cooldown :: "lcfg \<Rightarrow> instant \<Rightarrow> generator \<Rightarrow> bool" where
  "in_cooldown cfg now g = (case g_last g of None \<Rightarrow> False | Some t \<Rightarrow> shorter (now - t) (ll_cooldown cfg))"

definition change_pct :: "double \<Rightarrow> double \<Rightarrow> double" where
  "change_pct price ref = (price / ref - 1) * lit 100.0"

definition gen_update :: "lcfg \<Rightarrow> instant \<Rightarrow> double \<Rightarrow> generator \<Rightarrow> lead_signal option \<times> generator" where
  "gen_update cfg now price g =
     (let g1 = g\<lparr> g_buf := prune_buf cfg now (g_buf g @ [(now, price)]) \<rparr> in
      if length (g_buf g1) < 2 then (None, g1)
      else let cutoff = now - int64_of (ll_window cfg * lit 1000000000);
               ref = ref_price_at cutoff (g_buf g1);
               chg = change_pct price ref
        in if \<not> in_cooldown cfg now g1 \<and> ll_threshold cfg \<le> \<bar>chg\<bar>
           then (Some \<lparr> ls_direction = (if 0 < chg then ''buy'' else ''sell''), ls_reason = ''momentum'', ls_ref = ref,
                       ls_change = chg \<rparr>, g1\<lparr> g_last := Some now \<rparr>)
           else (None, g1))"

text \<open>The signals of a sequence of ticks, each with its time.\<close>

fun gen_run :: "lcfg \<Rightarrow> (instant \<times> double) list \<Rightarrow> generator \<Rightarrow> (instant \<times> lead_signal) list \<times> generator" where
  "gen_run cfg [] g = ([], g)"
| "gen_run cfg ((now, price) # ts) g =
     (let (s, g1) = gen_update cfg now price g; (out, g2) = gen_run cfg ts g1
      in ((case s of None \<Rightarrow> out | Some x \<Rightarrow> (now, x) # out), g2))"

section \<open>The window\<close>

lemma gen_update_buf: "g_buf (snd (gen_update cfg now price g)) = prune_buf cfg now (g_buf g @ [(now, price)])"
  by (simp add: gen_update_def Let_def)

lemma fval_of_double_of_int: "fval_of (double_of_int n) = rnd64 (of_int n)"
  by (simp add: double_of_int_def fval_of_simps)

lemma double_of_int_mono: "a \<le> b \<Longrightarrow> double_of_int a \<le> double_of_int b"
  by (simp add: le_fval_of fval_of_double_of_int rnd64_mono)

lemma longer_mono: "longer d secs \<Longrightarrow> d \<le> e \<Longrightarrow> longer e secs"
  unfolding longer_def using dless_le_trans double_of_int_mono by blast

lemma shorter_antimono: "shorter e secs \<Longrightarrow> d \<le> e \<Longrightarrow> shorter d secs"
  unfolding shorter_def using dle_less_trans double_of_int_mono by blast

text \<open>The ticks that the buffer keeps at time \<open>now\<close>.\<close>

definition young :: "lcfg \<Rightarrow> instant \<Rightarrow> instant \<times> double \<Rightarrow> bool" where
  "young cfg now e \<longleftrightarrow> \<not> longer (now - fst e) (ll_window cfg + 1)"

lemma young_mono: "young cfg now e \<Longrightarrow> m \<le> now \<Longrightarrow> young cfg m e"
  unfolding young_def using longer_mono [of "m - fst e" _ "now - fst e"] by auto

text \<open>With rising times the buffer is what is young enough of all ticks seen.\<close>

lemma prune_buf_young: "prune_buf cfg now = dropWhile (\<lambda>e. \<not> young cfg now e)"
  by (simp add: prune_buf_def young_def split_beta')

lemma prune_filter: "sorted (map fst buf) \<Longrightarrow> prune_buf cfg now buf = filter (young cfg now) buf"
proof (induction buf)
  case (Cons e buf)
  have "young cfg now u" if "young cfg now e" "u \<in> set buf" for u
    using Cons.prems that longer_mono [of "now - fst u" _ "now - fst e"] by (auto simp: young_def)
  then have "filter (young cfg now) buf = buf" if "young cfg now e" using that by (simp add: filter_id_conv)
  then show ?case using Cons by (cases "young cfg now e") (simp_all add: prune_buf_young)
qed (simp add: prune_buf_young)

lemma prune_history:
  assumes "sorted (map fst (h @ [(now, p)]))" "m \<le> now"
  shows "prune_buf cfg now (filter (young cfg m) h @ [(now, p)]) = filter (young cfg now) (h @ [(now, p)])"
proof -
  have "sorted (map fst (filter (young cfg m) h @ [(now, p)]))"
    using assms(1) sorted_filter [of fst h] by (auto simp: sorted_append)
  moreover have "filter (young cfg now) (filter (young cfg m) h) = filter (young cfg now) h"
    using young_mono assms(2) by (auto simp: filter_filter intro!: filter_cong)
  ultimately show ?thesis by (simp add: prune_filter)
qed

section \<open>Pruning is invisible\<close>

lemma int64_of_le:
  assumes "0 \<le> x" "0 \<le> int64_of x"
  shows "double_of_int (int64_of x) \<le> x"
proof (cases "fval_of x")
  case (VFin q)
  then have q: "0 \<le> q" "int64_of x = \<lfloor>q\<rfloor>" "q = val x"
    using assms by (auto simp: double_defs int64_of_def trunc_rat_def Let_def val_fval_of split: if_splits)
  have "vle (rnd64 (of_int \<lfloor>q\<rfloor>)) (rnd64 q)" by (rule rnd64_mono) simp
  moreover have "rnd64 q = VFin q" using val_ok [of x] val_bound [of x] q(3) by (simp add: rnd64_Fin)
  ultimately show ?thesis using q VFin by (simp add: le_fval_of fval_of_double_of_int)
qed (use assms in \<open>auto simp: int64_of_def\<close>)

definition window_ns :: "lcfg \<Rightarrow> int" where
  "window_ns cfg = int64_of (ll_window cfg * lit 1000000000)"

lemma in_window_young:
  assumes "0 \<le> ll_window cfg" "0 \<le> window_ns cfg" "now - window_ns cfg \<le> t"
  shows "young cfg now (t, p)"
proof -
  let ?w = "ll_window cfg"
  have e: "exact 1000000000" "(0 :: rat) < 1000000000" by (simp_all add: exact_simps)
  have "0 * lit 1000000000 = (0 :: double)" by (simp add: exact_simps flip: lit_0)
  then have nn: "0 \<le> ?w * lit 1000000000" using dmult_mono_pos [OF assms(1) e] by simp
  have one: "(0 :: double) \<le> 1" by (simp add: exact_simps)
  have "\<not> is_nan (?w + 1)"
    using assms(1) fval_of_exact [OF exact_0_1(2)]
    by (cases "fval_of ?w") (auto simp: double_defs simp flip: lit_1)
  then have "?w * lit 1000000000 \<le> (?w + 1) * lit 1000000000" by (rule dmult_mono_pos [OF dadd_ge [OF one] e])
  moreover have "double_of_int (now - t) \<le> double_of_int (window_ns cfg)" using assms(3) by (intro double_of_int_mono) simp
  moreover have "double_of_int (window_ns cfg) \<le> ?w * lit 1000000000"
    using int64_of_le [OF nn] assms(2) by (simp add: window_ns_def)
  ultimately have "double_of_int (now - t) \<le> (?w + 1) * lit 1000000000" by (meson dle_trans)
  then show ?thesis unfolding young_def longer_def using dless_le_trans dless_irrefl by (metis fst_conv)
qed

lemma find_filter: "(\<And>x. x \<in> set xs \<Longrightarrow> P x \<Longrightarrow> Q x) \<Longrightarrow> find P (filter Q xs) = find P xs"
  by (induction xs) auto

text \<open>The reference the comparison means: all ticks are kept.\<close>

definition spec_signal :: "lcfg \<Rightarrow> instant \<Rightarrow> double \<Rightarrow> (instant \<times> double) list \<Rightarrow> instant option \<Rightarrow> lead_signal option" where
  "spec_signal cfg now price h prev =
     (let ref = ref_price_at (now - window_ns cfg) (h @ [(now, price)]); chg = change_pct price ref in
      if \<not> (case prev of None \<Rightarrow> False | Some t \<Rightarrow> shorter (now - t) (ll_cooldown cfg)) \<and> ll_threshold cfg \<le> \<bar>chg\<bar>
      then Some \<lparr> ls_direction = (if 0 < chg then ''buy'' else ''sell''), ls_reason = ''momentum'', ls_ref = ref, ls_change = chg \<rparr>
      else None)"

lemma no_change_no_signal:
  assumes "0 < ll_threshold cfg"
  shows "\<not> ll_threshold cfg \<le> \<bar>change_pct p p\<bar>"
proof -
  have one: "rnd64 1 = VFin 1" "rnd64 0 = VFin 0"
    using fval_of_exact [of 1] fval_of_simps(1) [of 0] by (simp_all add: fval_of_simps exact_simps)
  have h: "rnd64 100 = VFin 100" using fval_of_exact [of 100] by (simp add: fval_of_simps exact_simps)
  have l: "fval_of (1 :: double) = VFin 1" using fval_of_exact [of 1] by (simp add: exact_simps)
  show ?thesis
    using assms by (cases "fval_of p"; cases "fval_of (ll_threshold cfg)")
      (auto simp: double_defs change_pct_def h l one vinf_def sgn_if)
qed

lemma gen_update_spec:
  assumes "sorted (map fst (h @ [(now, price)]))" "m \<le> now" "g_buf g = filter (young cfg m) h"
    and "0 \<le> ll_window cfg" "0 \<le> window_ns cfg" "0 < ll_threshold cfg"
  shows "fst (gen_update cfg now price g) = spec_signal cfg now price h (g_last g) \<and>
    g_buf (snd (gen_update cfg now price g)) = filter (young cfg now) (h @ [(now, price)]) \<and>
    g_last (snd (gen_update cfg now price g)) = (if spec_signal cfg now price h (g_last g) = None then g_last g else Some now)"
proof -
  let ?H = "h @ [(now, price)]" and ?c = "now - window_ns cfg"
  let ?b = "filter (young cfg now) ?H"
  have b: "prune_buf cfg now (g_buf g @ [(now, price)]) = ?b" using prune_history [OF assms(1,2)] assms(3) by simp
  have y: "young cfg now (now, price)" using in_window_young [OF assms(4,5)] assms(5) by simp
  have f: "find (\<lambda>(t, _). ?c \<le> t) ?b = find (\<lambda>(t, _). ?c \<le> t) ?H"
    using in_window_young [OF assms(4,5)] by (intro find_filter) auto
  have some: "find (\<lambda>(t, _). ?c \<le> t) ?H \<noteq> None" using assms(5) by (auto simp: find_None_iff)
  then have ref: "ref_price_at ?c ?b = ref_price_at ?c ?H" unfolding ref_price_at_def f by (auto split: option.split)
  show ?thesis
  proof (cases "length ?b < 2")
    case True
    then have "?b = [(now, price)]" using y by (cases "filter (young cfg now) h") auto
    then have "ref_price_at ?c ?H = price" using ref assms(5) by (simp add: ref_price_at_def)
    then have "spec_signal cfg now price h (g_last g) = None"
      using no_change_no_signal [OF assms(6)] by (simp add: spec_signal_def Let_def)
    then show ?thesis using True b by (simp add: gen_update_def Let_def)
  next
    case False
    have "\<not> length (prune_buf cfg now (g_buf g @ [(now, price)])) < 2" using False b by simp
    then show ?thesis
      using ref b by (simp add: gen_update_def spec_signal_def in_cooldown_def window_ns_def Let_def split: option.split)
  qed
qed

fun spec_run :: "lcfg \<Rightarrow> (instant \<times> double) list \<Rightarrow> (instant \<times> double) list \<Rightarrow> instant option \<Rightarrow> (instant \<times> lead_signal) list" where
  "spec_run cfg [] h prev = []"
| "spec_run cfg ((now, price) # ts) h prev =
     (case spec_signal cfg now price h prev of
        None \<Rightarrow> spec_run cfg ts (h @ [(now, price)]) prev
      | Some x \<Rightarrow> (now, x) # spec_run cfg ts (h @ [(now, price)]) (Some now))"

lemma gen_run_spec:
  assumes "sorted (map fst (h @ ts))" "\<forall>e\<in>set ts. m \<le> fst e" "g_buf g = filter (young cfg m) h"
    and "0 \<le> ll_window cfg" "0 \<le> window_ns cfg" "0 < ll_threshold cfg"
  shows "fst (gen_run cfg ts g) = spec_run cfg ts h (g_last g)"
  using assms(1-3)
proof (induction ts arbitrary: h g m)
  case (Cons e ts)
  obtain now price where e: "e = (now, price)" by fastforce
  have "sorted (map fst (h @ [(now, price)]))" "m \<le> now" using Cons.prems e by (auto simp: sorted_append)
  note u = gen_update_spec [OF this Cons.prems(3) assms(4-6)]
  have "\<forall>e\<in>set ts. now \<le> fst e" using Cons.prems(1) e by (auto simp: sorted_append)
  then have "fst (gen_run cfg ts (snd (gen_update cfg now price g))) =
      spec_run cfg ts (h @ [(now, price)]) (g_last (snd (gen_update cfg now price g)))"
    using Cons.IH [of "h @ [(now, price)]" now "snd (gen_update cfg now price g)"] Cons.prems(1) u e by simp
  then show ?case using u e by (simp add: split_beta Let_def split: option.split)
qed simp

section \<open>The cooldown\<close>

lemma spec_run_cooled:
  assumes "sorted (map fst ts)" "\<forall>t. prev = Some t \<longrightarrow> (\<forall>e\<in>set ts. t \<le> fst e)"
  shows "sorted_wrt (\<lambda>a b. \<not> shorter (fst b - fst a) (ll_cooldown cfg)) (spec_run cfg ts h prev) \<and>
    (\<forall>a\<in>set (spec_run cfg ts h prev). \<forall>t. prev = Some t \<longrightarrow> \<not> shorter (fst a - t) (ll_cooldown cfg))"
  using assms
proof (induction ts arbitrary: h prev)
  case (Cons e ts)
  obtain now price where e: "e = (now, price)" by fastforce
  show ?case
  proof (cases "spec_signal cfg now price h prev")
    case None
    have "\<forall>t. prev = Some t \<longrightarrow> (\<forall>e\<in>set ts. t \<le> fst e)" "sorted (map fst ts)" using Cons.prems e by auto
    note ih = Cons.IH [OF this(2,1), of "h @ [(now, price)]"]
    have skip: "spec_run cfg (e # ts) h prev = spec_run cfg ts (h @ [(now, price)]) prev" using None e by simp
    show ?thesis unfolding skip by (rule ih)
  next
    case (Some x)
    have c: "\<not> shorter (now - t) (ll_cooldown cfg)" if "prev = Some t" for t
      using Some that by (auto simp: spec_signal_def Let_def split: if_splits)
    have le: "\<forall>e\<in>set ts. now \<le> fst e" using Cons.prems(1) e by simp
    have sub: "\<exists>e\<in>set ts. fst a = fst e" if "a \<in> set (spec_run cfg ts h' l)" for a h' l
      using that
    proof (induction ts arbitrary: h' l)
      case (Cons e ts)
      then show ?case by (cases e) (fastforce split: option.splits)
    qed simp
    from Cons.IH [of "Some now" "h @ [(now, price)]"] Cons.prems(1) le e
    have ih: "sorted_wrt (\<lambda>a b. \<not> shorter (fst b - fst a) (ll_cooldown cfg)) (spec_run cfg ts (h @ [(now, price)]) (Some now))"
      "\<forall>a\<in>set (spec_run cfg ts (h @ [(now, price)]) (Some now)). \<not> shorter (fst a - now) (ll_cooldown cfg)"
      by auto
    have "\<not> shorter (fst a - t) (ll_cooldown cfg)" if "a \<in> set (spec_run cfg ts (h @ [(now, price)]) (Some now))" "prev = Some t" for a t
    proof -
      have "now \<le> fst a" using sub [OF that(1)] le by auto
      then show ?thesis using c [OF that(2)] shorter_antimono [of "fst a - t" _ "now - t"] by auto
    qed
    then show ?thesis using Some e ih c by auto
  qed
qed simp

end
