(* ===== verification/LeadOrders.thy ===== *)
theory LeadOrders
  imports LeadSignal Execution
begin

text \<open>
  \<open>src/lead_lag.cpp\<close>, the order executor: the order body, the reading of a response, and the
  worker threads that share the queue and the counter of open positions. JSON parsing and
  printing and the outcomes of the HTTP requests are arguments; one step is one submission, one
  take of a worker or one request of an order under way. A log line is an effect named after it.
\<close>

section \<open>The order body\<close>

definition hex_digit :: "nat \<Rightarrow> char" where
  "hex_digit n = ''0123456789ABCDEF'' ! n"

definition unreserved :: "char \<Rightarrow> bool" where
  "unreserved c \<longleftrightarrow> isalnum c \<or> c \<in> {CHR ''-'', CHR ''_'', CHR ''.'', CHR ''~''}"

definition urlencode_char :: "char \<Rightarrow> str" where
  "urlencode_char c = (if unreserved c then [c]
     else [CHR ''%'', hex_digit (of_char c div 16), hex_digit (of_char c mod 16)])"

definition urlencode :: "str \<Rightarrow> str" where
  "urlencode s = concat (map urlencode_char s)"

datatype json = JNull | JBool bool | JInt int | JReal double | JStr str | JArr "json list" | JObj "(str \<times> json) list"

definition form_body :: "lcfg \<Rightarrow> lead_signal \<Rightarrow> str" where
  "form_body cfg s =
     ''account_id='' @ urlencode (ll_account cfg) @
     ''&symbol='' @ urlencode (ll_symbol cfg) @
     ''&is_buy='' @ (if ls_direction s = ''buy'' then ''true'' else ''false'') @
     ''&amount='' @ urlencode (fmt_f 6 (ll_amount cfg)) @
     ''&rate=0'' @
     ''&at_market=0'' @
     ''&order_type=AtMarket'' @
     ''&time_in_force='' @ urlencode (ll_tif cfg) @
     ''&stop='' @ show_int (- ll_sl cfg) @
     ''&limit='' @ show_int (ll_tp cfg) @
     ''&is_in_pips=true''"

definition json_order :: "lcfg \<Rightarrow> lead_signal \<Rightarrow> json" where
  "json_order cfg s = JObj
     [(''account_id'', JStr (ll_account cfg)), (''symbol'', JStr (ll_symbol cfg)),
      (''is_buy'', JBool (ls_direction s = ''buy'')), (''amount'', JStr (fmt_f 6 (ll_amount cfg))),
      (''rate'', JInt 0), (''at_market'', JInt 0), (''order_type'', JStr ''AtMarket''),
      (''time_in_force'', JStr (ll_tif cfg)), (''stop'', JInt (- ll_sl cfg)), (''limit'', JInt (ll_tp cfg)),
      (''is_in_pips'', JBool True)]"

definition build_order_body :: "(json \<Rightarrow> str) \<Rightarrow> lcfg \<Rightarrow> lead_signal \<Rightarrow> str" where
  "build_order_body dump cfg s = (if ll_use_json cfg then dump (json_order cfg s) else form_body cfg s)"

section \<open>The response\<close>

record post_result =
  pr_ok :: bool
  pr_retryable :: bool
  pr_status :: int
  pr_order :: str
  pr_detail :: str

definition post_result0 :: post_result where
  "post_result0 = \<lparr> pr_ok = False, pr_retryable = False, pr_status = 0, pr_order = [], pr_detail = [] \<rparr>"

datatype http_outcome = NetError str | HttpAnswer int str

text \<open>\<open>j.value (key, default)\<close>: an exception on anything but an object.\<close>

definition jvalue :: "json \<Rightarrow> str \<Rightarrow> json \<Rightarrow> json option" where
  "jvalue j k d = (case j of JObj kv \<Rightarrow> Some (case map_of kv k of Some v \<Rightarrow> v | None \<Rightarrow> d) | _ \<Rightarrow> None)"

text \<open>The test of \<open>response.executed\<close>; \<open>None\<close> is an exception of the library.\<close>

definition check_executed :: "json \<Rightarrow> str \<Rightarrow> post_result \<Rightarrow> post_result option" where
  "check_executed resp body r =
     (if \<not> pr_ok r then Some r
      else case jvalue resp ''executed'' (JBool False) of
          Some (JBool True) \<Rightarrow> Some r
        | Some (JBool False) \<Rightarrow> Some (r\<lparr> pr_ok := False, pr_retryable := False, pr_detail := take 200 body \<rparr>)
        | _ \<Rightarrow> None)"

definition take_order_id :: "(json \<Rightarrow> str) \<Rightarrow> json \<Rightarrow> post_result \<Rightarrow> post_result" where
  "take_order_id dump data r = (case data of
     JObj kv \<Rightarrow> (case map_of kv ''orderId'' of
         None \<Rightarrow> r
       | Some (JStr s) \<Rightarrow> r\<lparr> pr_order := s \<rparr>
       | Some v \<Rightarrow> r\<lparr> pr_order := dump v \<rparr>)
   | _ \<Rightarrow> r)"

definition read_body :: "(str \<Rightarrow> json option) \<Rightarrow> (json \<Rightarrow> str) \<Rightarrow> str \<Rightarrow> post_result \<Rightarrow> post_result" where
  "read_body parse dump body r = (case parse body of
     None \<Rightarrow> r
   | Some j \<Rightarrow> (case jvalue j ''response'' JNull of
       None \<Rightarrow> r
     | Some resp \<Rightarrow> (case check_executed resp body r of
         None \<Rightarrow> r
       | Some r' \<Rightarrow> (case jvalue j ''data'' JNull of
           None \<Rightarrow> r'
         | Some data \<Rightarrow> take_order_id dump data r'))))"

fun fxcm_post :: "(str \<Rightarrow> json option) \<Rightarrow> (json \<Rightarrow> str) \<Rightarrow> http_outcome \<Rightarrow> post_result" where
  "fxcm_post parse dump (NetError e) = post_result0\<lparr> pr_retryable := True, pr_detail := e \<rparr>"
| "fxcm_post parse dump (HttpAnswer status body) =
     read_body parse dump body
       (post_result0\<lparr> pr_status := status, pr_ok := 200 \<le> status \<and> status < 300,
                      pr_retryable := 500 \<le> status \<or> status = 429 \<rparr>)"

section \<open>The workers\<close>

datatype order_effect =
    DryRun lead_signal
  | MaxPositions lead_signal
  | Post str
  | RetrySleep int
  | OrderPlaced str
  | PlacementFailed int str
  | TradeRow str double double int str

text \<open>An order under way: its signal, its body and the number of the next attempt.\<close>

record flight =
  fl_signal :: lead_signal
  fl_body :: str
  fl_attempt :: nat

record executor =
  ex_queue :: "lead_signal list"
  ex_stopping :: bool
  ex_open :: int
  ex_busy :: "flight list"
  ex_posts :: "http_outcome list"
  ex_out :: "order_effect list"

definition executor_init :: "http_outcome list \<Rightarrow> executor" where
  "executor_init ps = \<lparr> ex_queue = [], ex_stopping = False, ex_open = 0, ex_busy = [], ex_posts = ps, ex_out = [] \<rparr>"

definition kMaxAttempts :: nat where
  "kMaxAttempts = 2"

definition ex_submit :: "lead_signal \<Rightarrow> executor \<Rightarrow> executor" where
  "ex_submit s x = x\<lparr> ex_queue := ex_queue x @ [s] \<rparr>"

definition ex_stop :: "executor \<Rightarrow> executor" where
  "ex_stop x = x\<lparr> ex_stopping := True \<rparr>"

definition tell :: "order_effect list \<Rightarrow> executor \<Rightarrow> executor" where
  "tell es x = x\<lparr> ex_out := ex_out x @ es \<rparr>"

text \<open>The gates at the head of \<open>execute ()\<close>.\<close>

definition begin_order :: "(json \<Rightarrow> str) \<Rightarrow> lcfg \<Rightarrow> lead_signal \<Rightarrow> executor \<Rightarrow> executor" where
  "begin_order dump cfg s x =
     (if ll_dry_run cfg then tell [DryRun s] x
      else if ll_max_open cfg \<le> ex_open x then tell [MaxPositions s] x
      else x\<lparr> ex_open := ex_open x + 1,
              ex_busy := ex_busy x @ [\<lparr> fl_signal = s, fl_body = build_order_body dump cfg s, fl_attempt = 1 \<rparr>] \<rparr>)"

text \<open>A free worker takes the next signal.\<close>

definition ex_take :: "(json \<Rightarrow> str) \<Rightarrow> lcfg \<Rightarrow> executor \<Rightarrow> executor" where
  "ex_take dump cfg x =
     (if ll_threads cfg \<le> length (ex_busy x) then x
      else case pop_front (ex_queue x) of None \<Rightarrow> x | Some (s, q) \<Rightarrow> begin_order dump cfg s (x\<lparr> ex_queue := q \<rparr>))"

definition remove_nth :: "nat \<Rightarrow> 'a list \<Rightarrow> 'a list" where
  "remove_nth i xs = take i xs @ drop (Suc i) xs"

definition finish_order :: "nat \<Rightarrow> lead_signal \<Rightarrow> post_result \<Rightarrow> executor \<Rightarrow> executor" where
  "finish_order i s r x =
     (let x = tell [if pr_ok r then OrderPlaced (pr_order r) else PlacementFailed (pr_status r) (pr_detail r),
                    TradeRow (ls_direction s) (ls_ref s) (ls_change s) (pr_status r) (if pr_ok r then pr_order r else [])] x
      in x\<lparr> ex_open := ex_open x - 1, ex_busy := remove_nth i (ex_busy x) \<rparr>)"

text \<open>One request of the \<open>i\<close>-th order under way; the loop goes on whatever \<open>retryable\<close> says.\<close>

definition ex_attempt :: "(str \<Rightarrow> json option) \<Rightarrow> (json \<Rightarrow> str) \<Rightarrow> lcfg \<Rightarrow> nat \<Rightarrow> executor \<Rightarrow> executor" where
  "ex_attempt parse dump cfg i x =
     (if length (ex_busy x) \<le> i then x
      else let f = ex_busy x ! i;
               r = fxcm_post parse dump (case ex_posts x of [] \<Rightarrow> NetError [] | p # _ \<Rightarrow> p);
               x = tell [Post (fl_body f)] (x\<lparr> ex_posts := tl (ex_posts x) \<rparr>)
        in if pr_ok r then finish_order i (fl_signal f) r x
           else let x = (if fl_attempt f < kMaxAttempts \<and> pr_retryable r then tell [RetrySleep (ll_retry_ms cfg)] x else x)
             in if fl_attempt f < kMaxAttempts
                then x\<lparr> ex_busy := (ex_busy x)[i := f\<lparr> fl_attempt := fl_attempt f + 1 \<rparr>] \<rparr>
                else finish_order i (fl_signal f) r x)"

datatype ex_input = ExSubmit lead_signal | ExStop | ExTake | ExAttempt nat

fun ex_step :: "(str \<Rightarrow> json option) \<Rightarrow> (json \<Rightarrow> str) \<Rightarrow> lcfg \<Rightarrow> ex_input \<Rightarrow> executor \<Rightarrow> executor" where
  "ex_step parse dump cfg (ExSubmit s) x = ex_submit s x"
| "ex_step parse dump cfg ExStop x = ex_stop x"
| "ex_step parse dump cfg ExTake x = ex_take dump cfg x"
| "ex_step parse dump cfg (ExAttempt i) x = ex_attempt parse dump cfg i x"

definition ex_run :: "(str \<Rightarrow> json option) \<Rightarrow> (json \<Rightarrow> str) \<Rightarrow> lcfg \<Rightarrow> ex_input list \<Rightarrow> executor \<Rightarrow> executor" where
  "ex_run parse dump cfg = fold (ex_step parse dump cfg)"

section \<open>URL encoding is read back\<close>

definition hex_val :: "char \<Rightarrow> nat" where
  "hex_val c = (if is_digit c then digit_val c else of_char c - 55)"

fun urldecode :: "str \<Rightarrow> str" where
  "urldecode [] = []"
| "urldecode (c # s) =
     (if c = CHR ''%'' then (case s of
          a # b # r \<Rightarrow> char_of (16 * hex_val a + hex_val b) # urldecode r
        | _ \<Rightarrow> [])
      else c # urldecode s)"

lemma hex_val_digit: "n < 16 \<Longrightarrow> hex_val (hex_digit n) = n"
proof -
  assume "n < 16"
  then have "n \<in> set [0..<16]" by simp
  moreover have "\<forall>n\<in>set [0..<16]. hex_val (hex_digit n) = n" by code_simp
  ultimately show ?thesis by blast
qed

lemma percent_reserved: "\<not> unreserved CHR ''%''"
  by code_simp

lemma urldecode_urlencode [simp]: "urldecode (urlencode s @ t) = s @ urldecode t"
proof (induction s)
  case (Cons c s)
  have h: "16 * hex_val (hex_digit (of_char c div 16)) + hex_val (hex_digit (of_char c mod 16)) = (of_char c :: nat)"
    by (simp add: hex_val_digit less_mult_imp_div_less)
  show ?case
    using Cons percent_reserved h by (cases "unreserved c") (auto simp: urlencode_def urlencode_char_def)
qed (simp add: urlencode_def)

definition url_char :: "char \<Rightarrow> bool" where
  "url_char c \<longleftrightarrow> unreserved c \<or> c = CHR ''%''"

lemma hex_digit_unreserved: "n < 16 \<Longrightarrow> unreserved (hex_digit n)"
proof -
  assume "n < 16"
  then have "n \<in> set [0..<16]" by simp
  moreover have "\<forall>n\<in>set [0..<16]. unreserved (hex_digit n)" by code_simp
  ultimately show ?thesis by blast
qed

lemma urlencode_chars: "c \<in> set (urlencode s) \<Longrightarrow> url_char c"
proof -
  have "of_char d div 16 < (16 :: nat)" for d by (simp add: less_mult_imp_div_less)
  then show "c \<in> set (urlencode s) \<Longrightarrow> url_char c"
    by (auto simp: urlencode_def urlencode_char_def url_char_def hex_digit_unreserved split: if_splits)
qed

lemma urlencode_id: "\<forall>c\<in>set s. unreserved c \<Longrightarrow> urlencode s = s"
  by (induction s) (auto simp: urlencode_def urlencode_char_def)

lemma show_int_unreserved: "\<forall>c\<in>set (show_int n). unreserved c"
proof -
  have "unreserved CHR ''-''" by code_simp
  moreover have "is_digit c \<Longrightarrow> unreserved c" for c by (simp add: unreserved_def isalnum_def)
  ultimately show ?thesis using show_nat_digits by (auto simp: show_int_def)
qed

section \<open>The form body is read back\<close>

definition form_fields :: "lcfg \<Rightarrow> lead_signal \<Rightarrow> (str \<times> str) list" where
  "form_fields cfg s =
     [(''account_id'', ll_account cfg), (''symbol'', ll_symbol cfg),
      (''is_buy'', if ls_direction s = ''buy'' then ''true'' else ''false''), (''amount'', fmt_f 6 (ll_amount cfg)),
      (''rate'', ''0''), (''at_market'', ''0''), (''order_type'', ''AtMarket''), (''time_in_force'', ll_tif cfg),
      (''stop'', show_int (- ll_sl cfg)), (''limit'', show_int (ll_tp cfg)), (''is_in_pips'', ''true'')]"

fun form_join :: "str list \<Rightarrow> str" where
  "form_join [] = []"
| "form_join [p] = p"
| "form_join (p # ps) = p @ CHR ''&'' # form_join ps"

definition form_field :: "str \<times> str \<Rightarrow> str" where
  "form_field = (\<lambda>(k, v). k @ CHR ''='' # urlencode v)"

definition read_field :: "str \<Rightarrow> str \<times> str" where
  "read_field p = (takeWhile (\<lambda>c. c \<noteq> CHR ''='') p, urldecode (drop 1 (dropWhile (\<lambda>c. c \<noteq> CHR ''='') p)))"

definition form_read :: "str \<Rightarrow> (str \<times> str) list" where
  "form_read s = map read_field (split CHR ''&'' s)"

lemma form_body_join: "form_body cfg s = form_join (map form_field (form_fields cfg s))"
proof -
  have "list_all (\<lambda>t. urlencode t = t) [''0'', ''true'', ''false'', ''AtMarket'']" by code_simp
  then show ?thesis
    by (simp add: form_body_def form_fields_def form_field_def urlencode_id [OF show_int_unreserved])
qed

lemma split_form_join:
  "ps \<noteq> [] \<Longrightarrow> \<forall>p\<in>set ps. \<forall>c\<in>set p. c \<noteq> CHR ''&'' \<Longrightarrow> split CHR ''&'' (form_join ps) = ps"
  by (induction ps rule: form_join.induct) (simp_all add: split_field split_last)

lemma separators_reserved: "\<not> url_char CHR ''&''" "\<not> url_char CHR ''=''"
  by code_simp+

lemma form_field_clean: "c \<in> set (form_field f) \<Longrightarrow> c \<in> set (fst f) \<or> c \<noteq> CHR ''&''"
  using urlencode_chars separators_reserved by (auto simp: form_field_def split_beta)

lemma read_form_field: "\<forall>c\<in>set (fst f). c \<noteq> CHR ''='' \<Longrightarrow> read_field (form_field f) = f"
  using urldecode_urlencode [of "snd f" "[]"]
  by (simp add: read_field_def form_field_def takeWhile_stop dropWhile_stop split_beta)

lemma form_read_join:
  assumes "fs \<noteq> []" "\<forall>f\<in>set fs. CHR ''&'' \<notin> set (fst f) \<and> CHR ''='' \<notin> set (fst f)"
  shows "form_read (form_join (map form_field fs)) = fs"
proof -
  have "c \<noteq> CHR ''&''" if f: "f \<in> set fs" and c: "c \<in> set (form_field f)" for f c
  proof
    assume "c = CHR ''&''"
    then have "CHR ''&'' \<in> set (fst f)" using form_field_clean [OF c] by simp
    then show False using assms(2) f by simp
  qed
  then have "split CHR ''&'' (form_join (map form_field fs)) = map form_field fs"
    using assms(1) by (intro split_form_join) simp_all
  moreover have "map (\<lambda>f. read_field (form_field f)) fs = fs"
  proof (rule map_idI)
    fix f assume "f \<in> set fs"
    then have "CHR ''='' \<notin> set (fst f)" using assms(2) by simp
    then have "\<forall>c\<in>set (fst f). c \<noteq> CHR ''=''" by metis
    then show "read_field (form_field f) = f" by (rule read_form_field)
  qed
  ultimately show ?thesis by (simp add: form_read_def comp_def)
qed

lemma form_read_body: "form_read (form_body cfg s) = form_fields cfg s"
  unfolding form_body_join by (rule form_read_join) (simp_all add: form_fields_def)

section \<open>Positions and signals are accounted for\<close>

fun outcome_effect :: "order_effect \<Rightarrow> bool" where
  "outcome_effect (DryRun _) = True"
| "outcome_effect (MaxPositions _) = True"
| "outcome_effect (TradeRow _ _ _ _ _) = True"
| "outcome_effect _ = False"

definition outcomes :: "executor \<Rightarrow> nat" where
  "outcomes x = length (filter outcome_effect (ex_out x))"

text \<open>Signals known to the executor: settled, under way or queued.\<close>

definition known :: "executor \<Rightarrow> nat" where
  "known x = outcomes x + length (ex_busy x) + length (ex_queue x)"

definition ex_ok :: "lcfg \<Rightarrow> executor \<Rightarrow> bool" where
  "ex_ok cfg x \<longleftrightarrow> ex_open x = int (length (ex_busy x)) \<and> length (ex_busy x) \<le> ll_threads cfg \<and>
     (\<forall>f\<in>set (ex_busy x). fl_attempt f \<in> {1, 2})"

lemma length_remove_nth: "i < length xs \<Longrightarrow> length (remove_nth i xs) = length xs - 1"
  by (simp add: remove_nth_def)

lemma set_remove_nth: "set (remove_nth i xs) \<subseteq> set xs"
  by (auto simp: remove_nth_def dest: in_set_takeD in_set_dropD)

lemma outcomes_tell [simp]: "outcomes (tell es x) = outcomes x + length (filter outcome_effect es)"
  by (simp add: outcomes_def tell_def)

lemma tell_frame [simp]: "ex_busy (tell es x) = ex_busy x" "ex_queue (tell es x) = ex_queue x" "ex_open (tell es x) = ex_open x"
  by (simp_all add: tell_def)

lemma outcomes_frame [simp]: "outcomes (x\<lparr> ex_queue := q \<rparr>) = outcomes x" "outcomes (x\<lparr> ex_busy := b \<rparr>) = outcomes x"
  "outcomes (x\<lparr> ex_open := n \<rparr>) = outcomes x" "outcomes (x\<lparr> ex_posts := p \<rparr>) = outcomes x"
  "outcomes (x\<lparr> ex_stopping := s \<rparr>) = outcomes x"
  by (simp_all add: outcomes_def)

lemma finish_order_ok:
  assumes "ex_ok cfg x" "i < length (ex_busy x)"
  shows "ex_ok cfg (finish_order i s r x) \<and> known (finish_order i s r x) = known x"
proof -
  have "length (ex_busy x) \<noteq> 0" using assms(2) by linarith
  then show ?thesis
    using assms set_remove_nth [of i "ex_busy x"]
    by (auto simp: finish_order_def ex_ok_def known_def length_remove_nth Let_def)
qed

text \<open>A request either ends the order or leaves it under way for its second attempt.\<close>

lemma ex_attempt_shape:
  assumes "i < length (ex_busy x)"
  shows "\<exists>es ps r. filter outcome_effect es = [] \<and>
    (ex_attempt parse dump cfg i x = finish_order i (fl_signal (ex_busy x ! i)) r (tell es (x\<lparr> ex_posts := ps \<rparr>)) \<or>
     fl_attempt (ex_busy x ! i) < kMaxAttempts \<and> ex_attempt parse dump cfg i x = (tell es (x\<lparr> ex_posts := ps \<rparr>))
       \<lparr> ex_busy := (ex_busy x)[i := (ex_busy x ! i)\<lparr> fl_attempt := fl_attempt (ex_busy x ! i) + 1 \<rparr>] \<rparr>)"
proof -
  define f where "f = ex_busy x ! i"
  define r where "r = fxcm_post parse dump (case ex_posts x of [] \<Rightarrow> NetError [] | p # _ \<Rightarrow> p)"
  define es where "es = [Post (fl_body f)] @
    (if \<not> pr_ok r \<and> fl_attempt f < kMaxAttempts \<and> pr_retryable r then [RetrySleep (ll_retry_ms cfg)] else [])"
  have "filter outcome_effect es = []" by (simp add: es_def)
  moreover have "ex_attempt parse dump cfg i x = (if pr_ok r \<or> \<not> fl_attempt f < kMaxAttempts
      then finish_order i (fl_signal f) r (tell es (x\<lparr> ex_posts := tl (ex_posts x) \<rparr>))
      else (tell es (x\<lparr> ex_posts := tl (ex_posts x) \<rparr>))\<lparr> ex_busy := (ex_busy x)[i := f\<lparr> fl_attempt := fl_attempt f + 1 \<rparr>] \<rparr>)"
    using assms by (simp add: ex_attempt_def Let_def f_def [symmetric] r_def [symmetric] es_def tell_def)
  ultimately show ?thesis unfolding f_def by (metis (full_types))
qed

lemma ex_ok_tell: "ex_ok cfg (tell es (x\<lparr> ex_posts := ps \<rparr>)) = ex_ok cfg x"
  by (simp add: ex_ok_def)

lemma known_tell: "filter outcome_effect es = [] \<Longrightarrow> known (tell es (x\<lparr> ex_posts := ps \<rparr>)) = known x"
  by (simp add: known_def)

lemma ex_attempt_ok: "ex_ok cfg x \<Longrightarrow> ex_ok cfg (ex_attempt parse dump cfg i x) \<and> known (ex_attempt parse dump cfg i x) = known x"
proof (cases "i < length (ex_busy x)")
  case True
  assume ok: "ex_ok cfg x"
  let ?f = "ex_busy x ! i"
  obtain es ps r where quiet: "filter outcome_effect es = []" and
    "ex_attempt parse dump cfg i x = finish_order i (fl_signal ?f) r (tell es (x\<lparr> ex_posts := ps \<rparr>)) \<or>
     fl_attempt ?f < kMaxAttempts \<and> ex_attempt parse dump cfg i x = (tell es (x\<lparr> ex_posts := ps \<rparr>))
       \<lparr> ex_busy := (ex_busy x)[i := ?f\<lparr> fl_attempt := fl_attempt ?f + 1 \<rparr>] \<rparr>"
    using ex_attempt_shape [OF True] by blast
  then show ?thesis
  proof (elim disjE conjE)
    assume "ex_attempt parse dump cfg i x = finish_order i (fl_signal ?f) r (tell es (x\<lparr> ex_posts := ps \<rparr>))"
    then show ?thesis
      using finish_order_ok [of cfg "tell es (x\<lparr> ex_posts := ps \<rparr>)" i "fl_signal ?f" r] ok True known_tell [OF quiet]
      by (simp add: ex_ok_tell)
  next
    assume a: "fl_attempt ?f < kMaxAttempts" "ex_attempt parse dump cfg i x = (tell es (x\<lparr> ex_posts := ps \<rparr>))
       \<lparr> ex_busy := (ex_busy x)[i := ?f\<lparr> fl_attempt := fl_attempt ?f + 1 \<rparr>] \<rparr>"
    have "fl_attempt ?f = 1" using ok True a(1) by (force simp: ex_ok_def kMaxAttempts_def)
    then have "\<forall>f\<in>set ((ex_busy x)[i := ?f\<lparr> fl_attempt := fl_attempt ?f + 1 \<rparr>]). fl_attempt f \<in> {1, 2}"
      using ok set_update_subset_insert [of "ex_busy x" i "?f\<lparr> fl_attempt := fl_attempt ?f + 1 \<rparr>"]
      by (auto simp: ex_ok_def)
    then show ?thesis using ok quiet unfolding a(2) by (simp add: ex_ok_def known_def)
  qed
qed (simp add: ex_attempt_def)

lemma ex_take_ok: "ex_ok cfg x \<Longrightarrow> ex_ok cfg (ex_take dump cfg x) \<and> known (ex_take dump cfg x) = known x"
  by (cases "ex_queue x") (auto simp: ex_take_def begin_order_def ex_ok_def known_def)

fun submits :: "ex_input \<Rightarrow> nat" where
  "submits (ExSubmit _) = 1"
| "submits _ = 0"

lemma ex_step_ok:
  "ex_ok cfg x \<Longrightarrow> ex_ok cfg (ex_step parse dump cfg i x) \<and> known (ex_step parse dump cfg i x) = known x + submits i"
  using ex_take_ok [of cfg x dump] ex_attempt_ok [of cfg x parse dump]
  by (cases i) (auto simp: ex_submit_def ex_stop_def ex_ok_def known_def)

interpretation ex_machine: counting_machine "ex_step parse dump cfg" "ex_ok cfg" "\<lambda>_. True" known submits for parse dump cfg
  by unfold_locales (simp_all add: ex_step_ok)

lemma ex_run_ok:
  "ex_ok cfg x \<Longrightarrow> ex_ok cfg (ex_run parse dump cfg is x) \<and>
    known (ex_run parse dump cfg is x) = known x + sum_list (map submits is)"
  unfolding ex_run_def by (simp add: ex_machine.run_inv ex_machine.run_total)

lemma ex_ok_init: "ex_ok cfg (executor_init ps)" "known (executor_init ps) = 0"
  by (simp_all add: ex_ok_def executor_init_def known_def outcomes_def)

section \<open>The position limit never bites\<close>

lemma finish_order_out: "\<exists>es. ex_out (finish_order i s r x) = ex_out x @ es \<and> (\<forall>s. MaxPositions s \<notin> set es)"
  by (simp add: finish_order_def Let_def tell_def)

lemma no_skip_step:
  assumes "ex_ok cfg x" "int (ll_threads cfg) \<le> ll_max_open cfg" "MaxPositions s \<notin> set (ex_out x)"
  shows "MaxPositions s \<notin> set (ex_out (ex_step parse dump cfg i x))"
proof (cases i)
  case ExTake
  show ?thesis
  proof (cases "ex_queue x")
    case (Cons t q)
    then have "\<not> ll_max_open cfg \<le> ex_open x" if "length (ex_busy x) < ll_threads cfg"
      using assms(1,2) that by (simp add: ex_ok_def)
    then show ?thesis using ExTake Cons assms(3) by (auto simp: ex_take_def begin_order_def tell_def)
  qed (use ExTake assms(3) in \<open>simp add: ex_take_def\<close>)
next
  case (ExAttempt j)
  show ?thesis
  proof (cases "j < length (ex_busy x)")
    case True
    have "MaxPositions s \<notin> set es" if "filter outcome_effect es = []" for es
      using that by (auto simp: filter_empty_conv)
    then show ?thesis
      using ex_attempt_shape [OF True, of parse dump cfg] assms(3) finish_order_out ExAttempt
      by (auto simp: finish_order_def Let_def tell_def)
  qed (use ExAttempt assms(3) in \<open>simp add: ex_attempt_def\<close>)
qed (use assms(3) in \<open>simp_all add: ex_submit_def ex_stop_def\<close>)

definition no_skip :: "lcfg \<Rightarrow> executor \<Rightarrow> bool" where
  "no_skip cfg x \<longleftrightarrow> ex_ok cfg x \<and> (int (ll_threads cfg) \<le> ll_max_open cfg \<longrightarrow> (\<forall>s. MaxPositions s \<notin> set (ex_out x)))"

interpretation gate_machine: machine "ex_step parse dump cfg" "no_skip cfg" "\<lambda>_. True" for parse dump cfg
  by unfold_locales (simp add: no_skip_def ex_step_ok no_skip_step)

lemma no_skip_run: "no_skip cfg x \<Longrightarrow> no_skip cfg (ex_run parse dump cfg is x)"
  unfolding ex_run_def by (rule gate_machine.run_inv) simp_all

section \<open>An order that failed is sent again\<close>

lemma second_attempt:
  assumes "i < length (ex_busy x)" "ex_busy x ! i = f" "fl_attempt f = 1" "ex_posts x = p # ps"
    and "\<not> pr_ok (fxcm_post parse dump p)"
  shows "ex_busy (ex_attempt parse dump cfg i x) = (ex_busy x)[i := f\<lparr> fl_attempt := 2 \<rparr>]"
  using assms by (simp add: ex_attempt_def Let_def kMaxAttempts_def numeral_2_eq_2)

text \<open>An answer of the success class whose body is no JSON or has no \<open>response\<close> counts as an
  executed order.\<close>

lemma unread_success:
  assumes "200 \<le> status" "status < 300" "parse body = None \<or> (\<exists>kv. parse body = Some (JObj kv) \<and> map_of kv ''response'' = None)"
  shows "pr_ok (fxcm_post parse dump (HttpAnswer status body)) \<and> pr_order (fxcm_post parse dump (HttpAnswer status body)) = []"
  using assms by (auto simp: read_body_def check_executed_def jvalue_def post_result0_def)

end
