(* ===== verification/LeadLog.thy ===== *)
theory LeadLog
  imports LeadSignal
begin

text \<open>
  \<open>src/lead_lag.cpp\<close>, the asynchronous logger: producers append to one queue, a writer thread
  takes entry after entry and appends it to the file of its kind. The disk is a map from paths to
  contents; which paths can be opened, the time of day and the name of the day's log file are
  arguments. Flushing is not modelled: what is written to a stream is in its file.
\<close>

section \<open>Rows\<close>

record trade_row =
  tr_ts :: int64
  tr_direction :: str
  tr_ref :: double
  tr_change :: double
  tr_latency :: double
  tr_status :: int
  tr_order :: str

definition csv_row :: "trade_row \<Rightarrow> str" where
  "csv_row t = take 255 (show_int (tr_ts t) @ '','' @ tr_direction t @ '','' @ fmt_f 6 (tr_ref t) @ '','' @
     fmt_f 4 (tr_change t) @ '','' @ fmt_f 3 (tr_latency t) @ '','' @ show_int (tr_status t) @ '','' @ tr_order t)"

definition tick_row :: "int64 \<Rightarrow> double \<Rightarrow> str" where
  "tick_row ts price = take 63 (show_int ts @ '','' @ fmt_f 6 price)"

definition trade_header :: str where
  "trade_header = ''timestamp,signal_direction,ref_price,change_pct,fxcm_latency_ms,fxcm_status,order_id''"

definition tick_header :: str where
  "tick_header = ''timestamp,price''"

datatype level = Info | Warn | Error | Critical

fun level_str :: "level \<Rightarrow> str" where
  "level_str Info = ''INFO ''"
| "level_str Warn = ''WARN ''"
| "level_str Error = ''ERROR''"
| "level_str Critical = ''CRIT ''"

section \<open>The logger\<close>

datatype entry_kind = LogEntry | TradeEntry | TickEntry

type_synonym entry = "entry_kind \<times> str"

record logger =
  lg_queue :: "entry list"
  lg_running :: bool
  lg_dir :: str
  lg_log :: "str option"
  lg_trade :: "str option"
  lg_tick :: "str option"
  lg_day :: str
  lg_disk :: "str \<Rightarrow> str"

definition logger_init :: "(str \<Rightarrow> str) \<Rightarrow> logger" where
  "logger_init d = \<lparr> lg_queue = [], lg_running = False, lg_dir = ''.'', lg_log = None, lg_trade = None, lg_tick = None,
     lg_day = [], lg_disk = d \<rparr>"

definition lg_start :: "logger \<Rightarrow> logger" where
  "lg_start g = (if lg_running g then g else g\<lparr> lg_running := True \<rparr>)"

definition set_log_dir :: "str \<Rightarrow> logger \<Rightarrow> logger" where
  "set_log_dir dir g = g\<lparr> lg_dir := (if dir = [] then ''.'' else dir) \<rparr>"

definition lg_push :: "entry \<Rightarrow> logger \<Rightarrow> logger" where
  "lg_push e g = g\<lparr> lg_queue := lg_queue g @ [e] \<rparr>"

definition log_raw :: "str \<Rightarrow> level \<Rightarrow> str \<Rightarrow> logger \<Rightarrow> logger" where
  "log_raw hms lvl line = lg_push (LogEntry, ''['' @ hms @ ''] ['' @ level_str lvl @ ''] '' @ line)"

definition log_trade :: "trade_row \<Rightarrow> logger \<Rightarrow> logger" where
  "log_trade t = lg_push (TradeEntry, csv_row t)"

definition log_tick :: "int64 \<Rightarrow> double \<Rightarrow> logger \<Rightarrow> logger" where
  "log_tick now price = lg_push (TickEntry, tick_row now price)"

definition append_line :: "str \<Rightarrow> str \<Rightarrow> logger \<Rightarrow> logger" where
  "append_line path line g = g\<lparr> lg_disk := (lg_disk g)(path := lg_disk g path @ line @ [CHR 0x0A]) \<rparr>"

definition write_log_line :: "(str \<Rightarrow> bool) \<Rightarrow> str \<Rightarrow> str \<Rightarrow> logger \<Rightarrow> logger" where
  "write_log_line can_open day line g =
     (let path = lg_dir g @ ''/'' @ day;
          g = (if day \<noteq> lg_day g then g\<lparr> lg_log := (if can_open path then Some path else None), lg_day := day \<rparr> else g)
      in case lg_log g of None \<Rightarrow> g | Some p \<Rightarrow> append_line p line g)"

text \<open>\<open>write_csv\<close> for the stream held in one of the two fields.\<close>

definition write_csv :: "(str \<Rightarrow> bool) \<Rightarrow> (logger \<Rightarrow> str option) \<Rightarrow> (str option \<Rightarrow> logger \<Rightarrow> logger) \<Rightarrow> str \<Rightarrow> str \<Rightarrow> str \<Rightarrow> logger \<Rightarrow> logger" where
  "write_csv can_open get put name header row g =
     (case get g of
        Some p \<Rightarrow> append_line p row g
      | None \<Rightarrow>
          let full = lg_dir g @ ''/'' @ name in
          if \<not> can_open full then g
          else let g = put (Some full) g;
                   g = (if lg_disk g full = [] then append_line full header g else g)
            in append_line full row g)"

fun write_entry :: "(str \<Rightarrow> bool) \<Rightarrow> str \<Rightarrow> entry \<Rightarrow> logger \<Rightarrow> logger" where
  "write_entry can_open day (LogEntry, line) = write_log_line can_open day line"
| "write_entry can_open day (TradeEntry, row) =
     write_csv can_open lg_trade (\<lambda>p g. g\<lparr> lg_trade := p \<rparr>) ''trades_telemetry.csv'' trade_header row"
| "write_entry can_open day (TickEntry, row) =
     write_csv can_open lg_tick (\<lambda>p g. g\<lparr> lg_tick := p \<rparr>) ''ticks.csv'' tick_header row"

text \<open>One turn of the writer.\<close>

definition lg_turn :: "(str \<Rightarrow> bool) \<Rightarrow> str \<Rightarrow> logger \<Rightarrow> logger" where
  "lg_turn can_open day g = (case lg_queue g of
     [] \<Rightarrow> g
   | e # q \<Rightarrow> if lg_running g then write_entry can_open day e (g\<lparr> lg_queue := q \<rparr>) else g)"

text \<open>\<open>stop ()\<close> returns when the writer has drained the queue; a second call does nothing.\<close>

definition lg_stop :: "(str \<Rightarrow> bool) \<Rightarrow> str \<Rightarrow> logger \<Rightarrow> logger" where
  "lg_stop can_open day g =
     (if \<not> lg_running g then g
      else fold (write_entry can_open day) (lg_queue g) (g\<lparr> lg_running := False, lg_queue := [] \<rparr>))"

datatype lg_input = LgPush entry | LgTurn str | LgStop str

fun lg_step :: "(str \<Rightarrow> bool) \<Rightarrow> lg_input \<Rightarrow> logger \<Rightarrow> logger" where
  "lg_step can_open (LgPush e) g = lg_push e g"
| "lg_step can_open (LgTurn day) g = lg_turn can_open day g"
| "lg_step can_open (LgStop day) g = lg_stop can_open day g"

definition lg_run :: "(str \<Rightarrow> bool) \<Rightarrow> lg_input list \<Rightarrow> logger \<Rightarrow> logger" where
  "lg_run can_open = fold (lg_step can_open)"

section \<open>Every trade row is written once, in order\<close>

definition rows :: "entry_kind \<Rightarrow> entry list \<Rightarrow> str list" where
  "rows k es = map snd (filter (\<lambda>e. fst e = k) es)"

lemma rows_simps [simp]: "rows k [] = []" "rows k (es @ fs) = rows k es @ rows k fs"
  "rows k ((j, r) # es) = (if j = k then r # rows k es else rows k es)"
  by (simp_all add: rows_def)

definition lines :: "str list \<Rightarrow> str" where
  "lines rs = concat (map (\<lambda>r. r @ [CHR 0x0A]) rs)"

lemma lines_simps [simp]: "lines [] = []" "lines (rs @ [r]) = lines rs @ r @ [CHR 0x0A]"
  by (simp_all add: lines_def)

text \<open>The trade file after the rows \<open>rs\<close>: the header is written into an empty file only.\<close>

definition csv_content :: "str \<Rightarrow> str \<Rightarrow> str list \<Rightarrow> str" where
  "csv_content header old rs = (if rs = [] then old else (if old = [] then header @ [CHR 0x0A] else old) @ lines rs)"

definition trade_path :: "logger \<Rightarrow> str" where
  "trade_path g = lg_dir g @ ''/trades_telemetry.csv''"

definition trades_ok :: "str \<Rightarrow> str list \<Rightarrow> logger \<Rightarrow> bool" where
  "trades_ok old rs g \<longleftrightarrow> lg_disk g (trade_path g) = csv_content trade_header old rs \<and>
     (lg_trade g = (if rs = [] then None else Some (trade_path g)))"

text \<open>The other files have other paths.\<close>

lemma log_path_differs: "take 4 day = ''log_'' \<Longrightarrow> dir @ ''/'' @ day \<noteq> dir @ ''/trades_telemetry.csv''"
  by (cases day) auto

definition paths_ok :: "logger \<Rightarrow> bool" where
  "paths_ok g \<longleftrightarrow> (\<forall>p. lg_log g = Some p \<longrightarrow> p \<noteq> trade_path g) \<and> (\<forall>p. lg_tick g = Some p \<longrightarrow> p \<noteq> trade_path g)"

lemma write_entry_trades:
  assumes "trades_ok old rs g" "paths_ok g" "can_open (trade_path g)" "take 4 day = ''log_''"
  shows "trades_ok old (rs @ rows TradeEntry [e]) (write_entry can_open day e g) \<and> paths_ok (write_entry can_open day e g) \<and>
    trade_path (write_entry can_open day e g) = trade_path g \<and> lg_queue (write_entry can_open day e g) = lg_queue g \<and>
    lg_running (write_entry can_open day e g) = lg_running g"
proof -
  obtain k r where e: "e = (k, r)" by fastforce
  have d: "lg_dir g @ CHR ''/'' # day \<noteq> lg_dir g @ ''/trades_telemetry.csv''" using log_path_differs [OF assms(4)] by simp
  show ?thesis
  proof (cases k)
    case LogEntry
    then show ?thesis
      using assms d e
      by (auto simp: write_log_line_def append_line_def trades_ok_def paths_ok_def trade_path_def Let_def split: option.splits)
  next
    case TradeEntry
    then show ?thesis
      using assms e
      by (auto simp: write_csv_def append_line_def trades_ok_def paths_ok_def trade_path_def csv_content_def Let_def
          lines_def trade_header_def split: option.splits if_splits)
  next
    case TickEntry
    then show ?thesis
      using assms e
      by (auto simp: write_csv_def append_line_def trades_ok_def paths_ok_def trade_path_def Let_def split: option.splits)
  qed
qed

fun day_ok :: "lg_input \<Rightarrow> bool" where
  "day_ok (LgPush _) = True"
| "day_ok (LgTurn d) = (take 4 d = ''log_'')"
| "day_ok (LgStop d) = (take 4 d = ''log_'')"

fun pushed_before_stop :: "lg_input list \<Rightarrow> entry list" where
  "pushed_before_stop [] = []"
| "pushed_before_stop (LgPush e # is) = e # pushed_before_stop is"
| "pushed_before_stop (LgTurn _ # is) = pushed_before_stop is"
| "pushed_before_stop (LgStop _ # is) = []"

lemma write_all_trades:
  assumes "trades_ok old rs g" "paths_ok g" "can_open (trade_path g)" "take 4 day = ''log_''"
  shows "trades_ok old (rs @ rows TradeEntry es) (fold (write_entry can_open day) es g) \<and>
    trade_path (fold (write_entry can_open day) es g) = trade_path g \<and>
    lg_running (fold (write_entry can_open day) es g) = lg_running g"
  using assms(1-3)
proof (induction es arbitrary: rs g)
  case (Cons e es)
  obtain k r where e: "e = (k, r)" by fastforce
  note w = write_entry_trades [where can_open = can_open, OF Cons.prems assms(4), of e]
  show ?case
    using Cons.IH [of "rs @ rows TradeEntry [e]" "write_entry can_open day e g"] w Cons.prems e by auto
qed simp

lemma run_stopped:
  assumes "\<not> lg_running g"
  shows "lg_disk (lg_run can_open is g) = lg_disk g"
  using assms unfolding lg_run_def
proof (induction "is" arbitrary: g)
  case (Cons i "is")
  have "lg_disk (lg_step can_open i g) = lg_disk g \<and> \<not> lg_running (lg_step can_open i g)"
    using Cons.prems by (cases i) (auto simp: lg_push_def lg_turn_def lg_stop_def split: list.splits)
  then show ?case using Cons.IH [of "lg_step can_open i g"] by simp
qed simp

lemma run_trades:
  assumes "lg_running g" "trades_ok old rs g" "paths_ok g" "can_open (trade_path g)" "\<forall>i\<in>set is. day_ok i" "\<exists>d. LgStop d \<in> set is"
  shows "lg_disk (lg_run can_open is g) (trade_path g) =
    csv_content trade_header old (rs @ rows TradeEntry (lg_queue g) @ rows TradeEntry (pushed_before_stop is))"
  using assms
proof (induction "is" arbitrary: rs g)
  case (Cons i "is")
  show ?case
  proof (cases i)
    case (LgPush e)
    have "trades_ok old rs (lg_push e g)" "paths_ok (lg_push e g)" "trade_path (lg_push e g) = trade_path g"
      using Cons.prems by (simp_all add: lg_push_def trades_ok_def paths_ok_def trade_path_def)
    then show ?thesis
      using Cons.IH [of "lg_push e g" rs] Cons.prems LgPush
      by (cases e) (auto simp: lg_run_def lg_push_def)
  next
    case (LgTurn d)
    show ?thesis
    proof (cases "lg_queue g")
      case Nil
      then show ?thesis using Cons LgTurn by (auto simp: lg_run_def lg_turn_def)
    next
      case (Cons e q)
      let ?g = "g\<lparr> lg_queue := q \<rparr>"
      have p: "trades_ok old rs ?g" "paths_ok ?g" "can_open (trade_path ?g)" "trade_path ?g = trade_path g"
        using Cons.prems by (simp_all add: trades_ok_def paths_ok_def trade_path_def)
      have "take 4 d = ''log_''" using Cons.prems(5) LgTurn by simp
      note w = write_entry_trades [where can_open = can_open, OF p(1-3) this, of e]
      have "rs @ rows TradeEntry (e # q) = (rs @ rows TradeEntry [e]) @ rows TradeEntry q" by (cases e) simp
      then show ?thesis
        using Cons.IH [of "write_entry can_open d e ?g" "rs @ rows TradeEntry [e]"] w p Cons.prems LgTurn Cons
        by (auto simp: lg_run_def lg_turn_def)
    qed
  next
    case (LgStop d)
    let ?g = "g\<lparr> lg_running := False, lg_queue := [] \<rparr>"
    have p: "trades_ok old rs ?g" "paths_ok ?g" "can_open (trade_path ?g)" "trade_path ?g = trade_path g" "\<not> lg_running ?g"
      using Cons.prems by (simp_all add: trades_ok_def paths_ok_def trade_path_def)
    have "take 4 d = ''log_''" using Cons.prems(5) LgStop by simp
    note w = write_all_trades [where can_open = can_open, OF p(1-3) this, of "lg_queue g"]
    then have "lg_disk (lg_run can_open (i # is) g) = lg_disk (fold (write_entry can_open d) (lg_queue g) ?g)"
      using LgStop Cons.prems(1) p(5) run_stopped [of "fold (write_entry can_open d) (lg_queue g) ?g" can_open "is"]
      by (simp add: lg_run_def lg_stop_def)
    moreover have "trade_path (fold (write_entry can_open d) (lg_queue g) ?g) = trade_path g" using w p(4) by simp
    moreover have "lg_disk (fold (write_entry can_open d) (lg_queue g) ?g) (trade_path (fold (write_entry can_open d) (lg_queue g) ?g)) =
        csv_content trade_header old (rs @ rows TradeEntry (lg_queue g))"
      using conjunct1 [OF w] unfolding trades_ok_def by (rule conjunct1)
    ultimately show ?thesis using LgStop by simp
  qed
qed simp

end
