(* ===== verification/LeadBot.thy ===== *)
theory LeadBot
  imports LeadOrders LeadLog Feeds
begin

text \<open>
  \<open>src/lead_lag.cpp\<close>, the WebSocket client with its reconnection, and the program that joins it to
  the signal generator and the executor. Its session passes through the same completions as
  the Binance session of the engine. One input is one completion, one fired timer or one step of the executor.
\<close>

section \<open>The client\<close>

record client =
  cl_stopped :: bool
  cl_sessions :: "feed_phase list"
  cl_timers :: "double list"
  cl_delay :: double
  cl_gen :: generator
  cl_exec :: executor
  cl_ticks :: "(instant \<times> double) list"
  cl_log :: logger
  cl_rows :: "trade_row list"

text \<open>
  \<open>cl_ticks\<close> are the ticks that were handed to the signal generator and \<open>cl_rows\<close> the trade rows
  that were handed to the logger.
\<close>

definition client_init :: "executor \<Rightarrow> logger \<Rightarrow> client" where
  "client_init x lg = \<lparr> cl_stopped = False, cl_sessions = [], cl_timers = [], cl_delay = lit 2.0,
     cl_gen = generator_init, cl_exec = x, cl_ticks = [],
     cl_log = lg, cl_rows = [] \<rparr>"

definition start_session :: "client \<Rightarrow> client" where
  "start_session c = c\<lparr> cl_sessions := cl_sessions c @ [Resolve] \<rparr>"

definition cl_start :: "lcfg \<Rightarrow> client \<Rightarrow> client" where
  "cl_start cfg c = start_session (c\<lparr> cl_delay := ll_base_s cfg \<rparr>)"

definition cl_stop :: "client \<Rightarrow> client" where
  "cl_stop c = c\<lparr> cl_stopped := True \<rparr>"

definition on_session_failed :: "lcfg \<Rightarrow> client \<Rightarrow> client" where
  "on_session_failed cfg c =
     (if cl_stopped c then c
      else c\<lparr> cl_delay := dmin (cl_delay c * lit 2.0) (ll_max_s cfg), cl_timers := cl_timers c @ [cl_delay c] \<rparr>)"

definition cl_fail :: "lcfg \<Rightarrow> nat \<Rightarrow> client \<Rightarrow> client" where
  "cl_fail cfg i c = on_session_failed cfg (c\<lparr> cl_sessions := remove_nth i (cl_sessions c) \<rparr>)"

text \<open>The handler of the timer.\<close>

definition on_timer :: "lcfg \<Rightarrow> nat \<Rightarrow> bool \<Rightarrow> client \<Rightarrow> client" where
  "on_timer cfg i cancelled c =
     (let c = c\<lparr> cl_timers := remove_nth i (cl_timers c) \<rparr>
      in if cancelled \<or> cl_stopped c then c else start_session (c\<lparr> cl_delay := ll_base_s cfg \<rparr>))"

text \<open>The price of a trade message; an exception or a message without price is \<open>None\<close>.\<close>

definition message_price :: "(str \<Rightarrow> json option) \<Rightarrow> str \<Rightarrow> double option" where
  "message_price parse msg = (case parse msg of
     None \<Rightarrow> None
   | Some j \<Rightarrow> (case jvalue j ''p'' (JStr []) of
       Some (JStr ps) \<Rightarrow> if ps = [] then None else (case stod ps of Inl _ \<Rightarrow> None | Inr price \<Rightarrow> Some price)
     | _ \<Rightarrow> None))"

definition handle_trade :: "lcfg \<Rightarrow> instant \<Rightarrow> double \<Rightarrow> client \<Rightarrow> client" where
  "handle_trade cfg now price c =
     (let (sig, g) = gen_update cfg now price (cl_gen c);
          c = c\<lparr> cl_gen := g, cl_ticks := cl_ticks c @ [(now, price)] \<rparr>
      in case sig of None \<Rightarrow> c | Some s \<Rightarrow> c\<lparr> cl_exec := ex_submit s (cl_exec c) \<rparr>)"

text \<open>\<open>ms\<close> is the time of day of the tick row.\<close>

definition lead_handle :: "(str \<Rightarrow> json option) \<Rightarrow> lcfg \<Rightarrow> instant \<Rightarrow> int64 \<Rightarrow> str \<Rightarrow> client \<Rightarrow> client" where
  "lead_handle parse cfg now ms msg c = (case message_price parse msg of
     None \<Rightarrow> c
   | Some p \<Rightarrow> handle_trade cfg now p (if ll_log_ticks cfg then c\<lparr> cl_log := log_tick ms p (cl_log c) \<rparr> else c))"

section \<open>The program\<close>

text \<open>The trade row of an order that has ended at \<open>ms\<close> after \<open>lat\<close> milliseconds.\<close>

fun row_of :: "int64 \<Rightarrow> double \<Rightarrow> order_effect \<Rightarrow> trade_row list" where
  "row_of ms lat (TradeRow dir ref chg status order) =
     [\<lparr> tr_ts = ms, tr_direction = dir, tr_ref = ref, tr_change = chg, tr_latency = lat, tr_status = status, tr_order = order \<rparr>]"
| "row_of ms lat _ = []"

definition log_rows :: "trade_row list \<Rightarrow> client \<Rightarrow> client" where
  "log_rows rs c = c\<lparr> cl_log := fold log_trade rs (cl_log c), cl_rows := cl_rows c @ rs \<rparr>"

text \<open>One request of the \<open>i\<close>-th order under way, with the row of an order that ends with it.\<close>

definition bot_attempt :: "(str \<Rightarrow> json option) \<Rightarrow> (json \<Rightarrow> str) \<Rightarrow> lcfg \<Rightarrow> nat \<Rightarrow> int64 \<Rightarrow> double \<Rightarrow> client \<Rightarrow> client" where
  "bot_attempt parse dump cfg i ms lat c =
     (let x = ex_attempt parse dump cfg i (cl_exec c);
          new = drop (length (ex_out (cl_exec c))) (ex_out x)
      in log_rows (concat (map (row_of ms lat) new)) (c\<lparr> cl_exec := x \<rparr>))"

text \<open>\<open>main ()\<close> up to the start of the reactor, and after its end.\<close>

definition bot_start :: "lcfg \<Rightarrow> http_outcome list \<Rightarrow> (str \<Rightarrow> str) \<Rightarrow> client" where
  "bot_start cfg posts disk =
     cl_start cfg (client_init (executor_init posts) (lg_start (set_log_dir (ll_log_dir cfg) (logger_init disk))))"

definition bot_end :: "(str \<Rightarrow> bool) \<Rightarrow> str \<Rightarrow> client \<Rightarrow> client" where
  "bot_end can_open day c = c\<lparr> cl_exec := ex_stop (cl_exec c), cl_log := lg_stop can_open day (cl_log c) \<rparr>"

datatype bot_input =
    BotDone nat
  | BotFailed nat
  | BotMessage nat instant int64 str
  | BotTimer nat bool
  | BotStop
  | BotTake
  | BotAttempt nat int64 double
  | BotLine str
  | BotWriter str

text \<open>\<open>BotLine\<close> is a log line of any component, \<open>BotWriter\<close> a turn of the logger's thread.\<close>

fun bot_step :: "(str \<Rightarrow> json option) \<Rightarrow> (json \<Rightarrow> str) \<Rightarrow> (str \<Rightarrow> bool) \<Rightarrow> lcfg \<Rightarrow> bot_input \<Rightarrow> client \<Rightarrow> client" where
  "bot_step parse dump can_open cfg (BotDone i) c =
     (if i < length (cl_sessions c) \<and> cl_sessions c ! i \<noteq> Read
      then c\<lparr> cl_sessions := (cl_sessions c)[i := next_phase KBinance (cl_sessions c ! i)] \<rparr> else c)"
| "bot_step parse dump can_open cfg (BotFailed i) c = (if i < length (cl_sessions c) then cl_fail cfg i c else c)"
| "bot_step parse dump can_open cfg (BotMessage i now ms msg) c =
     (if i < length (cl_sessions c) \<and> cl_sessions c ! i = Read then lead_handle parse cfg now ms msg c else c)"
| "bot_step parse dump can_open cfg (BotTimer i cancelled) c = (if i < length (cl_timers c) then on_timer cfg i cancelled c else c)"
| "bot_step parse dump can_open cfg BotStop c = cl_stop c"
| "bot_step parse dump can_open cfg BotTake c = c\<lparr> cl_exec := ex_take dump cfg (cl_exec c) \<rparr>"
| "bot_step parse dump can_open cfg (BotAttempt i ms lat) c = bot_attempt parse dump cfg i ms lat c"
| "bot_step parse dump can_open cfg (BotLine line) c = c\<lparr> cl_log := lg_push (LogEntry, line) (cl_log c) \<rparr>"
| "bot_step parse dump can_open cfg (BotWriter day) c = c\<lparr> cl_log := lg_turn can_open day (cl_log c) \<rparr>"

definition bot_run :: "(str \<Rightarrow> json option) \<Rightarrow> (json \<Rightarrow> str) \<Rightarrow> (str \<Rightarrow> bool) \<Rightarrow> lcfg \<Rightarrow> bot_input list \<Rightarrow> client \<Rightarrow> client" where
  "bot_run parse dump can_open cfg = fold (bot_step parse dump can_open cfg)"

section \<open>The delay never grows\<close>

text \<open>
  One session or one timer at a time; the delay is the base while a session runs, and every
  timer was armed with the base.
\<close>

definition conn_ok :: "lcfg \<Rightarrow> client \<Rightarrow> bool" where
  "conn_ok cfg c \<longleftrightarrow> length (cl_sessions c) + length (cl_timers c) \<le> 1 \<and>
     (cl_sessions c \<noteq> [] \<longrightarrow> cl_delay c = ll_base_s cfg) \<and> (\<forall>d\<in>set (cl_timers c). d = ll_base_s cfg)"

lemma conn_ok_start: "conn_ok cfg (bot_start cfg posts disk)"
  by (simp add: conn_ok_def bot_start_def cl_start_def client_init_def start_session_def)

lemma lead_handle_conn [simp]:
  "cl_sessions (lead_handle parse cfg now ms msg c) = cl_sessions c" "cl_timers (lead_handle parse cfg now ms msg c) = cl_timers c"
  "cl_delay (lead_handle parse cfg now ms msg c) = cl_delay c" "cl_stopped (lead_handle parse cfg now ms msg c) = cl_stopped c"
  by (simp_all add: lead_handle_def handle_trade_def split_beta Let_def split: option.split)

lemma conn_ok_step: "conn_ok cfg c \<Longrightarrow> conn_ok cfg (bot_step parse dump can_open cfg i c)"
proof (cases i)
  case (BotFailed n)
  assume "conn_ok cfg c"
  then show ?thesis using BotFailed
    by (cases "cl_sessions c") (auto simp: conn_ok_def cl_fail_def on_session_failed_def remove_nth_def)
next
  case (BotTimer n b)
  assume "conn_ok cfg c"
  then show ?thesis using BotTimer
    by (cases "cl_timers c") (auto simp: conn_ok_def on_timer_def start_session_def remove_nth_def Let_def)
qed (auto simp: conn_ok_def cl_stop_def bot_attempt_def log_rows_def Let_def)

interpretation conn_machine: machine "bot_step parse dump can_open cfg" "conn_ok cfg" "\<lambda>_. True" for parse dump can_open cfg
  by unfold_locales (rule conn_ok_step)

lemma conn_ok_run: "conn_ok cfg c \<Longrightarrow> conn_ok cfg (bot_run parse dump can_open cfg is c)"
  unfolding bot_run_def by (rule conn_machine.run_inv) simp_all

section \<open>The pipeline\<close>

lemma gen_run_snoc:
  "gen_run cfg (ts @ [(now, p)]) g = (let (out, g1) = gen_run cfg ts g; (s, g2) = gen_update cfg now p g1
     in (out @ (case s of None \<Rightarrow> [] | Some x \<Rightarrow> [(now, x)]), g2))"
proof (induction ts arbitrary: g)
  case (Cons e ts)
  then show ?case by (cases e) (simp add: split_beta Let_def split: option.split)
qed (simp add: split_beta Let_def split: option.split)

text \<open>The generator has seen the ticks, and the executor knows one order per signal.\<close>

definition pipe_ok :: "lcfg \<Rightarrow> client \<Rightarrow> bool" where
  "pipe_ok cfg c \<longleftrightarrow> cl_gen c = snd (gen_run cfg (cl_ticks c) generator_init) \<and>
     ex_ok cfg (cl_exec c) \<and> known (cl_exec c) = length (fst (gen_run cfg (cl_ticks c) generator_init))"

lemma pipe_ok_trade: "pipe_ok cfg c \<Longrightarrow> pipe_ok cfg (handle_trade cfg now price c)"
  by (auto simp: pipe_ok_def handle_trade_def gen_run_snoc split_beta Let_def ex_submit_def ex_ok_def known_def split: option.split)

lemma pipe_ok_log: "pipe_ok cfg (c\<lparr> cl_log := g \<rparr>) = pipe_ok cfg c"
  by (simp add: pipe_ok_def)

lemma pipe_ok_step: "pipe_ok cfg c \<Longrightarrow> pipe_ok cfg (bot_step parse dump can_open cfg i c)"
proof (cases i)
  case (BotMessage n now ms msg)
  assume "pipe_ok cfg c"
  then show ?thesis using BotMessage pipe_ok_trade [of cfg "c\<lparr> cl_log := g \<rparr>" for g] pipe_ok_trade [of cfg c]
    by (auto simp: lead_handle_def pipe_ok_log split: option.split)
qed (auto simp: pipe_ok_def cl_fail_def on_session_failed_def on_timer_def start_session_def cl_stop_def bot_attempt_def log_rows_def Let_def
    dest: ex_take_ok ex_attempt_ok)

interpretation pipe_machine: machine "bot_step parse dump can_open cfg" "pipe_ok cfg" "\<lambda>_. True" for parse dump can_open cfg
  by unfold_locales (rule pipe_ok_step)

lemma pipe_ok_run: "pipe_ok cfg c \<Longrightarrow> pipe_ok cfg (bot_run parse dump can_open cfg is c)"
  unfolding bot_run_def by (rule pipe_machine.run_inv) simp_all

lemma pipe_ok_start: "pipe_ok cfg (bot_start cfg posts disk)"
  by (simp add: pipe_ok_def bot_start_def cl_start_def start_session_def client_init_def ex_ok_init)

section \<open>Every order that ends has its row in the file\<close>

definition trade_effects :: "order_effect list \<Rightarrow> order_effect list" where
  "trade_effects = filter (\<lambda>e. case e of TradeRow _ _ _ _ _ \<Rightarrow> True | _ \<Rightarrow> False)"

definition effect_of :: "trade_row \<Rightarrow> order_effect" where
  "effect_of t = TradeRow (tr_direction t) (tr_ref t) (tr_change t) (tr_status t) (tr_order t)"

lemma trade_effects_rows: "map effect_of (concat (map (row_of ms lat) es)) = trade_effects es"
  by (induction es) (auto simp: trade_effects_def effect_of_def elim!: row_of.elims split: order_effect.split)

text \<open>The rows written are the rows handed over, less those that are queued.\<close>

definition log_ok :: "str \<Rightarrow> str \<Rightarrow> str list \<Rightarrow> logger \<Rightarrow> bool" where
  "log_ok old path all g \<longleftrightarrow> lg_running g \<and> paths_ok g \<and> trade_path g = path \<and>
     (\<exists>rs. trades_ok old rs g \<and> rs @ rows TradeEntry (lg_queue g) = all)"

definition file_ok :: "str \<Rightarrow> str \<Rightarrow> client \<Rightarrow> bool" where
  "file_ok old path c \<longleftrightarrow> log_ok old path (map csv_row (cl_rows c)) (cl_log c) \<and>
     map effect_of (cl_rows c) = trade_effects (ex_out (cl_exec c))"

lemma log_ok_push: "log_ok old path all g \<Longrightarrow> log_ok old path (all @ rows TradeEntry [e]) (lg_push e g)"
proof -
  assume ok: "log_ok old path all g"
  have "paths_ok (lg_push e g) = paths_ok g" "trade_path (lg_push e g) = trade_path g" "lg_running (lg_push e g) = lg_running g"
    "trades_ok old rs (lg_push e g) = trades_ok old rs g" "lg_queue (lg_push e g) = lg_queue g @ [e]" for rs
    by (simp_all add: lg_push_def paths_ok_def trades_ok_def trade_path_def)
  note same = this
  obtain rs where "trades_ok old rs g" "rs @ rows TradeEntry (lg_queue g) = all" using ok unfolding log_ok_def by blast
  then have "trades_ok old rs (lg_push e g) \<and> rs @ rows TradeEntry (lg_queue (lg_push e g)) = all @ rows TradeEntry [e]"
    by (simp only: same rows_simps append_assoc [symmetric])
  then show ?thesis using ok same(1-3) unfolding log_ok_def by blast
qed

lemma log_ok_rows: "log_ok old path all g \<Longrightarrow> log_ok old path (all @ map csv_row rs) (fold log_trade rs g)"
proof (induction rs arbitrary: all g)
  case (Cons t rs)
  have "log_ok old path (all @ [csv_row t]) (log_trade t g)"
    using log_ok_push [OF Cons.prems, of "(TradeEntry, csv_row t)"] by (simp add: log_trade_def)
  from Cons.IH [OF this] show ?case by simp
qed simp

lemma log_ok_turn:
  assumes "log_ok old path all g" "can_open path" "take 4 day = ''log_''"
  shows "log_ok old path all (lg_turn can_open day g)"
proof (cases "lg_queue g")
  case (Cons e q)
  obtain rs where rs: "trades_ok old rs g" "rs @ rows TradeEntry (e # q) = all" "lg_running g" "paths_ok g" "trade_path g = path"
    using assms(1) Cons unfolding log_ok_def by auto
  let ?g = "g\<lparr> lg_queue := q \<rparr>"
  have p: "trades_ok old rs ?g" "paths_ok ?g" "can_open (trade_path ?g)" "trade_path ?g = path"
    using rs assms(2) by (simp_all add: trades_ok_def paths_ok_def trade_path_def)
  have "(rs @ rows TradeEntry [e]) @ rows TradeEntry q = all" using rs(2) by (cases e) (simp split: if_splits)
  then show ?thesis
    using write_entry_trades [where can_open = can_open, OF p(1-3) assms(3), of e] p(4) rs(3) Cons
    unfolding log_ok_def lg_turn_def by auto
qed (use assms(1) in \<open>simp add: lg_turn_def\<close>)

text \<open>Nothing but a request that ends an order reports a trade row.\<close>

lemma ex_take_out: "trade_effects (ex_out (ex_take dump cfg x)) = trade_effects (ex_out x)"
  by (simp add: ex_take_def begin_order_def tell_def trade_effects_def split: option.split)

lemma ex_attempt_out: "\<exists>es. ex_out (ex_attempt parse dump cfg i x) = ex_out x @ es"
proof (cases "i < length (ex_busy x)")
  case True
  from ex_attempt_shape [OF this, of parse dump cfg] show ?thesis
    by (elim exE conjE disjE) (simp_all add: finish_order_def tell_def Let_def)
qed (simp add: ex_attempt_def)

fun bot_day_ok :: "bot_input \<Rightarrow> bool" where
  "bot_day_ok (BotWriter day) = (take 4 day = ''log_'')"
| "bot_day_ok _ = True"

lemma file_ok_attempt: "file_ok old path c \<Longrightarrow> file_ok old path (bot_attempt parse dump cfg i ms lat c)"
proof -
  assume ok: "file_ok old path c"
  obtain es where es: "ex_out (ex_attempt parse dump cfg i (cl_exec c)) = ex_out (cl_exec c) @ es"
    using ex_attempt_out by blast
  let ?rs = "concat (map (row_of ms lat) es)"
  have "log_ok old path (map csv_row (cl_rows c) @ map csv_row ?rs) (fold log_trade ?rs (cl_log c))"
    using ok by (intro log_ok_rows) (simp add: file_ok_def)
  then show ?thesis
    using ok trade_effects_rows [of ms lat es] es
    by (simp add: file_ok_def bot_attempt_def log_rows_def trade_effects_def)
qed

lemma file_ok_step:
  assumes "file_ok old path c" "can_open path" "bot_day_ok i"
  shows "file_ok old path (bot_step parse dump can_open cfg i c)"
proof (cases i)
  case (BotAttempt n ms lat)
  then show ?thesis using file_ok_attempt [OF assms(1)] by simp
next
  case (BotWriter day)
  then show ?thesis using log_ok_turn assms by (simp add: file_ok_def)
next
  case (BotLine line)
  then show ?thesis using log_ok_push [of old path _ _ "(LogEntry, line)"] assms(1) by (simp add: file_ok_def)
next
  case (BotMessage n now ms msg)
  have "file_ok old path (c\<lparr> cl_log := log_tick ms p (cl_log c) \<rparr>)" for p
    using log_ok_push [of old path _ _ "(TickEntry, tick_row ms p)"] assms(1) by (simp add: file_ok_def log_tick_def)
  then show ?thesis
    using assms(1) BotMessage
    by (auto simp: lead_handle_def handle_trade_def file_ok_def ex_submit_def split_beta Let_def split: option.split)
qed (use assms in \<open>auto simp: file_ok_def ex_take_out cl_fail_def on_session_failed_def on_timer_def start_session_def
      cl_stop_def Let_def\<close>)

interpretation file_machine: machine "bot_step parse dump can_open cfg" "\<lambda>c. can_open path \<and> file_ok old path c" bot_day_ok
  for parse dump can_open cfg path old
  by unfold_locales (simp add: file_ok_step)

lemma file_ok_run:
  "file_ok old path c \<Longrightarrow> can_open path \<Longrightarrow> \<forall>i\<in>set is. bot_day_ok i \<Longrightarrow> file_ok old path (bot_run parse dump can_open cfg is c)"
  unfolding bot_run_def using file_machine.run_inv [of can_open path old c "is" parse dump cfg] by blast

section \<open>The executor in the program\<close>

text \<open>What the program does to its executor is a run of the executor alone.\<close>

lemma bot_step_exec: "\<exists>xs. cl_exec (bot_step parse dump can_open cfg i c) = ex_run parse dump cfg xs (cl_exec c)"
proof -
  have trade: "\<exists>xs. cl_exec (handle_trade cfg now p d) = ex_run parse dump cfg xs (cl_exec c)" if "cl_exec d = cl_exec c" for now p d
  proof (cases "fst (gen_update cfg now p (cl_gen d))")
    case None
    then show ?thesis using that by (intro exI [of _ "[]"]) (simp add: handle_trade_def split_beta Let_def ex_run_def)
  next
    case (Some s)
    then show ?thesis
      using that by (intro exI [of _ "[ExSubmit s]"]) (simp add: handle_trade_def split_beta Let_def ex_run_def)
  qed
  have idle: "\<exists>xs. cl_exec c = ex_run parse dump cfg xs (cl_exec c)" by (rule exI [of _ "[]"]) (simp add: ex_run_def)
  then have sub: "\<exists>xs. cl_exec (lead_handle parse cfg now ms msg c) = ex_run parse dump cfg xs (cl_exec c)" for now ms msg
    using trade by (cases "message_price parse msg") (simp_all add: lead_handle_def)
  show ?thesis
  proof (cases i)
    case BotTake
    then show ?thesis by (intro exI [of _ "[ExTake]"]) (simp add: ex_run_def)
  next
    case (BotAttempt n ms lat)
    then show ?thesis by (intro exI [of _ "[ExAttempt n]"]) (simp add: ex_run_def bot_attempt_def log_rows_def Let_def)
  qed (use sub idle in \<open>auto simp: cl_fail_def on_session_failed_def on_timer_def start_session_def cl_stop_def Let_def\<close>)
qed

interpretation exec_machine: progressing "bot_step parse dump can_open cfg"
  "\<lambda>c d. \<exists>xs. cl_exec d = ex_run parse dump cfg xs (cl_exec c)" for parse dump can_open cfg
proof (unfold_locales)
  show "\<exists>xs. cl_exec d = ex_run parse dump cfg xs (cl_exec d)" for d by (rule exI [of _ "[]"]) (simp add: ex_run_def)
  show "\<exists>xs. cl_exec e = ex_run parse dump cfg xs (cl_exec c)"
    if "\<exists>xs. cl_exec d = ex_run parse dump cfg xs (cl_exec c)" "\<exists>xs. cl_exec e = ex_run parse dump cfg xs (cl_exec d)" for c d e
    using that unfolding ex_run_def by (metis fold_append comp_apply)
qed (rule bot_step_exec)

lemma bot_run_exec: "\<exists>xs. cl_exec (bot_run parse dump can_open cfg is c) = ex_run parse dump cfg xs (cl_exec c)"
  unfolding bot_run_def by (rule exec_machine.run_rel)

definition lead_trades_path :: "lcfg \<Rightarrow> str" where
  "lead_trades_path cfg = (if ll_log_dir cfg = [] then ''.'' else ll_log_dir cfg) @ ''/trades_telemetry.csv''"

lemma file_ok_start: "file_ok (disk (lead_trades_path cfg)) (lead_trades_path cfg) (bot_start cfg posts disk)"
  by (simp add: file_ok_def log_ok_def bot_start_def cl_start_def start_session_def client_init_def executor_init_def
      lg_start_def set_log_dir_def logger_init_def paths_ok_def trades_ok_def trade_path_def lead_trades_path_def
      csv_content_def trade_effects_def)

lemma bot_end_file:
  assumes "file_ok old path c" "can_open path" "take 4 day = ''log_''"
  shows "lg_disk (cl_log (bot_end can_open day c)) path = csv_content trade_header old (map csv_row (cl_rows c))"
proof -
  let ?g = "cl_log c"
  obtain rs where rs: "trades_ok old rs ?g" "rs @ rows TradeEntry (lg_queue ?g) = map csv_row (cl_rows c)" "lg_running ?g"
    "paths_ok ?g" "trade_path ?g = path"
    using assms(1) unfolding file_ok_def log_ok_def by auto
  have "lg_disk (lg_run can_open [LgStop day] ?g) (trade_path ?g) =
      csv_content trade_header old (rs @ rows TradeEntry (lg_queue ?g) @ rows TradeEntry (pushed_before_stop [LgStop day]))"
    using rs assms(2,3) by (intro run_trades) auto
  then show ?thesis using rs by (simp add: lg_run_def bot_end_def)
qed

end
