(* ===== verification/LeadPost.thy ===== *)
theory LeadPost
  imports LeadOrders
begin

text \<open>
  The request of the stand-alone bot's orders (\<open>fxcm_post\<close> of \<open>src/lead_lag.cpp\<close>): what it asks of the network
  library, in order, until an answer or an exception, and the request it writes. The length field that
  \<open>prepare_payload ()\<close> adds is the library's. Then what the two attempts of an order put on the wire.
\<close>

section \<open>One exchange\<close>

record http_request =
  rq_target :: str
  rq_fields :: "(str \<times> str) list"
  rq_body :: str

definition fxcm_request :: "lcfg \<Rightarrow> str \<Rightarrow> http_request" where
  "fxcm_request cfg body = \<lparr> rq_target = ll_path cfg,
     rq_fields = [(''Host'', ll_host cfg), (''User-Agent'', ''lead-lag-hft/1.0''), (''Accept'', ''application/json''),
       (''Content-Type'', if ll_use_json cfg then ''application/json'' else ''application/x-www-form-urlencoded''),
       (''Authorization'', ''Bearer '' @ ll_token cfg)],
     rq_body = body \<rparr>"

text \<open>The calls of the library; each may throw, with a text.\<close>

datatype net_call = Resolve str str | Connect | Handshake | WriteRequest http_request | ReadResponse

datatype net_act = Deadline int | Call net_call | ShutSocket

datatype net_answer = Breaks nat str | Answers int str

definition exchange_calls :: "lcfg \<Rightarrow> str \<Rightarrow> net_call list" where
  "exchange_calls cfg body = [Resolve (ll_host cfg) (ll_port cfg), Connect, Handshake, WriteRequest (fxcm_request cfg body), ReadResponse]"

definition guarded :: "lcfg \<Rightarrow> net_call \<Rightarrow> net_act list" where
  "guarded cfg c = (case c of Resolve h p \<Rightarrow> [Call c] | _ \<Rightarrow> [Deadline (ll_timeout_ms cfg), Call c])"

text \<open>\<open>Breaks n e\<close>: the call number \<open>n\<close> throws.\<close>

definition fxcm_exchange :: "lcfg \<Rightarrow> str \<Rightarrow> net_answer \<Rightarrow> http_outcome \<times> net_act list" where
  "fxcm_exchange cfg body a = (case a of
     Breaks n e \<Rightarrow> (NetError e, concat (map (guarded cfg) (take (Suc n) (exchange_calls cfg body))))
   | Answers status text \<Rightarrow> (HttpAnswer status text, concat (map (guarded cfg) (exchange_calls cfg body)) @ [ShutSocket]))"

definition outcome_of :: "net_answer \<Rightarrow> http_outcome" where
  "outcome_of a = (case a of Breaks n e \<Rightarrow> NetError e | Answers status text \<Rightarrow> HttpAnswer status text)"

lemma exchange_outcome: "fst (fxcm_exchange cfg body a) = outcome_of a"
  by (simp add: fxcm_exchange_def outcome_of_def split: net_answer.split)

text \<open>An exchange that throws ends with the call that threw: the request has been written when another call follows
  the write.\<close>

fun written :: "net_act list \<Rightarrow> http_request list" where
  "written [] = []"
| "written [Call (WriteRequest q)] = []"
| "written (Call (WriteRequest q) # as) = q # written as"
| "written (a # as) = written as"

text \<open>So when only the read threw, or nothing.\<close>

definition reached :: "net_answer \<Rightarrow> bool" where
  "reached a \<longleftrightarrow> (case a of Breaks n e \<Rightarrow> 4 \<le> n | Answers status text \<Rightarrow> True)"

lemma exchange_written:
  "written (snd (fxcm_exchange cfg body a)) = (if reached a then [fxcm_request cfg body] else [])"
proof (cases a)
  case (Breaks n e)
  consider "n = 0" | "n = 1" | "n = 2" | "n = 3" | "4 \<le> n" by linarith
  then show ?thesis
    by cases (simp_all add: Breaks fxcm_exchange_def exchange_calls_def guarded_def reached_def numeral_eq_Suc)
qed (simp add: fxcm_exchange_def exchange_calls_def guarded_def reached_def)

section \<open>The attempts of one order\<close>

definition accepted :: "(str \<Rightarrow> json option) \<Rightarrow> (json \<Rightarrow> str) \<Rightarrow> net_answer \<Rightarrow> bool" where
  "accepted parse dump a \<longleftrightarrow> pr_ok (fxcm_post parse dump (outcome_of a))"

text \<open>An exception is never an acceptance, and an acceptance has reached the broker.\<close>

lemma accepted_reached: "accepted parse dump a \<Longrightarrow> reached a"
  by (cases a) (simp_all add: accepted_def outcome_of_def reached_def post_result0_def)

fun bodies_posted :: "order_effect list \<Rightarrow> str list" where
  "bodies_posted [] = []"
| "bodies_posted (Post b # es) = b # bodies_posted es"
| "bodies_posted (_ # es) = bodies_posted es"

lemma bodies_posted_append [simp]: "bodies_posted (es @ fs) = bodies_posted es @ bodies_posted fs"
  by (induction es rule: bodies_posted.induct) simp_all

definition order_row :: "lead_signal \<Rightarrow> post_result \<Rightarrow> order_effect" where
  "order_row s r = TradeRow (ls_direction s) (ls_ref s) (ls_change s) (pr_status r) (if pr_ok r then pr_order r else [])"

text \<open>One attempt: the order ends, or waits for its second.\<close>

lemma attempt_ends:
  assumes "i < length (ex_busy x)" "ex_posts x = outcome_of a # ps" "accepted parse dump a \<or> fl_attempt (ex_busy x ! i) = 2"
  obtains es where "ex_out (ex_attempt parse dump cfg i x) = ex_out x @ es" "bodies_posted es = [fl_body (ex_busy x ! i)]"
    "filter outcome_effect es = [order_row (fl_signal (ex_busy x ! i)) (fxcm_post parse dump (outcome_of a))]"
    "ex_busy (ex_attempt parse dump cfg i x) = remove_nth i (ex_busy x)" "ex_posts (ex_attempt parse dump cfg i x) = ps"
  using assms
  by (cases "accepted parse dump a")
    (auto simp: ex_attempt_def finish_order_def tell_def order_row_def accepted_def Let_def kMaxAttempts_def intro!: that)

lemma attempt_again:
  assumes "i < length (ex_busy x)" "ex_posts x = outcome_of a # ps" "\<not> accepted parse dump a" "fl_attempt (ex_busy x ! i) = 1"
  obtains es where "ex_out (ex_attempt parse dump cfg i x) = ex_out x @ es" "bodies_posted es = [fl_body (ex_busy x ! i)]"
    "filter outcome_effect es = []"
    "ex_busy (ex_attempt parse dump cfg i x) = (ex_busy x)[i := (ex_busy x ! i)\<lparr> fl_attempt := 2 \<rparr>]"
    "ex_posts (ex_attempt parse dump cfg i x) = ps"
  using assms
  by (cases "pr_retryable (fxcm_post parse dump (outcome_of a))")
    (auto simp: ex_attempt_def tell_def accepted_def Let_def kMaxAttempts_def numeral_2_eq_2 intro!: that)

text \<open>The attempts of an order, one after the other, as its worker makes them.\<close>

definition order_turns :: "(str \<Rightarrow> json option) \<Rightarrow> (json \<Rightarrow> str) \<Rightarrow> lcfg \<Rightarrow> nat \<Rightarrow> net_answer \<Rightarrow> executor \<Rightarrow> executor" where
  "order_turns parse dump cfg i a x =
     (let y = ex_attempt parse dump cfg i x in if accepted parse dump a then y else ex_attempt parse dump cfg i y)"

definition answers_used :: "(str \<Rightarrow> json option) \<Rightarrow> (json \<Rightarrow> str) \<Rightarrow> net_answer \<Rightarrow> net_answer \<Rightarrow> net_answer list" where
  "answers_used parse dump a b = (if accepted parse dump a then [a] else [a, b])"

lemma remove_update: "remove_nth i (xs[i := v]) = remove_nth i xs"
  by (simp add: remove_nth_def)

lemma order_turns_sent:
  assumes "i < length (ex_busy x)" "fl_attempt (ex_busy x ! i) = 1" "ex_posts x = outcome_of a # outcome_of b # ps"
  obtains es where "ex_out (order_turns parse dump cfg i a x) = ex_out x @ es"
    "bodies_posted es = replicate (length (answers_used parse dump a b)) (fl_body (ex_busy x ! i))"
    "filter outcome_effect es =
      [order_row (fl_signal (ex_busy x ! i)) (fxcm_post parse dump (outcome_of (last (answers_used parse dump a b))))]"
    "ex_busy (order_turns parse dump cfg i a x) = remove_nth i (ex_busy x)"
proof (cases "accepted parse dump a")
  case True
  then show ?thesis
    using attempt_ends [OF assms(1,3), of parse dump cfg] that by (force simp: order_turns_def answers_used_def)
next
  case False
  let ?f = "ex_busy x ! i" and ?y = "ex_attempt parse dump cfg i x"
  obtain es where y: "ex_out ?y = ex_out x @ es" "bodies_posted es = [fl_body ?f]" "filter outcome_effect es = []"
    "ex_busy ?y = (ex_busy x)[i := ?f\<lparr> fl_attempt := 2 \<rparr>]" "ex_posts ?y = outcome_of b # ps"
    using attempt_again [OF assms(1,3) False assms(2)] by metis
  have f: "ex_busy ?y ! i = ?f\<lparr> fl_attempt := 2 \<rparr>" "i < length (ex_busy ?y)" using assms(1) by (simp_all add: y(4))
  obtain fs where "ex_out (ex_attempt parse dump cfg i ?y) = ex_out ?y @ fs" "bodies_posted fs = [fl_body ?f]"
    "filter outcome_effect fs = [order_row (fl_signal ?f) (fxcm_post parse dump (outcome_of b))]"
    "ex_busy (ex_attempt parse dump cfg i ?y) = remove_nth i (ex_busy ?y)"
    using attempt_ends [OF f(2) y(5), of parse dump cfg] f(1) by auto
  then show ?thesis using that [of "es @ fs"] False y by (simp add: order_turns_def answers_used_def remove_update)
qed

text \<open>What the broker has got of it.\<close>

lemma requests_reached:
  "concat (map (\<lambda>a. written (snd (fxcm_exchange cfg body a))) as) = replicate (length (filter reached as)) (fxcm_request cfg body)"
  by (induction as) (simp_all add: exchange_written)

end
