(* ===== verification/Pipeline.thy ===== *)
theory Pipeline
  imports Engine
begin

text \<open>
  The way of a signal out of the engine and into the terminal: the dispatcher (\<open>execution.cpp\<close>),
  the publisher's queue and thread (\<open>zmq_pub.cpp\<close>), the ZeroMQ channel, and the bridge
  (\<open>mt5_bridge.cpp\<close>), in one state. The channel keeps the order of its messages and may lose
  any of them, as ZeroMQ documents for its publishers.
\<close>

section \<open>The path\<close>

record path =
  p_disp :: dispatcher
  p_queue :: "zmq_msg list"
  p_wire :: "str list"
  p_dll :: "bool option"
  p_done :: "executed list"

definition path_init :: path where
  "path_init = \<lparr> p_disp = disp_start dispatcher_init, p_queue = [], p_wire = [], p_dll = None, p_done = [] \<rparr>"

text \<open>The publications among the effects of the dispatcher.\<close>

fun published :: "exec_effect \<Rightarrow> zmq_msg list" where
  "published (Published buf) = [SignalMsg buf]"
| "published _ = []"

definition path_dispatch :: "config \<Rightarrow> path \<Rightarrow> path" where
  "path_dispatch cfg p = (case worker_turn cfg (p_disp p) of
     None \<Rightarrow> p
   | Some (d, effs) \<Rightarrow> p\<lparr> p_disp := d, p_queue := fold zmq_publish (concat (map published effs)) (p_queue p) \<rparr>)"

definition path_send :: "path \<Rightarrow> path" where
  "path_send p = (let (frames, q) = zmq_turn (p_queue p) in p\<lparr> p_queue := q, p_wire := p_wire p @ frames \<rparr>)"

text \<open>The bridge takes a message and executes its order; an error of its memory ends the run of the bridge (\<open>None\<close>).\<close>

definition path_recv :: "bool \<Rightarrow> dll_answers \<times> sock_answers \<Rightarrow> path \<Rightarrow> path option" where
  "path_recv windows x p = (case p_wire p of
     [] \<Rightarrow> Some p
   | m # ms \<Rightarrow> (case bridge_round windows x m (p_dll p) of
       Inl _ \<Rightarrow> None
     | Inr (es, dll) \<Rightarrow> Some (p\<lparr> p_wire := ms, p_dll := dll, p_done := p_done p @ es \<rparr>)))"

datatype path_op = PathSubmit signal | PathDispatch | PathSend | PathLose | PathRecv "dll_answers \<times> sock_answers"

fun path_step :: "config \<Rightarrow> bool \<Rightarrow> path_op \<Rightarrow> path \<Rightarrow> path option" where
  "path_step cfg windows (PathSubmit s) p = Some (p\<lparr> p_disp := submit s (p_disp p) \<rparr>)"
| "path_step cfg windows PathDispatch p = Some (path_dispatch cfg p)"
| "path_step cfg windows PathSend p = Some (path_send p)"
| "path_step cfg windows PathLose p = Some (p\<lparr> p_wire := tl (p_wire p) \<rparr>)"
| "path_step cfg windows (PathRecv x) p = path_recv windows x p"

fun path_run :: "config \<Rightarrow> bool \<Rightarrow> path_op list \<Rightarrow> path \<Rightarrow> path option" where
  "path_run cfg windows [] p = Some p"
| "path_run cfg windows (op # ops) p = Option.bind (path_step cfg windows op p) (path_run cfg windows ops)"

section \<open>What is on the way\<close>

text \<open>The signal that the bridge reads.\<close>

definition wire_signal :: "signal \<Rightarrow> exec_signal" where
  "wire_signal s = \<lparr> x_ts_ms = sig_ts_ms s, x_lead = decimals 6 (sig_lead s), x_bid = decimals 6 (broker_bid s),
      x_ask = decimals 6 (broker_ask s), x_threshold = decimals 6 (threshold s),
      x_edge = decimals 6 (edge s), x_side = (if sig_side s = Buy then 1 else 2), x_valid = 1,
      x_reason = c_str (reason s), x_symbol = ''BTC/USD'' \<rparr>"

text \<open>
  What became of an order: the DLL was given it or not, and the socket took a beginning of its
  bytes or nothing; nothing when the DLL confirmed it.
\<close>

definition executed_once :: "executed \<Rightarrow> bool" where
  "executed_once e \<longleftrightarrow> by_dll e \<in> {[], [ex_order e]} \<and> length (by_socket e) \<le> 1 \<and>
     (\<forall>bs\<in>set (by_socket e). prefix bs (pod_bytes (ex_order e))) \<and>
     (exec_ok e \<longrightarrow> by_dll e \<noteq> [] \<and> by_socket e = [] \<or> by_socket e = [pod_bytes (ex_order e)])"

lemma execute_once: "executed_once (fst (bridge_execute windows da sa s dll))"
proof -
  obtain e dll' where e: "bridge_execute windows da sa s dll = (e, dll')" by fastforce
  note w = execute_ways [OF e]
  have "prefix (take n bs) bs" for n and bs :: "byte list" by (rule take_is_prefix)
  then show ?thesis using e w by (auto simp: executed_once_def)
qed

definition sendable :: "signal \<Rightarrow> bool" where
  "sendable s \<longleftrightarrow> small_signal s \<and> 0 < decimals 6 (sig_lead s)"

text \<open>The signals in the publisher's queue and on the channel are \<open>qs\<close> and \<open>ws\<close>.\<close>

definition carries :: "path \<Rightarrow> signal list \<Rightarrow> signal list \<Rightarrow> bool" where
  "carries p qs ws \<longleftrightarrow> p_queue p = map (\<lambda>s. SignalMsg (signal_text s)) qs \<and> p_wire p = map signal_text ws \<and>
     (\<forall>s\<in>set (qs @ ws @ d_queue (p_disp p)). sendable s) \<and> (\<forall>e\<in>set (p_done p). executed_once e) \<and> d_running (p_disp p) \<and> \<not> d_stopped (p_disp p)"

definition on_the_way :: "path \<Rightarrow> signal list \<Rightarrow> signal list \<Rightarrow> exec_signal list" where
  "on_the_way p qs ws = map ex_order (p_done p) @ map wire_signal (ws @ qs @ filter within_slippage_cap (d_queue (p_disp p)))"

lemma publish_sendable: "sendable s \<Longrightarrow> concat (map published (publish_signal s)) = [SignalMsg (signal_text s)]"
  using signal_text_length [of s] by (simp add: publish_signal_def encode_signal_def sendable_def)

lemma fold_publish: "fold zmq_publish ms q = q @ ms"
  by (induction ms arbitrary: q) (simp_all add: zmq_publish_def)

lemma recv_sendable:
  assumes "sendable s"
  shows "bridge_round windows x (signal_text s) dll =
    (let (e, dll) = bridge_execute windows (fst x) (snd x) (wire_signal s) dll in Inr ([e], dll))"
proof -
  have "decode_signal (signal_text s) = Some (wire_signal s)"
    using decode_signal_text assms by (simp add: sendable_def wire_signal_def)
  moreover have "signal_text s \<noteq> []" by (simp add: signal_text_def)
  moreover have "length (signal_text s) < 320" using signal_text_length assms by (simp add: sendable_def)
  ultimately show ?thesis by (simp add: bridge_round_def mt5_recv_eq split_beta Let_def)
qed

section \<open>Nothing is added, doubled or reordered\<close>

fun path_submitted :: "path_op \<Rightarrow> signal list" where
  "path_submitted (PathSubmit s) = [s]"
| "path_submitted _ = []"

text \<open>A step lets through what was on the way, and loses only what the channel loses.\<close>

definition goes_through :: "bool \<Rightarrow> signal list \<Rightarrow> path \<Rightarrow> signal list \<Rightarrow> signal list \<Rightarrow> path \<Rightarrow> bool" where
  "goes_through lossless new p qs ws p' \<longleftrightarrow> (\<exists>qs' ws'. carries p' qs' ws' \<and>
     subseq (on_the_way p' qs' ws') (on_the_way p qs ws @ map wire_signal (filter within_slippage_cap new)) \<and>
     (lossless \<longrightarrow> on_the_way p' qs' ws' = on_the_way p qs ws @ map wire_signal (filter within_slippage_cap new)))"

lemma goes_throughI:
  "carries p' qs' ws' \<Longrightarrow> on_the_way p' qs' ws' = on_the_way p qs ws @ map wire_signal (filter within_slippage_cap new) \<Longrightarrow>
    goes_through l new p qs ws p'"
  unfolding goes_through_def by (intro exI [of _ qs'] exI [of _ ws']) simp

lemma published_route:
  "sendable s \<Longrightarrow> concat (map published (route cfg s)) = (if within_slippage_cap s then [SignalMsg (signal_text s)] else [])"
  using publish_sendable [of s] by (simp add: route_def)

lemma dispatch_through:
  assumes "carries p qs ws"
  shows "goes_through l [] p qs ws (path_dispatch cfg p)"
proof (cases "d_queue (p_disp p)")
  case Nil
  then have "path_dispatch cfg p = p"
    using assms by (simp add: path_dispatch_def worker_turn_route carries_def)
  then show ?thesis using assms by (intro goes_throughI [of _ qs ws]) simp_all
next
  case (Cons s q)
  then have s: "sendable s" using assms by (simp add: carries_def)
  let ?p = "path_dispatch cfg p" and ?new = "if within_slippage_cap s then [s] else []"
  have e: "?p = p\<lparr> p_disp := (p_disp p)\<lparr> d_queue := q \<rparr>, p_queue := p_queue p @ map (\<lambda>s. SignalMsg (signal_text s)) ?new \<rparr>"
    using assms Cons published_route [OF s, of cfg]
    by (simp add: path_dispatch_def worker_turn_route carries_def fold_publish)
  show ?thesis
    by (rule goes_throughI [of _ "qs @ ?new" ws]) (use assms Cons s in \<open>auto simp: e carries_def on_the_way_def\<close>)
qed

lemma recv_through:
  assumes "carries p qs ws"
  shows "\<exists>p'. path_recv windows x p = Some p' \<and> goes_through l [] p qs ws p'"
proof (cases ws)
  case Nil
  then have "path_recv windows x p = Some p" using assms by (simp add: path_recv_def carries_def)
  then show ?thesis using assms by (auto intro: goes_throughI [of _ qs ws])
next
  case (Cons s vs)
  then have s: "sendable s" "p_wire p = signal_text s # map signal_text vs" using assms by (simp_all add: carries_def)
  obtain e dll where e: "bridge_execute windows (fst x) (snd x) (wire_signal s) (p_dll p) = (e, dll)" by fastforce
  have o: "ex_order e = wire_signal s" "executed_once e"
    using execute_ways(1) [OF e] execute_once [of windows "fst x" "snd x" "wire_signal s" "p_dll p"] e by simp_all
  let ?p = "p\<lparr> p_wire := map signal_text vs, p_dll := dll, p_done := p_done p @ [e] \<rparr>"
  have "goes_through l [] p qs ws ?p"
    by (rule goes_throughI [of _ qs vs]) (use assms Cons o in \<open>auto simp: carries_def on_the_way_def\<close>)
  then show ?thesis using s recv_sendable [OF s(1), of windows x "p_dll p"] e by (auto simp: path_recv_def)
qed

lemma path_step_through:
  assumes "carries p qs ws" "\<forall>s\<in>set (path_submitted op). sendable s"
  shows "\<exists>p'. path_step cfg windows op p = Some p' \<and> goes_through (op \<noteq> PathLose) (path_submitted op) p qs ws p'"
proof (cases op)
  case (PathSubmit s)
  have "goes_through True [s] p qs ws (p\<lparr> p_disp := submit s (p_disp p) \<rparr>)"
    by (rule goes_throughI [of _ qs ws]) (use assms PathSubmit in \<open>auto simp: carries_def on_the_way_def submit_def\<close>)
  then show ?thesis using PathSubmit by simp
next
  case PathSend
  have "goes_through True [] p qs ws (path_send p)"
    by (rule goes_throughI [of _ "[]" "ws @ qs"])
      (use assms in \<open>auto simp: path_send_def zmq_turn_def zmq_drain_def carries_def on_the_way_def\<close>)
  then show ?thesis using PathSend by simp
next
  case PathLose
  let ?p = "p\<lparr> p_wire := tl (p_wire p) \<rparr>"
  have c: "carries ?p qs (tl ws)"
    using assms list.set_sel(2) [of ws] by (cases ws) (auto simp: carries_def)
  have "subseq (on_the_way ?p qs (tl ws)) (on_the_way p qs ws)"
    by (cases ws) (auto simp: on_the_way_def intro: list_emb_append_mono)
  then show ?thesis using PathLose c unfolding goes_through_def by auto
qed (use assms dispatch_through recv_through in simp_all)

lemma path_run_through:
  assumes "carries p qs ws" "\<forall>op\<in>set ops. \<forall>s\<in>set (path_submitted op). sendable s"
  shows "\<exists>p'. path_run cfg windows ops p = Some p' \<and>
    goes_through (PathLose \<notin> set ops) (concat (map path_submitted ops)) p qs ws p'"
  using assms
proof (induction ops arbitrary: p qs ws)
  case Nil
  then show ?case by (auto intro: goes_throughI [of _ qs ws])
next
  case (Cons op ops)
  have "\<forall>s\<in>set (path_submitted op). sendable s" using Cons.prems(2) by simp
  from path_step_through [OF Cons.prems(1) this, of cfg windows] obtain p1 qs1 ws1 where
    1: "path_step cfg windows op p = Some p1" "carries p1 qs1 ws1"
      "subseq (on_the_way p1 qs1 ws1) (on_the_way p qs ws @ map wire_signal (filter within_slippage_cap (path_submitted op)))"
      "op \<noteq> PathLose \<longrightarrow> on_the_way p1 qs1 ws1 = on_the_way p qs ws @ map wire_signal (filter within_slippage_cap (path_submitted op))"
    unfolding goes_through_def by blast
  from Cons.IH [OF 1(2)] Cons.prems(2) obtain p2 qs2 ws2 where
    2: "path_run cfg windows ops p1 = Some p2" "carries p2 qs2 ws2"
      "subseq (on_the_way p2 qs2 ws2) (on_the_way p1 qs1 ws1 @ map wire_signal (filter within_slippage_cap (concat (map path_submitted ops))))"
      "PathLose \<notin> set ops \<longrightarrow> on_the_way p2 qs2 ws2 =
         on_the_way p1 qs1 ws1 @ map wire_signal (filter within_slippage_cap (concat (map path_submitted ops)))"
    unfolding goes_through_def by (auto simp del: map_append)
  let ?rest = "map wire_signal (filter within_slippage_cap (concat (map path_submitted ops)))"
  have "subseq (on_the_way p1 qs1 ws1 @ ?rest)
      ((on_the_way p qs ws @ map wire_signal (filter within_slippage_cap (path_submitted op))) @ ?rest)"
    using 1(3) by (rule list_emb_append_mono) simp
  then have "subseq (on_the_way p2 qs2 ws2)
      ((on_the_way p qs ws @ map wire_signal (filter within_slippage_cap (path_submitted op))) @ ?rest)"
    using 2(3) subseq_order.order_trans by blast
  then have "goes_through (PathLose \<notin> set (op # ops)) (concat (map path_submitted (op # ops))) p qs ws p2"
    using 1(4) 2(2,4) unfolding goes_through_def by (intro exI [of _ qs2] exI [of _ ws2]) auto
  then show ?case using 1(1) 2(1) by simp
qed

lemma path_init_carries: "carries path_init [] []" "on_the_way path_init [] [] = []"
  by (simp_all add: carries_def on_the_way_def path_init_def disp_start_def dispatcher_init_def)

lemma path_run_init:
  assumes "\<forall>op\<in>set ops. \<forall>s\<in>set (path_submitted op). sendable s"
  shows "\<exists>p. path_run cfg windows ops path_init = Some p \<and>
    subseq (map ex_order (p_done p)) (map wire_signal (filter within_slippage_cap (concat (map path_submitted ops)))) \<and>
    (PathLose \<notin> set ops \<and> p_wire p = [] \<and> p_queue p = [] \<and> d_queue (p_disp p) = [] \<longrightarrow>
      map ex_order (p_done p) = map wire_signal (filter within_slippage_cap (concat (map path_submitted ops)))) \<and>
    (\<forall>e\<in>set (p_done p). executed_once e)"
proof -
  obtain p qs ws where p: "path_run cfg windows ops path_init = Some p" "carries p qs ws"
    "subseq (on_the_way p qs ws) (map wire_signal (filter within_slippage_cap (concat (map path_submitted ops))))"
    "PathLose \<notin> set ops \<longrightarrow> on_the_way p qs ws = map wire_signal (filter within_slippage_cap (concat (map path_submitted ops)))"
    using path_run_through [OF path_init_carries(1) assms, of cfg windows] path_init_carries(2)
    unfolding goes_through_def by auto
  have "subseq (map ex_order (p_done p)) (on_the_way p qs ws)"
    unfolding on_the_way_def by (rule prefix_imp_subseq) simp
  then have "subseq (map ex_order (p_done p)) (map wire_signal (filter within_slippage_cap (concat (map path_submitted ops))))"
    using p(3) subseq_order.order_trans by blast
  moreover have "on_the_way p qs ws = map ex_order (p_done p)" if "p_wire p = []" "p_queue p = []" "d_queue (p_disp p) = []"
    using that p(2) by (simp add: carries_def on_the_way_def)
  moreover have "\<forall>e\<in>set (p_done p). executed_once e" using p(2) by (simp add: carries_def)
  ultimately show ?thesis using p by auto
qed

text \<open>One signal, once through: every queue is empty again.\<close>

lemma path_run_drained:
  assumes "sendable s" "within_slippage_cap s"
    and "path_run cfg windows [PathSubmit s, PathDispatch, PathSend, PathRecv x] path_init = Some p"
  shows "p_wire p = []" "p_queue p = []" "d_queue (p_disp p) = []"
proof -
  obtain e dll where "bridge_round windows x (signal_text s) None = Inr ([e], dll)"
    by (cases "bridge_execute windows (fst x) (snd x) (wire_signal s) None") (simp add: recv_sendable [OF assms(1)])
  then show "p_wire p = []" "p_queue p = []" "d_queue (p_disp p) = []"
    using assms published_route [OF assms(1), of cfg]
    by (auto simp: path_dispatch_def path_send_def path_recv_def worker_turn_route path_init_def disp_start_def dispatcher_init_def
        submit_def fold_publish zmq_turn_def zmq_drain_def)
qed

end
