(* ===== verification/Services.thy ===== *)
theory Services
  imports Execution Handles
begin

text \<open>
  The three threads that own a ZeroMQ socket: the publisher (\<open>zmq_pub.cpp\<close>), the broker
  subscriber (\<open>broker_sub.cpp\<close>) and the bridge (\<open>mt5_bridge.cpp\<close>). Each has the same three
  variables of control: the flags and the \<open>std::thread\<close>. A turn is what the thread does
  in its set-up or in one round of its loop; the answers of ZeroMQ are arguments. \<open>stop ()\<close> sets its
  flag, then waits for the thread, so it is two operations.
\<close>

section \<open>The control of a thread\<close>

datatype thread_at = NoThread | AtSetUp | AtLoop | Ended

record control =
  c_running :: bool
  c_stopped :: bool
  c_thread :: thread_at
  c_trace :: "handle_use list"

definition control_init :: control where
  "control_init = \<lparr> c_running = False, c_stopped = False, c_thread = NoThread, c_trace = [] \<rparr>"

text \<open>Assigning to a \<open>std::thread\<close> that is still joinable ends the program.\<close>

datatype terminate = Terminate

definition zmq_start :: "control \<Rightarrow> terminate + control" where
  "zmq_start c = (if c_running c then Inr c
     else if c_thread c \<noteq> NoThread then Inl Terminate
     else Inr (c\<lparr> c_running := True, c_stopped := False, c_thread := AtSetUp \<rparr>))"

definition zmq_stop :: "control \<Rightarrow> control" where
  "zmq_stop c = c\<lparr> c_stopped := True \<rparr>"

text \<open>\<open>join ()\<close> waits (\<open>None\<close>) while the thread is at work.\<close>

definition zmq_join :: "control \<Rightarrow> control option" where
  "zmq_join c = (if c_thread c \<in> {NoThread, Ended} then Some (c\<lparr> c_thread := NoThread, c_running := False \<rparr>) else None)"

definition broker_start :: "control \<Rightarrow> terminate + control" where
  "broker_start = zmq_start"

definition broker_stop :: "control \<Rightarrow> control" where
  "broker_stop = zmq_stop"

definition bridge_start :: "control \<Rightarrow> terminate + control" where
  "bridge_start = zmq_start"

definition bridge_stop :: "control \<Rightarrow> control" where
  "bridge_stop = zmq_stop"

section \<open>Set-up and end\<close>

record zmq_answers =
  ctx_ok :: bool
  sock_ok :: bool
  bind_ok :: bool

text \<open>The handles taken and given back, and whether the loop is entered.\<close>

definition pub_set_up :: "zmq_answers \<Rightarrow> handle_use list \<times> bool" where
  "pub_set_up a =
     (if \<not> ctx_ok a then ([], False)
      else if \<not> sock_ok a then ([Acquire ZCtx, Release ZCtx], False)
      else let opened = [Acquire ZCtx, Acquire ZSock, Using ZSock, Using ZSock, Using ZSock] in
        if \<not> bind_ok a then (opened @ [Release ZSock, Release ZCtx], False)
        else (opened, True))"

text \<open>\<open>zmq_socket\<close> of a context that is null is null.\<close>

definition broker_set_up :: "zmq_answers \<Rightarrow> handle_use list \<times> bool" where
  "broker_set_up a =
     (let ctx = ctx_ok a; sock = ctx \<and> sock_ok a;
          opened = (if ctx then [Acquire ZCtx] else []) @ (if sock then [Acquire ZSock] else [])
      in if \<not> ctx \<or> \<not> sock
         then (opened @ (if sock then [Release ZSock] else []) @ (if ctx then [Release ZCtx] else []), False)
         else let opened = opened @ [Using ZSock, Using ZSock, Using ZSock, Using ZSock] in
           if \<not> bind_ok a then (opened @ [Release ZSock, Release ZCtx], False)
           else (opened, True))"

definition bridge_set_up :: "zmq_answers \<Rightarrow> handle_use list \<times> bool" where
  "bridge_set_up a =
     (if \<not> ctx_ok a then ([], False)
      else if \<not> sock_ok a then ([Acquire ZCtx, Release ZCtx], False)
      else let opened = [Acquire ZCtx, Acquire ZSock, Using ZSock, Using ZSock, Using ZSock] in
        if \<not> bind_ok a then (opened @ [Release ZSock, Release ZCtx], False)
        else (opened, True))"

definition zmq_finish :: "handle_use list" where
  "zmq_finish = [Release ZSock, Release ZCtx]"

text \<open>Where the thread is after its set-up. A failed set-up leaves \<open>running_\<close> as it is.\<close>

definition after_set_up :: "handle_use list \<times> bool \<Rightarrow> control \<Rightarrow> control" where
  "after_set_up r c = c\<lparr> c_trace := c_trace c @ fst r, c_thread := (if snd r then AtLoop else Ended) \<rparr>"

definition after_loop :: "control \<Rightarrow> control" where
  "after_loop c = c\<lparr> c_trace := c_trace c @ zmq_finish, c_thread := Ended \<rparr>"

definition using_socket :: "nat \<Rightarrow> control \<Rightarrow> control" where
  "using_socket n c = c\<lparr> c_trace := c_trace c @ replicate n (Using ZSock) \<rparr>"

section \<open>The publisher\<close>

record publisher =
  pb_ctl :: control
  pb_queue :: "zmq_msg list"
  pb_sent :: "str list"

definition pub_init :: publisher where
  "pub_init = \<lparr> pb_ctl = control_init, pb_queue = [], pb_sent = [] \<rparr>"

definition pub_turn :: "zmq_answers \<Rightarrow> publisher \<Rightarrow> publisher" where
  "pub_turn a p = (case c_thread (pb_ctl p) of
     AtSetUp \<Rightarrow> p\<lparr> pb_ctl := after_set_up (pub_set_up a) (pb_ctl p) \<rparr>
   | AtLoop \<Rightarrow>
       if c_stopped (pb_ctl p) then p\<lparr> pb_ctl := after_loop (pb_ctl p) \<rparr>
       else let (frames, q) = zmq_turn (pb_queue p)
            in p\<lparr> pb_queue := q, pb_sent := pb_sent p @ frames, pb_ctl := using_socket (length frames) (pb_ctl p) \<rparr>
   | _ \<Rightarrow> p)"

section \<open>The broker subscriber\<close>

datatype zmq_recv = Received str | NoMessage | CtxTerminated

record subscriber =
  sb_ctl :: control
  sb_ring :: "broker_quote ring"

definition sub_init :: "broker_quote ring \<Rightarrow> subscriber" where
  "sub_init r = \<lparr> sb_ctl = control_init, sb_ring = r \<rparr>"

definition sub_end :: "subscriber \<Rightarrow> subscriber" where
  "sub_end s = s\<lparr> sb_ctl := (after_loop (sb_ctl s))\<lparr> c_running := False \<rparr> \<rparr>"

definition sub_turn :: "nat \<Rightarrow> str \<Rightarrow> zmq_answers \<Rightarrow> zmq_recv \<Rightarrow> subscriber \<Rightarrow> memory_error + subscriber" where
  "sub_turn k topic a m s = (case c_thread (sb_ctl s) of
     AtSetUp \<Rightarrow> Inr (s\<lparr> sb_ctl := after_set_up (broker_set_up a) (sb_ctl s) \<rparr>)
   | AtLoop \<Rightarrow>
       if \<not> (c_running (sb_ctl s) \<and> \<not> c_stopped (sb_ctl s)) then Inr (sub_end s)
       else let s = s\<lparr> sb_ctl := using_socket 1 (sb_ctl s) \<rparr> in
         (case m of
            CtxTerminated \<Rightarrow> Inr (sub_end s)
          | NoMessage \<Rightarrow> Inr s
          | Received msg \<Rightarrow> map_sum id (\<lambda>r. s\<lparr> sb_ring := r \<rparr>) (broker_recv k topic msg (sb_ring s)))
   | _ \<Rightarrow> Inr s)"

section \<open>The bridge\<close>

text \<open>With the static handle of the terminal's DLL and what became of the orders.\<close>

record bridge =
  br_ctl :: control
  br_dll :: "bool option"
  br_done :: "executed list"

definition bridge_init :: bridge where
  "bridge_init = \<lparr> br_ctl = control_init, br_dll = None, br_done = [] \<rparr>"

definition bridge_turn :: "bool \<Rightarrow> zmq_answers \<Rightarrow> str option \<Rightarrow> dll_answers \<times> sock_answers \<Rightarrow> bridge \<Rightarrow> memory_error + bridge" where
  "bridge_turn windows a m x b = (case c_thread (br_ctl b) of
     AtSetUp \<Rightarrow> Inr (b\<lparr> br_ctl := after_set_up (bridge_set_up a) (br_ctl b) \<rparr>)
   | AtLoop \<Rightarrow>
       if \<not> (c_running (br_ctl b) \<and> \<not> c_stopped (br_ctl b))
       then Inr (b\<lparr> br_ctl := (after_loop (br_ctl b))\<lparr> c_running := False \<rparr> \<rparr>)
       else let b = b\<lparr> br_ctl := using_socket 1 (br_ctl b) \<rparr> in
         (case m of
            None \<Rightarrow> Inr b
          | Some msg \<Rightarrow> map_sum id (\<lambda>(es, dll). b\<lparr> br_done := br_done b @ es, br_dll := dll \<rparr>)
              (bridge_round windows x msg (br_dll b)))
   | _ \<Rightarrow> Inr b)"

section \<open>Histories\<close>

text \<open>Why an operation does not return: the program is ended, memory is misused, or it waits.\<close>

datatype halt = Aborted | Misused memory_error | Waiting

definition starting :: "(terminate + control) \<Rightarrow> halt + control" where
  "starting = map_sum (\<lambda>_. Aborted) id"

definition joining :: "control option \<Rightarrow> halt + control" where
  "joining r = (case r of None \<Rightarrow> Inl Waiting | Some c \<Rightarrow> Inr c)"

datatype pub_op = PubStart | Publish zmq_msg | PubTurn zmq_answers | PubStop | PubJoin

fun pub_step :: "pub_op \<Rightarrow> publisher \<Rightarrow> halt + publisher" where
  "pub_step PubStart p = map_sum id (\<lambda>c. p\<lparr> pb_ctl := c \<rparr>) (starting (zmq_start (pb_ctl p)))"
| "pub_step (Publish m) p = Inr (p\<lparr> pb_queue := zmq_publish m (pb_queue p) \<rparr>)"
| "pub_step (PubTurn a) p = Inr (pub_turn a p)"
| "pub_step PubStop p = Inr (p\<lparr> pb_ctl := zmq_stop (pb_ctl p) \<rparr>)"
| "pub_step PubJoin p = map_sum id (\<lambda>c. p\<lparr> pb_ctl := c \<rparr>) (joining (zmq_join (pb_ctl p)))"

datatype sub_op = SubStart | SubTurn zmq_answers zmq_recv | SubStop | SubJoin

fun sub_step :: "nat \<Rightarrow> str \<Rightarrow> sub_op \<Rightarrow> subscriber \<Rightarrow> halt + subscriber" where
  "sub_step k topic SubStart s = map_sum id (\<lambda>c. s\<lparr> sb_ctl := c \<rparr>) (starting (broker_start (sb_ctl s)))"
| "sub_step k topic (SubTurn a m) s = map_sum Misused id (sub_turn k topic a m s)"
| "sub_step k topic SubStop s = Inr (s\<lparr> sb_ctl := broker_stop (sb_ctl s) \<rparr>)"
| "sub_step k topic SubJoin s = map_sum id (\<lambda>c. s\<lparr> sb_ctl := c \<rparr>) (joining (zmq_join (sb_ctl s)))"

datatype bridge_op = BridgeStart | BridgeTurn zmq_answers "str option" "dll_answers \<times> sock_answers" | BridgeStop | BridgeJoin

fun bridge_step :: "bool \<Rightarrow> bridge_op \<Rightarrow> bridge \<Rightarrow> halt + bridge" where
  "bridge_step windows BridgeStart b = map_sum id (\<lambda>c. b\<lparr> br_ctl := c \<rparr>) (starting (bridge_start (br_ctl b)))"
| "bridge_step windows (BridgeTurn a m x) b = map_sum Misused id (bridge_turn windows a m x b)"
| "bridge_step windows BridgeStop b = Inr (b\<lparr> br_ctl := bridge_stop (br_ctl b) \<rparr>)"
| "bridge_step windows BridgeJoin b = map_sum id (\<lambda>c. b\<lparr> br_ctl := c \<rparr>) (joining (zmq_join (br_ctl b)))"

text \<open>A history with what can happen of it: an operation that does not return leaves the state.\<close>

definition attempt :: "('i \<Rightarrow> 's \<Rightarrow> halt + 's) \<Rightarrow> 'i \<Rightarrow> 's \<Rightarrow> 's" where
  "attempt step i s = (case step i s of Inl _ \<Rightarrow> s | Inr s' \<Rightarrow> s')"

section \<open>The contract of a thread that owns a socket\<close>

inductive ctl_step :: "control \<Rightarrow> control \<Rightarrow> bool" where
  idle: "ctl_step c c"
| start: "zmq_start c = Inr c' \<Longrightarrow> ctl_step c c'"
| stop: "ctl_step c (zmq_stop c)"
| join: "zmq_join c = Some c' \<Longrightarrow> ctl_step c c'"
| failed: "c_thread c = AtSetUp \<Longrightarrow> tidy us \<Longrightarrow> ctl_step c (after_set_up (us, False) c)"
| opened: "c_thread c = AtSetUp \<Longrightarrow> held us [] = Some [ZSock, ZCtx] \<Longrightarrow> ctl_step c (after_set_up (us, True) c)"
| used: "c_thread c = AtLoop \<Longrightarrow> ctl_step c (using_socket n c)"
| finished: "c_thread c = AtLoop \<Longrightarrow> r \<in> {c_running c, False} \<Longrightarrow>
    ctl_step c ((after_loop (using_socket n c))\<lparr> c_running := r \<rparr>)"

definition ctl_ok :: "control \<Rightarrow> bool" where
  "ctl_ok c \<longleftrightarrow> held (c_trace c) [] = Some (if c_thread c = AtLoop then [ZSock, ZCtx] else []) \<and>
     (c_thread c \<in> {AtSetUp, AtLoop} \<longrightarrow> c_running c)"

lemma held_using: "h \<in> set hs \<Longrightarrow> held (replicate n (Using h)) hs = Some hs"
  by (induction n) simp_all

lemma ctl_ok_init: "ctl_ok control_init"
  by (simp add: ctl_ok_def control_init_def)

lemma ctl_ok_step:
  assumes "ctl_step c c'" "ctl_ok c"
  shows "ctl_ok c'"
  using assms
proof (cases rule: ctl_step.cases)
  case start
  then show ?thesis using assms(2) by (auto simp: zmq_start_def ctl_ok_def split: if_splits)
next
  case join
  then show ?thesis using assms(2) by (auto simp: zmq_join_def ctl_ok_def split: if_splits)
qed (auto simp: ctl_ok_def zmq_stop_def after_set_up_def after_loop_def using_socket_def tidy_def zmq_finish_def held_using handle_rules)

locale socket_thread =
  fixes step :: "'i \<Rightarrow> 's \<Rightarrow> halt + 's" and ctl :: "'s \<Rightarrow> control"
  assumes step_ctl: "step i s = Inr s' \<Longrightarrow> ctl_step (ctl s) (ctl s')"
begin

lemma run_ok: "ctl_ok (ctl s) \<Longrightarrow> ctl_ok (ctl (fold (attempt step) is s))"
  by (induction "is" arbitrary: s) (auto simp: attempt_def split: sum.splits intro: ctl_ok_step step_ctl)

text \<open>Wherever the history ends, the handles held are those of the loop.\<close>

lemma run_handles:
  assumes "ctl (s) = control_init"
  shows "held (c_trace (ctl (fold (attempt step) is s))) [] =
    Some (if c_thread (ctl (fold (attempt step) is s)) = AtLoop then [ZSock, ZCtx] else [])"
  using run_ok [of s "is"] assms ctl_ok_init by (simp add: ctl_ok_def)

end

lemma set_up_cases:
  "snd (pub_set_up a) \<Longrightarrow> held (fst (pub_set_up a)) [] = Some [ZSock, ZCtx]" "\<not> snd (pub_set_up a) \<Longrightarrow> tidy (fst (pub_set_up a))"
  "snd (broker_set_up a) \<Longrightarrow> held (fst (broker_set_up a)) [] = Some [ZSock, ZCtx]" "\<not> snd (broker_set_up a) \<Longrightarrow> tidy (fst (broker_set_up a))"
  "snd (bridge_set_up a) \<Longrightarrow> held (fst (bridge_set_up a)) [] = Some [ZSock, ZCtx]" "\<not> snd (bridge_set_up a) \<Longrightarrow> tidy (fst (bridge_set_up a))"
  by (auto simp: pub_set_up_def broker_set_up_def bridge_set_up_def tidy_def handle_rules Let_def split: if_splits)

lemma ctl_step_set_up:
  assumes "c_thread c = AtSetUp" "snd r \<Longrightarrow> held (fst r) [] = Some [ZSock, ZCtx]" "\<not> snd r \<Longrightarrow> tidy (fst r)"
  shows "ctl_step c (after_set_up r c)"
  using assms ctl_step.opened [of c "fst r"] ctl_step.failed [of c "fst r"] by (cases r; cases "snd r") simp_all

lemma using_0: "using_socket 0 c = c"
  by (simp add: using_socket_def)

lemma ctl_step_finished:
  "c_thread c = AtLoop \<Longrightarrow> ctl_step c (after_loop c)"
  "c_thread c = AtLoop \<Longrightarrow> ctl_step c ((after_loop c)\<lparr> c_running := False \<rparr>)"
  "c_thread c = AtLoop \<Longrightarrow> ctl_step c ((after_loop (using_socket n c))\<lparr> c_running := False \<rparr>)"
  using ctl_step.finished [of c "c_running c" 0] ctl_step.finished [of c False 0] ctl_step.finished [of c False n]
  by (simp_all add: using_0 after_loop_def)

lemmas set_up_steps = ctl_step_set_up [OF _ set_up_cases(1,2)] ctl_step_set_up [OF _ set_up_cases(3,4)] ctl_step_set_up [OF _ set_up_cases(5,6)]

lemmas ctl_steps = ctl_step.stop ctl_step.used ctl_step.idle ctl_step_finished set_up_steps

lemma map_sum_Inr: "map_sum f g x = Inr y \<longleftrightarrow> (\<exists>z. x = Inr z \<and> y = g z)"
  by (cases x) auto

lemma control_steps:
  "starting r = Inr c' \<Longrightarrow> r = zmq_start c \<Longrightarrow> ctl_step c c'"
  "joining j = Inr c' \<Longrightarrow> j = zmq_join c \<Longrightarrow> ctl_step c c'"
  by (auto simp: starting_def joining_def map_sum_Inr intro: ctl_step.start ctl_step.join split: option.splits)

interpretation pub_thread: socket_thread pub_step pb_ctl
proof unfold_locales
  fix i p p'
  assume "pub_step i p = Inr p'"
  then show "ctl_step (pb_ctl p) (pb_ctl p')"
    by (cases i; cases "c_thread (pb_ctl p)") (auto simp: pub_turn_def Let_def ctl_steps map_sum_Inr
        dest: control_steps [OF _ refl] split: prod.splits)
qed

interpretation sub_thread: socket_thread "sub_step k topic" sb_ctl for k topic
proof unfold_locales
  fix i s s'
  assume "sub_step k topic i s = Inr s'"
  then show "ctl_step (sb_ctl s) (sb_ctl s')"
    by (cases i; cases "c_thread (sb_ctl s)") (auto simp: sub_turn_def sub_end_def Let_def ctl_steps map_sum_Inr
        broker_start_def broker_stop_def dest: control_steps [OF _ refl] split: zmq_recv.splits if_splits)
qed

interpretation bridge_thread: socket_thread "bridge_step windows" br_ctl for windows
proof unfold_locales
  fix i b b'
  assume "bridge_step windows i b = Inr b'"
  then show "ctl_step (br_ctl b) (br_ctl b')"
    by (cases i; cases "c_thread (br_ctl b)") (auto simp: bridge_turn_def Let_def ctl_steps map_sum_Inr
        bridge_start_def bridge_stop_def dest: control_steps [OF _ refl] split: option.splits if_splits)
qed

section \<open>What the publisher sends\<close>

fun publications :: "pub_op list \<Rightarrow> zmq_msg list" where
  "publications [] = []"
| "publications (Publish m # ops) = m # publications ops"
| "publications (_ # ops) = publications ops"

text \<open>Every message once and in order, over any number of stops and starts.\<close>

lemma pub_accounts:
  "pb_sent (fold (attempt pub_step) ops p) @ map msg_frame (pb_queue (fold (attempt pub_step) ops p)) =
    pb_sent p @ map msg_frame (pb_queue p) @ map msg_frame (publications ops)"
proof (induction ops arbitrary: p)
  case (Cons op ops)
  have "pb_sent (attempt pub_step op p) @ map msg_frame (pb_queue (attempt pub_step op p)) =
      pb_sent p @ map msg_frame (pb_queue p) @ map msg_frame (publications [op])"
    by (cases op; cases "c_thread (pb_ctl p)")
      (auto simp: attempt_def pub_turn_def zmq_turn_def zmq_drain_def zmq_publish_def map_sum_Inr split: sum.splits)
  moreover have "publications (op # ops) = publications [op] @ publications ops" by (cases op) simp_all
  ultimately show ?case using Cons.IH [of "attempt pub_step op p"] by simp
qed simp

text \<open>What is queued when the publisher is told to stop stays there until it is started again.\<close>

lemma pub_stopped_sends_nothing:
  assumes "c_stopped (pb_ctl p)" "PubStart \<notin> set ops"
  shows "pb_sent (fold (attempt pub_step) ops p) = pb_sent p \<and> c_stopped (pb_ctl (fold (attempt pub_step) ops p))"
  using assms
proof (induction ops arbitrary: p)
  case (Cons op ops)
  have "pb_sent (attempt pub_step op p) = pb_sent p \<and> c_stopped (pb_ctl (attempt pub_step op p))"
    using Cons.prems by (cases op; cases "c_thread (pb_ctl p)")
      (auto simp: attempt_def pub_turn_def zmq_stop_def after_set_up_def after_loop_def joining_def zmq_join_def split: sum.splits option.splits if_splits)
  then show ?case using Cons.IH [of "attempt pub_step op p"] Cons.prems(2) by simp
qed simp

section \<open>Stopping takes two turns\<close>

lemma join_ready: "zmq_join c \<noteq> None \<longleftrightarrow> c_thread c \<in> {NoThread, Ended}"
  by (simp add: zmq_join_def)

lemma pub_stops:
  assumes "c_stopped (pb_ctl p)"
  shows "zmq_join (pb_ctl (pub_turn b (pub_turn a p))) \<noteq> None"
  unfolding join_ready using assms
  by (cases "c_thread (pb_ctl p)") (auto simp: pub_turn_def after_set_up_def after_loop_def)

lemma sub_stops:
  assumes "c_stopped (sb_ctl s)"
  shows "\<exists>s1 s2. sub_turn k topic a m s = Inr s1 \<and> sub_turn k topic b n s1 = Inr s2 \<and> zmq_join (sb_ctl s2) \<noteq> None"
  unfolding join_ready using assms
  by (cases "c_thread (sb_ctl s)") (auto simp: sub_turn_def sub_end_def after_set_up_def after_loop_def)

lemma bridge_stops:
  assumes "c_stopped (br_ctl s)"
  shows "\<exists>s1 s2. bridge_turn windows a m x s = Inr s1 \<and> bridge_turn windows b n y s1 = Inr s2 \<and> zmq_join (br_ctl s2) \<noteq> None"
  unfolding join_ready using assms
  by (cases "c_thread (br_ctl s)") (auto simp: bridge_turn_def after_set_up_def after_loop_def)

text \<open>A second \<open>start\<close> ends the program exactly when the thread has ended by itself and its flag is down.\<close>

lemma start_aborts: "zmq_start c = Inl Terminate \<longleftrightarrow> \<not> c_running c \<and> c_thread c \<noteq> NoThread"
  by (simp add: zmq_start_def)

end
