(* ===== verification/Mt5.thy ===== *)
theory Mt5
  imports Services Config
begin

text \<open>
  The program around the bridge (\<open>mt5_bridge_main.cpp\<close>): its settings, and that it ends with every handle
  of ZeroMQ given back.
\<close>

section \<open>The program\<close>

definition bridge_settings :: "environment \<Rightarrow> str list \<Rightarrow> str \<times> str \<times> int" where
  "bridge_settings e args =
     (let sub = (if 1 < length args then Some (args ! 1) else e ''ZMQ_PUB_BIND'');
          host = (if 2 < length args then Some (args ! 2) else e ''MT5_BRIDGE_HOST'');
          port = (if 3 < length args then Some (args ! 3) else e ''MT5_BRIDGE_PORT'')
      in (case sub of Some s \<Rightarrow> s | None \<Rightarrow> ''ipc:///tmp/latency_arb.ipc'',
          case host of Some h \<Rightarrow> h | None \<Rightarrow> ''127.0.0.1'',
          case port of Some p \<Rightarrow> atoi p | None \<Rightarrow> 6161))"

text \<open>
  \<open>main\<close>: the bridge's thread makes its turns while \<open>main\<close> waits for the signal, and after it
  \<open>stop ()\<close> waits for the thread. The turns before and after the signal are arguments.
\<close>

definition bridge_main_ops :: "bridge_op list \<Rightarrow> bridge_op list \<Rightarrow> bridge_op list" where
  "bridge_main_ops before after = [BridgeStart] @ before @ [BridgeStop] @ after @ [BridgeJoin]"

fun is_turn :: "bridge_op \<Rightarrow> bool" where
  "is_turn (BridgeTurn a m x) \<longleftrightarrow> True"
| "is_turn _ \<longleftrightarrow> False"

lemma turns_keep_stopped:
  "c_stopped (br_ctl b) \<Longrightarrow> is_turn t \<Longrightarrow> c_stopped (br_ctl (attempt (bridge_step windows) t b))"
  by (cases t; cases "c_thread (br_ctl b)") (auto simp: attempt_def bridge_turn_def after_set_up_def after_loop_def)

lemma turns_stay_ended:
  "c_thread (br_ctl b) = Ended \<Longrightarrow> is_turn t \<Longrightarrow> attempt (bridge_step windows) t b = b"
  by (cases t) (auto simp: attempt_def bridge_turn_def)

lemma turns_end:
  assumes "c_stopped (br_ctl b)" "\<forall>t\<in>set ts. is_turn t" "2 \<le> length ts" "c_thread (br_ctl b) \<noteq> NoThread"
  shows "c_thread (br_ctl (fold (attempt (bridge_step windows)) ts b)) = Ended"
proof -
  have stay: "fold (attempt (bridge_step windows)) us b' = b'" if "c_thread (br_ctl b') = Ended" "\<forall>t\<in>set us. is_turn t" for us b'
    using that by (induction us) (simp_all add: turns_stay_ended)
  obtain a m x b1 n y us where ts: "ts = BridgeTurn a m x # BridgeTurn b1 n y # us"
    using assms(2,3) by (cases ts rule: list.exhaust; cases "tl ts"; cases "hd ts"; cases "hd (tl ts)") auto
  let ?b = "attempt (bridge_step windows) (BridgeTurn b1 n y) (attempt (bridge_step windows) (BridgeTurn a m x) b)"
  have "c_thread (br_ctl ?b) = Ended"
    using assms(1,4) by (cases "c_thread (br_ctl b)") (auto simp: attempt_def bridge_turn_def after_set_up_def after_loop_def)
  then show ?thesis using stay [of ?b us] assms(2) by (simp add: ts)
qed

text \<open>Two turns after the signal suffice: \<open>stop ()\<close> returns, with every handle given back.\<close>

lemma bridge_main_ends:
  assumes "\<forall>t\<in>set (before @ after). is_turn t" "2 \<le> length after"
  shows "c_thread (br_ctl (fold (attempt (bridge_step windows)) (bridge_main_ops before after) bridge_init)) = NoThread"
    and "tidy (c_trace (br_ctl (fold (attempt (bridge_step windows)) (bridge_main_ops before after) bridge_init)))"
proof -
  let ?run = "fold (attempt (bridge_step windows))"
  have some: "c_thread (br_ctl (?run ts b)) \<noteq> NoThread" if "c_thread (br_ctl b) \<noteq> NoThread" "\<forall>t\<in>set ts. is_turn t" for ts b
    using that
  proof (induction ts arbitrary: b)
    case (Cons t ts)
    have "c_thread (br_ctl (attempt (bridge_step windows) t b)) \<noteq> NoThread"
      using Cons.prems by (cases t; cases "c_thread (br_ctl b)")
        (auto simp: attempt_def bridge_turn_def after_set_up_def after_loop_def using_socket_def map_sum_Inr Let_def split: sum.splits option.splits)
    then show ?case using Cons by simp
  qed simp
  let ?b = "?run before (attempt (bridge_step windows) BridgeStart bridge_init)"
  let ?s = "attempt (bridge_step windows) BridgeStop ?b"
  have "c_thread (br_ctl ?b) \<noteq> NoThread"
    using assms(1) by (intro some)
      (simp_all add: attempt_def bridge_start_def zmq_start_def starting_def bridge_init_def control_init_def)
  then have "c_stopped (br_ctl ?s)" "c_thread (br_ctl ?s) \<noteq> NoThread"
    by (simp_all add: attempt_def bridge_stop_def zmq_stop_def)
  then have "c_thread (br_ctl (?run after ?s)) = Ended" using assms by (intro turns_end) simp_all
  then show e: "c_thread (br_ctl (?run (bridge_main_ops before after) bridge_init)) = NoThread"
    by (simp add: bridge_main_ops_def) (simp add: attempt_def zmq_join_def joining_def)
  show "tidy (c_trace (br_ctl (?run (bridge_main_ops before after) bridge_init)))"
    using bridge_thread.run_handles [of bridge_init windows "bridge_main_ops before after"] e
    by (simp add: tidy_def bridge_init_def)
qed

end
