(* ===== verification/Reactor.thy ===== *)
theory Reactor
  imports Feeds
begin

text \<open>
  \<open>start ()\<close>, \<open>stop ()\<close> and \<open>run ()\<close> of a feed (\<open>binance_ws.cpp\<close>, \<open>bybit_ws.cpp\<close>, \<open>deribit_ws.cpp\<close>, the same
  text in each) as two threads, one atomic access per step: the thread that calls \<open>stop ()\<close> and the
  thread of the reactor. The \<open>io_context\<close> is a local variable of \<open>run ()\<close>; \<open>io_\<close> is the pointer to it
  that \<open>stop ()\<close> looks at. A timer of 24 hours keeps the reactor at work.
\<close>

datatype caller_at = Idle | StopIo | StopReactor | Join | Stopped

datatype reactor_at = NotStarted | Enter | Spawn | Guard | Running | LeaveIo | LeaveFlag | Done_run

record reactor =
  rx_running :: bool
  rx_io :: bool
  rx_ioc_stopped :: bool
  rx_guard :: bool
  rx_saw_io :: bool
  rx_caller :: caller_at
  rx_at :: reactor_at
  rx_feed :: feed

text \<open>Before \<open>start ()\<close>, for a feed that begins with the delay \<open>d\<close>.\<close>

definition reactor_init :: "double \<Rightarrow> tick ring \<Rightarrow> reactor" where
  "reactor_init d r = \<lparr> rx_running = False, rx_io = False, rx_ioc_stopped = False, rx_guard = False, rx_saw_io = False,
     rx_caller = Idle, rx_at = NotStarted, rx_feed = feed_idle d r \<rparr>"

datatype rx_label = Caller | Thread | GuardFires | Event feed_input

text \<open>The caller: \<open>start ()\<close>, then the steps of \<open>stop ()\<close>.\<close>

definition caller_start :: "reactor \<Rightarrow> reactor" where
  "caller_start s = (if rx_running s then s
     else s\<lparr> rx_running := True, rx_feed := (rx_feed s)\<lparr> f_stopped := False \<rparr>, rx_at := Enter \<rparr>)"

definition stop_flag :: "reactor \<Rightarrow> reactor" where
  "stop_flag s = s\<lparr> rx_feed := (rx_feed s)\<lparr> f_stopped := True \<rparr>, rx_caller := StopIo \<rparr>"

definition stop_io :: "reactor \<Rightarrow> reactor" where
  "stop_io s = s\<lparr> rx_saw_io := rx_io s, rx_caller := (if rx_io s then StopReactor else Join) \<rparr>"

definition stop_reactor :: "reactor \<Rightarrow> reactor" where
  "stop_reactor s = s\<lparr> rx_ioc_stopped := True, rx_caller := Join \<rparr>"

definition stop_join :: "reactor \<Rightarrow> reactor" where
  "stop_join s = s\<lparr> rx_running := False, rx_caller := Stopped \<rparr>"

text \<open>The thread: \<open>run ()\<close>. The reactor returns when it is stopped or has nothing left to wait for.\<close>

definition run_enter :: "double \<Rightarrow> reactor \<Rightarrow> reactor" where
  "run_enter d s = s\<lparr> rx_io := True, rx_feed := (rx_feed s)\<lparr> delay := d \<rparr>, rx_at := Spawn \<rparr>"

definition run_spawn :: "reactor \<Rightarrow> reactor" where
  "run_spawn s = s\<lparr> rx_feed := spawn_session (rx_feed s), rx_at := Guard \<rparr>"

definition run_guard :: "reactor \<Rightarrow> reactor" where
  "run_guard s = s\<lparr> rx_guard := True, rx_at := Running \<rparr>"

definition out_of_work :: "reactor \<Rightarrow> bool" where
  "out_of_work s \<longleftrightarrow> rx_ioc_stopped s \<or>
     \<not> rx_guard s \<and> sessions (rx_feed s) = [] \<and> timers (rx_feed s) = [] \<and> pongs (rx_feed s) = 0"

inductive rx_step :: "feed_kind \<Rightarrow> (str \<Rightarrow> tick ring \<Rightarrow> str \<times> tick ring) \<Rightarrow> rx_label \<Rightarrow> reactor \<Rightarrow> reactor \<Rightarrow> bool"
  for kd h where
  start: "rx_caller s = Idle \<Longrightarrow> rx_at s = NotStarted \<Longrightarrow> rx_step kd h Caller s (caller_start s)"
| flag: "rx_caller s = Idle \<Longrightarrow> rx_step kd h Caller s (stop_flag s)"
| look: "rx_caller s = StopIo \<Longrightarrow> rx_step kd h Caller s (stop_io s)"
| halt: "rx_caller s = StopReactor \<Longrightarrow> rx_step kd h Caller s (stop_reactor s)"
| join: "rx_caller s = Join \<Longrightarrow> rx_at s \<in> {NotStarted, Done_run} \<Longrightarrow> rx_step kd h Caller s (stop_join s)"
| enter: "rx_at s = Enter \<Longrightarrow> rx_step kd h Thread s (run_enter (base_delay kd) s)"
| spawn: "rx_at s = Spawn \<Longrightarrow> rx_step kd h Thread s (run_spawn s)"
| guard: "rx_at s = Guard \<Longrightarrow> rx_step kd h Thread s (run_guard s)"
| event: "rx_at s = Running \<Longrightarrow> \<not> rx_ioc_stopped s \<Longrightarrow> e \<noteq> Stop \<Longrightarrow> feed_event kd h e (rx_feed s) = Some f \<Longrightarrow>
    rx_step kd h (Event e) s (s\<lparr> rx_feed := f \<rparr>)"
| fires: "rx_at s = Running \<Longrightarrow> rx_guard s \<Longrightarrow> rx_step kd h GuardFires s (s\<lparr> rx_guard := False \<rparr>)"
| return: "rx_at s = Running \<Longrightarrow> out_of_work s \<Longrightarrow> rx_step kd h Thread s (s\<lparr> rx_at := LeaveIo \<rparr>)"
| leave_io: "rx_at s = LeaveIo \<Longrightarrow> rx_step kd h Thread s (s\<lparr> rx_io := False, rx_at := LeaveFlag \<rparr>)"
| leave_flag: "rx_at s = LeaveFlag \<Longrightarrow> rx_step kd h Thread s (s\<lparr> rx_running := False, rx_at := Done_run \<rparr>)"

inductive_cases rx_stepE: "rx_step kd h l s s'"

inductive rx_reach :: "feed_kind \<Rightarrow> (str \<Rightarrow> tick ring \<Rightarrow> str \<times> tick ring) \<Rightarrow> tick ring \<Rightarrow> bool \<Rightarrow> reactor \<Rightarrow> bool"
  for kd h r where
  init: "rx_reach kd h r False (reactor_init (base_delay kd) r)"
| step: "rx_reach kd h r fired s \<Longrightarrow> rx_step kd h l s s' \<Longrightarrow> rx_reach kd h r (fired \<or> l = GuardFires) s'"

section \<open>What \<open>stop ()\<close> waits for\<close>

text \<open>
  The pointer is set exactly from \<open>Spawn\<close> to \<open>LeaveIo\<close>; the reactor is stopped only by a caller that saw
  it; a caller that saw it stops it before it waits; and without the guard's firing the
  \<open>io_context\<close> is alive when the caller uses it.
\<close>

definition rx_inv :: "bool \<Rightarrow> reactor \<Rightarrow> bool" where
  "rx_inv fired s \<longleftrightarrow>
     (rx_io s \<longleftrightarrow> rx_at s \<in> {Spawn, Guard, Running, LeaveIo}) \<and>
     (rx_guard s \<longrightarrow> rx_at s \<notin> {NotStarted, Enter, Spawn, Guard}) \<and>
     (rx_ioc_stopped s \<longrightarrow> rx_saw_io s \<and> rx_caller s \<in> {Join, Stopped}) \<and>
     (rx_caller s = Join \<and> rx_saw_io s \<longrightarrow> rx_ioc_stopped s) \<and>
     (rx_caller s = StopReactor \<longrightarrow> rx_saw_io s) \<and>
     (rx_saw_io s \<longrightarrow> rx_at s \<notin> {NotStarted, Enter}) \<and>
     (rx_caller s \<noteq> Idle \<longrightarrow> f_stopped (rx_feed s) \<or> rx_at s = NotStarted) \<and>
     (\<not> fired \<longrightarrow> (rx_at s = Running \<longrightarrow> rx_guard s)) \<and>
     (\<not> fired \<and> rx_at s \<in> {LeaveIo, LeaveFlag, Done_run} \<longrightarrow> rx_ioc_stopped s)"

lemma feed_event_stopped:
  "feed_event kd h e f = Some f' \<Longrightarrow> f_stopped f \<Longrightarrow> f_stopped f'"
  by (cases e) (auto simp: feed_fail_eq spawn_session_def Let_def split: if_splits prod.splits)

lemma spawn_fields [simp]: "f_stopped (spawn_session f) = f_stopped f"
  by (simp add: spawn_session_def)

lemmas rx_defs = caller_start_def stop_flag_def stop_io_def stop_reactor_def stop_join_def run_enter_def run_spawn_def
  run_guard_def out_of_work_def

lemma rx_inv_step:
  assumes "rx_inv fired s" "rx_step kd h l s s'"
  shows "rx_inv (fired \<or> l = GuardFires) s'"
  using assms(2,1)
  by cases (auto simp: rx_inv_def rx_defs dest: feed_event_stopped)

lemma rx_inv_reach: "rx_reach kd h r fired s \<Longrightarrow> rx_inv fired s"
proof (induction rule: rx_reach.induct)
  case init
  then show ?case by (simp add: rx_inv_def reactor_init_def)
qed (rule rx_inv_step)

text \<open>What can happen before the timer of 24 hours fires.\<close>

definition before_guard :: "feed_kind \<Rightarrow> (str \<Rightarrow> tick ring \<Rightarrow> str \<times> tick ring) \<Rightarrow> reactor \<Rightarrow> reactor \<Rightarrow> bool" where
  "before_guard kd h = (\<lambda>s s'. \<exists>l. l \<noteq> GuardFires \<and> rx_step kd h l s s')\<^sup>*\<^sup>*"

definition joinable :: "reactor \<Rightarrow> bool" where
  "joinable s \<longleftrightarrow> rx_at s \<in> {NotStarted, Done_run}"

lemma before_guard_thread: "rx_step kd h Thread s s' \<Longrightarrow> before_guard kd h s' s'' \<Longrightarrow> before_guard kd h s s''"
  unfolding before_guard_def by (rule converse_rtranclp_into_rtranclp) auto

lemma before_guard_refl: "before_guard kd h s s"
  by (simp add: before_guard_def)

text \<open>A stopped reactor runs to its end, from wherever it is.\<close>

lemma stopped_reactor_ends:
  assumes "rx_ioc_stopped s" "rx_at s \<noteq> NotStarted"
  shows "\<exists>s'. before_guard kd h s s' \<and> joinable s'"
proof -
  have 1: "\<exists>s'. before_guard kd h t s' \<and> joinable s'" if "rx_at t = Done_run" for t
    using that before_guard_refl by (auto simp: joinable_def)
  have 2: "\<exists>s'. before_guard kd h t s' \<and> joinable s'" if "rx_at t = LeaveFlag" for t
    using 1 [of "t\<lparr> rx_running := False, rx_at := Done_run \<rparr>"] before_guard_thread [OF rx_step.leave_flag [OF that]] by auto
  have 3: "\<exists>s'. before_guard kd h t s' \<and> joinable s'" if "rx_at t = LeaveIo" for t
    using 2 [of "t\<lparr> rx_io := False, rx_at := LeaveFlag \<rparr>"] before_guard_thread [OF rx_step.leave_io [OF that]] by auto
  have 4: "\<exists>s'. before_guard kd h t s' \<and> joinable s'" if "rx_at t = Running" "rx_ioc_stopped t" for t
    using 3 [of "t\<lparr> rx_at := LeaveIo \<rparr>"] before_guard_thread [OF rx_step.return [OF that(1)]] that(2) by (auto simp: out_of_work_def)
  have 5: "\<exists>s'. before_guard kd h t s' \<and> joinable s'" if "rx_at t = Guard" "rx_ioc_stopped t" for t
    using 4 [of "run_guard t"] before_guard_thread [OF rx_step.guard [OF that(1)]] that(2) by (auto simp: run_guard_def)
  have 6: "\<exists>s'. before_guard kd h t s' \<and> joinable s'" if "rx_at t = Spawn" "rx_ioc_stopped t" for t
    using 5 [of "run_spawn t"] before_guard_thread [OF rx_step.spawn [OF that(1)]] that(2) by (auto simp: run_spawn_def)
  have 7: "\<exists>s'. before_guard kd h t s' \<and> joinable s'" if "rx_at t = Enter" "rx_ioc_stopped t" for t
    using 6 [of "run_enter (base_delay kd) t"] before_guard_thread [OF rx_step.enter [OF that(1)]] that(2) by (auto simp: run_enter_def)
  show ?thesis using assms 1 2 3 4 5 6 7 by (cases "rx_at s") simp_all
qed

text \<open>A caller that did not see the pointer waits for a reactor that nobody stops.\<close>

definition abandoned :: "reactor \<Rightarrow> bool" where
  "abandoned s \<longleftrightarrow> rx_caller s = Join \<and> \<not> rx_ioc_stopped s \<and> rx_at s \<in> {Enter, Spawn, Guard, Running} \<and>
     (rx_at s = Running \<longrightarrow> rx_guard s)"

lemma abandoned_step: "abandoned s \<Longrightarrow> rx_step kd h l s s' \<Longrightarrow> l \<noteq> GuardFires \<Longrightarrow> abandoned s'"
  by (erule rx_stepE) (auto simp: abandoned_def rx_defs)

lemma abandoned_stays: "before_guard kd h s s' \<Longrightarrow> abandoned s \<Longrightarrow> abandoned s'"
  unfolding before_guard_def by (induction rule: rtranclp_induct) (auto intro: abandoned_step)

lemma stop_returns_iff:
  assumes "rx_reach kd h r False s" "rx_caller s = Join"
  shows "(\<exists>s'. before_guard kd h s s' \<and> joinable s') \<longleftrightarrow> rx_saw_io s \<or> rx_at s = NotStarted"
proof -
  have inv: "rx_inv False s" using rx_inv_reach [OF assms(1)] .
  show ?thesis
  proof (cases "rx_at s = NotStarted")
    case True
    then show ?thesis using before_guard_refl by (auto simp: joinable_def)
  next
    case False
    show ?thesis
    proof (cases "rx_saw_io s")
      case True
      then have "rx_ioc_stopped s" using inv assms(2) by (simp add: rx_inv_def)
      then show ?thesis using True stopped_reactor_ends False by blast
    next
      case unseen: False
      then have "abandoned s" using inv assms(2) False by (cases "rx_at s") (auto simp: rx_inv_def abandoned_def)
      then have "\<not> joinable s'" if "before_guard kd h s s'" for s'
        using abandoned_stays [OF that] by (auto simp: abandoned_def joinable_def)
      then show ?thesis using unseen False by blast
    qed
  qed
qed

text \<open>\<open>start ()\<close> and \<open>stop ()\<close> before the new thread has set the pointer.\<close>

lemma abandoned_reachable:
  "\<exists>s. rx_reach kd h r False s \<and> rx_caller s = Join \<and> \<not> rx_saw_io s \<and> rx_at s = Enter"
proof -
  let ?i = "reactor_init (base_delay kd) r"
  let ?s = "stop_io (stop_flag (caller_start ?i))"
  have "rx_reach kd h r False (caller_start ?i)"
    using rx_reach.step [OF rx_reach.init rx_step.start [of ?i kd h]] by (simp add: reactor_init_def)
  then have "rx_reach kd h r False (stop_flag (caller_start ?i))"
    using rx_reach.step [OF _ rx_step.flag [of "caller_start ?i" kd h]] by (simp add: reactor_init_def caller_start_def)
  then have "rx_reach kd h r False ?s"
    using rx_reach.step [OF _ rx_step.look [of "stop_flag (caller_start ?i)" kd h]]
    by (simp add: reactor_init_def caller_start_def stop_flag_def)
  then show ?thesis by (intro exI [of _ ?s]) (simp add: reactor_init_def rx_defs)
qed

text \<open>No use of a destroyed \<open>io_context\<close> before the guard has fired.\<close>

lemma stop_io_alive:
  assumes "rx_reach kd h r False s" "rx_caller s = StopReactor"
  shows "rx_at s \<in> {Spawn, Guard, Running} \<and> rx_io s"
  using rx_inv_reach [OF assms(1)] assms(2) by (cases "rx_at s") (auto simp: rx_inv_def)

end
