(* ===== verification/System.thy ===== *)
theory System
  imports Engine Reactor Services FixClient
begin

text \<open>
  The engine program as a whole (\<open>main.cpp\<close>): \<open>main\<close> starts the parts, waits for the signal and stops
  them in its order, while the threads of the feeds, the broker subscriber, the strategy, the
  dispatcher, the publisher and the FIX client make their steps. A step of the system is one
  statement of \<open>main\<close> or one step of one thread, in any order. The telemetry is its flag. Two
  histories are kept that the program does not have: the signals submitted and those routed.
\<close>

section \<open>State\<close>

datatype strategy_at = StNone | StLoop | StTurn | StEnded

datatype main_stmt =
    TelStart | FastStart | DeribitStart | BrokerStart | PubStart | FixStart | ExecStart | StrategyStart
  | AwaitShutdown
  | BrokerStop | BrokerJoin | DeribitFlag | DeribitLook | DeribitHalt | DeribitJoin
  | FastFlag | FastLook | FastHalt | FastJoin | StrategyJoin | ExecStop | FixStop | PubStop | PubJoin | TelStop

text \<open>The statements of \<open>main\<close>; \<open>stop ()\<close> of a feed or a socket thread is several of them.\<close>

definition main_program :: "main_stmt list" where
  "main_program =
     [TelStart, FastStart, DeribitStart, BrokerStart, PubStart, FixStart, ExecStart, StrategyStart, AwaitShutdown,
      BrokerStop, BrokerJoin, DeribitFlag, DeribitLook, DeribitHalt, DeribitJoin, FastFlag, FastLook, FastHalt, FastJoin,
      StrategyJoin, ExecStop, FixStop, PubStop, PubJoin, TelStop]"

record system =
  y_engine :: engine
  y_fast :: reactor
  y_deribit :: reactor
  y_broker :: control
  y_pub :: publisher
  y_fix :: fc
  y_tel :: bool
  y_strategy :: strategy_at
  y_shutdown :: bool
  y_todo :: "main_stmt list"
  y_submitted :: "signal list"
  y_routed :: "signal list"

definition fast_kind :: "config \<Rightarrow> feed_kind" where
  "fast_kind cfg = (if fast_feed (feeds cfg) = ''BYBIT'' then KBybit else KBinance)"

definition system_init :: "nat \<Rightarrow> config \<Rightarrow> system" where
  "system_init k cfg =
     (let e = (engine_init k)\<lparr> disp := dispatcher_init \<rparr> in
      \<lparr> y_engine = e, y_fast = reactor_init (base_delay (fast_kind cfg)) (fast_ring e),
        y_deribit = reactor_init (base_delay KDeribit) (deribit_ring e), y_broker = control_init, y_pub = pub_init,
        y_fix = fc_init, y_tel = False, y_strategy = StNone, y_shutdown = False, y_todo = main_program,
        y_submitted = [], y_routed = [] \<rparr>)"

section \<open>The statements of main\<close>

definition waits_for :: "('a \<Rightarrow> system) \<Rightarrow> 'a option \<Rightarrow> system option" where
  "waits_for f r = map_option f r"

text \<open>\<open>None\<close>: the statement does not return (it waits, or ends the program).\<close>

fun main_do :: "main_stmt \<Rightarrow> system \<Rightarrow> system option" where
  "main_do TelStart s = Some (s\<lparr> y_tel := True \<rparr>)"
| "main_do FastStart s = Some (s\<lparr> y_fast := caller_start (y_fast s) \<rparr>)"
| "main_do DeribitStart s = Some (s\<lparr> y_deribit := caller_start (y_deribit s) \<rparr>)"
| "main_do BrokerStart s = (case broker_start (y_broker s) of Inl _ \<Rightarrow> None | Inr c \<Rightarrow> Some (s\<lparr> y_broker := c \<rparr>))"
| "main_do PubStart s = (case zmq_start (pb_ctl (y_pub s)) of Inl _ \<Rightarrow> None
     | Inr c \<Rightarrow> Some (s\<lparr> y_pub := (y_pub s)\<lparr> pb_ctl := c \<rparr> \<rparr>))"
| "main_do FixStart s = Some (s\<lparr> y_fix := fc_start (y_fix s) \<rparr>)"
| "main_do ExecStart s = Some (s\<lparr> y_engine := (y_engine s)\<lparr> disp := disp_start (disp (y_engine s)) \<rparr> \<rparr>)"
| "main_do StrategyStart s = Some (s\<lparr> y_strategy := StLoop \<rparr>)"
| "main_do AwaitShutdown s = (if y_shutdown s then Some s else None)"
| "main_do BrokerStop s = Some (s\<lparr> y_broker := broker_stop (y_broker s) \<rparr>)"
| "main_do BrokerJoin s = waits_for (\<lambda>c. s\<lparr> y_broker := c \<rparr>) (zmq_join (y_broker s))"
| "main_do DeribitFlag s = Some (s\<lparr> y_deribit := stop_flag (y_deribit s) \<rparr>)"
| "main_do DeribitLook s = Some (s\<lparr> y_deribit := stop_io (y_deribit s) \<rparr>)"
| "main_do DeribitHalt s = Some (if rx_caller (y_deribit s) = StopReactor then s\<lparr> y_deribit := stop_reactor (y_deribit s) \<rparr> else s)"
| "main_do DeribitJoin s = (if joinable (y_deribit s) then Some (s\<lparr> y_deribit := stop_join (y_deribit s) \<rparr>) else None)"
| "main_do FastFlag s = Some (s\<lparr> y_fast := stop_flag (y_fast s) \<rparr>)"
| "main_do FastLook s = Some (s\<lparr> y_fast := stop_io (y_fast s) \<rparr>)"
| "main_do FastHalt s = Some (if rx_caller (y_fast s) = StopReactor then s\<lparr> y_fast := stop_reactor (y_fast s) \<rparr> else s)"
| "main_do FastJoin s = (if joinable (y_fast s) then Some (s\<lparr> y_fast := stop_join (y_fast s) \<rparr>) else None)"
| "main_do StrategyJoin s = (if y_strategy s \<in> {StNone, StEnded} then Some s else None)"
| "main_do ExecStop s = Some (s\<lparr> y_engine := (y_engine s)\<lparr> disp := disp_stop (disp (y_engine s)) \<rparr> \<rparr>)"
| "main_do FixStop s = Some (s\<lparr> y_fix := fc_stop (y_fix s) \<rparr>)"
| "main_do PubStop s = Some (s\<lparr> y_pub := (y_pub s)\<lparr> pb_ctl := zmq_stop (pb_ctl (y_pub s)) \<rparr> \<rparr>)"
| "main_do PubJoin s = waits_for (\<lambda>c. s\<lparr> y_pub := (y_pub s)\<lparr> pb_ctl := c \<rparr> \<rparr>) (zmq_join (pb_ctl (y_pub s)))"
| "main_do TelStop s = Some (s\<lparr> y_tel := False \<rparr>)"

definition main_step :: "system \<Rightarrow> system option" where
  "main_step s = (case y_todo s of [] \<Rightarrow> None | m # ms \<Rightarrow> map_option (\<lambda>s'. s'\<lparr> y_todo := ms \<rparr>) (main_do m s))"

section \<open>The threads\<close>

text \<open>The worker of \<open>strategy_loop\<close> looks at the flag, makes a turn, and looks again.\<close>

definition strategy_look :: "system \<Rightarrow> system option" where
  "strategy_look s = (if y_strategy s \<noteq> StLoop then None
     else Some (s\<lparr> y_strategy := (if y_shutdown s then StEnded else StTurn) \<rparr>))"

definition new_signals :: "engine \<Rightarrow> engine \<Rightarrow> signal list" where
  "new_signals e e' = drop (length (d_queue (disp e))) (d_queue (disp e'))"

definition strategy_work :: "nat \<Rightarrow> (int64 \<Rightarrow> int \<times> int) \<Rightarrow> config \<Rightarrow> int64 \<Rightarrow> system \<Rightarrow> system option" where
  "strategy_work k lt cfg now s =
     (if y_strategy s \<noteq> StTurn then None
      else map_option (\<lambda>(e, ev). s\<lparr> y_engine := e, y_strategy := StLoop,
              y_submitted := y_submitted s @ new_signals (y_engine s) e \<rparr>)
             (strategy_turn k lt cfg now (y_engine s)))"

text \<open>The dispatcher calls the publisher and the FIX client.\<close>

fun deliver :: "exec_effect \<Rightarrow> system \<Rightarrow> system" where
  "deliver (Published buf) s = s\<lparr> y_pub := (y_pub s)\<lparr> pb_queue := zmq_publish (SignalMsg buf) (pb_queue (y_pub s)) \<rparr> \<rparr>"
| "deliver (FixSend sg) s = s\<lparr> y_fix := send_order sg (y_fix s) \<rparr>"
| "deliver (Tel ev) s = s"

definition dispatch_work :: "config \<Rightarrow> system \<Rightarrow> system option" where
  "dispatch_work cfg s = map_option (\<lambda>(d, effs).
     fold deliver effs (s\<lparr> y_engine := (y_engine s)\<lparr> disp := d \<rparr>,
       y_routed := y_routed s @ take 1 (d_queue (disp (y_engine s))) \<rparr>))
     (worker_turn cfg (disp (y_engine s)))"

definition broker_work :: "nat \<Rightarrow> config \<Rightarrow> zmq_answers \<Rightarrow> zmq_recv \<Rightarrow> system \<Rightarrow> system option" where
  "broker_work k cfg a m s =
     (case sub_turn k (broker_topic (link cfg)) a m \<lparr> sb_ctl = y_broker s, sb_ring = broker_ring (y_engine s) \<rparr> of
        Inl _ \<Rightarrow> None
      | Inr b \<Rightarrow> Some (s\<lparr> y_broker := sb_ctl b, y_engine := (y_engine s)\<lparr> broker_ring := sb_ring b \<rparr> \<rparr>))"

definition pub_work :: "zmq_answers \<Rightarrow> system \<Rightarrow> system" where
  "pub_work a s = s\<lparr> y_pub := pub_turn a (y_pub s) \<rparr>"

text \<open>The handlers of messages, for given parsers of JSON and the clock at the message.\<close>

record parsers =
  binance_json :: "str \<Rightarrow> (str \<times> str \<times> str) option"
  bybit_json :: "str \<Rightarrow> bybit_msg option"
  deribit_json :: "str \<Rightarrow> double option"

definition feed_handler :: "parsers \<Rightarrow> config \<Rightarrow> nat \<Rightarrow> int64 \<Rightarrow> feed_kind \<Rightarrow> str \<Rightarrow> tick ring \<Rightarrow> str \<times> tick ring" where
  "feed_handler js cfg k now kd = (case kd of
     KBinance \<Rightarrow> (\<lambda>m r. ([], binance_handle (binance_json js) k now m r))
   | KBybit \<Rightarrow> bybit_handle (bybit_json js) cfg k now
   | KDeribit \<Rightarrow> (\<lambda>m r. ([], deribit_handle (deribit_json js) k now m r)))"

definition with_ring :: "tick ring \<Rightarrow> reactor \<Rightarrow> reactor" where
  "with_ring r x = x\<lparr> rx_feed := (rx_feed x)\<lparr> f_ring := r \<rparr> \<rparr>"

section \<open>Steps\<close>

inductive sys_step :: "nat \<Rightarrow> (int64 \<Rightarrow> int \<times> int) \<Rightarrow> parsers \<Rightarrow> config \<Rightarrow> system \<Rightarrow> system \<Rightarrow> bool"
  for k lt js cfg where
  main: "main_step s = Some s' \<Longrightarrow> sys_step k lt js cfg s s'"
| signal: "sys_step k lt js cfg s (s\<lparr> y_shutdown := True \<rparr>)"
| fast: "rx_step (fast_kind cfg) (feed_handler js cfg k now (fast_kind cfg)) l (with_ring (fast_ring (y_engine s)) (y_fast s)) x \<Longrightarrow>
    l \<noteq> Caller \<Longrightarrow>
    sys_step k lt js cfg s (s\<lparr> y_fast := x, y_engine := (y_engine s)\<lparr> fast_ring := f_ring (rx_feed x) \<rparr> \<rparr>)"
| deribit: "rx_step KDeribit (feed_handler js cfg k now KDeribit) l (with_ring (deribit_ring (y_engine s)) (y_deribit s)) x \<Longrightarrow>
    l \<noteq> Caller \<Longrightarrow>
    sys_step k lt js cfg s (s\<lparr> y_deribit := x, y_engine := (y_engine s)\<lparr> deribit_ring := f_ring (rx_feed x) \<rparr> \<rparr>)"
| broker: "broker_work k cfg a m s = Some s' \<Longrightarrow> sys_step k lt js cfg s s'"
| look: "strategy_look s = Some s' \<Longrightarrow> sys_step k lt js cfg s s'"
| work: "strategy_work k lt cfg now s = Some s' \<Longrightarrow> sys_step k lt js cfg s s'"
| dispatch: "dispatch_work cfg s = Some s' \<Longrightarrow> sys_step k lt js cfg s s'"
| publish: "sys_step k lt js cfg s (pub_work a s)"
| fix_turn: "sys_step k lt js cfg s (s\<lparr> y_fix := fc_turn cfg ck sock (y_fix s) \<rparr>)"
| fix_connect: "sys_step k lt js cfg s (s\<lparr> y_fix := fc_connect cfg ck up sock (y_fix s) \<rparr>)"

inductive_cases sys_stepE: "sys_step k lt js cfg s s'"

definition sys_reach :: "nat \<Rightarrow> (int64 \<Rightarrow> int \<times> int) \<Rightarrow> parsers \<Rightarrow> config \<Rightarrow> system \<Rightarrow> bool" where
  "sys_reach k lt js cfg s \<longleftrightarrow> (sys_step k lt js cfg)\<^sup>*\<^sup>* (system_init k cfg) s"

section \<open>The order of starting and stopping\<close>

text \<open>How many statements \<open>main\<close> has done.\<close>

definition main_at :: "system \<Rightarrow> nat" where
  "main_at s = length main_program - length (y_todo s)"

definition active :: "thread_at \<Rightarrow> bool" where
  "active t \<longleftrightarrow> t \<in> {AtSetUp, AtLoop}"

definition reactor_active :: "reactor \<Rightarrow> bool" where
  "reactor_active x \<longleftrightarrow> \<not> joinable x"

text \<open>Where the caller of a feed's \<open>stop ()\<close> is, \<open>n\<close> statements after the first of it.\<close>

definition caller_ok :: "nat \<Rightarrow> nat \<Rightarrow> reactor \<Rightarrow> bool" where
  "caller_ok first n x \<longleftrightarrow>
     (if n \<le> first then rx_caller x = Idle
      else if n = first + 1 then rx_caller x = StopIo
      else if n = first + 2 then rx_caller x \<in> {StopReactor, Join}
      else if n = first + 3 then rx_caller x = Join
      else rx_caller x = Stopped)"

definition feed_stage :: "nat \<Rightarrow> nat \<Rightarrow> nat \<Rightarrow> reactor \<Rightarrow> bool" where
  "feed_stage begin first n x \<longleftrightarrow>
     (n \<le> begin \<longrightarrow> rx_at x = NotStarted) \<and> (first + 4 \<le> n \<longrightarrow> joinable x) \<and> caller_ok first n x"

definition socket_stage :: "nat \<Rightarrow> nat \<Rightarrow> nat \<Rightarrow> control \<Rightarrow> bool" where
  "socket_stage begin first n c \<longleftrightarrow>
     (n \<le> begin \<longrightarrow> c = control_init) \<and> (c_stopped c \<longleftrightarrow> first < n) \<and> (first + 2 \<le> n \<longrightarrow> c_thread c = NoThread)"

definition engine_stage :: "nat \<Rightarrow> dispatcher \<Rightarrow> strategy_at \<Rightarrow> bool" where
  "engine_stage n d st \<longleftrightarrow>
     (d_running d \<longleftrightarrow> 7 \<le> n \<and> n < 21) \<and> (d_running d \<longrightarrow> \<not> d_stopped d) \<and>
     (st = StNone \<longleftrightarrow> n < 8) \<and> (20 \<le> n \<longrightarrow> st = StEnded)"

definition flags_stage :: "nat \<Rightarrow> system \<Rightarrow> bool" where
  "flags_stage n s \<longleftrightarrow> (y_tel s \<longleftrightarrow> 1 \<le> n \<and> n < 25) \<and> (fc_running (y_fix s) \<longleftrightarrow> 6 \<le> n \<and> n < 22) \<and>
     (9 \<le> n \<or> y_strategy s = StEnded \<longrightarrow> y_shutdown s)"

definition stages_ok :: "system \<Rightarrow> bool" where
  "stages_ok s \<longleftrightarrow> (let n = main_at s in
     y_todo s = drop n main_program \<and> n \<le> length main_program \<and>
     feed_stage 1 15 n (y_fast s) \<and> feed_stage 2 11 n (y_deribit s) \<and>
     socket_stage 3 9 n (y_broker s) \<and> socket_stage 4 22 n (pb_ctl (y_pub s)) \<and>
     engine_stage n (disp (y_engine s)) (y_strategy s) \<and> flags_stage n s)"

text \<open>What the threads leave alone.\<close>

lemma rx_thread_frame:
  assumes "rx_step kd h l x x'" "l \<noteq> Caller"
  shows "rx_caller x' = rx_caller x" "\<not> joinable x"
  using assms by (auto elim!: rx_stepE simp: run_enter_def run_spawn_def run_guard_def joinable_def)

lemma with_ring_fields [simp]:
  "rx_caller (with_ring r x) = rx_caller x" "rx_at (with_ring r x) = rx_at x" "joinable (with_ring r x) = joinable x"
  by (simp_all add: with_ring_def joinable_def)

lemma sub_turn_frame:
  assumes "sub_turn k topic a m b = Inr b'"
  shows "c_stopped (sb_ctl b') = c_stopped (sb_ctl b)" "c_thread (sb_ctl b) = NoThread \<Longrightarrow> b' = b"
  using assms by (auto simp: sub_turn_def sub_end_def after_set_up_def after_loop_def using_socket_def map_sum_Inr Let_def
      split: thread_at.splits if_splits zmq_recv.splits)

lemma pub_turn_frame:
  "c_stopped (pb_ctl (pub_turn a p)) = c_stopped (pb_ctl p)" "c_thread (pb_ctl p) = NoThread \<Longrightarrow> pub_turn a p = p"
  by (auto simp: pub_turn_def after_set_up_def after_loop_def using_socket_def Let_def split: thread_at.splits prod.splits)

lemma strategy_turn_disp:
  assumes "strategy_turn k lt cfg now e = Some (e', ev)"
  shows "d_running (disp e') = d_running (disp e)" "d_stopped (disp e') = d_stopped (disp e)"
    "d_queue (disp e') = d_queue (disp e) @ new_signals e e'"
proof -
  obtain lead fr dr a ev1 where u: "agg_update k lt cfg (fast_ring e) (deribit_ring e) now (aggr e) = Some (lead, fr, dr, a, ev1)"
    using assms by (auto simp: strategy_turn_def split: Option.bind_splits prod.splits)
  let ?e = "e\<lparr> fast_ring := fr, deribit_ring := dr, aggr := a \<rparr>"
  have "d_running (disp e') = d_running (disp e) \<and> d_stopped (disp e') = d_stopped (disp e) \<and>
      (\<exists>new. d_queue (disp e') = d_queue (disp e) @ new)"
  proof (cases lead)
    case None
    then show ?thesis using assms u by (auto simp: strategy_turn_def)
  next
    case (Some l)
    obtain e2 ev2 where d: "decide k cfg now l ?e = (e2, ev2)" by (cases "decide k cfg now l ?e")
    have "\<exists>new. d_queue (disp e2) = d_queue (disp e) @ new"
      using d by (auto simp: decide_def submit_def Let_def split: option.splits prod.splits if_splits)
    then show ?thesis using assms u d Some decide_frame(5,6) [OF d] by (auto simp: strategy_turn_def)
  qed
  then show "d_running (disp e') = d_running (disp e)" "d_stopped (disp e') = d_stopped (disp e)"
    "d_queue (disp e') = d_queue (disp e) @ new_signals e e'" by (auto simp: new_signals_def)
qed

lemma worker_turn_flags:
  assumes "worker_turn cfg d = Some (d', effs)"
  shows "d_running d' = d_running d" "d_stopped d' = d_stopped d" "d_running d" "\<not> d_stopped d"
proof -
  show r: "d_running d" "\<not> d_stopped d" using assms by (auto simp: worker_turn_def split: if_splits)
  show "d_running d' = d_running d" "d_stopped d' = d_stopped d"
    using assms by (auto simp: worker_turn_route [OF r] split: list.splits)
qed

lemma deliver_frame:
  "y_engine (fold deliver effs s) = y_engine s" "y_fast (fold deliver effs s) = y_fast s"
  "y_deribit (fold deliver effs s) = y_deribit s" "y_broker (fold deliver effs s) = y_broker s"
  "y_tel (fold deliver effs s) = y_tel s" "y_strategy (fold deliver effs s) = y_strategy s"
  "y_shutdown (fold deliver effs s) = y_shutdown s" "y_todo (fold deliver effs s) = y_todo s"
  "y_submitted (fold deliver effs s) = y_submitted s" "y_routed (fold deliver effs s) = y_routed s"
  "pb_ctl (y_pub (fold deliver effs s)) = pb_ctl (y_pub s)" "pb_sent (y_pub (fold deliver effs s)) = pb_sent (y_pub s)"
  "fc_running (y_fix (fold deliver effs s)) = fc_running (y_fix s)"
proof -
  have d: "y_engine (deliver eff s) = y_engine s" "y_fast (deliver eff s) = y_fast s"
    "y_deribit (deliver eff s) = y_deribit s" "y_broker (deliver eff s) = y_broker s"
    "y_tel (deliver eff s) = y_tel s" "y_strategy (deliver eff s) = y_strategy s"
    "y_shutdown (deliver eff s) = y_shutdown s" "y_todo (deliver eff s) = y_todo s"
    "y_submitted (deliver eff s) = y_submitted s" "y_routed (deliver eff s) = y_routed s"
    "pb_ctl (y_pub (deliver eff s)) = pb_ctl (y_pub s)" "pb_sent (y_pub (deliver eff s)) = pb_sent (y_pub s)"
    "fc_running (y_fix (deliver eff s)) = fc_running (y_fix s)" for eff s
    by (cases eff; simp add: send_order_def)+
  show "y_engine (fold deliver effs s) = y_engine s" "y_fast (fold deliver effs s) = y_fast s"
    "y_deribit (fold deliver effs s) = y_deribit s" "y_broker (fold deliver effs s) = y_broker s"
    "y_tel (fold deliver effs s) = y_tel s" "y_strategy (fold deliver effs s) = y_strategy s"
    "y_shutdown (fold deliver effs s) = y_shutdown s" "y_todo (fold deliver effs s) = y_todo s"
    "y_submitted (fold deliver effs s) = y_submitted s" "y_routed (fold deliver effs s) = y_routed s"
    "pb_ctl (y_pub (fold deliver effs s)) = pb_ctl (y_pub s)" "pb_sent (y_pub (fold deliver effs s)) = pb_sent (y_pub s)"
    "fc_running (y_fix (fold deliver effs s)) = fc_running (y_fix s)"
    by (induction effs arbitrary: s) (simp_all add: d)
qed

lemma fc_connect_running: "fc_running (fc_connect cfg ck up sock s) = fc_running s"
  by (simp add: fc_connect_def close_socket_def send_frame_def Let_def)

lemma main_step_at:
  assumes "main_step s = Some s'" "y_todo s = drop n main_program" "n \<le> length main_program"
  obtains s1 where "n < 25" "main_do (main_program ! n) s = Some s1" "s' = s1\<lparr> y_todo := drop (Suc n) main_program \<rparr>"
proof (cases "n < 25")
  case True
  then have "drop n main_program = main_program ! n # drop (Suc n) main_program"
    by (intro Cons_nth_drop_Suc [symmetric]) (simp add: main_program_def)
  then show ?thesis using assms that True by (auto simp: main_step_def)
next
  case False
  then show ?thesis using assms by (simp add: main_step_def main_program_def)
qed

lemma main_at_drop: "n \<le> 25 \<Longrightarrow> y_todo s = drop n main_program \<Longrightarrow> main_at s = n"
  by (simp add: main_at_def main_program_def)

lemma program_length [simp]: "length main_program = 25"
  by (simp add: main_program_def)

lemma below_25: "(n :: nat) < 25 \<Longrightarrow> n \<in> {0, 1, 2, 3, 4, 5, 6, 7, 8, 9, 10, 11, 12, 13, 14, 15, 16, 17, 18, 19, 20, 21, 22, 23, 24}"
  by (auto simp: numeral_eq_Suc less_Suc_eq)

lemma program_nth:
  "main_program ! 0 = TelStart" "main_program ! Suc 0 = FastStart" "main_program ! 2 = DeribitStart"
  "main_program ! 3 = BrokerStart" "main_program ! 4 = PubStart" "main_program ! 5 = FixStart" "main_program ! 6 = ExecStart"
  "main_program ! 7 = StrategyStart" "main_program ! 8 = AwaitShutdown" "main_program ! 9 = BrokerStop"
  "main_program ! 10 = BrokerJoin" "main_program ! 11 = DeribitFlag" "main_program ! 12 = DeribitLook"
  "main_program ! 13 = DeribitHalt" "main_program ! 14 = DeribitJoin" "main_program ! 15 = FastFlag"
  "main_program ! 16 = FastLook" "main_program ! 17 = FastHalt" "main_program ! 18 = FastJoin"
  "main_program ! 19 = StrategyJoin" "main_program ! 20 = ExecStop" "main_program ! 21 = FixStop"
  "main_program ! 22 = PubStop" "main_program ! 23 = PubJoin" "main_program ! 24 = TelStop"
  by (simp_all add: main_program_def)

lemmas start_defs = broker_start_def zmq_start_def broker_stop_def zmq_stop_def zmq_join_def waits_for_def
  fc_start_def fc_stop_def close_socket_def disp_start_def disp_stop_def control_init_def

text \<open>Each statement brings every part to its next stage.\<close>

lemma stage_steps:
  assumes "n < 25" "main_do (main_program ! n) s = Some s1"
  shows fast_stage: "feed_stage 1 15 n (y_fast s) \<Longrightarrow> feed_stage 1 15 (Suc n) (y_fast s1)"
    and deribit_stage: "feed_stage 2 11 n (y_deribit s) \<Longrightarrow> feed_stage 2 11 (Suc n) (y_deribit s1)"
    and broker_stage: "socket_stage 3 9 n (y_broker s) \<Longrightarrow> socket_stage 3 9 (Suc n) (y_broker s1)"
    and pub_stage: "socket_stage 4 22 n (pb_ctl (y_pub s)) \<Longrightarrow> socket_stage 4 22 (Suc n) (pb_ctl (y_pub s1))"
    and dispatcher_stage: "engine_stage n (disp (y_engine s)) (y_strategy s) \<Longrightarrow> engine_stage (Suc n) (disp (y_engine s1)) (y_strategy s1)"
    and main_flags: "flags_stage n s \<Longrightarrow> flags_stage (Suc n) s1"
proof -
  note n = below_25 [OF assms(1)] and do = assms(2)
  show "feed_stage 1 15 (Suc n) (y_fast s1)" if "feed_stage 1 15 n (y_fast s)"
    using n do that by (elim insertE emptyE) (auto simp: program_nth feed_stage_def caller_ok_def rx_defs joinable_def waits_for_def split: if_splits sum.splits)
  show "feed_stage 2 11 (Suc n) (y_deribit s1)" if "feed_stage 2 11 n (y_deribit s)"
    using n do that by (elim insertE emptyE) (auto simp: program_nth feed_stage_def caller_ok_def rx_defs joinable_def waits_for_def split: if_splits sum.splits)
  show "socket_stage 3 9 (Suc n) (y_broker s1)" if "socket_stage 3 9 n (y_broker s)"
    using n do that by (elim insertE emptyE) (auto simp: program_nth socket_stage_def start_defs split: if_splits sum.splits)
  show "socket_stage 4 22 (Suc n) (pb_ctl (y_pub s1))" if "socket_stage 4 22 n (pb_ctl (y_pub s))"
    using n do that by (elim insertE emptyE) (auto simp: program_nth socket_stage_def start_defs split: if_splits sum.splits)
  show "engine_stage (Suc n) (disp (y_engine s1)) (y_strategy s1)" if "engine_stage n (disp (y_engine s)) (y_strategy s)"
    using n do that by (elim insertE emptyE) (auto simp: program_nth engine_stage_def start_defs split: if_splits sum.splits)
  show "flags_stage (Suc n) s1" if "flags_stage n s"
    using n do that by (elim insertE emptyE) (auto simp: program_nth flags_stage_def start_defs split: if_splits sum.splits)
qed

lemma main_step_stages:
  assumes "main_step s = Some s'" "stages_ok s"
  shows "stages_ok s'"
proof -
  define n where "n = main_at s"
  have todo: "y_todo s = drop n main_program" "n \<le> length main_program"
    using assms(2) by (simp_all add: stages_ok_def Let_def n_def)
  from main_step_at [OF assms(1) todo] obtain s1 where
    s1: "n < 25" "main_do (main_program ! n) s = Some s1" "s' = s1\<lparr> y_todo := drop (Suc n) main_program \<rparr>" .
  have n': "main_at s' = Suc n" using s1 by (intro main_at_drop) simp_all
  show ?thesis
    using assms(2) stage_steps [OF s1(1,2)] s1 n' by (simp add: stages_ok_def Let_def flags_stage_def flip: n_def)
qed

text \<open>The threads do not move \<open>main\<close>, and every part stays at its stage.\<close>

lemma feed_stage_thread:
  assumes "rx_step kd h l (with_ring r x) x'" "l \<noteq> Caller" "feed_stage begin first n x" "begin < first"
  shows "feed_stage begin first n x'"
  using rx_thread_frame [OF assms(1,2)] assms(3,4) by (auto simp: feed_stage_def caller_ok_def joinable_def)

lemma socket_stage_thread:
  "socket_stage begin first n c \<Longrightarrow> c_stopped c' = c_stopped c \<Longrightarrow> (c_thread c = NoThread \<Longrightarrow> c' = c) \<Longrightarrow> socket_stage begin first n c'"
  by (auto simp: socket_stage_def control_init_def)

lemma stages_okI:
  assumes "stages_ok s" "y_todo s' = y_todo s"
    and "\<And>n. feed_stage 1 15 n (y_fast s) \<Longrightarrow> feed_stage 1 15 n (y_fast s')"
    and "\<And>n. feed_stage 2 11 n (y_deribit s) \<Longrightarrow> feed_stage 2 11 n (y_deribit s')"
    and "\<And>n. socket_stage 3 9 n (y_broker s) \<Longrightarrow> socket_stage 3 9 n (y_broker s')"
    and "\<And>n. socket_stage 4 22 n (pb_ctl (y_pub s)) \<Longrightarrow> socket_stage 4 22 n (pb_ctl (y_pub s'))"
    and "\<And>n. engine_stage n (disp (y_engine s)) (y_strategy s) \<Longrightarrow> engine_stage n (disp (y_engine s')) (y_strategy s')"
    and "\<And>n. flags_stage n s \<Longrightarrow> flags_stage n s'"
  shows "stages_ok s'"
  using assms by (simp add: stages_ok_def main_at_def Let_def)

lemma sys_step_stages:
  assumes "sys_step k lt js cfg s s'" "stages_ok s"
  shows "stages_ok s'"
  using assms(1)
proof cases
  case main
  then show ?thesis using main_step_stages assms(2) by blast
next
  case signal
  show ?thesis by (rule stages_okI [OF assms(2)]) (simp_all add: signal flags_stage_def)
next
  case (fast now l x)
  show ?thesis by (rule stages_okI [OF assms(2)]) (use fast feed_stage_thread in \<open>auto simp: flags_stage_def\<close>)
next
  case (deribit now l x)
  show ?thesis by (rule stages_okI [OF assms(2)]) (use deribit feed_stage_thread in \<open>auto simp: flags_stage_def\<close>)
next
  case (broker a m)
  then obtain b where b: "sub_turn k (broker_topic (link cfg)) a m \<lparr> sb_ctl = y_broker s, sb_ring = broker_ring (y_engine s) \<rparr> = Inr b"
    "s' = s\<lparr> y_broker := sb_ctl b, y_engine := (y_engine s)\<lparr> broker_ring := sb_ring b \<rparr> \<rparr>"
    by (auto simp: broker_work_def split: sum.splits)
  show ?thesis
    by (rule stages_okI [OF assms(2)]) (use b(2) sub_turn_frame [OF b(1)] in \<open>auto simp: flags_stage_def intro: socket_stage_thread\<close>)
next
  case look
  then show ?thesis by (intro stages_okI [OF assms(2)]) (auto simp: strategy_look_def engine_stage_def flags_stage_def split: if_splits)
next
  case (work now)
  then obtain e ev where e: "y_strategy s = StTurn" "strategy_turn k lt cfg now (y_engine s) = Some (e, ev)"
    "s' = s\<lparr> y_engine := e, y_strategy := StLoop, y_submitted := y_submitted s @ new_signals (y_engine s) e \<rparr>"
    by (auto simp: strategy_work_def split: if_splits)
  show ?thesis
    by (rule stages_okI [OF assms(2)]) (use e strategy_turn_disp [OF e(2)] in \<open>auto simp: engine_stage_def flags_stage_def\<close>)
next
  case dispatch
  then obtain d effs where d: "worker_turn cfg (disp (y_engine s)) = Some (d, effs)"
    "s' = fold deliver effs (s\<lparr> y_engine := (y_engine s)\<lparr> disp := d \<rparr>, y_routed := y_routed s @ take 1 (d_queue (disp (y_engine s))) \<rparr>)"
    by (auto simp: dispatch_work_def)
  show ?thesis
    by (rule stages_okI [OF assms(2)]) (use d(2) worker_turn_flags [OF d(1)] in \<open>simp_all add: deliver_frame engine_stage_def flags_stage_def\<close>)
next
  case (publish a)
  show ?thesis by (rule stages_okI [OF assms(2)])
    (use publish pub_turn_frame in \<open>auto simp: pub_work_def flags_stage_def intro: socket_stage_thread\<close>)
next
  case (fix_turn ck sock)
  show ?thesis by (rule stages_okI [OF assms(2)]) (simp_all add: fix_turn flags_stage_def fc_turn_fields)
next
  case (fix_connect ck up sock)
  show ?thesis by (rule stages_okI [OF assms(2)]) (simp_all add: fix_connect flags_stage_def fc_connect_running)
qed

lemma stages_ok_init: "stages_ok (system_init k cfg)"
  by (simp add: stages_ok_def system_init_def Let_def main_at_def feed_stage_def caller_ok_def socket_stage_def engine_stage_def
      flags_stage_def reactor_init_def pub_init_def engine_init_def dispatcher_init_def fc_init_def control_init_def)

section \<open>Rings, handles and books\<close>

text \<open>The frames of the signals that pass the gate; one that does not fit the buffer is dropped.\<close>

definition wire_frames :: "signal list \<Rightarrow> str list" where
  "wire_frames ss = concat (map (\<lambda>sg. case encode_signal sg 320 of None \<Rightarrow> [] | Some buf \<Rightarrow> [buf]) (filter within_slippage_cap ss))"

definition rings_ok :: "nat \<Rightarrow> system \<Rightarrow> bool" where
  "rings_ok k s \<longleftrightarrow> ring_ok k (fast_ring (y_engine s)) \<and> ring_ok k (deribit_ring (y_engine s)) \<and>
     ring_ok k (broker_ring (y_engine s)) \<and> window_ok (aggr (y_engine s))"

definition books_ok :: "system \<Rightarrow> bool" where
  "books_ok s \<longleftrightarrow> y_submitted s = y_routed s @ d_queue (disp (y_engine s)) \<and>
     pb_sent (y_pub s) @ map msg_frame (pb_queue (y_pub s)) = wire_frames (y_routed s) \<and>
     ctl_ok (y_broker s) \<and> ctl_ok (pb_ctl (y_pub s))"

lemma feed_event_ring:
  assumes "feed_event kd h e f = Some f'" "ring_ok k (f_ring f)" "\<And>m r. ring_ok k r \<Longrightarrow> ring_ok k (snd (h m r))"
  shows "ring_ok k (f_ring f')"
proof (cases e)
  case (Message i m)
  then show ?thesis using assms(1,2) assms(3) [OF assms(2), of m] by (auto simp: Let_def split: if_splits prod.splits)
qed (use assms(1,2) in \<open>auto simp: feed_fail_eq spawn_session_def Let_def split: if_splits\<close>)

lemma pushes_ring: "pushes_at_most k P r r' \<Longrightarrow> ring_ok k r \<Longrightarrow> ring_ok k r'"
  by (auto simp: pushes_at_most_def push_ok)

lemma feed_handler_ring: "ring_ok k r \<Longrightarrow> ring_ok k (snd (feed_handler js cfg k now kd m r))"
  by (cases kd) (simp_all add: feed_handler_def pushes_ring [OF handlers_push(1)] pushes_ring [OF handlers_push(2)]
      pushes_ring [OF handlers_push(3)])

lemma rx_step_ring:
  assumes "rx_step kd (feed_handler js cfg k now kd') l x x'" "ring_ok k (f_ring (rx_feed x))"
  shows "ring_ok k (f_ring (rx_feed x'))"
  using assms feed_event_ring [where h = "feed_handler js cfg k now kd'" and k = k] feed_handler_ring
  by (auto elim!: rx_stepE simp: rx_defs spawn_session_def)

lemma rings_okI:
  assumes "rings_ok k s" "ring_ok k (fast_ring (y_engine s'))" "ring_ok k (deribit_ring (y_engine s'))"
    "ring_ok k (broker_ring (y_engine s'))" "aggr (y_engine s') = aggr (y_engine s)"
  shows "rings_ok k s'"
  using assms by (simp add: rings_ok_def)

lemma main_do_rings: "main_do m s = Some s' \<Longrightarrow> rings_ok k s \<Longrightarrow> rings_ok k s'"
  by (cases m) (auto simp: rings_ok_def waits_for_def split: if_splits sum.splits)

lemma strategy_turn_rings:
  assumes "strategy_turn k lt cfg now e = Some (e', ev)" "ring_ok k (fast_ring e)" "ring_ok k (deribit_ring e)"
    "ring_ok k (broker_ring e)" "window_ok (aggr e)"
  shows "ring_ok k (fast_ring e') \<and> ring_ok k (deribit_ring e') \<and> ring_ok k (broker_ring e') \<and> window_ok (aggr e')"
proof -
  obtain lead fr dr a ev1 where u: "agg_update k lt cfg (fast_ring e) (deribit_ring e) now (aggr e) = Some (lead, fr, dr, a, ev1)"
    using assms by (auto simp: strategy_turn_def split: Option.bind_splits prod.splits)
  then have ok: "ring_ok k fr" "ring_ok k dr" using agg_update_total [OF assms(2,3), of lt cfg now "aggr e"] by auto
  have w: "window_ok a" by (rule window_ok_update [OF assms(5,2,3) u])
  let ?e = "e\<lparr> fast_ring := fr, deribit_ring := dr, aggr := a \<rparr>"
  show ?thesis
  proof (cases lead)
    case None
    then show ?thesis using assms(1,4) u ok w by (auto simp: strategy_turn_def)
  next
    case (Some l)
    obtain e2 ev2 where d: "decide k cfg now l ?e = (e2, ev2)" by (cases "decide k cfg now l ?e")
    show ?thesis using assms(1,4) u ok w Some d decide_frame(1-4) [OF d] by (auto simp: strategy_turn_def)
  qed
qed

lemma sys_step_rings:
  assumes "sys_step k lt js cfg s s'" "rings_ok k s"
  shows "rings_ok k s'"
  using assms(1)
proof cases
  case main
  then obtain m ms s1 where "main_do m s = Some s1" "s' = s1\<lparr> y_todo := ms \<rparr>"
    by (auto simp: main_step_def split: list.splits)
  then show ?thesis using main_do_rings [of m s s1 k] assms(2) by (simp add: rings_ok_def)
next
  case (fast now l x)
  then show ?thesis using rx_step_ring [OF fast(2)] assms(2) by (simp add: rings_ok_def with_ring_def)
next
  case (deribit now l x)
  then show ?thesis using rx_step_ring [OF deribit(2)] assms(2) by (simp add: rings_ok_def with_ring_def)
next
  case (broker a m)
  then show ?thesis using assms(2) broker_recv_ok [of k "broker_ring (y_engine s)"]
    by (auto simp: broker_work_def sub_turn_def sub_end_def Let_def rings_ok_def map_sum_Inr
        split: sum.splits thread_at.splits if_splits zmq_recv.splits)
next
  case (work now)
  then show ?thesis using assms(2) strategy_turn_rings [of k lt cfg now "y_engine s"]
    by (auto simp: strategy_work_def rings_ok_def split: if_splits)
next
  case dispatch
  then show ?thesis using assms(2) by (auto simp: dispatch_work_def rings_ok_def deliver_frame)
qed (use assms(2) in \<open>auto simp: rings_ok_def strategy_look_def pub_work_def split: if_splits\<close>)

lemma rings_ok_init: "k < 64 \<Longrightarrow> rings_ok k (system_init k cfg)"
  by (simp add: rings_ok_def system_init_def engine_init_def ring_init_ok window_ok_init Let_def)

text \<open>The dispatcher's effects on the publisher are the frames of what it routed.\<close>

lemma deliver_route:
  "pb_queue (y_pub (fold deliver (route cfg sg) s)) = pb_queue (y_pub s) @ map SignalMsg (wire_frames [sg])"
proof -
  have "fold deliver (publish_signal sg) s =
      s\<lparr> y_pub := (y_pub s)\<lparr> pb_queue := pb_queue (y_pub s) @ map SignalMsg (case encode_signal sg 320 of None \<Rightarrow> [] | Some b \<Rightarrow> [b]) \<rparr> \<rparr>"
    by (simp add: publish_signal_def zmq_publish_def split: option.split)
  then show ?thesis by (simp add: route_def wire_frames_def split: option.split)
qed

lemma wire_frames_append: "wire_frames (xs @ ys) = wire_frames xs @ wire_frames ys"
  by (simp add: wire_frames_def)

lemma map_msg_frame: "map msg_frame (map SignalMsg fs) = fs"
  by (simp add: comp_def)

lemma dispatch_books:
  assumes "dispatch_work cfg s = Some s'" "books_ok s"
  shows "books_ok s'"
proof -
  obtain d effs where d: "worker_turn cfg (disp (y_engine s)) = Some (d, effs)"
    "s' = fold deliver effs (s\<lparr> y_engine := (y_engine s)\<lparr> disp := d \<rparr>, y_routed := y_routed s @ take 1 (d_queue (disp (y_engine s))) \<rparr>)"
    using assms(1) by (auto simp: dispatch_work_def)
  note r = worker_turn_route [OF worker_turn_flags(3,4) [OF d(1)], of cfg]
  show ?thesis
  proof (cases "d_queue (disp (y_engine s))")
    case Nil
    then show ?thesis using assms(2) d r by (simp add: books_ok_def)
  next
    case (Cons sg q)
    then have e: "effs = route cfg sg" "d_queue d = q" using d r by auto
    have "pb_sent (y_pub s) @ map msg_frame (pb_queue (y_pub s) @ map SignalMsg (wire_frames [sg])) = wire_frames (y_routed s) @ wire_frames [sg]"
      using assms(2) by (simp only: books_ok_def map_append map_msg_frame flip: append_assoc)
    then show ?thesis using assms(2) Cons unfolding books_ok_def d(2) e(1) deliver_frame deliver_route
      by (simp add: e(2) wire_frames_append)
  qed
qed

lemma pub_turn_books: "pb_sent (pub_turn a p) @ map msg_frame (pb_queue (pub_turn a p)) = pb_sent p @ map msg_frame (pb_queue p)"
  by (simp add: pub_turn_def zmq_turn_def zmq_drain_def split: thread_at.split)

lemma ctl_ok_calls:
  assumes "ctl_ok c"
  shows "ctl_ok (zmq_stop c)" "zmq_start c = Inr c' \<Longrightarrow> ctl_ok c'" "zmq_join c = Some c' \<Longrightarrow> ctl_ok c'"
  using assms ctl_ok_step ctl_step.stop ctl_step.start ctl_step.join by blast+

lemma main_do_books:
  assumes "main_do m s = Some s'" "books_ok s"
  shows "books_ok s'"
  using assms
  by (cases m) (auto simp: books_ok_def waits_for_def broker_start_def broker_stop_def disp_start_def disp_stop_def
      split: if_splits sum.splits dest: ctl_ok_calls(2,3) intro: ctl_ok_calls)

lemma sys_step_books:
  assumes "sys_step k lt js cfg s s'" "books_ok s"
  shows "books_ok s'"
  using assms(1)
proof cases
  case main
  then obtain m ms s1 where "main_do m s = Some s1" "s' = s1\<lparr> y_todo := ms \<rparr>"
    by (auto simp: main_step_def split: list.splits)
  then show ?thesis using main_do_books [of m s s1] assms(2) by (simp add: books_ok_def)
next
  case (broker a m)
  then obtain b where b: "sub_turn k (broker_topic (link cfg)) a m \<lparr> sb_ctl = y_broker s, sb_ring = broker_ring (y_engine s) \<rparr> = Inr b"
    "s' = s\<lparr> y_broker := sb_ctl b, y_engine := (y_engine s)\<lparr> broker_ring := sb_ring b \<rparr> \<rparr>"
    by (auto simp: broker_work_def split: sum.splits)
  have "sub_step k (broker_topic (link cfg)) (SubTurn a m) \<lparr> sb_ctl = y_broker s, sb_ring = broker_ring (y_engine s) \<rparr> = Inr b"
    using b(1) by simp
  from sub_thread.step_ctl [OF this] have "ctl_ok (sb_ctl b)" using assms(2) ctl_ok_step by (simp add: books_ok_def)
  then show ?thesis using assms(2) b(2) by (simp add: books_ok_def)
next
  case (work now)
  then show ?thesis using assms(2) strategy_turn_disp [of k lt cfg now "y_engine s"]
    by (auto simp: strategy_work_def books_ok_def split: if_splits)
next
  case dispatch
  then show ?thesis using dispatch_books assms(2) by blast
next
  case (publish a)
  have "ctl_ok (pb_ctl (pub_turn a (y_pub s)))"
    using pub_thread.step_ctl [of "PubTurn a" "y_pub s" "pub_turn a (y_pub s)"] assms(2) ctl_ok_step by (simp add: books_ok_def)
  then show ?thesis using assms(2) publish pub_turn_books [of a "y_pub s"] by (simp add: books_ok_def pub_work_def)
qed (use assms(2) in \<open>auto simp: books_ok_def strategy_look_def split: if_splits\<close>)

lemma books_ok_init: "books_ok (system_init k cfg)"
  by (simp add: books_ok_def system_init_def Let_def engine_init_def dispatcher_init_def pub_init_def wire_frames_def ctl_ok_init)

lemma sys_reach_ok:
  assumes "sys_reach k lt js cfg s"
  shows "stages_ok s" "books_ok s" "k < 64 \<Longrightarrow> rings_ok k s"
  using assms unfolding sys_reach_def
  by (induction rule: rtranclp_induct)
    (auto intro: stages_ok_init books_ok_init rings_ok_init sys_step_stages sys_step_books sys_step_rings)

end
