(* ===== verification/Shutdown.thy ===== *)
theory Shutdown
  imports System
begin

text \<open>
  What the order of starting and stopping in \<open>main.cpp\<close> gives: who is up while whom it calls is up,
  what is left at the end, and that the end can be reached from every state of the system.
\<close>

section \<open>Reactors inside the system\<close>

definition rx_ok :: "reactor \<Rightarrow> bool" where
  "rx_ok x \<longleftrightarrow> (\<exists>fired. rx_inv fired x)"

definition reactors_ok :: "system \<Rightarrow> bool" where
  "reactors_ok s \<longleftrightarrow> rx_ok (y_fast s) \<and> rx_ok (y_deribit s)"

lemma rx_ok_with_ring [simp]: "rx_ok (with_ring r x) = rx_ok x"
  by (simp add: rx_ok_def rx_inv_def with_ring_def)

lemma rx_ok_step: "rx_step kd h l x x' \<Longrightarrow> rx_ok x \<Longrightarrow> rx_ok x'"
  using rx_inv_step unfolding rx_ok_def by blast

lemma rx_ok_init: "rx_ok (reactor_init d r)"
  unfolding rx_ok_def by (rule exI [of _ False]) (simp add: rx_inv_def reactor_init_def)

text \<open>The statements of \<open>main\<close> on a feed are steps of its caller.\<close>

lemma rx_ok_calls:
  assumes "rx_ok x"
  shows "rx_caller x = Idle \<Longrightarrow> rx_at x = NotStarted \<Longrightarrow> rx_ok (caller_start x)"
    and "rx_caller x = Idle \<Longrightarrow> rx_ok (stop_flag x)"
    and "rx_caller x = StopIo \<Longrightarrow> rx_ok (stop_io x)"
    and "rx_caller x = StopReactor \<Longrightarrow> rx_ok (stop_reactor x)"
    and "rx_caller x = Join \<Longrightarrow> joinable x \<Longrightarrow> rx_ok (stop_join x)"
  using rx_ok_step [OF rx_step.start assms] rx_ok_step [OF rx_step.flag assms] rx_ok_step [OF rx_step.look assms]
    rx_ok_step [OF rx_step.halt assms] rx_ok_step [OF rx_step.join assms]
  by (simp_all add: joinable_def)

lemma main_do_reactors:
  assumes "n < 25" "main_do (main_program ! n) s = Some s1"
    "feed_stage 1 15 n (y_fast s)" "feed_stage 2 11 n (y_deribit s)" "reactors_ok s"
  shows "reactors_ok s1"
  using below_25 [OF assms(1)] assms(2-)
  by (elim insertE emptyE) (auto simp: program_nth reactors_ok_def feed_stage_def caller_ok_def waits_for_def
      split: if_splits sum.splits intro: rx_ok_calls)

lemma sys_step_reactors:
  assumes "sys_step k lt js cfg s s'" "stages_ok s" "reactors_ok s"
  shows "reactors_ok s'"
  using assms(1)
proof cases
  case main
  define n where "n = main_at s"
  have st: "y_todo s = drop n main_program" "n \<le> length main_program" "feed_stage 1 15 n (y_fast s)" "feed_stage 2 11 n (y_deribit s)"
    using assms(2) by (simp_all add: stages_ok_def Let_def n_def)
  from main_step_at [OF main st(1,2)] obtain s1 where
    "n < 25" "main_do (main_program ! n) s = Some s1" "s' = s1\<lparr> y_todo := drop (Suc n) main_program \<rparr>" .
  then show ?thesis using main_do_reactors [OF _ _ st(3,4) assms(3)] by (simp add: reactors_ok_def)
next
  case (fast now l x)
  then show ?thesis using assms(3) rx_ok_step [OF fast(2)] by (auto simp: reactors_ok_def)
next
  case (deribit now l x)
  then show ?thesis using assms(3) rx_ok_step [OF deribit(2)] by (auto simp: reactors_ok_def)
next
  case dispatch
  then show ?thesis using assms(3) by (auto simp: dispatch_work_def reactors_ok_def deliver_frame)
qed (use assms(3) in \<open>auto simp: reactors_ok_def broker_work_def strategy_look_def strategy_work_def pub_work_def
    split: if_splits sum.splits\<close>)

lemma sys_reach_reactors: "sys_reach k lt js cfg s \<Longrightarrow> reactors_ok s"
proof -
  have i: "reactors_ok (system_init k cfg)" by (simp add: reactors_ok_def system_init_def Let_def rx_ok_init)
  assume "sys_reach k lt js cfg s"
  then have "stages_ok s \<and> reactors_ok s" unfolding sys_reach_def
    by (induction rule: rtranclp_induct) (use i stages_ok_init sys_step_stages sys_step_reactors in blast)+
  then show ?thesis ..
qed

section \<open>Whoever is up can rely on what it calls\<close>

definition strategy_up :: "system \<Rightarrow> bool" where
  "strategy_up s \<longleftrightarrow> y_strategy s \<in> {StLoop, StTurn}"

definition dispatcher_up :: "system \<Rightarrow> bool" where
  "dispatcher_up s \<longleftrightarrow> d_running (disp (y_engine s)) \<and> \<not> d_stopped (disp (y_engine s))"

definition publisher_up :: "system \<Rightarrow> bool" where
  "publisher_up s \<longleftrightarrow> 4 < main_at s \<and> \<not> c_stopped (pb_ctl (y_pub s))"

definition somebody_up :: "system \<Rightarrow> bool" where
  "somebody_up s \<longleftrightarrow> \<not> joinable (y_fast s) \<or> \<not> joinable (y_deribit s) \<or> active (c_thread (y_broker s)) \<or>
     active (c_thread (pb_ctl (y_pub s))) \<or> fc_running (y_fix s) \<or> dispatcher_up s \<or> strategy_up s"

lemma nobody_up:
  assumes "stages_ok s" "main_at s = n" "n = 0 \<or> n = 25"
  shows "\<not> somebody_up s"
proof -
  have st: "feed_stage 1 15 n (y_fast s)" "feed_stage 2 11 n (y_deribit s)" "socket_stage 3 9 n (y_broker s)"
    "socket_stage 4 22 n (pb_ctl (y_pub s))" "engine_stage n (disp (y_engine s)) (y_strategy s)" "flags_stage n s"
    using assms(1,2) by (simp_all add: stages_ok_def Let_def)
  have "joinable (y_fast s)" using st(1) assms(3) by (auto simp: feed_stage_def joinable_def)
  moreover have "joinable (y_deribit s)" using st(2) assms(3) by (auto simp: feed_stage_def joinable_def)
  moreover have "\<not> active (c_thread (y_broker s))" using st(3) assms(3) by (auto simp: socket_stage_def active_def control_init_def)
  moreover have "\<not> active (c_thread (pb_ctl (y_pub s)))" using st(4) assms(3) by (auto simp: socket_stage_def active_def control_init_def)
  moreover have "\<not> dispatcher_up s" "\<not> strategy_up s" using st(5) assms(3)
    by (auto simp: engine_stage_def dispatcher_up_def strategy_up_def)
  moreover have "\<not> fc_running (y_fix s)" using st(6) assms(3) by (auto simp: flags_stage_def)
  ultimately show ?thesis by (simp add: somebody_up_def)
qed

lemma up_order:
  assumes "stages_ok s"
  shows "strategy_up s \<Longrightarrow> dispatcher_up s" "dispatcher_up s \<Longrightarrow> fc_running (y_fix s)"
    "dispatcher_up s \<Longrightarrow> publisher_up s" "somebody_up s \<Longrightarrow> y_tel s"
proof -
  define n where "n = main_at s"
  have st: "n \<le> 25" "socket_stage 4 22 n (pb_ctl (y_pub s))"
    "engine_stage n (disp (y_engine s)) (y_strategy s)" "flags_stage n s"
    using assms by (simp_all add: stages_ok_def Let_def n_def)
  show "dispatcher_up s" if "strategy_up s" using st(3) that by (auto simp: strategy_up_def dispatcher_up_def engine_stage_def)
  show "fc_running (y_fix s)" if "dispatcher_up s" using st(3,4) that by (auto simp: dispatcher_up_def engine_stage_def flags_stage_def)
  show "publisher_up s" if "dispatcher_up s" using st(2,3) that
    by (auto simp: dispatcher_up_def engine_stage_def socket_stage_def publisher_up_def n_def)
  show "y_tel s" if "somebody_up s"
  proof (rule ccontr)
    assume "\<not> y_tel s"
    then have "n = 0 \<or> n = 25" using st(1,4) by (auto simp: flags_stage_def)
    then show False using that nobody_up [OF assms] by (simp add: n_def)
  qed
qed

lemma at_end:
  assumes "stages_ok s" "books_ok s" "y_todo s = []"
  shows "\<not> somebody_up s" "tidy (c_trace (y_broker s))" "tidy (c_trace (pb_ctl (y_pub s)))"
proof -
  have n: "main_at s = 25" using assms(3) by (simp add: main_at_def)
  show "\<not> somebody_up s" using nobody_up [OF assms(1) n] by simp
  have "socket_stage 3 9 25 (y_broker s)" "socket_stage 4 22 25 (pb_ctl (y_pub s))"
    using assms(1) by (simp_all add: stages_ok_def Let_def n)
  then show "tidy (c_trace (y_broker s))" "tidy (c_trace (pb_ctl (y_pub s)))"
    using assms(2) by (simp_all add: socket_stage_def books_ok_def ctl_ok_def tidy_def)
qed

section \<open>A reactor can always end\<close>

text \<open>Once its flag is down a feed does not connect again, so that its work runs out.\<close>

definition feed_work :: "feed \<Rightarrow> nat" where
  "feed_work f = length (sessions f) + length (timers f) + pongs f"

definition thread_path :: "feed_kind \<Rightarrow> (str \<Rightarrow> tick ring \<Rightarrow> str \<times> tick ring) \<Rightarrow> reactor \<Rightarrow> reactor \<Rightarrow> bool" where
  "thread_path kd h = (\<lambda>x x'. \<exists>l. l \<noteq> Caller \<and> rx_step kd h l x x')\<^sup>*\<^sup>*"

lemma thread_path_step: "rx_step kd h l x x' \<Longrightarrow> l \<noteq> Caller \<Longrightarrow> thread_path kd h x' x'' \<Longrightarrow> thread_path kd h x x''"
  unfolding thread_path_def by (rule converse_rtranclp_into_rtranclp) auto

lemma thread_path_trans: "thread_path kd h x x' \<Longrightarrow> thread_path kd h x' x'' \<Longrightarrow> thread_path kd h x x''"
  unfolding thread_path_def by (rule rtranclp_trans)

lemma thread_path_refl: "thread_path kd h x x"
  by (simp add: thread_path_def)

lemma feed_work_shrinks:
  assumes "f_stopped f" "feed_work f \<noteq> 0"
  obtains e f' where "feed_event kd h e f = Some f'" "e \<noteq> Stop" "feed_work f' < feed_work f" "f_stopped f'"
proof -
  consider "sessions f \<noteq> []" | "timers f \<noteq> []" | "0 < pongs f" using assms(2) by (auto simp: feed_work_def)
  then show ?thesis
  proof cases
    case 1
    then show ?thesis using assms(1) that [of "Failed 0" "f\<lparr> sessions := remove_at 0 (sessions f) \<rparr>"]
      by (simp add: feed_fail_eq feed_work_def length_remove_at)
  next
    case 2
    then show ?thesis using assms(1) that [of "TimerFired 0 True" "f\<lparr> timers := remove_at 0 (timers f) \<rparr>"]
      by (simp add: Let_def feed_work_def length_remove_at)
  next
    case 3
    then show ?thesis using assms(1) that [of PongDone "f\<lparr> pongs := pongs f - 1 \<rparr>"] by (simp add: feed_work_def)
  qed
qed

lemma running_ends:
  assumes "rx_at x = Running" "f_stopped (rx_feed x)"
  shows "\<exists>x'. thread_path kd h x x' \<and> rx_at x' = LeaveIo"
  using assms
proof (induction "feed_work (rx_feed x) + (if rx_guard x then 1 else 0)" arbitrary: x rule: less_induct)
  case less
  show ?case
  proof (cases "out_of_work x")
    case True
    from thread_path_step [OF rx_step.return [OF less.prems(1) True] _ thread_path_refl] show ?thesis
      by (intro exI [of _ "x\<lparr> rx_at := LeaveIo \<rparr>"]) simp
  next
    case False
    then have ns: "\<not> rx_ioc_stopped x" by (simp add: out_of_work_def)
    show ?thesis
    proof (cases "rx_guard x")
      case True
      let ?y = "x\<lparr> rx_guard := False \<rparr>"
      have "\<exists>x'. thread_path kd h ?y x' \<and> rx_at x' = LeaveIo" by (rule less.hyps) (use True less.prems in simp_all)
      then show ?thesis using thread_path_step [OF rx_step.fires [OF less.prems(1) True]] by blast
    next
      case ng: False
      then have "feed_work (rx_feed x) \<noteq> 0" using False by (auto simp: out_of_work_def feed_work_def)
      then obtain e f' where e: "feed_event kd h e (rx_feed x) = Some f'" "e \<noteq> Stop" "feed_work f' < feed_work (rx_feed x)" "f_stopped f'"
        using feed_work_shrinks less.prems(2) by metis
      let ?y = "x\<lparr> rx_feed := f' \<rparr>"
      have "\<exists>x'. thread_path kd h ?y x' \<and> rx_at x' = LeaveIo" by (rule less.hyps) (use ng less.prems e in simp_all)
      then show ?thesis using thread_path_step [OF rx_step.event [OF less.prems(1) ns e(2,1)]] by blast
    qed
  qed
qed

lemma reactor_can_end:
  assumes "rx_caller x \<noteq> Idle" "rx_ok x"
  shows "\<exists>x'. thread_path kd h x x' \<and> joinable x'"
proof -
  have st: "f_stopped (rx_feed x) \<or> rx_at x = NotStarted" using assms by (auto simp: rx_ok_def rx_inv_def)
  have 1: "\<exists>x'. thread_path kd h y x' \<and> joinable x'" if "joinable y" for y
    using that thread_path_refl by blast
  have 2: "\<exists>x'. thread_path kd h y x' \<and> joinable x'" if "rx_at y = LeaveFlag" for y
    using 1 [of "y\<lparr> rx_running := False, rx_at := Done_run \<rparr>"] thread_path_step [OF rx_step.leave_flag [OF that]]
    by (auto simp: joinable_def)
  have 3: "\<exists>x'. thread_path kd h y x' \<and> joinable x'" if "rx_at y = LeaveIo" for y
    using 2 [of "y\<lparr> rx_io := False, rx_at := LeaveFlag \<rparr>"] thread_path_step [OF rx_step.leave_io [OF that]] by auto
  have 4: "\<exists>x'. thread_path kd h y x' \<and> joinable x'" if running: "rx_at y = Running" "f_stopped (rx_feed y)" for y
  proof -
    obtain y' where y': "thread_path kd h y y'" "rx_at y' = LeaveIo" using running_ends [OF running] by blast
    obtain y'' where "thread_path kd h y' y''" "joinable y''" using 3 [OF y'(2)] by blast
    then show ?thesis using y'(1) thread_path_trans by blast
  qed
  have 5: "\<exists>x'. thread_path kd h y x' \<and> joinable x'" if "rx_at y = Guard" "f_stopped (rx_feed y)" for y
    using 4 [of "run_guard y"] thread_path_step [OF rx_step.guard [OF that(1)]] that(2) by (auto simp: run_guard_def)
  have 6: "\<exists>x'. thread_path kd h y x' \<and> joinable x'" if "rx_at y = Spawn" "f_stopped (rx_feed y)" for y
    using 5 [of "run_spawn y"] thread_path_step [OF rx_step.spawn [OF that(1)]] that(2) by (auto simp: run_spawn_def)
  have 7: "\<exists>x'. thread_path kd h y x' \<and> joinable x'" if "rx_at y = Enter" "f_stopped (rx_feed y)" for y
    using 6 [of "run_enter (base_delay kd) y"] thread_path_step [OF rx_step.enter [OF that(1)]] that(2) by (auto simp: run_enter_def)
  show ?thesis
  proof (cases "joinable x")
    case False
    then have "f_stopped (rx_feed x)" using st by (simp add: joinable_def)
    then show ?thesis using 2 3 4 5 6 7 False by (cases "rx_at x") (simp_all add: joinable_def)
  qed (rule 1)
qed

section \<open>Main can always end\<close>

abbreviation "sys_steps k lt js cfg \<equiv> (sys_step k lt js cfg)\<^sup>*\<^sup>*"

text \<open>The steps of a reactor are steps of the system.\<close>

lemma with_ring_same [simp]: "with_ring (f_ring (rx_feed x)) x = x"
  by (simp add: with_ring_def)

lemma fast_path:
  assumes "thread_path (fast_kind cfg) (feed_handler js cfg k 0 (fast_kind cfg)) x x'"
    "with_ring (fast_ring (y_engine s)) (y_fast s) = x"
  shows "\<exists>s'. sys_steps k lt js cfg s s' \<and> with_ring (fast_ring (y_engine s')) (y_fast s') = x' \<and> y_todo s' = y_todo s"
  using assms(1) unfolding thread_path_def
proof (induction rule: rtranclp_induct)
  case base
  then show ?case using assms(2) by auto
next
  case (step y z)
  then obtain s1 l where s1: "sys_steps k lt js cfg s s1" "with_ring (fast_ring (y_engine s1)) (y_fast s1) = y" "y_todo s1 = y_todo s"
    and l: "l \<noteq> Caller" "rx_step (fast_kind cfg) (feed_handler js cfg k 0 (fast_kind cfg)) l y z" by blast
  let ?s = "s1\<lparr> y_fast := z, y_engine := (y_engine s1)\<lparr> fast_ring := f_ring (rx_feed z) \<rparr> \<rparr>"
  have "sys_step k lt js cfg s1 ?s" using sys_step.fast [of cfg js k 0 l s1 z lt] l s1(2) by simp
  then show ?case using s1 by (intro exI [of _ ?s]) auto
qed

lemma deribit_path:
  assumes "thread_path KDeribit (feed_handler js cfg k 0 KDeribit) x x'"
    "with_ring (deribit_ring (y_engine s)) (y_deribit s) = x"
  shows "\<exists>s'. sys_steps k lt js cfg s s' \<and> with_ring (deribit_ring (y_engine s')) (y_deribit s') = x' \<and> y_todo s' = y_todo s"
  using assms(1) unfolding thread_path_def
proof (induction rule: rtranclp_induct)
  case base
  then show ?case using assms(2) by auto
next
  case (step y z)
  then obtain s1 l where s1: "sys_steps k lt js cfg s s1" "with_ring (deribit_ring (y_engine s1)) (y_deribit s1) = y" "y_todo s1 = y_todo s"
    and l: "l \<noteq> Caller" "rx_step KDeribit (feed_handler js cfg k 0 KDeribit) l y z" by blast
  let ?s = "s1\<lparr> y_deribit := z, y_engine := (y_engine s1)\<lparr> deribit_ring := f_ring (rx_feed z) \<rparr> \<rparr>"
  have "sys_step k lt js cfg s1 ?s" using sys_step.deribit [of js cfg k 0 l s1 z lt] l s1(2) by simp
  then show ?case using s1 by (intro exI [of _ ?s]) auto
qed

text \<open>A statement that waits can be brought to return.\<close>

definition can_do :: "nat \<Rightarrow> (int64 \<Rightarrow> int \<times> int) \<Rightarrow> parsers \<Rightarrow> config \<Rightarrow> system \<Rightarrow> bool" where
  "can_do k lt js cfg s \<longleftrightarrow> (\<exists>s'. sys_steps k lt js cfg s s' \<and> y_todo s' = y_todo s \<and> main_do (hd (y_todo s)) s' \<noteq> None)"

lemma can_do_now: "main_do (hd (y_todo s)) s \<noteq> None \<Longrightarrow> can_do k lt js cfg s"
  unfolding can_do_def by blast

lemma can_do_later: "sys_steps k lt js cfg s s1 \<Longrightarrow> y_todo s1 = y_todo s \<Longrightarrow> can_do k lt js cfg s1 \<Longrightarrow> can_do k lt js cfg s"
  unfolding can_do_def by (metis rtranclp_trans)

lemma can_do_step: "sys_step k lt js cfg s s1 \<Longrightarrow> y_todo s1 = y_todo s \<Longrightarrow> can_do k lt js cfg s1 \<Longrightarrow> can_do k lt js cfg s"
  by (rule can_do_later [OF r_into_rtranclp])

lemma can_join_broker:
  assumes "hd (y_todo s) = BrokerJoin" "c_stopped (y_broker s)"
  shows "can_do k lt js cfg s"
proof -
  let ?a = "\<lparr> ctx_ok = True, sock_ok = True, bind_ok = True \<rparr>" and ?t = "broker_topic (link cfg)"
  obtain b1 b2 where b: "sub_turn k ?t ?a NoMessage \<lparr> sb_ctl = y_broker s, sb_ring = broker_ring (y_engine s) \<rparr> = Inr b1"
    "sub_turn k ?t ?a NoMessage b1 = Inr b2" "zmq_join (sb_ctl b2) \<noteq> None"
    using sub_stops [of "\<lparr> sb_ctl = y_broker s, sb_ring = broker_ring (y_engine s) \<rparr>" k ?t ?a NoMessage ?a NoMessage] assms(2) by auto
  let ?s1 = "s\<lparr> y_broker := sb_ctl b1, y_engine := (y_engine s)\<lparr> broker_ring := sb_ring b1 \<rparr> \<rparr>"
  let ?s2 = "?s1\<lparr> y_broker := sb_ctl b2, y_engine := (y_engine ?s1)\<lparr> broker_ring := sb_ring b2 \<rparr> \<rparr>"
  have b1: "\<lparr> sb_ctl = sb_ctl b1, sb_ring = sb_ring b1 \<rparr> = b1" by (cases b1) simp
  have 1: "sys_step k lt js cfg s ?s1" by (rule sys_step.broker [of _ _ ?a NoMessage]) (simp add: broker_work_def b(1))
  have 2: "sys_step k lt js cfg ?s1 ?s2" by (rule sys_step.broker [of _ _ ?a NoMessage]) (simp add: broker_work_def b1 b(2))
  have "can_do k lt js cfg ?s2" using assms(1) b(3) by (intro can_do_now) (simp add: waits_for_def)
  then have "can_do k lt js cfg ?s1" by (rule can_do_step [OF 2, rotated]) simp
  then show ?thesis by (rule can_do_step [OF 1, rotated]) simp
qed

lemma can_join_pub:
  assumes "hd (y_todo s) = PubJoin" "c_stopped (pb_ctl (y_pub s))"
  shows "can_do k lt js cfg s"
proof -
  let ?a = "\<lparr> ctx_ok = True, sock_ok = True, bind_ok = True \<rparr>"
  have "can_do k lt js cfg (pub_work ?a (pub_work ?a s))" using assms(1) pub_stops [OF assms(2), of ?a ?a]
    by (intro can_do_now) (simp add: waits_for_def pub_work_def)
  then have "can_do k lt js cfg (pub_work ?a s)" by (rule can_do_step [OF sys_step.publish, rotated]) (simp add: pub_work_def)
  then show ?thesis by (rule can_do_step [OF sys_step.publish, rotated]) (simp add: pub_work_def)
qed

lemma can_join_strategy:
  assumes "hd (y_todo s) = StrategyJoin" "y_shutdown s" "rings_ok k s" "dispatcher_up s"
  shows "can_do k lt js cfg s"
proof -
  have ended: "can_do k lt js cfg s" if "y_strategy s \<in> {StNone, StEnded}" "hd (y_todo s) = StrategyJoin" for s
    using that by (intro can_do_now) simp
  have loop: "can_do k lt js cfg s" if "y_strategy s = StLoop" "hd (y_todo s) = StrategyJoin" "y_shutdown s" for s
  proof -
    have "sys_step k lt js cfg s (s\<lparr> y_strategy := StEnded \<rparr>)"
      by (rule sys_step.look) (use that in \<open>simp add: strategy_look_def\<close>)
    from can_do_step [OF this _ ended] show ?thesis using that by simp
  qed
  show ?thesis
  proof (cases "y_strategy s")
    case StTurn
    have "engine_ok k (y_engine s)" using assms(3,4) by (simp add: engine_ok_def rings_ok_def dispatcher_up_def)
    then obtain e ev where e: "strategy_turn k lt cfg 0 (y_engine s) = Some (e, ev)" using strategy_turn_ok by blast
    let ?s = "s\<lparr> y_engine := e, y_strategy := StLoop, y_submitted := y_submitted s @ new_signals (y_engine s) e \<rparr>"
    have "sys_step k lt js cfg s ?s" by (rule sys_step.work [of _ _ _ 0]) (simp add: strategy_work_def StTurn e)
    from can_do_step [OF this _ loop] show ?thesis using assms by simp
  qed (use assms ended loop in simp_all)
qed

lemma can_join_feed:
  "hd (y_todo s) = FastJoin \<Longrightarrow> rx_caller (y_fast s) \<noteq> Idle \<Longrightarrow> reactors_ok s \<Longrightarrow> can_do k lt js cfg s"
  "hd (y_todo s) = DeribitJoin \<Longrightarrow> rx_caller (y_deribit s) \<noteq> Idle \<Longrightarrow> reactors_ok s \<Longrightarrow> can_do k lt js cfg s"
proof -
  assume a: "hd (y_todo s) = FastJoin" "rx_caller (y_fast s) \<noteq> Idle" "reactors_ok s"
  obtain x' where x': "thread_path (fast_kind cfg) (feed_handler js cfg k 0 (fast_kind cfg)) (with_ring (fast_ring (y_engine s)) (y_fast s)) x'"
    "joinable x'"
    using reactor_can_end [of "with_ring (fast_ring (y_engine s)) (y_fast s)"] a by (auto simp: reactors_ok_def)
  from fast_path [OF x'(1) refl] obtain s' where s': "sys_steps k lt js cfg s s'"
    "with_ring (fast_ring (y_engine s')) (y_fast s') = x'" "y_todo s' = y_todo s" by blast
  have "joinable (y_fast s')" using x'(2) s'(2) with_ring_fields(3) by metis
  then show "can_do k lt js cfg s" using can_do_later [OF s'(1,3) can_do_now] a(1) s'(3) by simp
next
  assume a: "hd (y_todo s) = DeribitJoin" "rx_caller (y_deribit s) \<noteq> Idle" "reactors_ok s"
  obtain x' where x': "thread_path KDeribit (feed_handler js cfg k 0 KDeribit) (with_ring (deribit_ring (y_engine s)) (y_deribit s)) x'"
    "joinable x'"
    using reactor_can_end [of "with_ring (deribit_ring (y_engine s)) (y_deribit s)"] a by (auto simp: reactors_ok_def)
  from deribit_path [OF x'(1) refl] obtain s' where s': "sys_steps k lt js cfg s s'"
    "with_ring (deribit_ring (y_engine s')) (y_deribit s') = x'" "y_todo s' = y_todo s" by blast
  have "joinable (y_deribit s')" using x'(2) s'(2) with_ring_fields(3) by metis
  then show "can_do k lt js cfg s" using can_do_later [OF s'(1,3) can_do_now] a(1) s'(3) by simp
qed

lemma every_statement_can_return:
  assumes "sys_reach k lt js cfg s" "k < 64" "y_todo s \<noteq> []"
  shows "can_do k lt js cfg s"
proof -
  define n where "n = main_at s"
  note ok = sys_reach_ok [OF assms(1)]
  have st: "y_todo s = drop n main_program" "n \<le> 25" "feed_stage 1 15 n (y_fast s)" "feed_stage 2 11 n (y_deribit s)"
    "socket_stage 3 9 n (y_broker s)" "socket_stage 4 22 n (pb_ctl (y_pub s))"
    "engine_stage n (disp (y_engine s)) (y_strategy s)" "flags_stage n s"
    using ok(1) by (simp_all add: stages_ok_def Let_def n_def)
  have n: "n < 25" using assms(3) st(1,2) by (cases "n = 25") simp_all
  have hd: "hd (y_todo s) = main_program ! n" using st(1) n by (simp add: hd_drop_conv_nth)
  have rx: "reactors_ok s" by (rule sys_reach_reactors [OF assms(1)])
  consider "n \<notin> {3, 4, 8, 10, 14, 18, 19, 23}" | "n = 3" | "n = 4" | "n = 8" | "n = 10" | "n = 14" | "n = 18" | "n = 19" | "n = 23"
    by auto
  then show ?thesis
  proof cases
    case 1
    then have "main_do (main_program ! n) s \<noteq> None"
      using below_25 [OF n] by (elim insertE emptyE) (simp_all add: program_nth)
    then show ?thesis by (intro can_do_now) (simp add: hd)
  next
    case 2
    then show ?thesis using st(5) by (intro can_do_now)
      (simp add: hd program_nth socket_stage_def broker_start_def zmq_start_def control_init_def)
  next
    case 3
    then show ?thesis using st(6) by (intro can_do_now) (simp add: hd program_nth socket_stage_def zmq_start_def control_init_def)
  next
    case 4
    then have "hd (y_todo s) = AwaitShutdown" by (simp add: hd program_nth)
    then have "can_do k lt js cfg (s\<lparr> y_shutdown := True \<rparr>)" by (intro can_do_now) simp
    from can_do_step [OF sys_step.signal _ this] show ?thesis by simp
  next
    case 5
    then show ?thesis using st(5) can_join_broker by (simp add: hd program_nth socket_stage_def)
  next
    case 6
    then show ?thesis using st(4) rx can_join_feed(2) by (simp add: hd program_nth feed_stage_def caller_ok_def)
  next
    case 7
    then show ?thesis using st(3) rx can_join_feed(1) by (simp add: hd program_nth feed_stage_def caller_ok_def)
  next
    case 8
    then show ?thesis using st(7,8) ok(3) [OF assms(2)] can_join_strategy [of s k lt js cfg]
      by (simp add: hd program_nth engine_stage_def flags_stage_def dispatcher_up_def)
  next
    case 9
    then show ?thesis using st(6) can_join_pub by (simp add: hd program_nth socket_stage_def)
  qed
qed

lemma sys_reach_steps: "sys_reach k lt js cfg s \<Longrightarrow> sys_steps k lt js cfg s s' \<Longrightarrow> sys_reach k lt js cfg s'"
  unfolding sys_reach_def by (rule rtranclp_trans)

lemma main_can_end:
  assumes "sys_reach k lt js cfg s" "k < 64"
  shows "\<exists>s'. sys_steps k lt js cfg s s' \<and> y_todo s' = []"
  using assms(1)
proof (induction "length (y_todo s)" arbitrary: s)
  case 0
  then show ?case by auto
next
  case (Suc n)
  then have ne: "y_todo s \<noteq> []" by auto
  from every_statement_can_return [OF Suc.prems assms(2) ne] obtain s1 s2 where
    s1: "sys_steps k lt js cfg s s1" "y_todo s1 = y_todo s" "main_do (hd (y_todo s)) s1 = Some s2"
    by (auto simp: can_do_def)
  let ?s = "s2\<lparr> y_todo := tl (y_todo s) \<rparr>"
  have "main_step s1 = Some ?s" using s1 ne by (cases "y_todo s") (simp_all add: main_step_def)
  then have "sys_steps k lt js cfg s ?s" using s1(1) sys_step.main rtranclp.rtrancl_into_rtrancl by metis
  moreover have "\<exists>s'. sys_steps k lt js cfg ?s s' \<and> y_todo s' = []"
    using Suc.hyps(2) calculation by (intro Suc.hyps(1) sys_reach_steps [OF Suc.prems]) simp_all
  ultimately show ?case using rtranclp_trans by metis
qed

section \<open>Statements in a row\<close>

primrec main_run :: "nat \<Rightarrow> system \<Rightarrow> system option" where
  "main_run 0 s = Some s"
| "main_run (Suc n) s = Option.bind (main_step s) (main_run n)"

lemma main_run_reach: "main_run n s = Some s' \<Longrightarrow> sys_reach k lt js cfg s \<Longrightarrow> sys_reach k lt js cfg s'"
proof (induction n arbitrary: s)
  case (Suc n)
  then obtain s1 where s1: "main_step s = Some s1" "main_run n s1 = Some s'" by (auto simp: bind_eq_Some_conv)
  then have "sys_reach k lt js cfg s1" using Suc.prems(2) sys_reach_steps sys_step.main r_into_rtranclp by metis
  then show ?case using Suc.IH s1(2) by blast
qed simp

text \<open>The first eight bring everybody up.\<close>

lemma system_starts:
  "\<exists>s. sys_reach k lt js cfg s \<and> y_todo s = drop 8 main_program \<and> strategy_up s"
proof -
  have "\<exists>s. main_run 8 (system_init k cfg) = Some s \<and> y_todo s = drop 8 main_program \<and> y_strategy s = StLoop"
    by (simp add: eval_nat_numeral main_step_def system_init_def main_program_def start_defs pub_init_def Let_def)
  moreover have "sys_reach k lt js cfg (system_init k cfg)" by (simp add: sys_reach_def)
  ultimately show ?thesis using main_run_reach by (fastforce simp: strategy_up_def)
qed

end
