(* ===== verification/Probes.thy ===== *)
theory Probes
  imports Oanda CTrader FixBooks
begin

text \<open>
  The three programs that send one order through an executor and exit (\<open>oanda_probe_main.cpp\<close>,
  \<open>ctrader_probe_main.cpp\<close>, \<open>fix_probe_main.cpp\<close>). The main thread looks at \<open>got\<close> and sleeps, a fixed number
  of times; what the executor's thread does in each sleep, and between \<open>stop ()\<close> and the end of its
  \<open>join\<close>, is an argument. The result is the exit status and the executor, or \<open>None\<close> while \<open>join\<close> waits.
\<close>

section \<open>Waiting for the callback\<close>

text \<open>\<open>sleep n\<close> is what happens in the sleep that has \<open>n\<close> more looks after it.\<close>

fun polled :: "('s \<Rightarrow> bool) \<Rightarrow> (nat \<Rightarrow> 's \<Rightarrow> 's) \<Rightarrow> nat \<Rightarrow> 's \<Rightarrow> 's" where
  "polled got sleep 0 s = s"
| "polled got sleep (Suc n) s = (if got s then s else polled got sleep n (sleep n s))"

definition joined :: "bool \<Rightarrow> bool \<Rightarrow> 's \<Rightarrow> (int \<times> 's) option" where
  "joined ended got s = (if ended then Some (if got then 0 else 1, s) else None)"

lemma polled_inv:
  assumes "P s" "\<And>n t. P t \<Longrightarrow> P (sleep n t)"
  shows "P (polled got sleep n s)"
  using assms(1) by (induction n arbitrary: s) (simp_all add: assms(2))

text \<open>With turns in the sleeps: all of them are made, unless the callback came first.\<close>

lemma polled_turns:
  obtains k where "polled got (\<lambda>i. turn ^^ w i) n s = (turn ^^ k) s" "k \<le> sum w {..<n}"
    "k = sum w {..<n} \<or> got ((turn ^^ k) s)"
proof -
  have "\<exists>k. k \<le> sum w {..<n} \<and> polled got (\<lambda>i. turn ^^ w i) n s = (turn ^^ k) s \<and> (k = sum w {..<n} \<or> got ((turn ^^ k) s))"
  proof (induction n arbitrary: s)
    case (Suc n)
    show ?case
    proof (cases "got s")
      case True
      then show ?thesis by (intro exI [of _ 0]) simp
    next
      case False
      from Suc.IH obtain k where k: "k \<le> sum w {..<n}" "polled got (\<lambda>i. turn ^^ w i) n ((turn ^^ w n) s) = (turn ^^ k) ((turn ^^ w n) s)"
        "k = sum w {..<n} \<or> got ((turn ^^ k) ((turn ^^ w n) s))" by blast
      then show ?thesis using False by (intro exI [of _ "k + w n"]) (auto simp: funpow_add)
    qed
  qed simp
  then show ?thesis using that by blast
qed

section \<open>OANDA\<close>

definition oanda_probe :: "environment \<Rightarrow> str list \<Rightarrow> (nat \<Rightarrow> nat) \<Rightarrow> nat \<Rightarrow> oe \<Rightarrow> (int \<times> oe) option" where
  "oanda_probe getenv args sleeps after s =
     (if length args < 5 then Some (2, s)
      else let cfg = from_env getenv;
               job = \<lparr> oj_instrument = oanda_instrument (oanda cfg), oj_side = args ! 1, oj_units = atof (args ! 2),
                       oj_sl = atof (args ! 3), oj_tp = atof (args ! 4) \<rparr>;
               got = (\<lambda>s. report_ids (oe_out s) \<noteq> [])
           in if oanda_token (oanda cfg) = [] \<or> oanda_account_id (oanda cfg) = [] then Some (1, s)
              else let s = oe_execute job (oe_start s);
                       s = polled got (\<lambda>i. oe_turn cfg ^^ sleeps i) 200 s;
                       s = (oe_turn cfg ^^ after) (oe_stop s)
                   in joined (oe_pos s = Exited) (got s) s)"

text \<open>An instrument is always configured.\<close>

lemma instrument_set: "oanda_instrument (oanda (from_env getenv)) \<noteq> []"
  by (auto simp: from_env_def oanda_from_env_def config_default_def oanda_default_def senv_def env_def Let_def
      split: option.splits if_splits)

lemma turn_without_jobs:
  "oe_jobs s = [] \<Longrightarrow> oe_jobs (oe_turn cfg s) = [] \<and> oe_out (oe_turn cfg s) = oe_out s"
  using take_job_none [of s cfg] by (cases "oe_pos s") (auto simp: oe_turn_def Let_def)

lemma turns_without_jobs:
  "oe_jobs s = [] \<Longrightarrow> oe_jobs ((oe_turn cfg ^^ n) s) = [] \<and> report_ids (oe_out ((oe_turn cfg ^^ n) s)) = report_ids (oe_out s)"
  by (induction n) (simp_all add: turn_without_jobs)

text \<open>The first turns of a worker with one job: it enters, looks, takes the job.\<close>

definition fresh :: "oanda_job \<Rightarrow> worker_pos \<Rightarrow> oe \<Rightarrow> bool" where
  "fresh job p s \<longleftrightarrow> oe_pos s = p \<and> oe_jobs s = [job] \<and> oe_wake s \<and> report_ids (oe_out s) = [] \<and> oe_next_id s = 0"

lemma fresh_turns:
  "fresh job Entering s \<Longrightarrow> fresh job AtHead (oe_turn cfg s) \<and> oe_running (oe_turn cfg s) = oe_running s"
  "fresh job AtHead s \<Longrightarrow> oe_running s \<Longrightarrow> fresh job Waiting (oe_turn cfg s) \<and> oe_running (oe_turn cfg s)"
  "fresh job Waiting s \<Longrightarrow> oe_jobs (oe_turn cfg s) = [] \<and> report_ids (oe_out (oe_turn cfg s)) = [1]"
  using take_job_some [of s job "[]" cfg] by (auto simp: fresh_def oe_turn_def Let_def)

lemma fresh_after:
  assumes "fresh job Entering s" "oe_running s"
  shows "k = 0 \<Longrightarrow> fresh job Entering ((oe_turn cfg ^^ k) s)" "k = 1 \<Longrightarrow> fresh job AtHead ((oe_turn cfg ^^ k) s)"
    "k = 2 \<Longrightarrow> fresh job Waiting ((oe_turn cfg ^^ k) s)"
    "3 \<le> k \<Longrightarrow> oe_jobs ((oe_turn cfg ^^ k) s) = [] \<and> report_ids (oe_out ((oe_turn cfg ^^ k) s)) = [1]"
proof -
  have 1: "fresh job AtHead (oe_turn cfg s)" "oe_running (oe_turn cfg s)" using assms fresh_turns(1) by auto
  have 2: "fresh job Waiting (oe_turn cfg (oe_turn cfg s))" using fresh_turns(2) [OF 1] by blast
  have 3: "oe_jobs ((oe_turn cfg ^^ 3) s) = []" "report_ids (oe_out ((oe_turn cfg ^^ 3) s)) = [1]"
    using fresh_turns(3) [OF 2] by (simp_all add: numeral_3_eq_3)
  show "k = 0 \<Longrightarrow> fresh job Entering ((oe_turn cfg ^^ k) s)" "k = 1 \<Longrightarrow> fresh job AtHead ((oe_turn cfg ^^ k) s)"
    "k = 2 \<Longrightarrow> fresh job Waiting ((oe_turn cfg ^^ k) s)"
    using assms 1 2 by (simp_all add: numeral_2_eq_2)
  assume "3 \<le> k"
  then have "(oe_turn cfg ^^ k) s = (oe_turn cfg ^^ (k - 3)) ((oe_turn cfg ^^ 3) s)"
    using funpow_add [of "k - 3" 3 "oe_turn cfg"] by (simp add: comp_def fun_eq_iff)
  then show "oe_jobs ((oe_turn cfg ^^ k) s) = [] \<and> report_ids (oe_out ((oe_turn cfg ^^ k) s)) = [1]"
    using turns_without_jobs [OF 3(1)] 3(2) by simp
qed

text \<open>A worker that has not yet looked when it is stopped leaves the job.\<close>

lemma stopped_turn:
  assumes "\<not> oe_running s" "oe_pos s \<in> {Entering, AtHead, Exited}"
  shows "\<not> oe_running (oe_turn cfg s)" "oe_pos (oe_turn cfg s) \<in> {Entering, AtHead, Exited}" "oe_out (oe_turn cfg s) = oe_out s"
  using assms by (auto simp: oe_turn_def Let_def)

lemma stopped_leaves_job:
  assumes "\<not> oe_running s" "oe_pos s \<in> {Entering, AtHead, Exited}"
  shows "oe_out ((oe_turn cfg ^^ n) s) = oe_out s"
proof -
  have "\<not> oe_running ((oe_turn cfg ^^ n) s) \<and> oe_pos ((oe_turn cfg ^^ n) s) \<in> {Entering, AtHead, Exited} \<and>
      oe_out ((oe_turn cfg ^^ n) s) = oe_out s"
  proof (induction n)
    case (Suc n)
    then show ?case using stopped_turn [of "(oe_turn cfg ^^ n) s" cfg] by simp
  qed (use assms in simp)
  then show ?thesis by blast
qed

text \<open>The join returns after three turns.\<close>

lemma turn_keeps:
  "oe_running (oe_turn cfg s) = oe_running s" "oe_pos s \<noteq> NoThread \<Longrightarrow> oe_pos (oe_turn cfg s) \<noteq> NoThread"
  "oe_pos s = Exited \<Longrightarrow> oe_turn cfg s = s"
proof -
  have "oe_running (take_job cfg s) = oe_running s \<and> oe_pos (take_job cfg s) \<noteq> NoThread"
    using take_job_some [of s] take_job_none [of s] by (cases "oe_jobs s") auto
  then show "oe_running (oe_turn cfg s) = oe_running s" "oe_pos s \<noteq> NoThread \<Longrightarrow> oe_pos (oe_turn cfg s) \<noteq> NoThread"
    by (cases "oe_pos s"; simp add: oe_turn_def Let_def)+
qed (simp add: oe_turn_def)

lemma turns_keep:
  "oe_running ((oe_turn cfg ^^ n) s) = oe_running s" "oe_pos s \<noteq> NoThread \<Longrightarrow> oe_pos ((oe_turn cfg ^^ n) s) \<noteq> NoThread"
  "oe_pos s = Exited \<Longrightarrow> (oe_turn cfg ^^ n) s = s"
  by (induction n) (simp_all add: turn_keeps)

lemma stop_joins:
  assumes "oe_running s" "oe_pos s \<noteq> NoThread" "3 \<le> n"
  shows "oe_pos ((oe_turn cfg ^^ n) (oe_stop s)) = Exited"
proof -
  have "oe_pos ((oe_turn cfg ^^ 3) (oe_stop s)) = Exited"
    using assms by (intro stopped_worker_exits) (simp_all add: oe_stop_def)
  moreover have "(oe_turn cfg ^^ n) (oe_stop s) = (oe_turn cfg ^^ (n - 3)) ((oe_turn cfg ^^ 3) (oe_stop s))"
    using assms(3) funpow_add [of "n - 3" 3 "oe_turn cfg"] by (simp add: comp_def fun_eq_iff)
  ultimately show ?thesis by (simp add: turns_keep(3))
qed

text \<open>What was reported when the join has returned, after \<open>k\<close> turns before the stop.\<close>

lemma reports_at_end:
  assumes "fresh job Entering s" "oe_running s" "3 \<le> n"
  shows "report_ids (oe_out ((oe_turn cfg ^^ n) (oe_stop ((oe_turn cfg ^^ k) s)))) = (if 2 \<le> k then [1] else [])"
proof -
  let ?t = "(oe_turn cfg ^^ k) s"
  let ?u = "oe_stop ?t"
  have run: "oe_running ?t" using assms(2) by (simp add: turns_keep)
  then have u: "?u = ?t\<lparr> oe_running := False, oe_wake := True \<rparr>" by (simp add: oe_stop_def)
  consider "k = 0 \<or> k = 1" | "k = 2" | "3 \<le> k" by linarith
  then show ?thesis
  proof cases
    case 1
    then have "oe_pos ?u \<in> {Entering, AtHead, Exited}" "report_ids (oe_out ?u) = []"
      using fresh_after(1,2) [OF assms(1,2), where k = k and cfg = cfg] unfolding u by (auto simp: fresh_def)
    then show ?thesis using stopped_leaves_job [of ?u n cfg] 1 u by auto
  next
    case 2
    then have "fresh job Waiting ?u" using fresh_after(3) [OF assms(1,2), where k = k and cfg = cfg] unfolding u by (simp add: fresh_def)
    then have f: "oe_jobs (oe_turn cfg ?u) = []" "report_ids (oe_out (oe_turn cfg ?u)) = [1]" using fresh_turns(3) by auto
    obtain m where "n = Suc m" using assms(3) by (cases n) auto
    then have "(oe_turn cfg ^^ n) ?u = (oe_turn cfg ^^ m) (oe_turn cfg ?u)" by (simp add: funpow_swap1)
    then show ?thesis using turns_without_jobs [OF f(1)] f(2) 2 by simp
  next
    case 3
    then show ?thesis using fresh_after(4) [OF assms(1,2) 3, where cfg = cfg] turns_without_jobs [of ?u] by (simp add: u)
  qed
qed

lemma oanda_probe_runs:
  assumes "5 \<le> length args" "oanda_token (oanda (from_env getenv)) \<noteq> []" "oanda_account_id (oanda (from_env getenv)) \<noteq> []" "3 \<le> after"
  shows "\<exists>s. oanda_probe getenv args sleeps after (oe_init cs ps) =
    Some (if args ! 1 \<in> {''buy'', ''sell''} \<and> 2 \<le> sum sleeps {..<200} then 0 else 1, s)"
proof -
  define cfg where "cfg = from_env getenv"
  define job where "job = \<lparr> oj_instrument = oanda_instrument (oanda cfg), oj_side = args ! 1, oj_units = atof (args ! 2),
    oj_sl = atof (args ! 3), oj_tp = atof (args ! 4) \<rparr>"
  define got :: "oe \<Rightarrow> bool" where "got = (\<lambda>s. report_ids (oe_out s) \<noteq> [])"
  define s where "s = oe_execute job (oe_start (oe_init cs ps))"
  have side: "oj_side job = args ! 1" "oj_instrument job \<noteq> []" by (simp_all add: job_def instrument_set cfg_def)
  obtain k where k: "polled got (\<lambda>i. oe_turn cfg ^^ sleeps i) 200 s = (oe_turn cfg ^^ k) s" "k \<le> sum sleeps {..<200}"
    "k = sum sleeps {..<200} \<or> got ((oe_turn cfg ^^ k) s)" by (rule polled_turns)
  let ?e = "(oe_turn cfg ^^ after) (oe_stop ((oe_turn cfg ^^ k) s))"
  have s: "oe_running s" "oe_pos s = Entering" by (simp_all add: s_def oe_start_def oe_init_def)
  then have "oe_pos ?e = Exited" using assms(4) by (intro stop_joins) (simp_all add: turns_keep)
  then have p: "oanda_probe getenv args sleeps after (oe_init cs ps) = Some (if got ?e then 0 else 1, ?e)"
    using assms(1-3) k(1) by (simp add: oanda_probe_def joined_def got_def s_def job_def cfg_def Let_def)
  have "got ?e \<longleftrightarrow> args ! 1 \<in> {''buy'', ''sell''} \<and> 2 \<le> sum sleeps {..<200}"
  proof (cases "args ! 1 \<in> {''buy'', ''sell''}")
    case True
    then have f: "fresh job Entering s"
      using side by (auto simp: s_def fresh_def oe_execute_def oe_start_def oe_init_def)
    have "\<not> got ((oe_turn cfg ^^ k) s)" if "k \<le> 2"
      using fresh_after(1-3) [OF f s(1), where k = k and cfg = cfg] that by (auto simp: got_def fresh_def le_Suc_eq numeral_2_eq_2)
    then have "2 \<le> k \<longleftrightarrow> 2 \<le> sum sleeps {..<200}" using k(2,3) by (meson le_trans nat_le_linear)
    then show ?thesis using True reports_at_end [OF f s(1) assms(4), where k = k and cfg = cfg] by (simp add: got_def)
  next
    case False
    then have "oe_jobs s = []" "report_ids (oe_out s) = []"
      using side by (auto simp: s_def oe_execute_def oe_start_def oe_init_def)
    then have "report_ids (oe_out ?e) = []"
      using turns_without_jobs [of s k cfg] turns_without_jobs [of "oe_stop ((oe_turn cfg ^^ k) s)" after cfg]
      by (simp add: oe_stop_def split: if_splits)
    then show ?thesis using False by (simp add: got_def)
  qed
  then show ?thesis using p by auto
qed

section \<open>cTrader\<close>

fun answers :: "ct_effect list \<Rightarrow> ct_result list" where
  "answers [] = []"
| "answers (Answered r # es) = r # answers es"
| "answers (_ # es) = answers es"

definition probe_symbol :: "config \<Rightarrow> str" where
  "probe_symbol cfg = (let symbol = ctrader_symbol (ctrader cfg)
     in if symbol = [] then ''XAU/USD'' else map (\<lambda>c. if c = CHR ''_'' then CHR ''/'' else c) symbol)"

text \<open>While the worker is in a turn that does not return, the program waits in the \<open>join\<close> of \<open>stop ()\<close>.\<close>

definition ctrader_probe :: "environment \<Rightarrow> str list \<Rightarrow> (nat \<Rightarrow> nat) \<Rightarrow> codec \<Rightarrow> nat \<Rightarrow> (int \<Rightarrow> double) \<Rightarrow>
    dial list \<Rightarrow> (int \<times> ct) option" where
  "ctrader_probe getenv args sleeps pc polls clock links =
     (let cfg = from_env getenv; s = ct_init cfg links; got = (\<lambda>s. answers (ct_out s) \<noteq> []) in
      if length args < 5 then Some (2, s)
      else if ctrader_client_id (ctrader cfg) = [] \<or> ctrader_client_secret (ctrader cfg) = [] \<or>
              ctrader_account_id (ctrader cfg) = [] \<or> ctrader_access_token (ctrader cfg) = [] then Some (1, s)
      else let job = \<lparr> cj_symbol = probe_symbol cfg, cj_side = args ! 1, cj_volume = atof (args ! 2),
                       cj_sl = atof (args ! 3), cj_tp = atof (args ! 4) \<rparr>;
               turn = (\<lambda>r. Option.bind r (ct_turn cfg pc polls clock));
               r = polled (\<lambda>r. r \<noteq> None \<and> got (the r)) (\<lambda>i. turn ^^ sleeps i) 400 (Some (ct_execute job (ct_start s)))
           in map_option (\<lambda>s. let s = ct_stop s in (if got s then 0 else 1, s)) r)"

lemma answers_settled: "length (answers es) \<le> settled es"
  by (induction es rule: answers.induct) simp_all

lemma turns_funpow: "((\<lambda>r. Option.bind r (ct_turn cfg pc polls clock)) ^^ n) (Some s) = ct_turns cfg pc polls clock n s"
proof -
  have none: "((\<lambda>r. Option.bind r (ct_turn cfg pc polls clock)) ^^ n) None = None" for n by (induction n) simp_all
  show ?thesis
  proof (induction n arbitrary: s)
    case (Suc n)
    show ?case using Suc none by (cases "ct_turn cfg pc polls clock s") (simp_all add: funpow_Suc_right del: funpow.simps)
  qed simp
qed

text \<open>At most one answer and two order messages; with a turn of the worker the order is settled.\<close>

lemma ctrader_probe_runs:
  assumes "5 \<le> length args" "ctrader_client_id (ctrader (from_env getenv)) \<noteq> []" "ctrader_client_secret (ctrader (from_env getenv)) \<noteq> []"
    "ctrader_account_id (ctrader (from_env getenv)) \<noteq> []" "ctrader_access_token (ctrader (from_env getenv)) \<noteq> []"
    and p: "ctrader_probe getenv args sleeps pc polls clock links = Some (c, s)"
  shows "c = (if answers (ct_out s) = [] then 1 else 0)" "length (answers (ct_out s)) \<le> 1" "orders_sent (ct_out s) \<le> 2"
    "settled (ct_out s) = (if sum sleeps {..<400} = 0 then 0 else 1)" "\<not> ct_running s" "ct_link s = None"
proof -
  define cfg where "cfg = from_env getenv"
  define job where "job = \<lparr> cj_symbol = probe_symbol cfg, cj_side = args ! 1, cj_volume = atof (args ! 2),
    cj_sl = atof (args ! 3), cj_tp = atof (args ! 4) \<rparr>"
  define got :: "ct \<Rightarrow> bool" where "got = (\<lambda>s. answers (ct_out s) \<noteq> [])"
  define s0 where "s0 = ct_execute job (ct_start (ct_init cfg links))"
  let ?turn = "\<lambda>r. Option.bind r (ct_turn cfg pc polls clock)" and ?got = "\<lambda>r. r \<noteq> None \<and> got (the r)"
  have s0: "awake s0" "ct_jobs s0 = [job]" "ct_out s0 = []"
    by (simp_all add: s0_def ct_execute_def ct_start_def ct_init_def push_limited_def awake_def)
  obtain k where k: "polled ?got (\<lambda>i. ?turn ^^ sleeps i) 400 (Some s0) = (?turn ^^ k) (Some s0)" "k \<le> sum sleeps {..<400}"
    "k = sum sleeps {..<400} \<or> ?got ((?turn ^^ k) (Some s0))" by (rule polled_turns)
  obtain u where u: "ct_turns cfg pc polls clock k s0 = Some u" and s: "s = ct_stop u" and c: "c = (if got s then 0 else 1)"
    using p assms(1-5) k(1) by (auto simp: ctrader_probe_def Let_def got_def s0_def job_def cfg_def turns_funpow)
  obtain ess where ess: "ct_out u = concat ess" "length ess = min k 1" "\<forall>es\<in>set ess. one_order es"
    using turns_settle [OF s0(1) u] s0 by auto
  have out: "ct_out s = ct_out u" by (simp add: s ct_stop_def disconnect_def Let_def)
  have k0: "k = 0 \<longleftrightarrow> sum sleeps {..<400} = 0" using k(2,3) s0(3) by (auto simp: got_def)
  have st: "settled (ct_out s) = min k 1 \<and> orders_sent (ct_out s) \<le> 2"
  proof (cases "k = 0")
    case True
    then show ?thesis using ess(1,2) out by simp
  next
    case False
    then have "length ess = 1" using ess(2) by simp
    then obtain es where "ess = [es]" by (auto simp: length_Suc_conv)
    then show ?thesis using ess(1,3) out False by (simp add: one_order_def)
  qed
  then show "settled (ct_out s) = (if sum sleeps {..<400} = 0 then 0 else 1)" "orders_sent (ct_out s) \<le> 2"
    using k0 by (auto split: if_splits)
  show "length (answers (ct_out s)) \<le> 1" using answers_settled [of "ct_out s"] st by simp
  show "c = (if answers (ct_out s) = [] then 1 else 0)" using c by (simp add: got_def)
  show "\<not> ct_running s" "ct_link s = None" by (auto simp: s ct_stop_def disconnect_def Let_def)
qed

text \<open>When every connection closes the program ends.\<close>

lemma ctrader_probe_ends:
  assumes "\<forall>d\<in>set links. dial_closes d"
  shows "ctrader_probe getenv args sleeps pc polls clock links \<noteq> None"
proof -
  define cfg where "cfg = from_env getenv"
  let ?turn = "\<lambda>r. Option.bind r (ct_turn cfg pc polls clock)"
  let ?s = "ct_execute \<lparr> cj_symbol = probe_symbol cfg, cj_side = args ! 1, cj_volume = atof (args ! 2),
    cj_sl = atof (args ! 3), cj_tp = atof (args ! 4) \<rparr> (ct_start (ct_init cfg links))"
  have "awake ?s" "all_close ?s"
    using assms by (simp_all add: ct_execute_def ct_start_def ct_init_def awake_def all_close_def)
  then have "(?turn ^^ k) (Some ?s) \<noteq> None" for k using turns_return by (simp add: turns_funpow)
  moreover obtain k where "polled (\<lambda>r. r \<noteq> None \<and> answers (ct_out (the r)) \<noteq> []) (\<lambda>i. ?turn ^^ sleeps i) 400 (Some ?s) = (?turn ^^ k) (Some ?s)"
    by (rule polled_turns)
  ultimately show ?thesis by (simp add: ctrader_probe_def Let_def flip: cfg_def)
qed

section \<open>FIX\<close>

definition fix_probe :: "environment \<Rightarrow> str list \<Rightarrow> clk \<Rightarrow> (nat \<Rightarrow> (clk \<times> fx_input) list) \<Rightarrow> (clk \<times> fx_input) list \<Rightarrow> (int \<times> fx) option" where
  "fix_probe getenv args ck sleeps after =
     (if length args \<noteq> 6 then Some (2, fx_init)
      else let cfg = from_env getenv; got = (\<lambda>s. reports (fx_out s) \<noteq> []) in
        if fix_password (fix_c cfg) = [] \<or> fix_account_id (fix_c cfg) = [] then Some (1, fx_init)
        else let s = fx_execute ck (args ! 3) (args ! 1) (atof (args ! 2)) (atof (args ! 4)) (atof (args ! 5)) (fx_start fx_init);
                 s = polled got (\<lambda>i. fx_run cfg (sleeps i)) 600 s;
                 s = fx_run cfg after (fx_stop s)
             in joined (\<not> fx_in_run s) (got s) s)"

text \<open>What the threads of the executor do, not its callers.\<close>

fun from_io :: "fx_input \<Rightarrow> bool" where
  "from_io (FxExecute i sd v sl tp) \<longleftrightarrow> False"
| "from_io FxStart \<longleftrightarrow> False"
| "from_io FxStop \<longleftrightarrow> False"
| "from_io _ \<longleftrightarrow> True"

lemma from_io_execute: "from_io i \<Longrightarrow> \<not> is_execute i"
  by (cases i) simp_all

lemma run_from_io: "\<forall>i\<in>set ins. from_io (snd i) \<Longrightarrow> stays s (fx_run cfg ins s)"
  using from_io_execute by (intro fx_run_stays) blast

text \<open>The logout that \<open>stop ()\<close> posts ends the session, and no other begins.\<close>

definition life :: "fx \<Rightarrow> bool \<times> bool" where
  "life s = (fx_running s, fx_stopped s)"

lemma life_updates [simp]:
  "life (s\<lparr>fx_pending := p\<rparr>) = life s" "life (s\<lparr>fx_inbound := x\<rparr>) = life s" "life (s\<lparr>fx_orders := q\<rparr>) = life s"
  "life (s\<lparr>fx_last_recv := n\<rparr>) = life s" "life (s\<lparr>fx_stream := b\<rparr>) = life s" "life (s\<lparr>fx_seq_out := n\<rparr>) = life s"
  "life (s\<lparr>fx_in_run := b, fx_io_stopped := c\<rparr>) = life s" "life (s\<lparr>fx_last_recv := n, fx_inbound := x\<rparr>) = life s"
  "life (s\<lparr>fx_stream := b, fx_connected := c\<rparr>) = life s" "life (emit e s) = life s"
  by (simp_all add: life_def emit_def)

lemma same_life: "same_session s t \<Longrightarrow> life t = life s"
  by (simp add: same_session_def life_def)

lemmas write_life = same_life [OF io_write_build_same]

lemma process_inbound_life: "life (process_inbound cfg ck s) = life s"
proof (induction cfg ck s rule: process_inbound.induct)
  case (1 cfg ck s)
  then show ?case
    using same_life [OF handle_frame_same]
    by (simp add: process_inbound.simps [of cfg ck s] Let_def split: split_result.split)
qed

lemma drain_life: "life (io_drain_orders cfg ck s) = life s"
proof -
  have "life (fold (send_job cfg ck) js t) = life t" for js t
    by (induction js arbitrary: t) (simp_all add: send_job_def build_order_def write_life)
  then show ?thesis by (simp add: io_drain_orders_def Let_def)
qed

lemma small_life:
  "life (settle s) = life s" "life (write_done ec s) = life s" "life (start_read s) = life s"
  "life (start_hb_timer cfg s) = life s" "life (io_stop s) = life s"
  by (simp_all add: life_def settle_def session_end_def write_done_def start_read_def start_hb_timer_def io_stop_def emit_def
      pump_write_def Let_def)

lemma on_read_life: "life (on_read cfg ck r s) = life s"
  by (cases r) (simp_all add: small_life process_inbound_life)

lemma on_hb_timer_life: "life (on_hb_timer cfg ck ec s) = life s"
  by (simp add: on_hb_timer_def build_heartbeat_def small_life write_life Let_def)

lemma posted_logout_life: "life (posted_logout cfg ck s) = life s"
  by (simp add: posted_logout_def build_logout_def build_msg_def small_life Let_def)

lemma session_connect_life: "life (session_connect cfg ck r s) = life s"
  by (cases r) (simp_all add: session_connect_def run_read_loop_def build_logon_def small_life write_life drain_life Let_def)

lemma fx_step_life: "from_io (snd i) \<Longrightarrow> life (fx_step cfg i s) = life s"
  by (cases "(cfg, i, s)" rule: fx_step.cases)
    (simp_all add: drain_life on_read_life on_hb_timer_life posted_logout_life session_connect_life small_life)

lemma fx_step_running: "from_io (snd i) \<Longrightarrow> fx_running (fx_step cfg i s) = fx_running s"
  using fx_step_life by (simp add: life_def)

lemma fx_step_out:
  assumes "from_io (snd i)" "\<not> fx_running s" "\<not> fx_in_run s \<or> snd i = FxLogout"
  shows "\<not> fx_in_run (fx_step cfg i s)"
  using assms by (cases "(cfg, i, s)" rule: fx_step.cases)
    (auto simp: posted_logout_def settle_def session_end_def io_stop_def emit_def Let_def)

lemma stopped_stays_out:
  assumes "\<forall>i\<in>set ins. from_io (snd i)" "\<not> fx_running s" "\<not> fx_in_run s"
  shows "\<not> fx_in_run (fx_run cfg ins s)"
  using assms unfolding fx_run_def
  by (induction ins arbitrary: s) (simp_all add: fx_step_out fx_step_running)

lemma stop_ends_session:
  assumes "\<forall>i\<in>set ins. from_io (snd i)" "\<not> fx_running s" "FxLogout \<in> snd ` set ins"
  shows "\<not> fx_in_run (fx_run cfg ins s)"
  using assms
proof (induction ins arbitrary: s)
  case (Cons i ins)
  have r: "\<not> fx_running (fx_step cfg i s)" using Cons.prems fx_step_life [of i cfg s] by (simp add: life_def)
  show ?case
  proof (cases "snd i = FxLogout")
    case True
    then show ?thesis using fx_step_out [of i s cfg] stopped_stays_out [OF _ r] Cons.prems by (simp add: fx_run_def)
  next
    case False
    then show ?thesis using Cons.IH [OF _ r] Cons.prems by (auto simp: fx_run_def)
  qed
qed simp

lemma fx_run_life: "\<forall>i\<in>set ins. from_io (snd i) \<Longrightarrow> life (fx_run cfg ins s) = life s"
  unfolding fx_run_def by (induction ins arbitrary: s) (simp_all add: fx_step_life)

text \<open>One order, at most one report; none for an order that \<open>execute\<close> refuses.\<close>

definition refused :: "str list \<Rightarrow> bool" where
  "refused args \<longleftrightarrow> args ! 3 = [] \<or> args ! 1 \<noteq> ''buy'' \<and> args ! 1 \<noteq> ''sell'' \<or> atof (args ! 2) \<le> 0"

lemma one_report:
  assumes "order_books L s" "places L s \<subseteq> {c}"
  shows "length (reports (fx_out s)) \<le> 1"
proof -
  have "distinct (map fr_cl (reports (fx_out s)))" using assms(1) by (simp add: order_books_def)
  moreover have "set (map fr_cl (reports (fx_out s))) \<subseteq> {c}" using assms(2) by (auto simp: places_def)
  ultimately show ?thesis using card_mono [of "{c}" "set (map fr_cl (reports (fx_out s)))"] distinct_card by fastforce
qed

lemma fix_probe_runs:
  assumes "length args = 6" "fix_password (fix_c (from_env getenv)) \<noteq> []" "fix_account_id (fix_c (from_env getenv)) \<noteq> []"
    and io: "\<forall>n. \<forall>i\<in>set (sleeps n). from_io (snd i)" "\<forall>i\<in>set after. from_io (snd i)" and "FxLogout \<in> snd ` set after"
  shows "\<exists>s. fix_probe getenv args ck sleeps after = Some (if reports (fx_out s) = [] then 1 else 0, s) \<and>
    length (reports (fx_out s)) \<le> 1 \<and> (refused args \<longrightarrow> reports (fx_out s) = [])"
proof -
  define cfg where "cfg = from_env getenv"
  define s0 where "s0 = fx_execute ck (args ! 3) (args ! 1) (atof (args ! 2)) (atof (args ! 4)) (atof (args ! 5)) (fx_start fx_init)"
  define t where "t = polled (\<lambda>s. reports (fx_out s) \<noteq> []) (\<lambda>i. fx_run cfg (sleeps i)) 600 s0"
  define s where "s = fx_run cfg after (fx_stop t)"
  have "fx_ok (fx_start fx_init)" "places (fx_orders (fx_start fx_init)) (fx_start fx_init) = {}"
    by (simp_all add: fx_ok_def fx_start_def fx_init_def order_books_def places_def)
  then have s0: "fx_ok s0" "places (fx_orders s0) s0 = (if refused args then {} else {cl_of 1})"
    using execute_goes_on [of "fx_start fx_init" ck "args ! 3" "args ! 1" "atof (args ! 2)" "atof (args ! 4)" "atof (args ! 5)"]
    by (auto simp: s0_def goes_on_def refused_def fx_execute_def fx_start_def fx_init_def places_def cl_of_def Let_def)
  have "stays s0 t \<and> life t = life s0" unfolding t_def
  proof (rule polled_inv)
    fix n u assume "stays s0 u \<and> life u = life s0"
    then show "stays s0 (fx_run cfg (sleeps n) u) \<and> life (fx_run cfg (sleeps n) u) = life s0"
      using stays_trans run_from_io [of "sleeps n" u cfg] fx_run_life [of "sleeps n" cfg u] io(1) by metis
  qed simp
  moreover have "life s0 = (True, False)" by (simp add: s0_def life_def fx_execute_def fx_start_def fx_init_def Let_def)
  ultimately have t: "stays s0 t" "\<not> fx_running (fx_stop t)" by (simp_all add: life_def fx_stop_def)
  have "stays s0 s"
    using stays_trans [OF t(1)] stays_trans [OF quiet(6) run_from_io [OF io(2)]] unfolding s_def by blast
  then have s: "order_books (fx_orders s) s" "places (fx_orders s) s = places (fx_orders s0) s0"
    using s0(1) by (simp_all add: stays_def fx_ok_def)
  have "\<not> fx_in_run s" unfolding s_def by (rule stop_ends_session [OF io(2) t(2) assms(6)])
  then have p: "fix_probe getenv args ck sleeps after = Some (if reports (fx_out s) = [] then 1 else 0, s)"
    using assms(1-3) by (simp add: fix_probe_def joined_def s_def t_def s0_def cfg_def Let_def)
  have "reports (fx_out s) = []" if "refused args"
    using s(2) s0(2) that by (auto simp: places_def)
  moreover have "length (reports (fx_out s)) \<le> 1" using one_report [OF s(1)] s(2) s0(2) by (auto split: if_splits)
  ultimately show ?thesis using p by blast
qed

end
