(* ===== verification/TickFile.thy ===== *)
theory TickFile
  imports TickBinary Bytes
begin

text \<open>
  The bytes of a tick file: a \<open>BinaryTick\<close> as \<open>out.write (reinterpret_cast<const char*> (&t), 24)\<close> puts it
  into the file, and as the mapped reader sees it (\<open>tick_binary.hpp\<close>, \<open>tick_binary.cpp\<close>), on a little-endian
  machine. What a conversion writes is what a reader finds, also in a file that was cut off.
\<close>

definition tick_bytes :: "binary_tick \<Rightarrow> byte list" where
  "tick_bytes t = int64_bytes (b_ts_ms t) @ float_bytes (b_bid t) @ float_bytes (b_ask t) @ float_bytes (b_volume t) @
     le_bytes 4 (unat (b_flags t))"

definition tick_of_bytes :: "byte list \<Rightarrow> binary_tick" where
  "tick_of_bytes bs = \<lparr> b_ts_ms = int64_of_bytes (field_at 0 8 bs), b_bid = float_of_bytes (field_at 8 4 bs),
     b_ask = float_of_bytes (field_at 12 4 bs), b_volume = float_of_bytes (field_at 16 4 bs),
     b_flags = word_of_nat (of_le (field_at 20 4 bs)) \<rparr>"

text \<open>What the converter leaves in the file, and \<open>base_ [0 .. count_)\<close> of a mapping.\<close>

definition tick_file :: "binary_tick list \<Rightarrow> byte list" where
  "tick_file ts = concat (map tick_bytes ts)"

definition mapped_ticks :: "byte list \<Rightarrow> binary_tick list" where
  "mapped_ticks bs = map (\<lambda>i. tick_of_bytes (field_at (24 * i) 24 bs)) [0..<length bs div 24]"

text \<open>Opening a file with these bytes, when the system calls succeed.\<close>

definition open_file :: "byte list \<Rightarrow> open_error + reader" where
  "open_file bs = reader_open (Some (Some (length bs))) (Some (mapped_ticks bs)) reader_init"

section \<open>One tick\<close>

definition storable :: "binary_tick \<Rightarrow> bool" where
  "storable t \<longleftrightarrow> - (2 ^ 63) \<le> b_ts_ms t \<and> b_ts_ms t < 2 ^ 63 \<and>
     to_float (b_bid t) = b_bid t \<and> to_float (b_ask t) = b_ask t \<and> to_float (b_volume t) = b_volume t"

lemma length_tick_bytes [simp]: "length (tick_bytes t) = 24"
  by (simp add: tick_bytes_def)

lemma flags_read: "word_of_nat (of_le (le_bytes 4 (unat w))) = (w :: 32 word)"
proof -
  have "unat w < 2 ^ 32" using unsigned_less [of w, where 'a = nat] by simp
  then have "unat w < 256 ^ 4" by simp
  then show ?thesis by (simp add: of_le_bytes)
qed

lemma tick_of_tick_bytes: "storable t \<Longrightarrow> tick_of_bytes (tick_bytes t) = t"
  by (simp add: tick_of_bytes_def tick_bytes_def storable_def flags_read)

lemma int64_of_range: "- (2 ^ 63) \<le> int64_of a \<and> int64_of a < 2 ^ 63"
  by (simp add: int64_of_def Let_def split: fval.split)

lemma make_tick_storable: "parse_tick_line l d = Some r \<Longrightarrow> storable (make_tick r)"
  using int64_of_range
  by (auto simp: parse_tick_line_def make_tick_def storable_def b_set_valid_def Let_def split: if_splits sum.splits)

lemma convert_storable: "convert csv w opt = Inr (n, ts) \<Longrightarrow> t \<in> set ts \<Longrightarrow> storable t"
  using make_tick_storable
  by (auto simp: convert_def Let_def convert_loop_shape List.map_filter_def split: option.splits if_splits)

section \<open>The file\<close>

lemma length_tick_file [simp]: "length (tick_file ts) = 24 * length ts"
  by (induction ts) (simp_all add: tick_file_def)

lemma tick_in_file: "i < length ts \<Longrightarrow> field_at (24 * i) 24 (tick_file ts) = tick_bytes (ts ! i)"
proof (induction ts arbitrary: i)
  case (Cons t ts)
  then show ?case by (cases i) (simp_all add: tick_file_def)
qed simp

lemma field_at_take: "i + n \<le> m \<Longrightarrow> field_at i n (take m bs) = field_at i n bs"
  by (simp add: field_at_def drop_take min_def)

text \<open>The whole ticks of the first \<open>m\<close> bytes.\<close>

lemma mapped_tick_file:
  assumes "\<forall>t\<in>set ts. storable t" "m \<le> 24 * length ts"
  shows "mapped_ticks (take m (tick_file ts)) = take (m div 24) ts"
proof (rule nth_equalityI)
  have l: "length (take m (tick_file ts)) = m" using assms(2) by simp
  have "m div 24 \<le> length ts" using assms(2) by linarith
  then show "length (mapped_ticks (take m (tick_file ts))) = length (take (m div 24) ts)"
    by (simp add: mapped_ticks_def l)
  fix i assume "i < length (mapped_ticks (take m (tick_file ts)))"
  then have i: "i < m div 24" by (simp add: mapped_ticks_def l)
  then have "24 * i + 24 \<le> m" "i < length ts" using assms(2) by linarith+
  then show "mapped_ticks (take m (tick_file ts)) ! i = take (m div 24) ts ! i"
    using i assms(1) by (simp add: mapped_ticks_def l field_at_take tick_in_file tick_of_tick_bytes)
qed

lemma open_cut_file:
  assumes "convert csv w opt = Inr (n, ts)" "m \<le> 24 * n"
  shows "open_file (take m (tick_file ts)) =
    (if m = 0 then Inl EmptyFile else if m mod 24 \<noteq> 0 then Inl BadSize
     else Inr \<lparr> base = Some (take (m div 24) ts), cnt = m div 24, file_len = int m \<rparr>)"
proof -
  have n: "n = length ts" using assms(1) by (auto simp: convert_def Let_def split: option.splits if_splits)
  then have m: "mapped_ticks (take m (tick_file ts)) = take (m div 24) ts"
    using assms convert_storable [OF assms(1)] by (intro mapped_tick_file) auto
  have "min (24 * length ts) m = m" using assms(2) n by simp
  then show ?thesis by (simp add: open_file_def reader_open_def reader_init_def m)
qed

end
