(* ===== verification/Clock.thy ===== *)
theory Clock
  imports CText
begin

text \<open>
  The calendar of the C library as the program uses it (\<open>gmtime_r\<close>, \<open>strftime\<close>): the date and time of
  a count of seconds since 1970, and the texts the program makes of them: the sending time of a FIX message
  (\<open>utc_now\<close>), the stamp of a log line, and the names and times of the stand-alone bot. A local time is
  the UTC time of a shifted count.
\<close>

section \<open>Dates\<close>

definition leap :: "int \<Rightarrow> bool" where
  "leap y \<longleftrightarrow> 4 dvd y \<and> (\<not> 100 dvd y \<or> 400 dvd y)"

fun month_days :: "int \<Rightarrow> int \<Rightarrow> int" where
  "month_days y m = (if m = 2 then (if leap y then 29 else 28) else if m \<in> {4, 6, 9, 11} then 30 else 31)"

text \<open>The days of the months before month \<open>m\<close>.\<close>

fun month_start :: "int \<Rightarrow> nat \<Rightarrow> int" where
  "month_start y 0 = 0"
| "month_start y (Suc m) = month_start y m + month_days y (int m + 1)"

text \<open>The number of a day: the years before it, the months before it and the days; 0 is 1 January 1970.\<close>

definition leaps_before :: "int \<Rightarrow> int" where
  "leaps_before y = (y - 1) div 4 - (y - 1) div 100 + (y - 1) div 400"

definition day_number :: "int \<times> int \<times> int \<Rightarrow> int" where
  "day_number date = (case date of (y, m, d) \<Rightarrow>
     365 * (y - 1970) + (leaps_before y - leaps_before 1970) + month_start y (nat (m - 1)) + (d - 1))"

definition valid_date :: "int \<times> int \<times> int \<Rightarrow> bool" where
  "valid_date date \<longleftrightarrow> (case date of (y, m, d) \<Rightarrow> 1 \<le> m \<and> m \<le> 12 \<and> 1 \<le> d \<and> d \<le> month_days y m)"

text \<open>
  The date of a day number, by the cycles of 400, 100, 4 and 1 years of a calendar whose years begin in
  March, so that the leap day is the last of its year.
\<close>

definition civil :: "int \<Rightarrow> int \<times> int \<times> int" where
  "civil days =
     (let z = days + 719468;
          a = z div 146097; r = z mod 146097;
          b = min (r div 36524) 3; r1 = r - 36524 * b;
          c = r1 div 1461; r2 = r1 mod 1461;
          e = min (r2 div 365) 3; doy = r2 - 365 * e;
          mp = (5 * doy + 2) div 153;
          d = doy - (153 * mp + 2) div 5 + 1;
          m = (if mp < 10 then mp + 3 else mp - 9);
          y = 400 * a + 100 * b + 4 * c + e + (if m \<le> 2 then 1 else 0)
      in (y, m, d))"

text \<open>The parts of a day number.\<close>

lemma civil_parts:
  fixes days :: int
  obtains a b c e doy where
    "days + 719468 = 146097 * a + 36524 * b + 1461 * c + 365 * e + doy"
    "0 \<le> b" "b \<le> 3" "0 \<le> c" "c \<le> 24" "0 \<le> e" "e \<le> 3" "0 \<le> doy" "doy \<le> 365"
    "doy = 365 \<longrightarrow> e = 3 \<and> (c = 24 \<longrightarrow> b = 3)"
    "civil days =
       (let mp = (5 * doy + 2) div 153; m = (if mp < 10 then mp + 3 else mp - 9)
        in (400 * a + 100 * b + 4 * c + e + (if m \<le> 2 then 1 else 0), m, doy - (153 * mp + 2) div 5 + 1))"
proof -
  define z a r b r1 c r2 e doy where p: "z = days + 719468" "a = z div 146097" "r = z mod 146097" "b = min (r div 36524) 3"
    "r1 = r - 36524 * b" "c = r1 div 1461" "r2 = r1 mod 1461" "e = min (r2 div 365) 3" "doy = r2 - 365 * e"
  have r: "0 \<le> r" "r < 146097" "z = 146097 * a + r" by (simp_all add: p(2,3))
  have b: "0 \<le> b" "b \<le> 3" "0 \<le> r1" "r1 < 36524 + (if b = 3 then 1 else 0)" "r = 36524 * b + r1"
    using r unfolding p(4,5) by (auto simp: min_def)
  have c: "0 \<le> c" "c \<le> 24" "0 \<le> r2" "r2 < 1461" "r1 = 1461 * c + r2" "c = 24 \<longrightarrow> r2 < 1460 + (if b = 3 then 1 else 0)"
    using b unfolding p(6,7) by (auto split: if_splits) presburger+
  have e: "0 \<le> e" "e \<le> 3" "0 \<le> doy" "doy \<le> 365" "r2 = 365 * e + doy" "doy = 365 \<longrightarrow> e = 3 \<and> r2 = 1460"
    using c(3,4) unfolding p(8,9) by (auto simp: min_def)
  show ?thesis
  proof (rule that [of a b c e doy])
    show "doy = 365 \<longrightarrow> e = 3 \<and> (c = 24 \<longrightarrow> b = 3)" using c(6) e(6) b(2) by (auto split: if_splits)
    show "days + 719468 = 146097 * a + 36524 * b + 1461 * c + 365 * e + doy" using p(1) r(3) b(5) c(5) e(5) by simp
    show "civil days = (let mp = (5 * doy + 2) div 153; m = (if mp < 10 then mp + 3 else mp - 9)
        in (400 * a + 100 * b + 4 * c + e + (if m \<le> 2 then 1 else 0), m, doy - (153 * mp + 2) div 5 + 1))"
      by (simp only: civil_def Let_def flip: p)
  qed (use b c e in auto)
qed

text \<open>Leap years at the end of a March year.\<close>

lemma div_step:
  assumes "0 < (n :: int)"
  shows "y div n = (y - 1) div n + (if n dvd y then 1 else 0)"
proof -
  have y: "y = n * (y div n) + y mod n" "0 \<le> y mod n" "y mod n < n" using assms by simp_all
  show ?thesis
  proof (cases "n dvd y")
    case True
    then obtain q where "y = n * q" by blast
    then have "y - 1 = n * (y div n - 1) + (n - 1)" using assms by (simp add: right_diff_distrib)
    then have "(y - 1) div n = y div n - 1" using assms by (intro int_div_pos_eq [where r = "n - 1"]) simp_all
    then show ?thesis using True by simp
  next
    case False
    then have "0 \<le> y mod n - 1" using y(2) by (simp add: dvd_eq_mod_eq_0)
    moreover have "y - 1 = n * (y div n) + (y mod n - 1)" using y(1) by simp
    ultimately have "(y - 1) div n = y div n" using y(3) by (intro int_div_pos_eq [where r = "y mod n - 1"]) simp_all
    then show ?thesis using False by simp
  qed
qed

lemma leap_count:
  assumes "P400 \<Longrightarrow> P100" "P100 \<Longrightarrow> P4"
  shows "(if P4 \<and> (\<not> P100 \<or> P400) then 1 else 0 :: int) = (if P4 then 1 else 0) - (if P100 then 1 else 0) + (if P400 then 1 else 0)"
  using assms by (cases P4; cases P100; cases P400) simp_all

lemma leap_of_parts:
  fixes a b c e :: int
  assumes "0 \<le> b" "b \<le> 3" "0 \<le> c" "c \<le> 24" "0 \<le> e" "e \<le> 3"
  shows "leap (400 * a + 100 * b + 4 * c + e + 1) \<longleftrightarrow> e = 3 \<and> (c = 24 \<longrightarrow> b = 3)"
    and "leaps_before (400 * a + 100 * b + 4 * c + e + 1) = 97 * a + 24 * b + c"
    and "leaps_before (400 * a + 100 * b + 4 * c + e) = 97 * a + 24 * b + c - (if leap (400 * a + 100 * b + 4 * c + e) then 1 else 0)"
proof -
  let ?y = "400 * a + 100 * b + 4 * c + e"
  have 1: "4 dvd 4 * k + (e + 1) \<longleftrightarrow> e = 3" "100 dvd 100 * k + (4 * c + 4) \<longleftrightarrow> c = 24" "400 dvd 400 * a + (100 * b + 100) \<longleftrightarrow> b = 3" for k
  proof -
    show "4 dvd 4 * k + (e + 1) \<longleftrightarrow> e = 3" using assms(5,6) by presburger
    have "25 dvd c + 1 \<longleftrightarrow> c = 24" using assms(3,4) by presburger
    moreover have "100 dvd 100 * k + (4 * c + 4) \<longleftrightarrow> 100 dvd 4 * c + 4" by (rule dvd_add_right_iff) simp
    moreover have "100 dvd 4 * c + 4 \<longleftrightarrow> 25 dvd c + 1"
      using dvd_mult_cancel_left [of 4 25 "c + 1"] by (simp add: algebra_simps)
    ultimately show "100 dvd 100 * k + (4 * c + 4) \<longleftrightarrow> c = 24" by simp
    have "4 dvd b + 1 \<longleftrightarrow> b = 3" using assms(1,2) by presburger
    moreover have "400 dvd 400 * a + (100 * b + 100) \<longleftrightarrow> 400 dvd 100 * b + 100" by (rule dvd_add_right_iff) simp
    moreover have "400 dvd 100 * b + 100 \<longleftrightarrow> 4 dvd b + 1"
      using dvd_mult_cancel_left [of 100 4 "b + 1"] by (simp add: algebra_simps)
    ultimately show "400 dvd 400 * a + (100 * b + 100) \<longleftrightarrow> b = 3" by simp
  qed
  have "?y + 1 = 4 * (100 * a + 25 * b + c) + (e + 1)" by simp
  then have 2: "4 dvd ?y + 1 \<longleftrightarrow> e = 3" using 1(1) by metis
  have "?y + 1 = 100 * (4 * a + b) + (4 * c + 4)" if "e = 3" using that by simp
  then have 3: "100 dvd ?y + 1 \<longleftrightarrow> c = 24" if "e = 3" using 1(2) that by metis
  have "?y + 1 = 400 * a + (100 * b + 100)" if "e = 3" "c = 24" using that by simp
  then have "400 dvd ?y + 1 \<longleftrightarrow> b = 3" if "e = 3" "c = 24" using 1(3) that by metis
  then show "leap (?y + 1) \<longleftrightarrow> e = 3 \<and> (c = 24 \<longrightarrow> b = 3)" unfolding leap_def using 2 3 by blast
  have "?y div 4 = 100 * a + 25 * b + c" using assms(5,6) by (intro int_div_pos_eq [where r = e]) simp_all
  moreover have "?y div 100 = 4 * a + b" using assms(3-6) by (intro int_div_pos_eq [where r = "4 * c + e"]) simp_all
  moreover have "?y div 400 = a" using assms by (intro int_div_pos_eq [where r = "100 * b + 4 * c + e"]) simp_all
  ultimately have 4: "?y div 4 = 100 * a + 25 * b + c" "?y div 100 = 4 * a + b" "?y div 400 = a" .
  then show l: "leaps_before (?y + 1) = 97 * a + 24 * b + c" by (simp add: leaps_before_def)
  have "(?y - 1) div 4 = 100 * a + 25 * b + c - (if 4 dvd ?y then 1 else 0)" using 4(1) div_step [of 4 ?y] by simp
  moreover have "(?y - 1) div 100 = 4 * a + b - (if 100 dvd ?y then 1 else 0)" using 4(2) div_step [of 100 ?y] by simp
  moreover have "(?y - 1) div 400 = a - (if 400 dvd ?y then 1 else 0)" using 4(3) div_step [of 400 ?y] by simp
  moreover have "400 dvd ?y \<Longrightarrow> 100 dvd ?y" by (rule dvd_trans [of 100 400]) simp_all
  moreover have "100 dvd ?y \<Longrightarrow> 4 dvd ?y" by (rule dvd_trans [of 4 100]) simp_all
  ultimately have "leaps_before ?y = (100 * a + 25 * b + c - (if 4 dvd ?y then 1 else 0)) - (4 * a + b - (if 100 dvd ?y then 1 else 0)) +
      (a - (if 400 dvd ?y then 1 else 0))"
    and d: "400 dvd ?y \<Longrightarrow> 100 dvd ?y" "100 dvd ?y \<Longrightarrow> 4 dvd ?y" by (simp_all only: leaps_before_def)
  moreover have "(if leap ?y then 1 else 0 :: int) = (if 4 dvd ?y then 1 else 0) - (if 100 dvd ?y then 1 else 0) + (if 400 dvd ?y then 1 else 0)"
    unfolding leap_def using d by (rule leap_count)
  ultimately show "leaps_before ?y = 97 * a + 24 * b + c - (if leap ?y then 1 else 0)" by linarith
qed

lemma month_offsets:
  "month_start y 0 = 0" "month_start y 1 = 31" "month_start y (Suc 0) = 31"
  "2 \<le> n \<Longrightarrow> n \<le> 11 \<Longrightarrow> month_start y n = (153 * (int n - 2) + 2) div 5 + 59 + (if leap y then 1 else 0)"
proof -
  show "month_start y 0 = 0" "month_start y 1 = 31" "month_start y (Suc 0) = 31" by simp_all
  assume "2 \<le> n" "n \<le> 11"
  then have "n \<in> {2, 3, 4, 5, 6, 7, 8, 9, 10, 11}" by (auto simp: eval_nat_numeral le_Suc_eq)
  then show "month_start y n = (153 * (int n - 2) + 2) div 5 + 59 + (if leap y then 1 else 0)"
    by (elim insertE emptyE) (simp_all add: eval_nat_numeral)
qed

text \<open>The date is a date, and it is that of the day.\<close>

lemma civil_date:
  "valid_date (civil days)" "day_number (civil days) = days"
proof -
  obtain a b c e doy where p: "days + 719468 = 146097 * a + 36524 * b + 1461 * c + 365 * e + doy"
    "0 \<le> b" "b \<le> 3" "0 \<le> c" "c \<le> 24" "0 \<le> e" "e \<le> 3" "0 \<le> doy" "doy \<le> 365"
    "doy = 365 \<longrightarrow> e = 3 \<and> (c = 24 \<longrightarrow> b = 3)"
    and civ: "civil days = (let mp = (5 * doy + 2) div 153; m = (if mp < 10 then mp + 3 else mp - 9)
        in (400 * a + 100 * b + 4 * c + e + (if m \<le> 2 then 1 else 0), m, doy - (153 * mp + 2) div 5 + 1))"
    by (rule civil_parts)
  define y where "y = 400 * a + 100 * b + 4 * c + e"
  define mp where "mp = (5 * doy + 2) div 153"
  note l = leap_of_parts [OF p(2-7), of a, folded y_def]
  have l70: "leaps_before 1970 = 477" by (simp add: leaps_before_def)
  define r where "r = (5 * doy + 2) mod 153"
  have r: "5 * doy + 2 = 153 * mp + r" "0 \<le> r" "r < 153" by (simp_all add: mp_def r_def)
  then have q: "153 * mp \<le> 5 * doy + 2" "5 * doy + 2 < 153 * mp + 153" by linarith+
  then have mp: "0 \<le> mp" "mp \<le> 11" using p(8,9) by linarith+
  have m_y: "civil days = (if mp < 10 then (y, mp + 3, doy - (153 * mp + 2) div 5 + 1) else (y + 1, mp - 9, doy - (153 * mp + 2) div 5 + 1))"
    using mp by (simp add: civ Let_def y_def flip: mp_def)
  have cases: "mp \<in> {0, 1, 2, 3, 4, 5, 6, 7, 8, 9} \<or> mp = 10 \<or> mp = 11" using mp by (simp, presburger)
  have 365: "365 * y = 146000 * a + 36500 * b + 1460 * c + 365 * e" by (simp add: y_def)
  show "valid_date (civil days)"
    using cases
  proof (elim disjE)
    assume "mp \<in> {0, 1, 2, 3, 4, 5, 6, 7, 8, 9}"
    then show ?thesis using q by (elim insertE emptyE) (simp_all add: m_y valid_date_def)
  next
    assume "mp = 10"
    then show ?thesis using q by (simp add: m_y valid_date_def)
  next
    assume "mp = 11"
    then show ?thesis using q p(9,10) l(1) by (auto simp: m_y valid_date_def)
  qed
  show "day_number (civil days) = days"
    using cases
  proof (elim disjE)
    assume "mp \<in> {0, 1, 2, 3, 4, 5, 6, 7, 8, 9}"
    then have "mp < 10" by auto
    then have "nat (mp + 3 - 1) \<le> 11" "2 \<le> nat (mp + 3 - 1)" "int (nat (mp + 3 - 1)) - 2 = mp" using mp(1) by simp_all
    then have "month_start y (nat (mp + 3 - 1)) = (153 * mp + 2) div 5 + 59 + (if leap y then 1 else 0)"
      by (simp only: month_offsets(4))
    then show ?thesis using p(1) l(3) l70 365 \<open>mp < 10\<close> by (simp add: m_y day_number_def)
  next
    assume "mp = 10"
    then show ?thesis using p(1) l(2) l70 365 by (simp add: m_y day_number_def)
  next
    assume "mp = 11"
    then show ?thesis using p(1) l(2) l70 365 by (simp add: m_y day_number_def)
  qed
qed

lemma civil_year:
  assumes "0 \<le> days" "days < 2932897"
  shows "1000 \<le> fst (civil days)" "fst (civil days) \<le> 9999"
proof -
  obtain a b c e doy where p: "days + 719468 = 146097 * a + 36524 * b + 1461 * c + 365 * e + doy"
    "0 \<le> b" "b \<le> 3" "0 \<le> c" "c \<le> 24" "0 \<le> e" "e \<le> 3" "0 \<le> doy" "doy \<le> 365"
    and civ: "civil days = (let mp = (5 * doy + 2) div 153; m = (if mp < 10 then mp + 3 else mp - 9)
        in (400 * a + 100 * b + 4 * c + e + (if m \<le> 2 then 1 else 0), m, doy - (153 * mp + 2) div 5 + 1))"
    by (rule civil_parts)
  let ?y = "400 * a + 100 * b + 4 * c + e" and ?mp = "(5 * doy + 2) div 153"
  have y: "fst (civil days) = (if ?mp < 10 then ?y else ?y + 1)" using p(8,9) by (auto simp: civ Let_def)
  have a: "3 \<le> a" "a \<le> 24" using p assms by linarith+
  then have "1000 \<le> ?y" "?y \<le> 9999" using p(2-7) by linarith+
  moreover from this(2) have "?y < 9999 \<or> ?y = 9999" by (rule le_less [THEN iffD1])
  moreover have "?mp < 10" if "?y = 9999"
  proof -
    have "a = 24" "b = 3" "c = 24" "e = 3" using that a p(2-7) by linarith+
    then have "doy \<le> 305" using p(1) assms(2) by simp
    then have "5 * doy + 2 < 10 * 153" by simp
    then show ?thesis by (simp add: div_less_iff_less_mult)
  qed
  ultimately show "1000 \<le> fst (civil days)" "fst (civil days) \<le> 9999" using y by (auto split: if_splits)
qed

section \<open>Texts\<close>

definition time_of :: "int \<Rightarrow> int \<times> int \<times> int" where
  "time_of s = (s mod 86400 div 3600, s mod 3600 div 60, s mod 60)"

definition two :: "int \<Rightarrow> str" where
  "two n = pad0 2 (nat n)"

text \<open>\<open>utc_now\<close> at the system clock's milliseconds: \<open>%Y%m%d-%H:%M:%S\<close> and the milliseconds.\<close>

definition utc_text :: "int \<Rightarrow> str" where
  "utc_text ms =
     (let s = ms div 1000; (y, m, d) = civil (s div 86400); (hh, mm, ss) = time_of s
      in show_nat (nat y) @ two m @ two d @ ''-'' @ two hh @ '':'' @ two mm @ '':'' @ two ss @ ''.'' @ pad0 3 (nat (ms mod 1000)))"

text \<open>The other formats, at seconds shifted to the local zone.\<close>

definition log_time :: "int \<Rightarrow> str" where
  "log_time s = (let (y, m, d) = civil (s div 86400); (hh, mm, ss) = time_of s
     in show_nat (nat y) @ ''-'' @ two m @ ''-'' @ two d @ '' '' @ two hh @ '':'' @ two mm @ '':'' @ two ss)"

text \<open>A log line with its stamp.\<close>

definition log_stamp :: "int \<Rightarrow> int \<Rightarrow> str \<Rightarrow> str" where
  "log_stamp offset ms line = ''['' @ log_time (ms div 1000 + offset) @ ''.'' @ pad0 3 (nat (ms mod 1000)) @ ''] '' @ line"

definition log_name :: "int \<Rightarrow> str" where
  "log_name s = (let (y, m, d) = civil (s div 86400) in ''log_'' @ show_nat (nat y) @ two m @ two d @ ''.txt'')"

definition hms_text :: "int \<Rightarrow> str" where
  "hms_text s = (let (hh, mm, ss) = time_of s in two hh @ '':'' @ two mm @ '':'' @ two ss)"

text \<open>Hour and minute, for a zone that is \<open>offset\<close> seconds ahead of UTC.\<close>

definition hour_minute :: "int \<Rightarrow> int \<Rightarrow> int \<times> int" where
  "hour_minute offset s = (let (hh, mm, ss) = time_of (s + offset) in (hh, mm))"

text \<open>A reader of the sending time.\<close>

definition field_val :: "nat \<Rightarrow> nat \<Rightarrow> str \<Rightarrow> int" where
  "field_val i n s = int (digits_val (take n (drop i s)))"

definition read_utc :: "str \<Rightarrow> int" where
  "read_utc s = (day_number (field_val 0 4 s, field_val 4 2 s, field_val 6 2 s) * 86400 +
     field_val 9 2 s * 3600 + field_val 12 2 s * 60 + field_val 15 2 s) * 1000 + field_val 18 3 s"

lemma two_props: "0 \<le> n \<Longrightarrow> n < 100 \<Longrightarrow> length (two n) = 2 \<and> int (digits_val (two n)) = n"
  by (simp add: two_def length_pad0)

lemma length_show_nat: "length (show_nat n) = (if n < 10 then 1 else Suc (length (show_nat (n div 10))))"
  by (subst show_nat.simps) simp

lemma length_show_nat_4:
  assumes "1000 \<le> n" "n < 10000"
  shows "length (show_nat n) = 4"
proof -
  have "10 \<le> n" "10 \<le> n div 10" "10 \<le> n div 10 div 10" "n div 10 div 10 div 10 < 10" using assms by linarith+
  then show ?thesis
    using length_show_nat [of n] length_show_nat [of "n div 10"] length_show_nat [of "n div 10 div 10"]
      length_show_nat [of "n div 10 div 10 div 10"] by simp
qed

lemma month_days_range: "28 \<le> month_days y m" "month_days y m \<le> 31"
  by simp_all

lemma time_range:
  "0 \<le> s mod 86400 div 3600" "s mod 86400 div 3600 < 24" "0 \<le> s mod 3600 div 60" "s mod 3600 div 60 < 60" "0 \<le> s mod 60" "s mod 60 < 60"
  "s mod 86400 = (s mod 86400 div 3600) * 3600 + (s mod 3600 div 60) * 60 + s mod (60 :: int)"
proof -
  have "s mod 86400 div 3600 * 3600 + s mod 86400 mod 3600 = s mod 86400" "s mod 3600 div 60 * 60 + s mod 3600 mod 60 = s mod 3600" by simp_all
  moreover have "s mod 86400 mod 3600 = s mod 3600" "s mod 3600 mod 60 = s mod 60" by (simp_all add: mod_mod_cancel)
  ultimately show "s mod 86400 = (s mod 86400 div 3600) * 3600 + (s mod 3600 div 60) * 60 + s mod 60" by simp
  show "s mod 86400 div 3600 < 24" "s mod 3600 div 60 < 60" by (simp_all add: div_less_iff_less_mult)
qed simp_all

lemma utc_text_read:
  assumes "0 \<le> ms" "ms < 253402300800000"
  shows "length (utc_text ms) = 21" "read_utc (utc_text ms) = ms"
proof -
  define s where "s = ms div 1000"
  have ms: "ms = s * 1000 + ms mod 1000" by (simp add: s_def)
  have "0 \<le> s" "s < 253402300800" using assms by (simp_all add: s_def)
  then have days: "0 \<le> s div 86400" "s div 86400 < 2932897" by (simp_all add: div_less_iff_less_mult)
  obtain y m d where c: "civil (s div 86400) = (y, m, d)" by (metis surj_pair)
  have ymd: "1000 \<le> y" "y \<le> 9999" "1 \<le> m" "m \<le> 12" "1 \<le> d" "d \<le> 31" "day_number (y, m, d) = s div 86400"
    using civil_year [OF days] civil_date [of "s div 86400"] month_days_range(2) [of y m]
    by (auto simp: c valid_date_def simp del: month_days.simps)
  define hh mm ss where t: "hh = s mod 86400 div 3600" "mm = s mod 3600 div 60" "ss = s mod 60"
  note r = time_range [of s, folded t]
  let ?y = "show_nat (nat y)" and ?f = "pad0 3 (nat (ms mod 1000))"
  have u: "utc_text ms = ?y @ two m @ two d @ ''-'' @ two hh @ '':'' @ two mm @ '':'' @ two ss @ ''.'' @ ?f"
    by (simp add: utc_text_def time_of_def c t flip: s_def)
  have l: "length ?y = 4" "length (two m) = 2" "length (two d) = 2" "length (two hh) = 2" "length (two mm) = 2" "length (two ss) = 2" "length ?f = 3"
    using ymd r by (auto intro!: length_show_nat_4 length_pad0 simp: two_props)
  then show "length (utc_text ms) = 21" by (simp add: u)
  have "int (digits_val ?y) = y" "int (digits_val (two m)) = m" "int (digits_val (two d)) = d" "int (digits_val (two hh)) = hh"
    "int (digits_val (two mm)) = mm" "int (digits_val (two ss)) = ss" "int (digits_val ?f) = ms mod 1000"
    using ymd r by (simp_all add: two_props)
  then have "read_utc (utc_text ms) = (day_number (y, m, d) * 86400 + hh * 3600 + mm * 60 + ss) * 1000 + ms mod 1000"
    using l by (simp add: u read_utc_def field_val_def)
  also have "day_number (y, m, d) * 86400 + hh * 3600 + mm * 60 + ss = s" using ymd(7) r(7) div_mult_mod_eq [of s 86400] by linarith
  finally show "read_utc (utc_text ms) = ms" using ms by simp
qed

end
