(* ===== verification/Uptime.thy ===== *)
theory Uptime
  imports Engine Clock
begin

text \<open>
  The two clocks of the engine. The readers stamp a tick with the system clock (\<open>binance_ws.cpp\<close>,
  \<open>bybit_ws.cpp\<close>, \<open>deribit_ws.cpp\<close>), milliseconds since 1970; the strategy thread asks \<open>now_ms ()\<close>
  (\<open>fix_client.cpp\<close>), milliseconds of the steady clock since its first call. The aggregator compares the
  two: what follows of that.
\<close>

section \<open>Clock readings\<close>

text \<open>A clock is read in nanoseconds; \<open>duration_cast\<close> drops the rest.\<close>

definition system_ms :: "int \<Rightarrow> int64" where
  "system_ms ns = ns sdiv 1000000"

definition steady_ms :: "int \<Rightarrow> int \<Rightarrow> int64" where
  "steady_ms origin ns = (ns - origin) sdiv 1000000"

text \<open>The uptime is behind the system clock as long as that is not set back to before the time the
  program has run.\<close>

lemma sdiv_pos: "0 \<le> a \<Longrightarrow> 0 < b \<Longrightarrow> a sdiv b = a div (b :: int)"
  by (cases "a = 0") (simp_all add: signed_divide_int_def)

lemma steady_behind:
  assumes "0 \<le> ns - origin" "ns - origin \<le> wall"
  shows "steady_ms origin ns \<le> system_ms wall"
  using assms by (simp add: steady_ms_def system_ms_def sdiv_pos zdiv_mono1)

section \<open>Nothing is ever stale\<close>

fun fast_ticks :: "engine_op list \<Rightarrow> tick list" where
  "fast_ticks [] = []"
| "fast_ticks (FastTick t # ops) = t # fast_ticks ops"
| "fast_ticks (_ # ops) = fast_ticks ops"

fun deribit_ticks :: "engine_op list \<Rightarrow> tick list" where
  "deribit_ticks [] = []"
| "deribit_ticks (DeribitTick t # ops) = t # deribit_ticks ops"
| "deribit_ticks (_ # ops) = deribit_ticks ops"

fun turn_times :: "engine_op list \<Rightarrow> int64 list" where
  "turn_times [] = []"
| "turn_times (StrategyTurn now # ops) = now # turn_times ops"
| "turn_times (_ # ops) = turn_times ops"

text \<open>No reader pushes more than a ring holds between two turns of the strategy.\<close>

fun room :: "nat \<Rightarrow> nat \<Rightarrow> nat \<Rightarrow> engine_op list \<Rightarrow> bool" where
  "room cap f d [] \<longleftrightarrow> True"
| "room cap f d (FastTick t # ops) \<longleftrightarrow> f < cap \<and> room cap (Suc f) d ops"
| "room cap f d (DeribitTick t # ops) \<longleftrightarrow> d < cap \<and> room cap f (Suc d) ops"
| "room cap f d (StrategyTurn now # ops) \<longleftrightarrow> room cap 0 0 ops"
| "room cap f d (_ # ops) \<longleftrightarrow> room cap f d ops"

text \<open>What was taken in and what is still in the ring, of each venue.\<close>

definition fast_seen :: "nat \<Rightarrow> engine \<Rightarrow> tick list" where
  "fast_seen k e = binance_win (aggr e) @ filter valid (ring_items k (fast_ring e))"

definition deribit_seen :: "nat \<Rightarrow> engine \<Rightarrow> tick list" where
  "deribit_seen k e = deribit_win (aggr e) @ filter valid (ring_items k (deribit_ring e))"

definition stamped :: "int64 \<Rightarrow> nat \<Rightarrow> engine \<Rightarrow> bool" where
  "stamped T k e \<longleftrightarrow> (\<forall>t\<in>set (binance_win (aggr e)) \<union> set (deribit_win (aggr e)) \<union>
     set (ring_items k (fast_ring e)) \<union> set (ring_items k (deribit_ring e)). T \<le> ts_ms t)"

lemma strategy_turn_aggr:
  assumes "engine_ok k e" "strategy_turn k lt cfg now e = Some (e', ev)"
  shows "ring_items k (fast_ring e') = []" "ring_items k (deribit_ring e') = []"
    "binance_win (aggr e') = prune_old now (binance_win (aggr e) @ filter (\<lambda>t. valid t \<and> \<not> stale now t) (ring_items k (fast_ring e)))"
    "deribit_win (aggr e') = prune_old now (deribit_win (aggr e) @ filter (\<lambda>t. valid t \<and> \<not> stale now t) (ring_items k (deribit_ring e)))"
proof -
  have ok: "ring_ok k (fast_ring e)" "ring_ok k (deribit_ring e)" using assms(1) by (simp_all add: engine_ok_def)
  obtain lead fr dr a ev1 where u: "agg_update k lt cfg (fast_ring e) (deribit_ring e) now (aggr e) = Some (lead, fr, dr, a, ev1)"
    using assms(2) by (auto simp: strategy_turn_def split: Option.bind_splits prod.splits)
  have r: "ring_items k fr = []" "ring_items k dr = []" using agg_update_total [OF ok, of lt cfg now "aggr e"] u by auto
  note w = agg_update_windows [OF ok u]
  let ?e = "e\<lparr> fast_ring := fr, deribit_ring := dr, aggr := a \<rparr>"
  have "fast_ring e' = fr \<and> deribit_ring e' = dr \<and> aggr e' = a"
  proof (cases lead)
    case None
    then show ?thesis using assms(2) u by (auto simp: strategy_turn_def)
  next
    case (Some l)
    obtain e2 ev2 where d: "decide k cfg now l ?e = (e2, ev2)" by (cases "decide k cfg now l ?e")
    then show ?thesis using assms(2) u Some decide_frame(1-3) [OF d] by (auto simp: strategy_turn_def)
  qed
  then show "ring_items k (fast_ring e') = []" "ring_items k (deribit_ring e') = []"
    "binance_win (aggr e') = prune_old now (binance_win (aggr e) @ filter (\<lambda>t. valid t \<and> \<not> stale now t) (ring_items k (fast_ring e)))"
    "deribit_win (aggr e') = prune_old now (deribit_win (aggr e) @ filter (\<lambda>t. valid t \<and> \<not> stale now t) (ring_items k (deribit_ring e)))"
    using r w by simp_all
qed

text \<open>A turn behind the stamps takes everything in and prunes nothing.\<close>

lemma turn_behind:
  assumes "engine_ok k e" "strategy_turn k lt cfg now e = Some (e', ev)" "stamped T k e" "now \<le> T"
  shows "fast_seen k e' = fast_seen k e" "deribit_seen k e' = deribit_seen k e" "stamped T k e'"
proof -
  have b: "now \<le> ts_ms t" if "t \<in> set (binance_win (aggr e)) \<union> set (deribit_win (aggr e)) \<union>
      set (ring_items k (fast_ring e)) \<union> set (ring_items k (deribit_ring e))" for t
    using order_trans [OF assms(4)] assms(3) that unfolding stamped_def by blast
  have f: "filter (\<lambda>t. valid t \<and> \<not> stale now t) xs = filter valid xs" if "\<forall>t\<in>set xs. now \<le> ts_ms t" for xs
    using that stale_behind by (intro filter_cong) auto
  note s = strategy_turn_aggr [OF assms(1,2)]
  have w: "binance_win (aggr e') = fast_seen k e" "deribit_win (aggr e') = deribit_seen k e"
    unfolding s(3,4) fast_seen_def deribit_seen_def using b by (auto simp: f intro!: prune_old_behind)
  then show "fast_seen k e' = fast_seen k e" "deribit_seen k e' = deribit_seen k e"
    by (simp_all add: fast_seen_def [of k e'] deribit_seen_def [of k e'] s(1,2))
  show "stamped T k e'" using assms(3) unfolding stamped_def w s(1,2) fast_seen_def deribit_seen_def by auto
qed

text \<open>A whole history.\<close>

lemma step_behind:
  assumes "engine_ok k e" "stamped T k e" "engine_step k lt cfg op e = Some (e', eff)"
    and "ring_count k (fast_ring e) \<le> f" "ring_count k (deribit_ring e) \<le> d" "room (2 ^ k - 1) f d (op # ops)"
    and "\<forall>t\<in>set (fast_ticks [op]) \<union> set (deribit_ticks [op]). T \<le> ts_ms t" "\<forall>now\<in>set (turn_times [op]). now \<le> T"
  shows "fast_seen k e' = fast_seen k e @ filter valid (fast_ticks [op])"
    "deribit_seen k e' = deribit_seen k e @ filter valid (deribit_ticks [op])" "stamped T k e'"
    "\<exists>f d. ring_count k (fast_ring e') \<le> f \<and> ring_count k (deribit_ring e') \<le> d \<and> room (2 ^ k - 1) f d ops"
proof -
  have ok: "ring_ok k (fast_ring e)" "ring_ok k (deribit_ring e)" using assms(1) by (simp_all add: engine_ok_def)
  have "fast_seen k e' = fast_seen k e @ filter valid (fast_ticks [op]) \<and>
    deribit_seen k e' = deribit_seen k e @ filter valid (deribit_ticks [op]) \<and> stamped T k e' \<and>
    (\<exists>f d. ring_count k (fast_ring e') \<le> f \<and> ring_count k (deribit_ring e') \<le> d \<and> room (2 ^ k - 1) f d ops)"
  proof (cases op)
    case (FastTick t)
    then have "ring_items k (snd (push k t (fast_ring e))) = ring_items k (fast_ring e) @ [t]"
      using assms(4,6) by (simp add: push_items [OF ok(1)])
    moreover have "ring_count k (snd (push k t (fast_ring e))) \<le> Suc f"
      using assms(4) calculation by (simp flip: length_ring_items)
    ultimately show ?thesis using assms FastTick
      by (intro conjI exI [of _ "Suc f"] exI [of _ d]) (auto simp: fast_seen_def deribit_seen_def stamped_def)
  next
    case (DeribitTick t)
    then have "ring_items k (snd (push k t (deribit_ring e))) = ring_items k (deribit_ring e) @ [t]"
      using assms(5,6) by (simp add: push_items [OF ok(2)])
    moreover have "ring_count k (snd (push k t (deribit_ring e))) \<le> Suc d"
      using assms(5) calculation by (simp flip: length_ring_items)
    ultimately show ?thesis using assms DeribitTick
      by (intro conjI exI [of _ f] exI [of _ "Suc d"]) (auto simp: fast_seen_def deribit_seen_def stamped_def)
  next
    case (StrategyTurn now)
    then obtain ev where s: "strategy_turn k lt cfg now e = Some (e', ev)" using assms(3) by auto
    have "ring_count k (fast_ring e') \<le> 0" "ring_count k (deribit_ring e') \<le> 0"
      using strategy_turn_aggr(1,2) [OF assms(1) s] by (simp_all flip: length_ring_items)
    then show ?thesis using turn_behind [OF assms(1) s assms(2)] assms(6,8) StrategyTurn by auto
  next
    case (Quote q)
    then show ?thesis using assms
      by (intro conjI exI [of _ f] exI [of _ d]) (auto simp: fast_seen_def deribit_seen_def stamped_def)
  next
    case DispatchTurn
    then show ?thesis using assms
      by (intro conjI exI [of _ f] exI [of _ d]) (auto simp: fast_seen_def deribit_seen_def stamped_def split: option.splits)
  qed
  then show "fast_seen k e' = fast_seen k e @ filter valid (fast_ticks [op])"
    "deribit_seen k e' = deribit_seen k e @ filter valid (deribit_ticks [op])" "stamped T k e'"
    "\<exists>f d. ring_count k (fast_ring e') \<le> f \<and> ring_count k (deribit_ring e') \<le> d \<and> room (2 ^ k - 1) f d ops" by blast+
qed

lemma one_and_rest:
  "fast_ticks (op # ops) = fast_ticks [op] @ fast_ticks ops" "deribit_ticks (op # ops) = deribit_ticks [op] @ deribit_ticks ops"
  "turn_times (op # ops) = turn_times [op] @ turn_times ops"
  by (cases op; simp)+

lemma run_behind:
  assumes "engine_ok k e" "stamped T k e" "engine_run k lt cfg ops e = Some (e', eff)"
    and "ring_count k (fast_ring e) \<le> f" "ring_count k (deribit_ring e) \<le> d" "room (2 ^ k - 1) f d ops"
    and "\<forall>t\<in>set (fast_ticks ops) \<union> set (deribit_ticks ops). T \<le> ts_ms t" "\<forall>now\<in>set (turn_times ops). now \<le> T"
  shows "fast_seen k e' = fast_seen k e @ filter valid (fast_ticks ops) \<and>
    deribit_seen k e' = deribit_seen k e @ filter valid (deribit_ticks ops)"
  using assms
proof (induction ops arbitrary: e eff f d)
  case (Cons op ops)
  from Cons.prems(3) obtain e1 eff1 eff2 where e1: "engine_step k lt cfg op e = Some (e1, eff1)" "engine_run k lt cfg ops e1 = Some (e', eff2)"
    by (auto split: Option.bind_splits prod.splits)
  have ok: "engine_ok k e1" using engine_step_ok [OF Cons.prems(1), of lt cfg op] e1(1) by auto
  have st: "\<forall>t\<in>set (fast_ticks [op]) \<union> set (deribit_ticks [op]). T \<le> ts_ms t" "\<forall>now\<in>set (turn_times [op]). now \<le> T"
    "\<forall>t\<in>set (fast_ticks ops) \<union> set (deribit_ticks ops). T \<le> ts_ms t" "\<forall>now\<in>set (turn_times ops). now \<le> T"
    using Cons.prems(7,8) one_and_rest [of op ops] by auto
  note s = step_behind [OF Cons.prems(1,2) e1(1) Cons.prems(4-6) st(1,2)]
  obtain f' d' where "ring_count k (fast_ring e1) \<le> f'" "ring_count k (deribit_ring e1) \<le> d'" "room (2 ^ k - 1) f' d' ops"
    using s(4) by blast
  from Cons.IH [OF ok s(3) e1(2) this st(3,4)] show ?case
    using s(1,2) one_and_rest [of op ops] by simp
qed simp

lemma windows_keep_all:
  assumes "k < 64" "engine_run k lt cfg ops (engine_init k) = Some (e, eff)" "room (2 ^ k - 1) 0 0 ops"
    and "\<forall>t\<in>set (fast_ticks ops) \<union> set (deribit_ticks ops). T \<le> ts_ms t" "\<forall>now\<in>set (turn_times ops). now \<le> T"
  shows "fast_seen k e = filter valid (fast_ticks ops)" "deribit_seen k e = filter valid (deribit_ticks ops)"
proof -
  have "ring_count k (ring_init k tick0) = 0" by (simp flip: length_ring_items)
  then have "fast_seen k e = fast_seen k (engine_init k) @ filter valid (fast_ticks ops) \<and>
      deribit_seen k e = deribit_seen k (engine_init k) @ filter valid (deribit_ticks ops)"
    using assms by (intro run_behind [OF engine_ok_init _ assms(2), where T = T and f = 0 and d = 0])
      (simp_all add: stamped_def engine_init_def aggregator_init_def)
  then show "fast_seen k e = filter valid (fast_ticks ops)" "deribit_seen k e = filter valid (deribit_ticks ops)"
    by (simp_all add: fast_seen_def deribit_seen_def engine_init_def aggregator_init_def)
qed

section \<open>The hours of the uptime\<close>

text \<open>
  The weights are chosen by \<open>localtime\<close> of the uptime in seconds: the minute of the day is that of a
  day that began when the program did, shifted by the zone.
\<close>

lemma minute_of_day: "s mod 86400 div 3600 * 60 + s mod 3600 div 60 = s div 60 mod (1440 :: int)"
proof -
  define h m x q where d: "h = s mod 86400 div 3600" "m = s mod 3600 div 60" "x = s mod 60" "q = s div 86400"
  note r = time_range [of s, folded d]
  have "86400 * q + s mod 86400 = s" by (simp add: d(4))
  then have "s = 60 * (1440 * q + (h * 60 + m)) + x" unfolding r(7) by (simp add: distrib_left)
  then have "s div 60 = 1440 * q + (h * 60 + m)" using r(5,6) by (rule int_div_pos_eq)
  moreover have "0 \<le> h * 60 + m" "h * 60 + m < 1440" using r(1-4) by simp_all
  ultimately have "s div 60 mod 1440 = h * 60 + m" by simp
  then show ?thesis by (simp only: d)
qed

lemma us_hours_uptime:
  assumes "0 \<le> now"
  shows "in_us_hours (hour_minute offset) cfg now \<longleftrightarrow>
    us_open_hour_utc (weighting cfg) * 60 \<le> (now div 1000 + offset) div 60 mod 1440 \<and>
    (now div 1000 + offset) div 60 mod 1440 < us_close_hour_utc (weighting cfg) * 60"
proof -
  have s: "now sdiv 1000 = now div 1000" using assms by (simp add: sdiv_pos)
  show ?thesis
    unfolding in_us_hours_def hour_minute_def time_of_def s Let_def prod.case minute_of_day ..
qed

text \<open>With the default hours, on a machine in UTC: never in the first 13 hours after the start.\<close>

lemma first_hours_asia:
  assumes "0 \<le> now" "now < 13 * 3600000" "us_open_hour_utc (weighting cfg) = 13"
  shows "\<not> in_us_hours (hour_minute 0) cfg now"
proof -
  have "now div 1000 < 46800" "0 \<le> now div 1000" using assms(1,2) by (simp_all add: div_less_iff_less_mult)
  then have "now div 1000 div 60 < 780" "0 \<le> now div 1000 div 60" by (simp_all add: div_less_iff_less_mult)
  then show ?thesis using us_hours_uptime [OF assms(1), of 0 cfg] assms(3) by simp
qed

end
