(* ===== verification/FixSocket.thy ===== *)
theory FixSocket
  imports Handles
begin

text \<open>
  The descriptor of the plain FIX client (\<open>fix_client.cpp\<close>): \<open>connect_socket\<close> and \<open>close_socket\<close>, and the
  two threads that use \<open>fd_\<close> without a lock, one access per step: the session's, and the one that calls
  \<open>stop ()\<close>. \<open>fd_\<close> is \<open>None\<close> for \<open>-1\<close>; the system hands out any descriptor that is not open.
\<close>

section \<open>One connect\<close>

record connect_answers =
  c_resolves :: bool
  c_opens :: bool
  c_connects :: bool

definition connect_socket :: "connect_answers \<Rightarrow> bool \<times> handle_use list" where
  "connect_socket a =
     (if \<not> c_resolves a then (False, [])
      else if \<not> c_opens a then (False, [Acquire AddrInfo, Using AddrInfo, Release AddrInfo])
      else let opened = [Acquire AddrInfo, Using AddrInfo, Acquire TcpSock, Using TcpSock, Using AddrInfo] in
        if \<not> c_connects a then (False, opened @ [Release TcpSock, Release AddrInfo])
        else (True, opened @ [Release AddrInfo]))"

text \<open>A connect holds the socket when it succeeds and nothing when it fails.\<close>

lemma connect_socket_holds: "held (snd (connect_socket a)) [] = Some (if fst (connect_socket a) then [TcpSock] else [])"
  by (simp add: connect_socket_def handle_rules Let_def)

section \<open>Two threads\<close>

datatype session_at = TopOf | Resolving | Connecting nat | Talking | SLooks | SCloses | SClears | Pausing | SessionOver

datatype stopper_at = NotCalled | CLooks | CCloses | CClears | Joining | StopDone

record sockets =
  k_fd :: "nat option"
  k_open :: "nat set"
  k_bad :: bool
  k_running :: bool
  k_session :: session_at
  k_stop :: stopper_at

definition sockets_init :: sockets where
  "sockets_init = \<lparr> k_fd = None, k_open = {}, k_bad = False, k_running = True, k_session = TopOf, k_stop = NotCalled \<rparr>"

text \<open>\<open>close (fd_)\<close>: of a descriptor that is open, or of one that is not.\<close>

definition close_fd :: "sockets \<Rightarrow> sockets" where
  "close_fd s = (case k_fd s of
     None \<Rightarrow> s\<lparr> k_bad := True \<rparr>
   | Some f \<Rightarrow> if f \<in> k_open s then s\<lparr> k_open := k_open s - {f} \<rparr> else s\<lparr> k_bad := True \<rparr>)"

inductive so_step :: "sockets \<Rightarrow> sockets \<Rightarrow> bool" where
  top: "k_session s = TopOf \<Longrightarrow> so_step s (s\<lparr> k_session := (if k_running s then Resolving else SessionOver) \<rparr>)"
| unresolved: "k_session s = Resolving \<Longrightarrow> so_step s (s\<lparr> k_session := SLooks \<rparr>)"
| socket: "k_session s = Resolving \<Longrightarrow> f \<notin> k_open s \<Longrightarrow> so_step s (s\<lparr> k_open := insert f (k_open s), k_session := Connecting f \<rparr>)"
| refused: "k_session s = Connecting f \<Longrightarrow> so_step s (s\<lparr> k_open := k_open s - {f}, k_session := SLooks \<rparr>)"
| connected: "k_session s = Connecting f \<Longrightarrow> so_step s (s\<lparr> k_fd := Some f, k_session := Talking \<rparr>)"
| hangs_up: "k_session s = Talking \<Longrightarrow> so_step s (s\<lparr> k_session := SLooks \<rparr>)"
| looks: "k_session s = SLooks \<Longrightarrow> so_step s (s\<lparr> k_session := (if k_fd s = None then SClears else SCloses) \<rparr>)"
| closes: "k_session s = SCloses \<Longrightarrow> so_step s ((close_fd s)\<lparr> k_session := SClears \<rparr>)"
| clears: "k_session s = SClears \<Longrightarrow> so_step s (s\<lparr> k_fd := None, k_session := Pausing \<rparr>)"
| pause: "k_session s = Pausing \<Longrightarrow> so_step s (s\<lparr> k_session := (if k_running s then TopOf else SessionOver) \<rparr>)"
| stop: "k_stop s = NotCalled \<Longrightarrow> so_step s (s\<lparr> k_running := False, k_stop := CLooks \<rparr>)"
| stop_looks: "k_stop s = CLooks \<Longrightarrow> so_step s (s\<lparr> k_stop := (if k_fd s = None then CClears else CCloses) \<rparr>)"
| stop_closes: "k_stop s = CCloses \<Longrightarrow> so_step s ((close_fd s)\<lparr> k_stop := CClears \<rparr>)"
| stop_clears: "k_stop s = CClears \<Longrightarrow> so_step s (s\<lparr> k_fd := None, k_stop := Joining \<rparr>)"
| stop_joins: "k_stop s = Joining \<Longrightarrow> k_session s = SessionOver \<Longrightarrow> so_step s (s\<lparr> k_stop := StopDone \<rparr>)"

inductive_cases so_stepE: "so_step s s'"

definition so_reach :: "sockets \<Rightarrow> bool" where
  "so_reach = so_step\<^sup>*\<^sup>* sockets_init"

lemma so_reach_init: "so_reach sockets_init"
  by (simp add: so_reach_def)

lemma so_reach_step: "so_reach s \<Longrightarrow> so_step s s' \<Longrightarrow> so_reach s'"
  unfolding so_reach_def by (rule rtranclp.rtrancl_into_rtrancl)

section \<open>Alone the session is clean\<close>

definition session_clean :: "sockets \<Rightarrow> bool" where
  "session_clean s \<longleftrightarrow> k_stop s = NotCalled \<longrightarrow> \<not> k_bad s \<and> k_running s \<and>
     (case k_session s of
        Connecting f \<Rightarrow> k_fd s = None \<and> k_open s = {f}
      | Talking \<Rightarrow> k_fd s \<noteq> None \<and> k_open s = set_option (k_fd s)
      | SLooks \<Rightarrow> k_open s = set_option (k_fd s)
      | SCloses \<Rightarrow> k_fd s \<noteq> None \<and> k_open s = set_option (k_fd s)
      | SClears \<Rightarrow> k_open s = {}
      | SessionOver \<Rightarrow> False
      | _ \<Rightarrow> k_fd s = None \<and> k_open s = {})"

lemma session_clean_step: "so_step s s' \<Longrightarrow> session_clean s \<Longrightarrow> session_clean s'"
  by (erule so_stepE) (auto simp: session_clean_def close_fd_def split: option.splits session_at.splits)

lemma session_clean_reach: "so_reach s \<Longrightarrow> session_clean s"
  unfolding so_reach_def
  by (induction rule: rtranclp_induct) (auto simp: session_clean_step, simp add: session_clean_def sockets_init_def)

text \<open>Never more than one descriptor, never one that is closed twice, as long as nobody stops it.\<close>

lemma alone_clean:
  assumes "so_reach s" "k_stop s = NotCalled"
  shows "\<not> k_bad s \<and> (\<exists>f. k_open s \<subseteq> {f})"
  using session_clean_reach [OF assms(1)] assms(2)
  by (cases "k_session s"; cases "k_fd s") (auto simp: session_clean_def)

section \<open>Together they are not\<close>

text \<open>A state is reachable when a list of states leads to it.\<close>

lemma so_path: "so_reach s \<Longrightarrow> successively so_step (s # ss) \<Longrightarrow> so_reach (last (s # ss))"
proof (induction ss arbitrary: s)
  case (Cons a ss)
  have "so_reach a" "successively so_step (a # ss)" using Cons.prems so_reach_step by auto
  then have "so_reach (last (a # ss))" by (rule Cons.IH)
  then show ?case by simp
qed simp

definition talking :: sockets where
  "talking = \<lparr> k_fd = Some 5, k_open = {5}, k_bad = False, k_running = True, k_session = Talking, k_stop = NotCalled \<rparr>"

definition connecting :: sockets where
  "connecting = \<lparr> k_fd = None, k_open = {5}, k_bad = False, k_running = True, k_session = Connecting 5, k_stop = NotCalled \<rparr>"

lemma connecting_reach: "so_reach connecting"
proof -
  let ?r = "sockets_init\<lparr> k_session := Resolving \<rparr>"
  have "so_step sockets_init ?r" using so_step.top [of sockets_init] by (simp add: sockets_init_def)
  moreover have "so_step ?r connecting" using so_step.socket [of ?r 5] by (simp add: sockets_init_def connecting_def)
  ultimately show ?thesis using so_reach_init so_reach_step by blast
qed

lemma talking_reach: "so_reach talking"
  using so_reach_step [OF connecting_reach so_step.connected] by (simp add: connecting_def talking_def)

text \<open>Both look before either closes: the second close is of a descriptor that is not open.\<close>

lemma double_close_reach: "\<exists>s. so_reach s \<and> k_bad s"
proof -
  let ?a = "talking\<lparr> k_session := SLooks \<rparr>"
  let ?b = "talking\<lparr> k_session := SCloses \<rparr>"
  let ?c = "?b\<lparr> k_running := False, k_stop := CLooks \<rparr>"
  let ?d = "?b\<lparr> k_running := False, k_stop := CCloses \<rparr>"
  let ?e = "(close_fd ?d)\<lparr> k_session := SClears \<rparr>"
  let ?f = "(close_fd ?e)\<lparr> k_stop := CClears \<rparr>"
  have "so_step talking ?a" by (rule so_step.hangs_up) (simp add: talking_def)
  moreover have "so_step ?a ?b" using so_step.looks [of ?a] by (simp add: talking_def)
  moreover have "so_step ?b ?c" by (rule so_step.stop) (simp add: talking_def)
  moreover have "so_step ?c ?d" using so_step.stop_looks [of ?c] by (simp add: talking_def)
  moreover have "so_step ?d ?e" by (rule so_step.closes) simp
  moreover have "so_step ?e ?f" by (rule so_step.stop_closes) (simp add: close_fd_def talking_def)
  ultimately have "so_reach ?f" using so_path [OF talking_reach, of "[?a, ?b, ?c, ?d, ?e, ?f]"] by simp
  moreover have "k_bad ?f" by (simp add: close_fd_def talking_def)
  ultimately show ?thesis by blast
qed

text \<open>\<open>stop ()\<close> looks before the session has stored the socket, and clears after: the socket stays open.\<close>

lemma leak_reach: "\<exists>s. so_reach s \<and> k_stop s = StopDone \<and> k_session s = SessionOver \<and> k_open s \<noteq> {}"
proof -
  let ?a = "connecting\<lparr> k_running := False, k_stop := CLooks \<rparr>"
  let ?b = "connecting\<lparr> k_running := False, k_stop := CClears \<rparr>"
  let ?c = "?b\<lparr> k_fd := Some 5, k_session := Talking \<rparr>"
  let ?d = "connecting\<lparr> k_running := False, k_stop := Joining, k_session := Talking \<rparr>"
  let ?e = "?d\<lparr> k_session := SLooks \<rparr>"
  let ?f = "?d\<lparr> k_session := SClears \<rparr>"
  let ?g = "?d\<lparr> k_session := Pausing \<rparr>"
  let ?h = "?d\<lparr> k_session := SessionOver \<rparr>"
  let ?i = "?h\<lparr> k_stop := StopDone \<rparr>"
  have "so_step connecting ?a" by (rule so_step.stop) (simp add: connecting_def)
  moreover have "so_step ?a ?b" using so_step.stop_looks [of ?a] by (simp add: connecting_def)
  moreover have "so_step ?b ?c" by (rule so_step.connected) (simp add: connecting_def)
  moreover have "so_step ?c ?d" using so_step.stop_clears [of ?c] by (simp add: connecting_def)
  moreover have "so_step ?d ?e" using so_step.hangs_up [of ?d] by simp
  moreover have "so_step ?e ?f" using so_step.looks [of ?e] by (simp add: connecting_def)
  moreover have "so_step ?f ?g" using so_step.clears [of ?f] by (simp add: connecting_def)
  moreover have "so_step ?g ?h" using so_step.pause [of ?g] by (simp add: connecting_def)
  moreover have "so_step ?h ?i" by (rule so_step.stop_joins) simp_all
  ultimately have "so_reach ?i" using so_path [OF connecting_reach, of "[?a, ?b, ?c, ?d, ?e, ?f, ?g, ?h, ?i]"] by simp
  then show ?thesis by (intro exI [of _ ?i]) (simp add: connecting_def)
qed

end
