(* ===== verification/FeedSessions.thy ===== *)
theory FeedSessions
  imports Feeds
begin

text \<open>
  How many sessions a feed has. Every completion of a session leads to one more operation or to one reconnect
  timer, and a timer to one session; only the Bybit reader has a second operation under way, the write of a pong
  (\<open>bybit_ws.cpp\<close>, \<open>on_read\<close>), whose failure schedules a reconnect of its own.
\<close>

section \<open>The bound\<close>

definition alive :: "feed \<Rightarrow> nat" where
  "alive f = length (sessions f) + length (timers f)"

fun pong_failures :: "feed_input list \<Rightarrow> nat" where
  "pong_failures [] = 0"
| "pong_failures (PongFailed # es) = Suc (pong_failures es)"
| "pong_failures (_ # es) = pong_failures es"

lemma feed_event_alive:
  assumes "feed_event kd h e f = Some f'"
  shows "alive f' \<le> alive f + pong_failures [e]"
  using assms
  by (cases e) (auto simp: alive_def feed_fail_eq spawn_session_def length_remove_at Let_def split: if_splits prod.splits)

lemma feed_run_alive:
  assumes "feed_run kd h es f = Some f'"
  shows "alive f' \<le> alive f + pong_failures es"
  using assms
proof (induction es arbitrary: f)
  case (Cons e es)
  then obtain f1 where f1: "feed_event kd h e f = Some f1" "feed_run kd h es f1 = Some f'"
    by (auto split: option.splits)
  have "pong_failures (e # es) = pong_failures [e] + pong_failures es" by (cases e) simp_all
  then show ?case using Cons.IH [OF f1(2)] feed_event_alive [OF f1(1)] by simp
qed simp

text \<open>The other two readers never write a pong.\<close>

lemma feed_event_pongs:
  "kd \<noteq> KBybit \<Longrightarrow> pongs f = 0 \<Longrightarrow> feed_event kd h e f = Some f' \<Longrightarrow> pongs f' = 0 \<and> pong_failures [e] = 0"
  by (cases e) (auto simp: feed_fail_eq spawn_session_def Let_def split: if_splits prod.splits)

lemma feed_run_pongs:
  assumes "kd \<noteq> KBybit" "pongs f = 0" "feed_run kd h es f = Some f'"
  shows "pong_failures es = 0"
  using assms(2,3)
proof (induction es arbitrary: f)
  case (Cons e es)
  then obtain f1 where f1: "feed_event kd h e f = Some f1" "feed_run kd h es f1 = Some f'"
    by (auto split: option.splits)
  have "pong_failures (e # es) = pong_failures [e] + pong_failures es" by (cases e) simp_all
  then show ?case using Cons.IH [OF _ f1(2)] feed_event_pongs [OF assms(1) Cons.prems(1) f1(1)] by simp
qed simp

lemma feed_alive_start: "alive (feed_start kd r) = 1" "pongs (feed_start kd r) = 0"
  by (simp_all add: alive_def feed_start_eq)

section \<open>Two sessions of one feed\<close>

text \<open>A connection that breaks while a pong is being written fails the write and the read.\<close>

definition connected_events :: "nat \<Rightarrow> feed_input list" where
  "connected_events i = replicate 5 (Done i)"

definition broken_pong :: "str \<Rightarrow> feed_input list" where
  "broken_pong ping = connected_events 0 @ [Message 0 ping, PongFailed, Failed 0, TimerFired 0 False, TimerFired 0 False] @
     connected_events 0 @ connected_events 1"

lemma broken_pong_failures: "pong_failures (broken_pong ping) = 1"
  by (simp add: broken_pong_def connected_events_def numeral_eq_Suc)

lemma two_sessions:
  assumes "json ping = Some j" "by_op j = ''ping''"
  shows "\<exists>f. feed_run KBybit (bybit_handle json cfg k now) (broken_pong ping) (feed_start KBybit r) = Some f \<and>
    sessions f = [Read, Read] \<and> timers f = []"
  using assms
  by (simp add: broken_pong_def connected_events_def numeral_eq_Suc feed_start_eq feed_fail_eq bybit_handle_def
      kPong_def remove_at_def spawn_session_def Let_def)

end
