(* ===== verification/FixOrder.thy ===== *)
theory FixOrder
  imports FixSession FixClient
begin

text \<open>
  The order of \<open>FixExecutor\<close> on the wire, read back with the splitter and the scanner of the same file: what the
  other side finds in the NewOrderSingle that \<open>build_order\<close> makes of a job. Then the same for the orders of the
  plain client (\<open>fix_client.cpp\<close>).
\<close>

section \<open>No separator in a printed number\<close>

lemma set_strip_zeros: "set (strip_zeros s) \<subseteq> set s"
proof -
  have "set (rstrip0 s) \<subseteq> set s" unfolding rstrip0_def using set_dropWhileD [of _ _ "rev s"] by auto
  then show ?thesis unfolding strip_zeros_def Let_def using in_set_butlastD [of _ "rstrip0 s"] by (auto simp del: rev.simps)
qed

lemma no_soh_simps [simp]:
  "no_soh []" "no_soh (c # s) \<longleftrightarrow> c \<noteq> SOH \<and> no_soh s" "no_soh (s @ t) \<longleftrightarrow> no_soh s \<and> no_soh t"
  by (auto simp: no_soh_def)

lemma no_soh_take: "no_soh s \<Longrightarrow> no_soh (take n s)"
  using in_set_takeD by (fastforce simp: no_soh_def)

lemma no_soh_strip: "no_soh s \<Longrightarrow> no_soh (strip_zeros s)"
  using set_strip_zeros by (auto simp: no_soh_def)

lemma no_soh_fmt_g: "no_soh (fmt_g x)"
proof -
  have f: "no_soh (strip_zeros (fmt_fixed n q))" for n q
    by (rule no_soh_strip) (rule plain_no_soh [OF fmt_fixed_plain])
  have "no_soh (fmt_g_pos q)" for q
    unfolding fmt_g_pos_def Let_def by (simp add: f pad0_no_soh SOH_def split: prod.split)
  then show ?thesis by (simp add: fmt_g_def SOH_def split: fval.split)
qed

lemma number_texts: "no_soh (fmt_qty q)" "no_soh (take n (fmt_f 5 q))"
  using no_soh_take [OF no_soh_fmt_g] no_soh_take [OF plain_no_soh [OF fmt_f_plain]] by (simp_all add: fmt_qty_def)

section \<open>The order\<close>

definition texts_ok :: "config \<Rightarrow> clk \<Rightarrow> fx_order \<Rightarrow> bool" where
  "texts_ok cfg ck job \<longleftrightarrow> no_soh (fix_sender_comp_id (fix_c cfg)) \<and> no_soh (fix_target_comp_id (fix_c cfg)) \<and>
     no_soh (fix_account_id (fix_c cfg)) \<and> no_soh (ck_utc ck) \<and> no_soh (fo_cl job) \<and> no_soh (fo_instrument job)"

lemma order_fields_ok: "texts_ok cfg ck job \<Longrightarrow> \<forall>(t, v)\<in>set (order_fields cfg ck job). no_soh v \<and> t < 2 ^ 31"
  by (auto simp: order_fields_def texts_ok_def number_texts SOH_def)

lemma order_scan:
  assumes "texts_ok cfg ck job"
  shows "scan_tag (fst (build_order cfg ck job s)) (int t) =
    (case map_of (frame_fields CHR ''D'' (order_fields cfg ck job) (fix_sender_comp_id (fix_c cfg))
       (fix_target_comp_id (fix_c cfg)) (fx_seq_out s) (ck_utc ck)) t of Some v \<Rightarrow> v | None \<Rightarrow> [])"
  using frame_scan [OF order_fields_ok [OF assms]] assms
  by (simp add: build_order_def build_msg_def texts_ok_def SOH_def)

text \<open>The fields of the header, and those of the order, which has none of their tags.\<close>

lemma frame_lookup:
  "map_of (frame_fields m fs a b n u) 35 = Some [m]" "map_of (frame_fields m fs a b n u) 34 = Some (show_int n)"
  "t \<notin> {8, 9, 35, 49, 56, 34, 52, 10} \<Longrightarrow> map_of (frame_fields m fs a b n u) t = map_of fs t"
  unfolding frame_fields_def Let_def by (simp_all add: map_add_def split: option.split)

lemma order_read:
  assumes "texts_ok cfg ck job"
  shows "scan_tag (fst (build_order cfg ck job s)) 35 = ''D''" "scan_tag (fst (build_order cfg ck job s)) 34 = show_int (fx_seq_out s)"
    and "t \<notin> {8, 9, 35, 49, 56, 34, 52, 10} \<Longrightarrow> scan_tag (fst (build_order cfg ck job s)) (int t) =
      (case map_of (order_fields cfg ck job) t of Some v \<Rightarrow> v | None \<Rightarrow> [])"
  using order_scan [OF assms, of s 35] order_scan [OF assms, of s 34]
  by (simp_all only: frame_lookup(1,2) option.case of_nat_numeral) (simp only: order_scan [OF assms] frame_lookup(3) simp_thms)

lemma order_values:
  "map_of (order_fields cfg ck job) 11 = Some (fo_cl job)" "map_of (order_fields cfg ck job) 1 = Some (fix_account_id (fix_c cfg))"
  "map_of (order_fields cfg ck job) 55 = Some (fo_instrument job)"
  "map_of (order_fields cfg ck job) 54 = Some (if fo_side job = ''buy'' then ''1'' else ''2'')"
  "map_of (order_fields cfg ck job) 38 = Some (fmt_qty (fo_volume job))"
  "map_of (order_fields cfg ck job) 99 = (if 0 < fo_stop job then Some (take 47 (fmt_f 5 (fo_stop job))) else None)"
  "map_of (order_fields cfg ck job) 100 = (if 0 < fo_take job then Some (take 47 (fmt_f 5 (fo_take job))) else None)"
  unfolding order_fields_def by simp_all

lemma order_cut_out: "built f \<Longrightarrow> split_frame (f @ rest) = Frame f rest"
  using split_frame_frame by (auto simp: built_def)

text \<open>An order is far below the largest message when its texts are short.\<close>

lemma order_header_short:
  assumes "length (show_int n) + length a + length b + length u + length (fix_account_id (fix_c cfg)) + length (ck_utc ck) +
      length (fo_cl job) + length (fo_instrument job) \<le> 10000"
  shows "length (fix_header m a b n u) + length (fields_text (order_fields cfg ck job)) \<le> 2 ^ 20"
proof -
  have "list_all (\<lambda>t. length (show_nat t) \<le> 3) [35, 49, 56, 34, 52, 11, 1, 55, 54, 38, 40, 59, 60, 99, 100]" by code_simp
  moreover have "length (fmt_qty (fo_volume job)) \<le> 63" by (simp add: fmt_qty_def)
  ultimately show ?thesis
    using assms by (auto simp: fix_header_def fix_field_int_def fix_field_def order_fields_def fields_text_def min_def)
qed

text \<open>A separator in the instrument is not escaped: it starts a field of the writer's choice.\<close>

lemma instrument_injects:
  assumes "no_soh i" "no_soh v" "texts_ok cfg ck (job\<lparr> fo_instrument := [] \<rparr>)"
  shows "scan_tag (fst (build_order cfg ck (job\<lparr> fo_instrument := i @ SOH # ''38='' @ v \<rparr>) s)) 38 = v"
proof -
  let ?job = "job\<lparr> fo_instrument := i @ SOH # ''38='' @ v \<rparr>"
  define fs where "fs = [(11, fo_cl job), (1, fix_account_id (fix_c cfg)), (55, i), (38, v)] @ drop 3 (order_fields cfg ck ?job)"
  have "show_nat 38 = ''38''" by code_simp
  then have f: "fields_text (order_fields cfg ck ?job) = fields_text fs"
    by (simp add: fs_def order_fields_def fix_field_def)
  have "\<forall>(t, v)\<in>set fs. no_soh v \<and> t < 2 ^ 31"
    using assms by (auto simp: fs_def order_fields_def texts_ok_def number_texts SOH_def)
  from frame_scan [OF this, of "CHR ''D''" _ _ _ _ 38] show ?thesis
    using assms(3) unfolding build_order_def build_msg_def fst_conv f
    by (simp add: texts_ok_def SOH_def frame_lookup) (simp add: fs_def)
qed

section \<open>The orders of the plain client\<close>

definition signal_texts_ok :: "config \<Rightarrow> clk \<Rightarrow> signal \<Rightarrow> bool" where
  "signal_texts_ok cfg ck sg \<longleftrightarrow> no_soh (fix_sender_comp_id (fix_c cfg)) \<and> no_soh (fix_target_comp_id (fix_c cfg)) \<and>
     no_soh (ck_utc ck) \<and> no_soh (dry_run_symbol (run cfg)) \<and> no_soh (symbol sg) \<and> no_soh (reason sg)"

lemma new_order_fields_ok: "signal_texts_ok cfg ck sg \<Longrightarrow> \<forall>(t, v)\<in>set (new_order_fields sg cfg). no_soh v \<and> t < 2 ^ 31"
  using no_soh_take [OF plain_no_soh [OF fmt_f_plain]]
  by (auto simp: new_order_fields_def signal_texts_ok_def show_int_no_soh SOH_def)

lemma new_order_values:
  "map_of (new_order_fields sg cfg) 11 = Some (if reason sg = [] then ''LEADLAG'' else reason sg)"
  "map_of (new_order_fields sg cfg) 55 = Some (symbol sg)"
  "map_of (new_order_fields sg cfg) 38 = Some (show_int (int64_of (if 0 < trade_amount (run cfg) then trade_amount (run cfg) else 1)))"
  unfolding new_order_fields_def by simp_all

lemma new_order_read:
  fixes n :: int64
  assumes "signal_texts_ok cfg ck sg"
  defines "f \<equiv> new_order_single ck sg cfg n (fix_sender_comp_id (fix_c cfg)) (fix_target_comp_id (fix_c cfg))"
  shows "scan_tag f 34 = show_int n" "scan_tag f 11 = (if reason sg = [] then ''LEADLAG'' else reason sg)" "scan_tag f 55 = symbol sg"
    "scan_tag f 38 = show_int (int64_of (if 0 < trade_amount (run cfg) then trade_amount (run cfg) else 1))"
proof -
  have s: "scan_tag f (int t) = (case map_of (frame_fields CHR ''D'' (new_order_fields sg cfg) (fix_sender_comp_id (fix_c cfg))
      (fix_target_comp_id (fix_c cfg)) n (ck_utc ck)) t of Some v \<Rightarrow> v | None \<Rightarrow> [])" for t
    using frame_scan [OF new_order_fields_ok [OF assms(1)]] assms(1)
    by (simp add: f_def new_order_single_def build_fix_def signal_texts_ok_def SOH_def)
  show "scan_tag f 34 = show_int n" "scan_tag f 11 = (if reason sg = [] then ''LEADLAG'' else reason sg)" "scan_tag f 55 = symbol sg"
    "scan_tag f 38 = show_int (int64_of (if 0 < trade_amount (run cfg) then trade_amount (run cfg) else 1))"
    using s [of 34] s [of 11] s [of 55] s [of 38] by (simp_all add: frame_lookup new_order_values)
qed

text \<open>A quantity below one is cut to 0.\<close>

lemma int64_of_small: "0 < a \<Longrightarrow> a < 1 \<Longrightarrow> int64_of a = 0"
proof -
  assume a: "0 < a" "a < 1"
  have "fval_of 1 = VFin 1" using fval_of_exact [of 1] by (simp add: exact_simps)
  then show ?thesis using a
    by (cases "fval_of a") (auto simp: double_defs int64_of_def trunc_rat_def Let_def floor_eq_iff)
qed

text \<open>The default amount is such a quantity: the double nearest to 0.001.\<close>

lemma default_amount_small: "0 < trade_amount (run config_default)" "trade_amount (run config_default) < 1"
proof -
  have m: "x \<le> y \<Longrightarrow> lit x \<le> lit y" for x y by (simp add: double_defs rnd64_mono)
  have e: "exact (1 / 1024)" using exact_dyadic [of 1 10] by simp
  have "0 < lit (1 / 1024)" "lit (1 / 64) < 1" using e by (simp_all add: exact_simps)
  moreover have "lit (1 / 1024) \<le> lit 0.001" "lit 0.001 \<le> lit (1 / 64)" by (rule m, simp)+
  ultimately show "0 < trade_amount (run config_default)" "trade_amount (run config_default) < 1"
    unfolding config_default_def run_default_def by (auto intro: dless_le_trans dle_less_trans)
qed

lemma order_frames_nth:
  "i < length js \<Longrightarrow> order_frames cfg ck n js ! i =
    new_order_single ck (js ! i) cfg (n + int i) (fix_sender_comp_id (fix_c cfg)) (fix_target_comp_id (fix_c cfg))"
proof (induction js arbitrary: n i)
  case (Cons j js)
  then show ?case by (cases i) (simp_all add: algebra_simps)
qed simp

lemma length_order_frames [simp]: "length (order_frames cfg ck n js) = length js"
  by (induction js arbitrary: n) simp_all

lemma logon_seq:
  assumes "no_soh sender" "no_soh target" "no_soh (ck_utc ck)"
  shows "scan_tag (fc_logon ck n sender target h) 34 = show_int n"
proof -
  have "fix_field 98 ''0'' @ fix_field_int 108 h @ fix_field 141 ''Y'' = fields_text [(98, ''0''), (108, show_int h), (141, ''Y'')]"
    by (simp add: fix_field_int_def)
  then show ?thesis
    using frame_scan [of "[(98, ''0''), (108, show_int h), (141, ''Y'')]" "CHR ''A''" sender target "ck_utc ck" n 34] assms
    by (simp add: fc_logon_def build_fix_def frame_lookup show_int_no_soh SOH_def)
qed

end
