(* ===== verification/Samples.thy ===== *)
theory Samples
  imports Shutdown Mt5 Engine Replay BenchRing FixBooks FixClient Oanda CTrader LeadBot
begin

text \<open>
  Concrete inputs at which the properties of the root theory are instantiated, with the facts
  that evaluate the model there. Prices are numbers a double holds exactly.
\<close>

lemma zero_facts [simp]:
  "(0 :: double) \<le> 0" "\<not> (0 :: double) < 0" "\<not> is_nan 0" "isfinite 0"
  using lit_compare [of 0 0] lit_props [of 0] by (simp_all add: exact_simps del: lit_1)

definition plain_cfg :: config where
  "plain_cfg = config_default\<lparr> strat := strategy_default\<lparr> threshold_pips := 0, latency_buffer_pips := 0,
     min_profit_margin_pips := 0, round_four_decimals := False, max_daily_loss := 1 \<rparr> \<rparr>"

definition some_quote :: broker_quote where
  "some_quote = quote0\<lparr> q_bid := lit 100, q_ask := lit 101, q_spread := 1, q_valid := True \<rparr>"

lemma plain_strat [simp]:
  "threshold_pips (strat plain_cfg) = 0" "latency_buffer_pips (strat plain_cfg) = 0"
  "min_profit_margin_pips (strat plain_cfg) = 0" "\<not> round_four_decimals (strat plain_cfg)"
  "max_open_lots (strat plain_cfg) = 1" "max_orders_per_interval (strat plain_cfg) = 5"
  "interval_seconds (strat plain_cfg) = 60" "max_daily_loss (strat plain_cfg) = 1"
  by (simp_all add: plain_cfg_def strategy_default_def)

lemma some_quote_fields [simp]:
  "q_bid some_quote = lit 100" "q_ask some_quote = lit 101" "q_spread some_quote = 1" "q_valid some_quote"
  by (simp_all add: some_quote_def)

lemma plain_buffers [simp]: "buffers_nonneg plain_cfg"
  by (simp add: buffers_nonneg_def)

lemma plain_round4 [simp]: "s_round4 plain_cfg x = x"
  by (simp add: s_round4_def)

lemma plain_threshold [simp]: "dynamic_threshold plain_cfg some_quote = 1"
  by (simp add: dynamic_threshold_eq effective_spread_def dmax_def exact_simps flip: lit_0)

lemma plain_evaluate: "fst (evaluate plain_cfg (lit 103) some_quote) = Long"
  by (simp add: evaluate_cases exact_simps)

lemma plain_emit:
  "maybe_emit plain_cfg Long (lit 103) some_quote 1000 strategy_init =
    (Some (make_signal plain_cfg Long (lit 103) some_quote 1000), strategy_init\<lparr> last_signal_ms := 1000 \<rparr>, [BenchMark StrategyDone])"
proof -
  have "can_trade_now plain_cfg 1000 strategy_init \<and> \<not> cooling_down plain_cfg 1000 strategy_init"
    by (simp add: can_trade_now_def cooling_down_def interval_spent_def strategy_init_def exact_simps flip: lit_0)
  moreover have "snd (snd (evaluate plain_cfg (lit 103) some_quote)) = [BenchMark StrategyDone]"
    by (simp add: evaluate_def exact_simps)
  ultimately show ?thesis by (simp add: maybe_emit_def case_prod_unfold)
qed

text \<open>Feeds whose messages carry no price.\<close>

definition no_json :: parsers where
  "no_json = \<lparr> binance_json = \<lambda>_. None, bybit_json = \<lambda>_. None, deribit_json = \<lambda>_. None \<rparr>"

section \<open>Printed numbers\<close>

lemma pad0_zero: "pad0 6 0 = ''000000''" by code_simp

lemma fmt_f_nat:
  assumes "exact (of_nat n)"
  shows "fmt_f 6 (lit (of_nat n)) = show_nat n @ ''.000000''" "decimals 6 (lit (of_nat n)) = lit (of_nat n)"
proof -
  have r: "rne (rat_of_nat n * 1000000) = int n * 1000000"
    using rne_of_int [of "int n * 1000000"] by simp
  show "fmt_f 6 (lit (of_nat n)) = show_nat n @ ''.000000''"
    using r by (simp add: fmt_f_def fval_of_exact [OF assms] fmt_fixed_def nat_mult_distrib pad0_zero)
  show "decimals 6 (lit (of_nat n)) = lit (of_nat n)"
    using r by (simp add: decimals_def lit_props [OF assms])
qed

definition some_signal :: signal where
  "some_signal = \<lparr> sig_side = Buy, sig_lead = lit 103, broker_bid = lit 100, broker_ask = lit 101, threshold = lit 1,
     edge = lit 1, sig_ts_ms = 1000, symbol = ''BTC/USD'', reason = ''lead_gt_ask'' \<rparr>"

lemma fmt_f_numeral:
  assumes "numeral n \<le> (2 ^ 53 :: int)"
  shows "fmt_f 6 (lit (numeral n)) = show_nat (numeral n) @ ''.000000''" "decimals 6 (lit (numeral n)) = lit (numeral n)"
  using fmt_f_nat [of "numeral n"] exact_numeral [OF assms] by simp_all

lemma some_signal_small: "small_signal some_signal" "decimals 6 (sig_lead some_signal) = lit 103"
proof -
  have "show_nat 103 = ''103''" "show_nat 100 = ''100''" "show_nat 101 = ''101''" "show_nat 1 = ''1''" by code_simp+
  then show "small_signal some_signal" "decimals 6 (sig_lead some_signal) = lit 103"
    using fmt_f_nat [of 1]
    by (simp_all add: small_signal_def some_signal_def fmt_f_numeral exact_simps c_str_def del: lit_1)
qed

section \<open>Read numbers\<close>

lemma erange_exact: 
  assumes "exact r" "1 \<le> r"
  shows "\<not> erange (Num r)"
proof -
  have "(2::rat) powi (- 1022) \<le> 1" by (simp add: power_int_minus field_simps)
  then show ?thesis using assms by (simp add: erange_def exact_def)
qed
lemma stod_100: "stod ''100'' = Inr (lit 100)" "stod ''101'' = Inr (lit 101)" "stod ''50'' = Inr (lit 50)"
  by (simp_all add: stod_def strtod_def read_number_def read_decimal_def read_fraction_def isspace_def is_digit_def tolower_def digits_val_def digit_val_def
    number_double_def erange_exact exact_simps) 

section \<open>A tick file\<close>

definition sample_tick :: "int64 \<Rightarrow> binary_tick" where
  "sample_tick t = \<lparr> b_ts_ms = t, b_bid = lit 100, b_ask = lit 101, b_volume = 0, b_flags = 1 \<rparr>"

definition sample_reader :: "int64 list \<Rightarrow> reader" where
  "sample_reader ts = \<lparr> base = Some (map sample_tick ts), cnt = length ts, file_len = 24 * int (length ts) \<rparr>"

lemma sample_tick_fields [simp]:
  "b_ts_ms (sample_tick t) = t" "b_bid (sample_tick t) = lit 100" "b_ask (sample_tick t) = lit 101" "b_is_valid (sample_tick t)"
  by (simp_all add: sample_tick_def b_is_valid_def)

lemma sample_reader_fields [simp]:
  "base (sample_reader ts) = Some (map sample_tick ts)" "cnt (sample_reader ts) = length ts"
  by (simp_all add: sample_reader_def)

section \<open>A FIX session\<close>

definition some_clk :: clk where
  "some_clk = \<lparr> ck_ms = 1000, ck_utc = ''20260101-00:00:00.000'' \<rparr>"

definition up_session :: "config \<Rightarrow> fx" where
  "up_session cfg = session_connect cfg some_clk Up (fx_start fx_init)"

lemma up_session_fields [simp]:
  "fx_running (up_session cfg)" "\<not> fx_stopped (up_session cfg)" "fx_connected (up_session cfg)"
  "fx_stream (up_session cfg)" "fx_inbound (up_session cfg) = []" "fx_seq_in (up_session cfg) = 0" "fx_in_run (up_session cfg)"
  "fx_writing (up_session cfg)" "fx_seq_out (up_session cfg) = 2" "length (fx_wqueue (up_session cfg)) = 1"
  by (simp_all add: up_session_def session_connect_def run_read_loop_def io_drain_orders_def fx_init_def fx_start_def
      io_write_def build_logon_def build_msg_def pump_write_def emit_def start_read_def start_hb_timer_def)

lemma up_session_out:
  "fx_orders (up_session cfg) = []" "fx_limit (up_session cfg) = 256"
  "length (started (fx_out (up_session cfg))) = 1" "length (on_wire (fx_out (up_session cfg))) = 1"
  by (simp_all add: up_session_def session_connect_def run_read_loop_def io_drain_orders_def fx_init_def fx_start_def
      io_write_def build_logon_def build_msg_def pump_write_def emit_def start_read_def start_hb_timer_def)

definition some_order :: fx_order where
  "some_order = \<lparr> fo_instrument = ''XAU/USD'', fo_side = ''buy'', fo_volume = 1, fo_stop = 0, fo_take = 0, fo_id = 1,
     fo_cl = ''LL1'', fo_t0 = 1000 \<rparr>"

definition exec_report :: "str \<Rightarrow> str" where
  "exec_report ty = fields_text [(11, ''LL1''), (150, ty)]"

lemma exec_report_scan: "no_soh ty \<Longrightarrow> scan_tag (exec_report ty) 11 = ''LL1'' \<and> scan_tag (exec_report ty) 150 = ty \<and> scan_tag (exec_report ty) 39 = []"
  using scan_tag_fields [of "[(11, ''LL1''), (150, ty)]" 11] scan_tag_fields [of "[(11, ''LL1''), (150, ty)]" 150]
    scan_tag_fields [of "[(11, ''LL1''), (150, ty)]" 39]
  by (simp add: exec_report_def no_soh_def SOH_def)

section \<open>A pending order and four stamps\<close>

definition buy_sim :: sim where
  "buy_sim = snd (sim_submit Buy 10 (lit 103) (lit 100) (lit 101) (sim_init params_default))"

definition mark_at :: "int64 \<Rightarrow> 32 word \<Rightarrow> sample" where
  "mark_at ns n = \<lparr> s_ts_ns = ns, s_tsc = 0, s_stage = TickRx, s_seq = n, s_valid = True \<rparr>"

definition four_marks :: bench_ring where
  "four_marks = \<lparr> ring_base = Some [mark_at 10 0, mark_at 20 1, mark_at 40 2, mark_at 45 3], ring_mask = 3, ring_head = 4,
     ring_pub = 4, ring_seq = 4, ring_tsc_hz = 0 \<rparr>"

lemma four_marks_newest:
  "newest [mark_at 10 0, mark_at 20 1, mark_at 40 2, mark_at 45 3] 3 4 4 = [mark_at 45 3, mark_at 40 2, mark_at 20 1, mark_at 10 0]"
  by (simp add: newest_def upt_rec)

lemma stats_step_dt:
  "s_valid s \<Longrightarrow> a_prev a \<noteq> 0 \<Longrightarrow> s_ts_ns s \<le> a_prev a \<Longrightarrow>
   length (a_dt (stats_step s a)) = Suc (length (a_dt a)) \<and> a_prev (stats_step s a) = s_ts_ns s"
  by (simp add: stats_step_def Let_def)

lemma four_marks_samples: "st_samples (bench_stats 4 four_marks) = 3"
proof -
  let ?a1 = "stats_step (mark_at 45 3) acc0"
  let ?a2 = "stats_step (mark_at 40 2) ?a1"
  let ?a3 = "stats_step (mark_at 20 1) ?a2"
  let ?a4 = "stats_step (mark_at 10 0) ?a3"
  have 1: "length (a_dt ?a1) = 0 \<and> a_prev ?a1 = 45" by (simp add: stats_step_def acc0_def mark_at_def)
  have 2: "length (a_dt ?a2) = 1 \<and> a_prev ?a2 = 40" using 1 stats_step_dt [of "mark_at 40 2" ?a1] by (simp add: mark_at_def)
  have 3: "length (a_dt ?a3) = 2 \<and> a_prev ?a3 = 20" using 2 stats_step_dt [of "mark_at 20 1" ?a2] by (simp add: mark_at_def)
  have 4: "length (a_dt ?a4) = 3" using 3 stats_step_dt [of "mark_at 10 0" ?a3] by (simp add: mark_at_def)
  have "a_dt ?a4 \<noteq> []" using 4 by auto
  then show ?thesis
    by (simp add: bench_stats_def four_marks_def kMaxWindow_def four_marks_newest Let_def 4)
qed

section \<open>The bridge\<close>

definition no_terminal :: dll_answers where
  "no_terminal = \<lparr> load_64 = False, load_32 = False, entry_points = False, api_connects = False, login_rc = 0, send_rc = 0 \<rparr>"

definition unconfirming :: dll_answers where
  "unconfirming = \<lparr> load_64 = True, load_32 = False, entry_points = True, api_connects = True, login_rc = 0, send_rc = 7 \<rparr>"

definition ea_up :: sock_answers where
  "ea_up = \<lparr> wsa_starts = True, resolves = True, opens = True, connects = True, sent_bytes = 90 \<rparr>"

section \<open>Executors and programs\<close>

definition gold_order :: oanda_job where
  "gold_order = \<lparr> oj_instrument = ''XAU_USD'', oj_side = ''buy'', oj_units = lit 10, oj_sl = 0, oj_tp = 0 \<rparr>"

definition linked :: "arrivals \<Rightarrow> ct" where
  "linked bytes = (ct_init config_default [])\<lparr> ct_running := True, ct_connected := True,
     ct_link := Some \<lparr> l_in = bytes, l_room = 1000 \<rparr>, ct_sym := sym_info0\<lparr> si_id := 41, si_valid := True \<rparr> \<rparr>"

lemma linked_fields [simp]:
  "ct_link (linked b) = Some \<lparr> l_in = b, l_room = 1000 \<rparr>" "si_valid (ct_sym (linked b))" "si_id (ct_sym (linked b)) = 41"
  "ct_next_id (linked b) = 0" "ct_jobs (linked b) = []" "ct_running (linked b)" "\<not> ct_stopped (linked b)" "ct_out (linked b) = []"
  "ct_limit (linked b) = 256"
  by (simp_all add: linked_def ct_init_def sym_info0_def)

text \<open>Messages as texts: the type and a colon in front, the fields by name; an event is its execution type.\<close>

definition field_text :: "pval \<Rightarrow> str" where
  "field_text v = (case v of PInt i \<Rightarrow> show_int i | PStr s \<Rightarrow> s | PEnum s \<Rightarrow> s | _ \<Rightarrow> [])"

definition text_codec :: codec where
  "text_codec = \<lparr> serialize = \<lambda>nm m. Some (nm @ concat (map (\<lambda>(n, v). '';'' @ n @ ''='' @ field_text v) m)),
     parse = \<lambda>nm b. Some [(''executionType'', PEnum b)],
     wrap = \<lambda>ty b. Some (show_int ty @ '':'' @ b),
     unwrap = \<lambda>f. if CHR '':'' \<in> set f then Some (atoi f, tl (dropWhile (\<lambda>c. c \<noteq> CHR '':'') f)) else None \<rparr>"

definition gold_job :: ct_job where
  "gold_job = \<lparr> cj_symbol = ''XAU/USD'', cj_side = ''buy'', cj_volume = 1, cj_sl = 0, cj_tp = 0 \<rparr>"

lemma gold_bytes:
  "order_bytes text_codec gold_job (linked b) =
    Some ''2106:ProtoOANewOrderReq;ctidTraderAccountId=0;symbolId=41;orderType=MARKET;tradeSide=BUY;volume=1000000;clientOrderId=LL1''"
  "order_bytes text_codec (gold_job\<lparr> cj_side := ''sell'' \<rparr>) ((linked b)\<lparr> ct_next_id := 1 \<rparr>) =
    Some ''2106:ProtoOANewOrderReq;ctidTraderAccountId=0;symbolId=41;orderType=MARKET;tradeSide=SELL;volume=1000000;clientOrderId=LL2''"
proof -
  have n: "llround (1 * double_of_int 1000000) = 1000000" "llround (0 * pow10 4) = 0"
    by (simp add: double_of_int_def exact_simps round_away_def, simp add: pow10_def exact_simps round_away_def flip: lit_0)
  have d: "digit_char 0 = CHR ''0''" "digit_char 1 = CHR ''1''" "digit_char 2 = CHR ''2''" "digit_char 4 = CHR ''4''" "digit_char 6 = CHR ''6''"
    by code_simp+
  have s: "show_int NEW_ORDER_REQ = ''2106''" "show_int 1000000 = ''1000000''" "show_int 41 = ''41''" "show_int 0 = ''0''"
    "show_int 1 = ''1''" "show_int 2 = ''2''"
    by (simp_all add: show_int_def NEW_ORDER_REQ_def show_nat.simps d d(2) [unfolded One_nat_def])
  have a: "account_number (ctrader_account_id (ctrader config_default)) = 0"
    by (simp add: config_default_def ctrader_default_def account_number_def strtol_def)
  show "order_bytes text_codec gold_job (linked b) =
    Some ''2106:ProtoOANewOrderReq;ctidTraderAccountId=0;symbolId=41;orderType=MARKET;tradeSide=BUY;volume=1000000;clientOrderId=LL1''"
    by (simp add: order_bytes_def text_codec_def order_message_def gold_job_def linked_def ct_init_def sym_info0_def Let_def field_text_def n s a del: mult_1 mult_zero_left)
  show "order_bytes text_codec (gold_job\<lparr> cj_side := ''sell'' \<rparr>) ((linked b)\<lparr> ct_next_id := 1 \<rparr>) =
    Some ''2106:ProtoOANewOrderReq;ctidTraderAccountId=0;symbolId=41;orderType=MARKET;tradeSide=SELL;volume=1000000;clientOrderId=LL2''"
    by (simp add: order_bytes_def text_codec_def order_message_def gold_job_def linked_def ct_init_def sym_info0_def Let_def field_text_def n s a del: mult_1 mult_zero_left)
qed

lemma gold_events:
  "event_frame text_codec ''2126:ORDER_ACCEPTED'' [(''executionType'', PEnum ''ORDER_ACCEPTED'')]"
  "event_frame text_codec ''2126:ORDER_FILLED'' [(''executionType'', PEnum ''ORDER_FILLED'')]"
proof -
  have "unwrap text_codec ''2126:ORDER_ACCEPTED'' = Some (EXECUTION_EVENT, ''ORDER_ACCEPTED'')"
    "unwrap text_codec ''2126:ORDER_FILLED'' = Some (EXECUTION_EVENT, ''ORDER_FILLED'')" by code_simp+
  then show "event_frame text_codec ''2126:ORDER_ACCEPTED'' [(''executionType'', PEnum ''ORDER_ACCEPTED'')]"
    "event_frame text_codec ''2126:ORDER_FILLED'' [(''executionType'', PEnum ''ORDER_FILLED'')]"
    by (simp_all add: event_frame_def) (simp_all add: text_codec_def)
qed

lemma lcfg_default_numbers:
  "ll_window lcfg_default = lit 2" "ll_threshold lcfg_default = lit 0.05" "ll_cooldown lcfg_default = lit 30"
  "0 \<le> ll_window lcfg_default" "0 \<le> window_ns lcfg_default"
  by (simp_all add: lcfg_default_def window_ns_def trunc_rat_def Let_def exact_simps flip: lit_0)

definition fast_cfg :: lcfg where
  "fast_cfg = lcfg_default\<lparr> ll_threshold := 1 \<rparr>"

text \<open>A run of the stand-alone bot: two trade messages, the sell order they give, and its answer.\<close>

definition live_cfg :: lcfg where
  "live_cfg = lcfg_default\<lparr> ll_threshold := 1, ll_dry_run := False \<rparr>"

text \<open>A stub of the JSON library: a message is the text of its price, and an answer is the empty object.\<close>

definition price_json :: "str \<Rightarrow> json option" where
  "price_json msg = Some (JObj (if msg = ''{}'' then [] else [(''p'', JStr msg)]))"

definition one_trade :: "bot_input list" where
  "one_trade = [BotDone 0, BotDone 0, BotDone 0, BotDone 0, BotMessage 0 0 0 ''100'', BotMessage 0 1 0 ''50'', BotTake, BotAttempt 0 7 1]"

lemma live_numbers:
  "ll_window live_cfg = lit 2" "ll_threshold live_cfg = 1" "\<not> ll_dry_run live_cfg" "ll_threads live_cfg = 1" "ll_max_open live_cfg = 1"
  "\<not> ll_log_ticks live_cfg" "ll_log_dir live_cfg = ''.''"
  by (simp_all add: live_cfg_def lcfg_default_def)

lemma price_messages: "message_price price_json ''100'' = Some (lit 100)" "message_price price_json ''50'' = Some (lit 50)"
  by (simp_all add: message_price_def price_json_def jvalue_def stod_100)

lemma one_signal:
  "fst (gen_update live_cfg 1 (lit 50) (snd (gen_update live_cfg 0 (lit 100) generator_init))) =
    Some \<lparr> ls_direction = ''sell'', ls_reason = ''momentum'', ls_ref = lit 100, ls_change = lit (- 50) \<rparr>"
  by (simp add: gen_update_def generator_init_def prune_buf_def longer_def live_numbers ref_price_at_def change_pct_def in_cooldown_def
     trunc_rat_def Let_def exact_simps double_of_int_def)

lemma one_trade_run:
  fixes disk
  defines "c \<equiv> bot_run price_json (\<lambda>_. []) (\<lambda>_. True) live_cfg one_trade (bot_start live_cfg [HttpAnswer 200 ''{}''] disk)"
  shows "map tr_direction (cl_rows c) = [''sell'']" "map tr_status (cl_rows c) = [200]" "map tr_ts (cl_rows c) = [7]" "length (cl_ticks c) = 2"
    "ex_busy (cl_exec c) = []"
proof -
  obtain g1 where 1: "gen_update live_cfg 0 (lit 100) generator_init = (None, g1)"
    by (simp add: gen_update_def generator_init_def prune_buf_def longer_def live_numbers Let_def exact_simps double_of_int_def)
  obtain g2 where 2: "gen_update live_cfg 1 (lit 50) g1 =
      (Some \<lparr> ls_direction = ''sell'', ls_reason = ''momentum'', ls_ref = lit 100, ls_change = lit (- 50) \<rparr>, g2)"
    using one_signal 1 by (metis prod.collapse snd_conv)
  show "map tr_direction (cl_rows c) = [''sell'']" "map tr_status (cl_rows c) = [200]" "map tr_ts (cl_rows c) = [7]" "length (cl_ticks c) = 2"
    "ex_busy (cl_exec c) = []"
    by (simp_all add: c_def bot_run_def one_trade_def bot_start_def cl_start_def start_session_def client_init_def executor_init_def
       lead_handle_def price_messages handle_trade_def live_numbers 1 2 ex_submit_def ex_take_def begin_order_def pop_front.simps
       bot_attempt_def ex_attempt_def price_json_def read_body_def jvalue_def check_executed_def take_order_id_def post_result0_def
       finish_order_def tell_def log_rows_def remove_nth_def Let_def)
qed

definition small_fs :: file_system where
  "small_fs = \<lparr> fs_text = \<lambda>_. None, fs_writable = \<lambda>_. True, fs_stat = \<lambda>_. Some (Some 48),
     fs_mmap = \<lambda>_. Some (map sample_tick [1, 5]) \<rparr>"

lemma no_env_lots: "max_open_lots (strat (from_env (\<lambda>_. None))) = 1"
  by (simp add: from_env_def strategy_from_env_def config_default_def strategy_default_def ienv_def env_def Let_def)

lemma small_args: "\<exists>a. parse_args [''--lead'', ''a'', ''--lag'', ''b''] cli_default = Settings a \<and> \<not> a_convert a \<and> a_ok a \<and>
    a_lead a = ''a'' \<and> a_lag a = ''b'' \<and> a_equity a = []"
  by (simp add: store_def cli_default_def)

end
