(* ===== verification/Spec2Isabelle.thy ===== *)
theory Spec2Isabelle
  imports RingThreads Engine BenchRing Replay FixBooks FixClient Oanda CTrader LeadBot LeadPost Pipeline Mt5 Shutdown Probes TickFile Uptime FixSocket FeedSessions FixOrder Samples
begin

text \<open>
This library is about the C++ programs of the repository: the latency arbitrage bot of
\<open>src/latency_arb\<close> and its older single-file version \<open>src/lead_lag.cpp\<close>. Two fast venues (Binance, Deribit) and a slow one (Bybit, or a broker) are read by
WebSocket feeds, ticks flow through single-producer single-consumer rings to the aggregator, which
blends a lead price; the strategy compares the lead with the broker's quote and emits signals; the
dispatcher hands them to an execution venue (ZeroMQ, FIX, OANDA, cTrader). A backtest replays recorded
ticks through the same strategy with a simulator for fills.

\<^bold>\<open>Theories and the code they model.\<close>
  \<^item> \<open>Prelude\<close>, \<open>Rounding\<close>, \<open>Binary64\<close>, \<open>CText\<close>: the C++ the program rests on. \<open>Binary64\<close> has the
    doubles of the program with IEEE rounding to nearest even (exact on rationals, with signed
    infinities and NaN); \<open>CText\<close> has \<open>atoi\<close>, \<open>stod\<close>, \<open>strtol\<close>, \<open>std::to_string\<close> and the printf formats
    that the code uses.
  \<^item> \<open>Ring\<close>: \<open>ring.h\<close>, \<open>push\<close>/\<open>pop\<close>/\<open>empty\<close>/\<open>size\<close> on 64 bit counters. \<open>RingThreads\<close> is the same code as a
    relation with one atomic access per step, for the two threads that share the ring.
  \<^item> \<open>MarketData\<close> (\<open>tick.h\<close>), \<open>Config\<close> (\<open>config.h\<close>, \<open>config.cpp\<close>).
  \<^item> \<open>Telemetry\<close> (the log queue, writer and mapped log file) and \<open>BenchRing\<close> (the ring of latency
    samples and its statistics), both of \<open>telemetry.cpp\<close>.
  \<^item> \<open>Aggregator\<close> (\<open>aggregator.cpp\<close>), \<open>Strategy\<close> (\<open>strategy.cpp\<close>), \<open>Wire\<close> (\<open>wire.cpp\<close>), \<open>Execution\<close>
    (\<open>execution.cpp\<close>, \<open>zmq_pub.cpp\<close>, \<open>broker_sub.cpp\<close>, the receive loop of \<open>mt5_bridge.cpp\<close>), \<open>Mt5Orders\<close> (one
    order of the bridge: its bytes, the terminal's DLL and the socket),
    \<open>Feeds\<close> (\<open>binance_ws.cpp\<close>, \<open>bybit_ws.cpp\<close>, \<open>deribit_ws.cpp\<close>: the sessions as a machine over the
    completions of their asynchronous operations; the JSON of a message is a parameter).
  \<^item> \<open>Engine\<close>: the strategy thread of \<open>main.cpp\<close>, composed with the readers on the shared rings; one operation is one turn of a
    thread, in any order.
  \<^item> \<open>ExecSim\<close>, \<open>TickBinary\<close>, \<open>Backtest\<close>: \<open>backtest/execution_simulator.cpp\<close>, \<open>backtest/tick_binary.cpp\<close>,
    \<open>backtest/backtest_engine.cpp\<close>.
  \<^item> \<open>FixMsg\<close> (fields, body length, checksum, and the segmentation of the byte stream),
    \<open>FixExecutor\<close> (\<open>fix_executor.cpp\<close> as a machine over the completions of its socket and timer),
    \<open>FixSession\<close> and \<open>FixBooks\<close> (what its sessions guarantee), \<open>FixClient\<close> (\<open>fix_client.cpp\<close>).
  \<^item> \<open>Oanda\<close> (\<open>oanda_executor.cpp\<close>) and \<open>CTrader\<close> (\<open>ctrader_executor.cpp\<close>): the calls, the turns of the
    worker thread, the order message and the reading of the answer. The connects and requests to come
    are a script in the state; Protocol Buffers are a parameter. What a cTrader connection brings is a
    possibly endless sequence (\<open>arrivals\<close>) that may also end in silence.
  \<^item> \<open>Replay\<close>: \<open>tick_replay_main.cpp\<close>, its arguments, the run it sets up and the files it writes.
  \<^item> \<open>LeadSignal\<close>, \<open>LeadOrders\<close>, \<open>LeadLog\<close>, \<open>LeadBot\<close>: \<open>src/lead_lag.cpp\<close>: configuration and signal
    generator, order executor, logger, and the client and program that join them.
  \<^item> \<open>Pipeline\<close>: dispatcher, publisher, a channel that keeps the order and may lose messages, and the
    MT5 bridge in one state, for the way of a signal from the engine into the terminal.
  \<^item> \<open>Handles\<close>: what code does with the handles it takes, as a trace, and when a trace is tidy. \<open>Bytes\<close>: integers,
    doubles, floats and character arrays as the bytes they have in memory.
  \<^item> \<open>Services\<close>: the threads of \<open>zmq_pub.cpp\<close>, \<open>broker_sub.cpp\<close> and \<open>mt5_bridge.cpp\<close>: set-up, turns, start and
    stop. \<open>Mt5\<close>: \<open>mt5_bridge_main.cpp\<close>.
  \<^item> \<open>Reactor\<close>: start, stop and run of a feed as two threads, one access per step. \<open>System\<close>: \<open>main.cpp\<close>, its
    statements and all threads of the engine as one step relation. \<open>Shutdown\<close>: what the order of its
    stops gives.
  \<^item> \<open>Clock\<close>: the texts of times and the calendar they need. \<open>Uptime\<close>: the system clock that stamps the ticks
    and the steady clock the strategy asks, and what the aggregator makes of them. \<open>FixSocket\<close>: the
    descriptor of \<open>fix_client.cpp\<close>, one access per step.
  \<^item> \<open>Probes\<close>: \<open>oanda_probe_main.cpp\<close>, \<open>ctrader_probe_main.cpp\<close>, \<open>fix_probe_main.cpp\<close>: a program that starts an
    executor, gives it one order, waits for the answer and stops it.
  \<^item> \<open>LeadPost\<close>: the HTTP exchange of \<open>src/lead_lag.cpp\<close>, call by call, and what two attempts of an order put on the
    wire. \<open>TickFile\<close>: the bytes of a tick file. \<open>FeedSessions\<close>: how many sessions a feed has. \<open>FixOrder\<close>: the
    order messages of \<open>fix_executor.cpp\<close> and \<open>fix_client.cpp\<close>, read back.
  \<^item> \<open>Samples\<close>: the concrete inputs the witnesses use.

\<^bold>\<open>How the model corresponds to the code.\<close> A class is a record of its data members; a member
function takes the record and returns it updated, along with what it sends, logs or calls. A
thread or an asynchronous program is a function of one input (a timer, a completion, a call),
folded over lists of inputs; so a theorem about every list of inputs is about every order in which
the operating system may deliver them. Clocks, environment variables, the local time zone, the
parsed JSON, the file contents and the results of socket operations are arguments. Integers that
can wrap are words; \<open>int\<close> stands for the 64 bit times, counters of orders and configuration values
that stay far from their bounds, and the conversions of text to integers saturate or wrap as the
source's do. Loops that may run forever are \<open>partial_function (option)\<close> with None for not returning
(the capacity loop, the aggregator's drain, the receive loop of cTrader), and a read on a connection that
stays open and silent is None too; the theorems say when they return, and C29 also when one does not.

\<^bold>\<open>What the theorems show.\<close> C1 to C3: the ring is a queue until a push finds it full, and what happens
then. C4 to C6: the whole engine with its threads and its \<open>main\<close>: who is up while whom it calls is up, where
each signal is, and that the end can always be reached. C7: the turns of the engine return. C8: what
follows for the aggregator from the two clocks of the engine. C9 and C10: the gates of the strategy. C11 to C14: the way of a
signal from the dispatcher through the bridge into the terminal, the ways an order is executed,
with every library and start-up that is never given back, and the handles that the socket threads hold. C15: the quotes of the broker. C16 to C18: stop, delays and sessions
of the feeds. C19 to C25: FIX: frames are found once and in order however the bytes are cut, sequence
numbers are consecutive, up to the Logout that goes past the queue, no order is lost in the books, what is read back of an order message, what the plain client
sends and how its sessions end, and the socket that two threads share. C26 and C27: OANDA orders,
C28 and C29: cTrader answers, and its queue when the peer closes its connections and when it does not. C30 to C36: the accounts of the backtest, the fill model, the tick files and the
search in them, and the replay tool. C37 to C40: the stand-alone bot, from the tick to the line in its trade file, and
the orders it sends again. The
section at the end has more theorems, on the decision and its threshold, the aggregator's windows and hours, the order cap, the
dispatcher alone, the text of a quote, the CSV conversion, the latency ring, cTrader frames, the bytes of an order, the bridge program,
the sending time of FIX messages, the probe program of OANDA and the stand-alone client.

\<^bold>\<open>Interfaces.\<close> The locales state the contracts that components share. \<open>mailbox\<close> (in \<open>Ring\<close>): a bounded
FIFO, interpreted on the ring and on the deque with back-pressure of the executors. \<open>rounding\<close> (in
\<open>Rounding\<close>): a rounding to a format, interpreted on doubles and floats. \<open>machine\<close>, \<open>counting_machine\<close> and
\<open>progressing\<close> (in \<open>Prelude\<close>): a component that takes one input at a time and keeps an invariant, moves a
total, or relates its states; they are interpreted on the telemetry, the FIX books, the OANDA
executor, the FXCM executor and the stand-alone bot, and their run lemmas give the invariants of those. \<open>socket_thread\<close> (in
\<open>Services\<close>): a thread that owns a socket, whose every step is a step of its control; it is interpreted on the
publisher, the subscriber and the bridge.

\<^bold>\<open>Not modelled.\<close> The
socket options and TLS contexts (a set-up is the handles it takes and whether it succeeds), signal handlers,
CPU pinning and console output. The stop of the dispatcher and of the FIX client, whose threads look at
their flag between any two turns, is one step of \<open>System\<close>. What the libraries do with two writes to one socket at once (FIX, Bybit,
Deribit) is theirs: a completion is an input. The text of log lines is not
modelled except for the rows of the trade and tick files.
The queue of the FIX executor has its default limit, since nothing calls \<open>set_queue_limit\<close>; the reads of one run of C19 share a clock reading.
The increment of \<open>open_positions_\<close> in \<open>lead_lag.cpp\<close> is one step with the test before it.
\<close>

text \<open>C1: While no push finds the ring full, what the consumer popped followed by what is still in the ring is exactly what the producer pushed, in order.\<close>

theorem ring_fifo:
  assumes "k < 64" "fits (2 ^ k - 1) 0 ops"
  shows "fst (run_mail (\<lambda>x r. snd (push k x r)) (pop k) ops (ring_init k z)) @
    ring_items k (snd (run_mail (\<lambda>x r. snd (push k x r)) (pop k) ops (ring_init k z))) = puts ops"
  using spsc.run_fifo [of k "ring_init k z" ops] assms by (simp add: ring_init_ok)

theorem ring_fifo_witness:
  "fst (run_mail (\<lambda>x r. snd (push 2 x r)) (pop 2) [Put 5, Put 6, Take, Put 7] (ring_init 2 (0 :: int))) @
    ring_items 2 (snd (run_mail (\<lambda>x r. snd (push 2 x r)) (pop 2) [Put 5, Put 6, Take, Put 7] (ring_init 2 (0 :: int)))) = [5, 6, 7]"
  using ring_fifo [of 2 "[Put 5, Put 6, Take, Put 7]" "0 :: int"] by simp

text \<open>C2: A push that finds the ring full does not drop the oldest item: it empties the ring. After any sequence of pushes only the items after the last multiple of the capacity are left.\<close>

theorem ring_overflow_survivors:
  assumes "k < 64"
  shows "ring_items k (push_all k xs (ring_init k z)) = drop (length xs div 2 ^ k * 2 ^ k) xs"
  using push_all_items [OF ring_init_ok [OF assms], of xs z] by simp

theorem ring_overflow_survivors_witness:
  "ring_items 2 (push_all 2 [1, 2, 3, 4, 5] (ring_init 2 (0 :: int))) = [5]"
  using ring_overflow_survivors [of 2 "[1, 2, 3, 4, 5]" "0 :: int"] by simp

text \<open>C3: In every interleaving of the loads and stores of the two threads in which no push finds the ring full, the reader has taken a prefix of what the writer published, less than a ring apart, and never reads the slot being written.\<close>

theorem reader_sees_prefix:
  assumes "reachable_no_drop k z s"
  shows "prefix (popped s) (pushed s) \<and> length (pushed s) - length (popped s) < 2 ^ k \<and> \<not> race s"
proof -
  have i: "threads_inv k s" using assms by (rule threads_inv_reachable)
  then have "length (pushed s) - length (popped s) < 2 ^ k" by (simp add: threads_inv_def published_def Let_def)
  then show ?thesis using threads_inv_prefix [OF i] threads_inv_no_race [OF i] by simp
qed

theorem reader_sees_prefix_witness:
  "\<exists>s. writer s = WTail 7 0 False \<and> reachable_no_drop 2 (0 :: int) s \<and>
     prefix (popped s) (pushed s) \<and> \<not> race s"
proof -
  let ?a = "(threads_init 2 (0 :: int))\<lparr> writer := WHead 7 0 \<rparr>"
  let ?b = "?a\<lparr> writer := WTail 7 0 False \<rparr>"
  have "step 2 (threads_init 2 0) ?a"
    using w_head [of "threads_init 2 (0 :: int)" 2 7] by (simp add: threads_init_def ring_init_def)
  then have a: "reachable_no_drop 2 0 ?a" by (rule n_step [OF n_init]) simp
  have "step 2 ?a ?b"
    using w_tail [of ?a 7 0 2] by (simp add: threads_init_def ring_init_def kMask_def)
  then have b: "reachable_no_drop 2 0 ?b" by (rule n_step [OF a]) simp
  show ?thesis using reader_sees_prefix [OF b] b by (intro exI [of _ ?b]) simp
qed

text \<open>C4: In every state that the threads of the engine and main can reach, a running strategy has its dispatcher, a running dispatcher the FIX client and the publisher, everybody the telemetry; when main has ended nobody runs and both sockets and contexts of ZeroMQ have been given back.\<close>

theorem system_stop_order:
  assumes "sys_reach k lt js cfg s"
  shows "(strategy_up s \<longrightarrow> dispatcher_up s) \<and> (dispatcher_up s \<longrightarrow> fc_running (y_fix s) \<and> publisher_up s) \<and>
    (somebody_up s \<longrightarrow> y_tel s) \<and>
    (y_todo s = [] \<longrightarrow> \<not> somebody_up s \<and> tidy (c_trace (y_broker s)) \<and> tidy (c_trace (pb_ctl (y_pub s))))"
  using up_order [OF sys_reach_ok(1) [OF assms]] at_end [OF sys_reach_ok(1,2) [OF assms]] by blast

theorem system_stop_order_witness:
  "\<exists>s. sys_reach 4 (\<lambda>_. (14, 30)) no_json plain_cfg s \<and> y_todo s = drop 8 main_program \<and>
     dispatcher_up s \<and> publisher_up s \<and> fc_running (y_fix s)"
proof -
  obtain s where "sys_reach 4 (\<lambda>_. (14, 30)) no_json plain_cfg s" "y_todo s = drop 8 main_program" "strategy_up s"
    using system_starts by blast
  then show ?thesis using system_stop_order [of 4 "\<lambda>_. (14, 30)" no_json plain_cfg s] by blast
qed

text \<open>C5: In every interleaving of the engine's threads with the starts and stops of main, the signals submitted are those routed and then those queued, and the frames sent and then those queued at the publisher are the frames of the routed signals within the slippage cap: each once and in order.\<close>

theorem system_books:
  assumes "sys_reach k lt js cfg s"
  shows "y_submitted s = y_routed s @ d_queue (disp (y_engine s)) \<and>
    pb_sent (y_pub s) @ map msg_frame (pb_queue (y_pub s)) = wire_frames (y_routed s) \<and>
    prefix (pb_sent (y_pub s)) (wire_frames (y_submitted s))"
proof -
  have b: "y_submitted s = y_routed s @ d_queue (disp (y_engine s))"
    "pb_sent (y_pub s) @ map msg_frame (pb_queue (y_pub s)) = wire_frames (y_routed s)"
    using sys_reach_ok(2) [OF assms] by (simp_all add: books_ok_def)
  then have "prefix (pb_sent (y_pub s)) (wire_frames (y_submitted s))" by (simp add: wire_frames_append flip: b(2))
  then show ?thesis using b by blast
qed

theorem system_books_witness:
  "\<exists>s. sys_reach 4 (\<lambda>_. (14, 30)) no_json plain_cfg s \<and> y_todo s = drop 8 main_program \<and>
     y_submitted s = y_routed s @ d_queue (disp (y_engine s)) \<and> prefix (pb_sent (y_pub s)) (wire_frames (y_submitted s))"
proof -
  obtain s where "sys_reach 4 (\<lambda>_. (14, 30)) no_json plain_cfg s" "y_todo s = drop 8 main_program"
    using system_starts by blast
  then show ?thesis using system_books [of 4 "\<lambda>_. (14, 30)" no_json plain_cfg s] by blast
qed

text \<open>C6: From every reachable state of the engine the end of main can be reached: no stop waits for a thread that can no longer end. The way there may take the 24 hours of a reactor's guard.\<close>

theorem system_can_end:
  assumes "sys_reach k lt js cfg s" "k < 64"
  shows "\<exists>s'. (sys_step k lt js cfg)\<^sup>*\<^sup>* s s' \<and> y_todo s' = [] \<and> \<not> somebody_up s'"
proof -
  obtain s' where s': "(sys_step k lt js cfg)\<^sup>*\<^sup>* s s'" "y_todo s' = []" using main_can_end [OF assms] by blast
  then show ?thesis using at_end(1) sys_reach_ok(1,2) [OF sys_reach_steps [OF assms(1) s'(1)]] by blast
qed

theorem system_can_end_witness:
  "\<exists>s s'. y_todo s = drop 8 main_program \<and> strategy_up s \<and> (sys_step 4 (\<lambda>_. (14, 30)) no_json plain_cfg)\<^sup>*\<^sup>* s s' \<and> y_todo s' = []"
proof -
  obtain s where s: "sys_reach 4 (\<lambda>_. (14, 30)) no_json plain_cfg s" "y_todo s = drop 8 main_program" "strategy_up s"
    using system_starts by blast
  then show ?thesis using system_can_end [OF s(1)] by auto
qed

text \<open>C7: Every sequence of ticks, quotes and turns of the strategy and dispatcher threads from the initial engine returns and keeps the rings and windows well-formed; the open lots, the daily profit and loss and the order count stay 0, since the strategy loop never reports an order back.\<close>

theorem engine_returns:
  assumes "k < 64"
  shows "\<exists>e eff. engine_run k lt cfg ops (engine_init k) = Some (e, eff) \<and> engine_ok k e \<and>
    open_lots (e_strat e) = 0 \<and> day_pnl (e_strat e) = 0 \<and> orders_this_interval (e_strat e) = 0"
proof -
  obtain e eff t where "engine_run k lt cfg ops (engine_init k) = Some (e, eff)" "engine_ok k e"
    "e_strat e = (e_strat (engine_init k))\<lparr> last_signal_ms := t \<rparr>"
    using engine_run_ok [OF engine_ok_init [OF assms], of lt cfg ops] by blast
  then show ?thesis by (simp add: engine_init_def strategy_init_def)
qed

theorem engine_returns_witness:
  "\<exists>e eff. engine_run 4 (\<lambda>_. (14, 30)) config_default [FastTick tick0, StrategyTurn 5, DispatchTurn] (engine_init 4) = Some (e, eff)
     \<and> engine_ok 4 e"
  using engine_returns [of 4 "\<lambda>_. (14, 30)" config_default "[FastTick tick0, StrategyTurn 5, DispatchTurn]"] by auto

text \<open>C8: As long as the strategy's clock, the uptime, has not reached the time stamps of the ticks, the system time, and no ring overflows, the aggregator holds every valid tick that it was ever given: nothing is stale and no window is pruned. The windows grow without bound.\<close>

theorem windows_never_pruned:
  assumes "k < 64" "engine_run k lt cfg ops (engine_init k) = Some (e, eff)" "room (2 ^ k - 1) 0 0 ops"
    and "\<forall>t\<in>set (fast_ticks ops) \<union> set (deribit_ticks ops). T \<le> ts_ms t" "\<forall>now\<in>set (turn_times ops). now \<le> T"
  shows "binance_win (aggr e) @ filter valid (ring_items k (fast_ring e)) = filter valid (fast_ticks ops) \<and>
    deribit_win (aggr e) @ filter valid (ring_items k (deribit_ring e)) = filter valid (deribit_ticks ops)"
  using windows_keep_all [OF assms] by (simp add: fast_seen_def deribit_seen_def)

theorem windows_never_pruned_witness:
  "\<exists>e eff. engine_run 4 (\<lambda>_. (14, 30)) plain_cfg
       [FastTick (tick0\<lparr> valid := True, ts_ms := 1700000000000 \<rparr>), StrategyTurn 5, StrategyTurn 86400000] (engine_init 4) = Some (e, eff) \<and>
     binance_win (aggr e) @ filter valid (ring_items 4 (fast_ring e)) = [tick0\<lparr> valid := True, ts_ms := 1700000000000 \<rparr>]"
proof -
  let ?ops = "[FastTick (tick0\<lparr> valid := True, ts_ms := 1700000000000 \<rparr>), StrategyTurn 5, StrategyTurn 86400000]"
  obtain e eff where e: "engine_run 4 (\<lambda>_. (14, 30)) plain_cfg ?ops (engine_init 4) = Some (e, eff)"
    using engine_run_ok [OF engine_ok_init [of 4], of "\<lambda>_. (14, 30)" plain_cfg ?ops] by auto
  then show ?thesis using windows_never_pruned [OF _ e, of 1700000000000] by (intro exI [of _ e] exI [of _ eff]) simp
qed

text \<open>C9: A signal that is emitted on the decision of evaluate has a non-negative edge, so that the slippage gate of the dispatcher lets it pass.\<close>

theorem emitted_signal_pays:
  assumes "maybe_emit cfg (fst (evaluate cfg lead q)) lead q now s = (Some sig, s', ev)"
    and "isfinite (dynamic_threshold cfg q)" "isfinite (s_round4 cfg lead)" "isfinite (s_round4 cfg (q_bid q))"
      "isfinite (s_round4 cfg (q_ask q))" "\<not> is_nan (edge sig)"
  shows "0 \<le> edge sig \<and> within_slippage_cap sig"
proof -
  let ?d = "fst (evaluate cfg lead q)"
  have m: "?d \<noteq> Hold" "sig = make_signal cfg ?d lead q now" using assms(1) by (simp_all add: maybe_emit_Some)
  then have e: "0 \<le> edge sig" using edge_nonneg [OF refl m(1) assms(2-5), of now] assms(6) by simp
  have "- kMaxSlippageBroker \<le> 0" by (simp add: kMaxSlippageBroker_def exact_simps)
  then show ?thesis using e dle_trans [of "- kMaxSlippageBroker" 0] by (simp add: within_slippage_cap_iff)
qed

theorem emitted_signal_pays_witness:
  "0 \<le> edge (make_signal plain_cfg Long (lit 103) some_quote 1000)"
  using emitted_signal_pays [of plain_cfg "lit 103" some_quote 1000 strategy_init
      "make_signal plain_cfg Long (lit 103) some_quote 1000" "strategy_init\<lparr> last_signal_ms := 1000 \<rparr>" "[BenchMark StrategyDone]"]
  by (simp add: plain_evaluate plain_emit exact_simps)

text \<open>C10: Signals emitted at increasing times are at least interval_seconds apart.\<close>

theorem signals_spaced:
  assumes "sorted (emit_times ops)" "\<forall>t\<in>set (emit_times ops). 0 < t" "0 \<le> interval_seconds (strat cfg)"
  shows "sorted_wrt (\<lambda>a b. interval_seconds (strat cfg) * 1000 \<le> sig_ts_ms b - sig_ts_ms a)
    (fst (strategy_run cfg ops strategy_init))"
proof -
  have "sorted_wrt (apart cfg) (map sig_ts_ms (fst (strategy_run cfg ops strategy_init)))"
    using signals_apart [OF assms(1), of strategy_init cfg] assms by (force simp: strategy_init_def)
  then show ?thesis by (simp add: sorted_wrt_map apart_def)
qed

theorem signals_spaced_witness:
  "sorted_wrt (\<lambda>a b. 60000 \<le> sig_ts_ms b - sig_ts_ms a)
    (fst (strategy_run plain_cfg [Emit Long (lit 103) some_quote 1000, Emit Long (lit 103) some_quote 2000] strategy_init))"
  using signals_spaced [of "[Emit Long (lit 103) some_quote 1000, Emit Long (lit 103) some_quote 2000]" plain_cfg] by simp

text \<open>C11: For signals that can be sent (finite prices of at most 47 characters, a reason of at most 23 characters without a comma, a lead price that is positive at six decimals): in every interleaving of submissions, dispatcher, publisher, channel and bridge the orders that the bridge executes are the signals within the slippage cap, each at most once and in the order of submission, with prices at six decimals, and all of them when the channel loses nothing and the queues are empty. One execution gives its order to the terminal's DLL at most once and hands the socket at most one beginning of its bytes; when it counts as done, the DLL took the order or the socket took every byte of it.\<close>

theorem signals_reach_terminal:
  assumes "\<forall>op\<in>set ops. \<forall>s\<in>set (path_submitted op). sendable s"
  shows "\<exists>p. path_run cfg windows ops path_init = Some p \<and>
    subseq (map ex_order (p_done p)) (map wire_signal (filter within_slippage_cap (concat (map path_submitted ops)))) \<and>
    (PathLose \<notin> set ops \<and> p_wire p = [] \<and> p_queue p = [] \<and> d_queue (p_disp p) = [] \<longrightarrow>
      map ex_order (p_done p) = map wire_signal (filter within_slippage_cap (concat (map path_submitted ops)))) \<and>
    (\<forall>e\<in>set (p_done p). by_dll e \<in> {[], [ex_order e]} \<and> length (by_socket e) \<le> 1 \<and>
      (\<forall>bs\<in>set (by_socket e). prefix bs (pod_bytes (ex_order e))) \<and>
      (exec_ok e \<longrightarrow> by_dll e \<noteq> [] \<and> by_socket e = [] \<or> by_socket e = [pod_bytes (ex_order e)]))"
  using path_run_init [OF assms] by (simp add: executed_once_def)

theorem signals_reach_terminal_witness:
  "\<exists>p. path_run plain_cfg False [PathSubmit some_signal, PathDispatch, PathSend, PathRecv (no_terminal, ea_up)] path_init = Some p \<and>
    map (x_lead \<circ> ex_order) (p_done p) = [lit 103] \<and> (\<forall>e\<in>set (p_done p). length (by_socket e) \<le> 1)"
proof -
  let ?ops = "[PathSubmit some_signal, PathDispatch, PathSend, PathRecv (no_terminal, ea_up)]"
  have s: "sendable some_signal" "within_slippage_cap some_signal"
    using some_signal_small by (simp_all add: sendable_def exact_simps)
      (simp add: within_slippage_cap_def some_signal_def exact_simps)
  obtain p where p: "path_run plain_cfg False ?ops path_init = Some p"
    "p_wire p = [] \<and> p_queue p = [] \<and> d_queue (p_disp p) = [] \<longrightarrow> map ex_order (p_done p) = [wire_signal some_signal]"
    "\<forall>e\<in>set (p_done p). length (by_socket e) \<le> 1"
    using signals_reach_terminal [of ?ops plain_cfg False] s by auto
  have "p_wire p = [] \<and> p_queue p = [] \<and> d_queue (p_disp p) = []"
    using path_run_drained [OF s p(1)] by simp
  then have "map ex_order (p_done p) = [wire_signal some_signal]" using p(2) by blast
  then have "map (x_lead \<circ> ex_order) (p_done p) = [lit 103]" by (auto simp: wire_signal_def some_signal_small map_eq_Cons_conv)
  then show ?thesis using p(1,3) by (intro exI [of _ p] conjI)
qed

text \<open>C12: Whatever bytes arrive, a decoded signal has a side, a positive lead price and a reason within its field.\<close>

theorem decode_signal_sound:
  assumes "decode_signal bytes = Some x"
  shows "x_side x \<in> {1, 2} \<and> x_valid x = 1 \<and> 0 < x_lead x \<and> length (x_reason x) \<le> 23 \<and> x_symbol x = ''BTC/USD''"
  using assms by (rule decode_signal_wf)

theorem decode_signal_sound_witness:
  "\<exists>x. decode_signal (signal_text some_signal) = Some x \<and> x_side x \<in> {1, 2} \<and> 0 < x_lead x"
proof -
  have "0 < decimals 6 (sig_lead some_signal)" by (simp add: some_signal_small exact_simps)
  from decode_signal_text [OF some_signal_small(1) this] obtain x where x: "decode_signal (signal_text some_signal) = Some x"
    by blast
  then show ?thesis using decode_signal_sound [OF x] by blast
qed

text \<open>C13: The ways of an order from the bridge: what the terminal's DLL is given, which bytes the socket takes and when the order counts as executed. An order that the DLL was given but did not confirm is sent a second time over the socket. Over any number of orders addresses, sockets and the terminal's connections are given back on every path; what is never given back is the library, which is loaded once, and on Windows one start-up of the sockets for every order that goes to the socket.\<close>

theorem bridge_order_ways:
  "(let e = fst (bridge_execute windows da sa s dll) in
     by_dll e = (if windows \<and> load_dll da dll \<and> entry_points da \<and> api_connects da \<and> login_rc da = 0 then [s] else []) \<and>
     by_socket e = (if by_dll e \<noteq> [] \<and> send_rc da = 0 \<or> \<not> (resolves sa \<and> opens sa \<and> connects sa) then []
       else [take (nat (sent_bytes sa)) (pod_bytes s)]) \<and>
     (exec_ok e \<longleftrightarrow> by_dll e \<noteq> [] \<and> send_rc da = 0 \<or> by_socket e \<noteq> [] \<and> sent_bytes sa = 90)) \<and>
   (let (es, dll') = bridge_orders windows xs None in
     \<exists>hs. Handles.held (concat (map exec_uses es)) [] = Some hs \<and> set hs \<subseteq> {DllModule, WinSock} \<and>
       count_list hs DllModule = (if dll' = Some True then 1 else 0) \<and>
       count_list hs WinSock = length (filter (\<lambda>((da, sa, s), e). windows \<and> wsa_starts sa \<and> \<not> (by_dll e \<noteq> [] \<and> send_rc da = 0)) (zip xs es)))"
proof (rule conjI)
  obtain e d where "bridge_execute windows da sa s dll = (e, d)" by fastforce
  then show "let e = fst (bridge_execute windows da sa s dll) in
     by_dll e = (if windows \<and> load_dll da dll \<and> entry_points da \<and> api_connects da \<and> login_rc da = 0 then [s] else []) \<and>
     by_socket e = (if by_dll e \<noteq> [] \<and> send_rc da = 0 \<or> \<not> (resolves sa \<and> opens sa \<and> connects sa) then []
       else [take (nat (sent_bytes sa)) (pod_bytes s)]) \<and>
     (exec_ok e \<longleftrightarrow> by_dll e \<noteq> [] \<and> send_rc da = 0 \<or> by_socket e \<noteq> [] \<and> sent_bytes sa = 90)"
    using execute_ways [of windows da sa s dll e d] unfolding Let_def by simp
  obtain es d' where o: "bridge_orders windows xs None = (es, d')" by fastforce
  then show "let (es, dll') = bridge_orders windows xs None in
     \<exists>hs. Handles.held (concat (map exec_uses es)) [] = Some hs \<and> set hs \<subseteq> {DllModule, WinSock} \<and>
       count_list hs DllModule = (if dll' = Some True then 1 else 0) \<and>
       count_list hs WinSock = length (filter (\<lambda>((da, sa, s), e). windows \<and> wsa_starts sa \<and> \<not> (by_dll e \<noteq> [] \<and> send_rc da = 0)) (zip xs es))"
    using orders_handles [of "[]" None windows xs es d'] unfolding o by auto
qed

theorem bridge_order_ways_witness:
  "\<exists>e es hs. e = fst (bridge_execute True unconfirming ea_up (wire_signal some_signal) None) \<and>
     by_dll e = [wire_signal some_signal] \<and> by_socket e = [pod_bytes (wire_signal some_signal)] \<and> exec_ok e \<and>
     es = fst (bridge_orders True [(unconfirming, ea_up, wire_signal some_signal), (unconfirming, ea_up, wire_signal some_signal)] None) \<and>
     Handles.held (concat (map exec_uses es)) [] = Some hs \<and> count_list hs DllModule = 1 \<and> count_list hs WinSock = 2"
proof -
  let ?xs = "[(unconfirming, ea_up, wire_signal some_signal), (unconfirming, ea_up, wire_signal some_signal)]"
  let ?e = "fst (bridge_execute True unconfirming ea_up (wire_signal some_signal) None)"
  obtain e1 d1 where 1: "bridge_execute True unconfirming ea_up (wire_signal some_signal) None = (e1, d1)" by fastforce
  obtain e2 d2 where 2: "bridge_execute True unconfirming ea_up (wire_signal some_signal) d1 = (e2, d2)" by fastforce
  have o: "bridge_orders True ?xs None = ([e1, e2], d2)" by (simp add: 1 2)
  have up: "load_dll unconfirming None" "load_dll unconfirming (Some True)" by (simp_all add: load_dll_def unconfirming_def)
  have d1: "d1 = Some True" using execute_dll(1) [of True unconfirming ea_up "wire_signal some_signal" None] 1 up(1) by simp
  have d: "d2 = Some True" using execute_dll(1) [of True unconfirming ea_up "wire_signal some_signal" d1] 2 up(2) d1 by simp
  have "length (filter (\<lambda>((da, sa, s), e). True \<and> wsa_starts sa \<and> \<not> (by_dll e \<noteq> [] \<and> send_rc da = 0)) (zip ?xs [e1, e2])) = 2"
    by (simp add: unconfirming_def ea_up_def)
  then obtain hs where hs: "Handles.held (concat (map exec_uses [e1, e2])) [] = Some hs" "count_list hs DllModule = 1" "count_list hs WinSock = 2"
    using conjunct2 [OF bridge_order_ways [of True _ _ _ _ ?xs]] d unfolding o Let_def prod.case by auto
  have "by_dll ?e = [wire_signal some_signal]" "by_socket ?e = [pod_bytes (wire_signal some_signal)]" "exec_ok ?e"
    using conjunct1 [OF bridge_order_ways [of True unconfirming ea_up "wire_signal some_signal" None "[]"]]
    by (simp_all add: Let_def load_dll_def unconfirming_def ea_up_def)
  then show ?thesis using hs o by (intro exI [of _ ?e] exI [of _ "[e1, e2]"] exI [of _ hs]) (simp only: fst_conv refl simp_thms)
qed

text \<open>C14: Whatever ZeroMQ answers and whenever start, stop and join are called, the publisher, the broker subscriber and the bridge hold a socket and its context exactly while their thread is in its loop; no handle is used after its release, released twice, or left at the end.\<close>

theorem socket_threads_tidy:
  "(let c = pb_ctl (fold (attempt pub_step) pub_ops pub_init) in
     Handles.held (c_trace c) [] = Some (if c_thread c = AtLoop then [ZSock, ZCtx] else [])) \<and>
   (let c = sb_ctl (fold (attempt (sub_step k topic)) sub_ops (sub_init r)) in
     Handles.held (c_trace c) [] = Some (if c_thread c = AtLoop then [ZSock, ZCtx] else [])) \<and>
   (let c = br_ctl (fold (attempt (bridge_step windows)) bridge_ops bridge_init) in
     Handles.held (c_trace c) [] = Some (if c_thread c = AtLoop then [ZSock, ZCtx] else []))"
  unfolding Let_def
  by (intro conjI pub_thread.run_handles sub_thread.run_handles bridge_thread.run_handles)
    (simp_all add: pub_init_def sub_init_def bridge_init_def)

theorem socket_threads_tidy_witness:
  "let up = \<lparr> ctx_ok = True, sock_ok = True, bind_ok = True \<rparr>;
       c = pb_ctl (fold (attempt pub_step) [pub_op.PubStart, PubTurn up, PubTurn up] pub_init)
   in c_thread c = AtLoop \<and> Handles.held (c_trace c) [] = Some [ZSock, ZCtx]"
proof -
  have "c_thread (pb_ctl (fold (attempt pub_step) [pub_op.PubStart, PubTurn \<lparr> ctx_ok = True, sock_ok = True, bind_ok = True \<rparr>,
      PubTurn \<lparr> ctx_ok = True, sock_ok = True, bind_ok = True \<rparr>] pub_init)) = AtLoop"
    by (simp add: attempt_def zmq_start_def starting_def pub_init_def control_init_def pub_turn_def pub_set_up_def
        after_set_up_def using_socket_def zmq_turn_def zmq_drain_def Let_def)
  then show ?thesis
    using socket_threads_tidy [of "[pub_op.PubStart, PubTurn \<lparr> ctx_ok = True, sock_ok = True, bind_ok = True \<rparr>,
        PubTurn \<lparr> ctx_ok = True, sock_ok = True, bind_ok = True \<rparr>]"] by (simp add: Let_def)
qed

text \<open>C15: A received message overruns the buffer exactly when it has 4096 bytes or more; every other message pushes at most one quote, and that one has a positive bid not above its ask.\<close>

theorem broker_recv_safe:
  assumes "ring_ok k r"
  shows "(broker_recv k topic msg r = Inl OutOfBounds \<longleftrightarrow> 4096 \<le> length msg) \<and>
    (\<forall>r'. broker_recv k topic msg r = Inr r' \<longrightarrow> ring_ok k r' \<and>
      (r' = r \<or> (\<exists>q. 0 < q_bid q \<and> q_bid q \<le> q_ask q \<and> r' = snd (push k q r))))"
  using broker_recv_ok [OF assms, of topic msg]
  by (auto simp: broker_recv_eq Let_def acceptable_def split: if_splits)

theorem broker_recv_safe_witness:
  "broker_recv 2 ''quote'' (replicate 4096 CHR ''x'') (ring_init 2 quote0) = Inl OutOfBounds"
proof -
  have "ring_ok 2 (ring_init 2 quote0)" by (rule ring_init_ok) simp
  then show ?thesis using broker_recv_safe [of 2 "ring_init 2 quote0" "''quote''" "replicate 4096 CHR ''x''"] by simp
qed

text \<open>C16: The stop of a feed that waits in its join can return before the 24 hours of the guard timer exactly when the thread was never started or the stop saw the reactor's pointer: a stop that comes before the new thread has set it waits a day.\<close>

theorem feed_stop_returns:
  assumes "rx_reach kd h r False s" "rx_caller s = Join"
  shows "(\<exists>s'. before_guard kd h s s' \<and> joinable s') \<longleftrightarrow> rx_saw_io s \<or> rx_at s = NotStarted"
  using assms by (rule stop_returns_iff)

theorem feed_stop_returns_witness:
  "\<exists>s. rx_reach KBinance (\<lambda>m r. ([], r)) (ring_init 2 tick0) False s \<and> rx_caller s = Join \<and>
     (\<nexists>s'. before_guard KBinance (\<lambda>m r. ([], r)) s s' \<and> joinable s')"
proof -
  obtain s where s: "rx_reach KBinance (\<lambda>m r. ([], r)) (ring_init 2 tick0) False s" "rx_caller s = Join" "\<not> rx_saw_io s" "rx_at s = Enter"
    using abandoned_reachable by blast
  then show ?thesis using feed_stop_returns [OF s(1,2)] by auto
qed

text \<open>C17: The reconnect delay of a feed is determined by the number of failures since the start alone, as 2, 4, 8, 16, 32 and then 60 seconds (in milliseconds for Bybit): no successful session resets it, and no configured value enters, neither WS_RECONNECT_BASE_S nor WS_RECONNECT_MAX_S.\<close>

theorem backoff_never_resets:
  assumes "feed_run kd h es (feed_start kd r) = Some f" "Stop \<notin> set es"
  shows "delay f = (if kd = KBybit then map lit [2000, 4000, 8000, 16000, 32000, 60000] else map lit [2, 4, 8, 16, 32, 60]) ! min (failures es) 5"
proof -
  have "delay (feed_start kd r) = delay_steps kd ! 0"
    by (simp add: feed_start_eq base_delay_def delay_steps_def)
  then have "delay f = delay_steps kd ! min (failures es) 5"
    using feed_run_delay [OF assms(1), of 0] assms(2) by (simp add: feed_start_eq)
  then show ?thesis by (simp only: delay_steps_def)
qed

theorem backoff_never_resets_witness:
  "\<exists>f. feed_run KBinance (\<lambda>m r. ([], r)) [Failed 0, TimerFired 0 False, Done 0, Done 0, Done 0, Done 0, Message 0 [], Failed 0]
     (feed_start KBinance (ring_init 2 tick0)) = Some f \<and> delay f = lit 8"
proof -
  let ?es = "[Failed 0, TimerFired 0 False, Done 0, Done 0, Done 0, Done 0, Message 0 [], Failed 0]"
  obtain f where f: "feed_run KBinance (\<lambda>m r. ([], r)) ?es (feed_start KBinance (ring_init 2 tick0)) = Some f"
    by (simp add: feed_start_eq feed_fail_eq remove_at_def spawn_session_def)
  then show ?thesis using backoff_never_resets [OF f] by (simp add: numeral_eq_Suc)
qed

text \<open>C18: A feed never has more sessions and reconnect timers than one and the pong writes that failed; the Binance and Deribit readers write no pong and have one session at most. A Bybit feed whose connection breaks while a pong is being written goes on with two sessions that both read.\<close>

theorem feed_sessions_bounded:
  assumes "feed_run kd h es (feed_start kd r) = Some f"
  shows "length (sessions f) + length (timers f) \<le> 1 + pong_failures es \<and> (kd = KBinance \<or> kd = KDeribit \<longrightarrow> pong_failures es = 0) \<and>
    (\<exists>json es f. feed_run KBybit (bybit_handle json cfg k now) es (feed_start KBybit r) = Some f \<and>
       pong_failures es = 1 \<and> sessions f = [feed_phase.Read, feed_phase.Read])"
proof (intro conjI impI)
  show "length (sessions f) + length (timers f) \<le> 1 + pong_failures es"
    using feed_run_alive [OF assms] by (simp add: feed_alive_start) (simp add: alive_def)
  show "pong_failures es = 0" if "kd = KBinance \<or> kd = KDeribit"
    using feed_run_pongs [OF _ feed_alive_start(2) assms] that by auto
  show "\<exists>json es f. feed_run KBybit (bybit_handle json cfg k now) es (feed_start KBybit r) = Some f \<and>
       pong_failures es = 1 \<and> sessions f = [feed_phase.Read, feed_phase.Read]"
    using two_sessions [of "\<lambda>_. Some \<lparr> by_op = ''ping'', by_topic = [], by_bid = None, by_ask = None \<rparr>" "[]" _ cfg k now r]
      broken_pong_failures [of "[]"] by fastforce
qed

theorem feed_sessions_bounded_witness:
  "\<exists>f. feed_run KBinance (\<lambda>m r. ([], r)) [Failed 0, TimerFired 0 False] (feed_start KBinance (ring_init 4 tick0)) = Some f \<and>
     length (sessions f) + length (timers f) \<le> 1"
proof -
  obtain f where f: "feed_run KBinance (\<lambda>m r. ([], r)) [Failed 0, TimerFired 0 False] (feed_start KBinance (ring_init 4 tick0)) = Some f"
    by (simp add: feed_start_eq feed_fail_eq Let_def)
  then show ?thesis using feed_sessions_bounded [OF f] by auto
qed

text \<open>C19: However the transport cuts a stream of built FIX frames into reads, handle_frame is called once for each frame, in order.\<close>

theorem fix_frames_once_in_order:
  assumes "fx_running s" "\<not> fx_stopped s" "fx_inbound s = []" "\<forall>f\<in>set fs. built f" "concat ps = concat fs" "ps \<noteq> []"
  shows "fold (feed_bytes cfg ck) ps s = fold (handle_frame cfg ck) fs s"
  using feed_bytes_pieces [OF assms(1,2), of cfg ck "hd ps" "tl ps"] feed_bytes_built [OF assms(1-4)] assms(5,6)
  by simp

theorem fix_frames_once_in_order_witness:
  "\<exists>f. built f \<and> fold (feed_bytes plain_cfg some_clk) [take 9 f, drop 9 f] (up_session plain_cfg) =
     handle_frame plain_cfg some_clk f (up_session plain_cfg)"
proof -
  let ?f = "fix_frame CHR ''0'' [] ''a'' ''b'' 1 ''t''"
  have "built ?f"
  proof (rule built_frame)
    have "length (fix_header CHR ''0'' ''a'' ''b'' 1 ''t'') = 25" by code_simp
    then show "length (fix_header CHR ''0'' ''a'' ''b'' 1 ''t'') + length ([] :: str) \<le> 2 ^ 20" by simp
  qed
  then show ?thesis
    using fix_frames_once_in_order [of "up_session plain_cfg" "[?f]" "[take 9 ?f, drop 9 ?f]" plain_cfg some_clk]
    by (intro exI [of _ ?f]) simp
qed

text \<open>C20: A session that starts with an empty write queue writes the Logon first and numbers the frames of its write queue 1, 2, 3, ... without a gap, whatever happens in it. One frame goes past the queue, the Logout of stop: it is the last frame of the session and is numbered after the frames that still wait in the queue, which are never written, so that it follows with a gap of as many numbers.\<close>

theorem fix_session_numbered:
  assumes "fx_wqueue s = []" "\<not> fx_writing s" "\<forall>(ck', i)\<in>set ins. \<not> is_connect i"
  shows "let t = fx_run cfg ins (session_connect cfg ck Up s) in
    \<exists>fs ls. on_wire (drop (length (fx_out s)) (fx_out t)) = fs @ ls \<and> fs = started (drop (length (fx_out s)) (fx_out t)) \<and>
      (\<forall>i<length fs. session_frame cfg i (fs ! i)) \<and> length ls \<le> 1 \<and>
      (\<forall>lg\<in>set ls. \<not> fx_in_run t \<and> (\<exists>utc. lg = fix_frame CHR ''5'' (fix_field 58 ''client shutting down, bye'')
         (fix_sender_comp_id (fix_c cfg)) (fix_target_comp_id (fix_c cfg)) (int (length fs + length (queued t)) + 1) utc))"
proof -
  let ?t = "fx_run cfg ins (session_connect cfg ck Up s)" and ?k = "length (fx_out s)"
  have n: "numbered cfg (started (drop ?k (fx_out ?t)))" "logged_out cfg ?k ?t"
    "fx_in_run ?t \<longrightarrow> on_wire (drop ?k (fx_out ?t)) = started (drop ?k (fx_out ?t))"
    using session_numbered [OF assms refl, of cfg ck] by blast+
  obtain ls where ls: "on_wire (drop ?k (fx_out ?t)) = started (drop ?k (fx_out ?t)) @ ls" "length ls \<le> 1"
    "\<forall>lg\<in>set ls. \<exists>ck u. lg = fst (build_logout cfg ck u) \<and> fx_seq_out u = int (length (started (drop ?k (fx_out ?t))) + length (queued ?t)) + 1"
    using n(2) unfolding logged_out_def by blast
  have "\<not> fx_in_run ?t" if "lg \<in> set ls" for lg using n(3) ls(1) that by auto
  moreover have "\<exists>utc. lg = fix_frame CHR ''5'' (fix_field 58 ''client shutting down, bye'') (fix_sender_comp_id (fix_c cfg))
      (fix_target_comp_id (fix_c cfg)) (int (length (started (drop ?k (fx_out ?t))) + length (queued ?t)) + 1) utc" if "lg \<in> set ls" for lg
    using ls(3) that by (fastforce simp: build_logout_def build_msg_def)
  ultimately show ?thesis using n(1) ls(1,2) unfolding Let_def numbered_def by blast
qed

theorem fix_session_numbered_witness:
  "\<exists>logon utc. on_wire (fx_out (fx_run plain_cfg [(some_clk, FxExecute ''EUR/USD'' ''buy'' (lit 1) 0 0), (some_clk, FxPosted), (some_clk, FxLogout)]
       (up_session plain_cfg))) = [logon, fix_frame CHR ''5'' (fix_field 58 ''client shutting down, bye'')
         (fix_sender_comp_id (fix_c plain_cfg)) (fix_target_comp_id (fix_c plain_cfg)) 3 utc] \<and> session_frame plain_cfg 0 logon"
proof -
  let ?s = "fx_start fx_init"
  let ?ins = "[(some_clk, FxExecute ''EUR/USD'' ''buy'' (lit 1) 0 0), (some_clk, FxPosted), (some_clk, FxLogout)]"
  let ?t = "fx_run plain_cfg ?ins (up_session plain_cfg)"
  have s: "fx_wqueue ?s = []" "\<not> fx_writing ?s" "fx_out ?s = []" by (simp_all add: fx_start_def fx_init_def)
  have l: "\<not> lit 1 \<le> 0" by (simp add: exact_simps del: lit_1)
  obtain logon where w: "fx_wqueue (up_session plain_cfg) = [logon]"
    using up_session_fields(10) [of plain_cfg] length_Suc_conv [of "fx_wqueue (up_session plain_cfg)" 0] by auto
  have c: "length (started (fx_out ?t)) = 1 \<and> length (on_wire (fx_out ?t)) = 2 \<and> length (queued ?t) = 1"
    using l w by (simp add: fx_run_def fx_execute_def io_drain_orders_def send_job_def build_order_def io_write_def build_msg_def pump_write_def
        posted_logout_def build_logout_def io_stop_def emit_def settle_def session_end_def queued_def up_session_out Let_def del: lit_1)
  obtain fs ls where f: "on_wire (fx_out ?t) = fs @ ls" "fs = started (fx_out ?t)" "\<forall>i<length fs. session_frame plain_cfg i (fs ! i)"
    "\<forall>lg\<in>set ls. \<exists>utc. lg = fix_frame CHR ''5'' (fix_field 58 ''client shutting down, bye'')
         (fix_sender_comp_id (fix_c plain_cfg)) (fix_target_comp_id (fix_c plain_cfg)) (int (length fs + length (queued ?t)) + 1) utc"
    using fix_session_numbered [OF s(1,2), of ?ins plain_cfg some_clk] unfolding Let_def up_session_def [symmetric] s(3) by auto
  have "length fs = 1" "length ls = 1" using c f(1,2) by (simp, metis add_left_cancel length_append one_add_one)
  then obtain logon lg where g: "fs = [logon]" "ls = [lg]" by (auto simp: length_Suc_conv)
  moreover obtain utc where "lg = fix_frame CHR ''5'' (fix_field 58 ''client shutting down, bye'')
         (fix_sender_comp_id (fix_c plain_cfg)) (fix_target_comp_id (fix_c plain_cfg)) 3 utc"
    using f(4) g c by auto
  ultimately show ?thesis using f(1,3) by (intro exI [of _ logon] exI [of _ utc]) simp
qed

text \<open>C21: In every run the mailbox holds at most 256 orders, no order is reported twice, and an accepted order never disappears: it is queued, pending or reported.\<close>

theorem fix_orders_accounted:
  "length (fx_orders (fx_run cfg ins fx_init)) \<le> 256 \<and> distinct (map fr_order_id (reports (fx_out (fx_run cfg ins fx_init)))) \<and>
   places (fx_orders (fx_run cfg ins fx_init)) (fx_run cfg ins fx_init) \<subseteq>
     places (fx_orders (fx_run cfg (ins @ later) fx_init)) (fx_run cfg (ins @ later) fx_init)"
proof -
  define s where "s = (\<lambda>cfg ins. fx_run cfg ins fx_init)"
  have run: "fx_run cfg (ins @ later) fx_init = fx_run cfg later (fx_run cfg ins fx_init)" by (simp add: fx_run_def)
  have ok: "fx_ok (s cfg ins)" "fx_limit (s cfg ins) = 256" using fx_run_ok unfolding s_def by auto
  let ?R = "reports (fx_out (s cfg ins))"
  have "distinct (map fr_cl ?R)" "\<forall>r\<in>set ?R. fr_cl r = cl_of (fr_order_id r)"
    using ok unfolding fx_ok_def order_books_def by (force, blast)
  then have "distinct (map (\<lambda>r. cl_of (fr_order_id r)) ?R)" by (metis (no_types, lifting) map_cong)
  then have "distinct (map fr_order_id ?R)" by (auto simp: distinct_map inj_on_def)
  then show ?thesis
    using ok fx_run_goes_on [of "s cfg ins" cfg later] run by (simp add: fx_ok_def goes_on_def s_def)
qed

text \<open>C22: What the other side finds in an order message: when no text of the order holds the separator, the splitter cuts the message out whole, whatever follows it, and the scanner reads back the type, the sequence number, and instrument, side, quantity and stops of the job.\<close>

theorem fix_order_read_back:
  assumes "texts_ok cfg ck job" "built (fst (build_order cfg ck job s))"
  shows "let f = fst (build_order cfg ck job s) in
    split_frame (f @ rest) = Frame f rest \<and> scan_tag f 35 = ''D'' \<and> scan_tag f 34 = show_int (fx_seq_out s) \<and>
    scan_tag f 11 = fo_cl job \<and> scan_tag f 55 = fo_instrument job \<and>
    scan_tag f 54 = (if fo_side job = ''buy'' then ''1'' else ''2'') \<and> scan_tag f 38 = fmt_qty (fo_volume job) \<and>
    scan_tag f 99 = (if 0 < fo_stop job then take 47 (fmt_f 5 (fo_stop job)) else []) \<and>
    scan_tag f 100 = (if 0 < fo_take job then take 47 (fmt_f 5 (fo_take job)) else [])"
  using order_cut_out [OF assms(2)] order_read(1,2) [OF assms(1), of s] order_read(3) [OF assms(1), where t = 11 and s = s]
    order_read(3) [OF assms(1), where t = 55 and s = s] order_read(3) [OF assms(1), where t = 54 and s = s] order_read(3) [OF assms(1), where t = 38 and s = s]
    order_read(3) [OF assms(1), where t = 99 and s = s] order_read(3) [OF assms(1), where t = 100 and s = s]
  by (simp add: order_values Let_def)

theorem fix_order_read_back_witness:
  "let f = fst (build_order config_default some_clk some_order fx_init) in
     scan_tag f 11 = ''LL1'' \<and> scan_tag f 55 = ''XAU/USD'' \<and> scan_tag f 54 = ''1'' \<and> scan_tag f 99 = []"
proof -
  have "texts_ok config_default some_clk some_order"
    by (simp add: texts_ok_def config_default_def fix_default_def some_clk_def some_order_def SOH_def)
  moreover have n: "length (show_int 1) = 1" by code_simp
  have "built (fst (build_order config_default some_clk some_order fx_init))"
    unfolding build_order_def build_msg_def fst_conv
    by (rule built_frame, rule order_header_short)
      (simp add: n config_default_def fix_default_def some_clk_def some_order_def fx_init_def)
  ultimately show ?thesis
    using fix_order_read_back [of config_default some_clk some_order fx_init "[]"] by (simp add: Let_def some_order_def)
qed

text \<open>C23: The first session of the plain FIX client: after the Logon the queued orders go out in order, numbered from the number that the Logon has, so that the first order repeats it. The ClOrdID of an order is the reason text of its signal (LEADLAG without one), so that orders with the same reason share it. The quantity is the configured amount truncated to an integer: 0 for an amount above zero and below one, as the default is, and 1 for an amount that is not above zero.\<close>

theorem fix_client_orders:
  assumes "fc_running s" "\<forall>f. sock f" "ck_ms ck' < ck_ms ck + 30000"
    and "no_soh (fix_sender_comp_id (fix_c cfg))" "no_soh (fix_target_comp_id (fix_c cfg))" "no_soh (ck_utc ck)"
      "\<forall>sg\<in>set (fc_orders s). signal_texts_ok cfg ck' sg"
  shows "\<exists>lg fs. map fst (drop (length (fc_sent s)) (fc_sent (fc_turn cfg ck' sock (fc_connect cfg ck True sock s)))) = lg # fs \<and>
    scan_tag lg 34 = show_int (fc_seq_out s) \<and> length fs = length (fc_orders s) \<and>
    (\<forall>i<length fs. scan_tag (fs ! i) 34 = show_int (fc_seq_out s + int i) \<and>
       scan_tag (fs ! i) 11 = (if reason (fc_orders s ! i) = [] then ''LEADLAG'' else reason (fc_orders s ! i)) \<and>
       scan_tag (fs ! i) 55 = symbol (fc_orders s ! i) \<and>
       scan_tag (fs ! i) 38 = show_int (int64_of (if 0 < trade_amount (run cfg) then trade_amount (run cfg) else 1)) \<and>
       (0 < trade_amount (run cfg) \<and> trade_amount (run cfg) < 1 \<longrightarrow> scan_tag (fs ! i) 38 = ''0'') \<and>
       (\<not> 0 < trade_amount (run cfg) \<longrightarrow> scan_tag (fs ! i) 38 = ''1''))"
proof -
  have n: "show_int 0 = ''0''" "show_int 1 = ''1''" by code_simp+
  have one: "int64_of 1 = 1" by (simp add: exact_simps trunc_rat_def)
  let ?o = "order_frames cfg ck' (fc_seq_out s) (fc_orders s)"
  have o: "scan_tag (?o ! i) 34 = show_int (fc_seq_out s + int i) \<and>
      scan_tag (?o ! i) 11 = (if reason (fc_orders s ! i) = [] then ''LEADLAG'' else reason (fc_orders s ! i)) \<and>
      scan_tag (?o ! i) 55 = symbol (fc_orders s ! i) \<and>
      scan_tag (?o ! i) 38 = show_int (int64_of (if 0 < trade_amount (run cfg) then trade_amount (run cfg) else 1))"
    if "i < length (fc_orders s)" for i
    using that assms(7) new_order_read [of cfg ck' "fc_orders s ! i" "fc_seq_out s + int i"]
    by (simp add: order_frames_nth)
  have "length ?o = length (fc_orders s)" and q: "0 < trade_amount (run cfg) \<and> trade_amount (run cfg) < 1 \<Longrightarrow> int64_of (trade_amount (run cfg)) = 0"
    using fc_logon_repeats_seq [OF assms(1-3), of cfg] by (auto intro: int64_of_small)
  then show ?thesis
    using fc_logon_repeats_seq [OF assms(1-3), of cfg] logon_seq [OF assms(4-6)] o n one q
    by (intro exI [of _ "fc_logon ck (fc_seq_out s) (fix_sender_comp_id (fix_c cfg)) (fix_target_comp_id (fix_c cfg)) 30"] exI [of _ ?o])
      (simp add: conj_commute)
qed

theorem fix_client_orders_witness:
  "\<exists>lg f. map fst (fc_sent (fc_turn config_default some_clk (\<lambda>f. True)
       (fc_connect config_default some_clk True (\<lambda>f. True) (send_order some_signal (fc_start fc_init))))) = [lg, f] \<and>
     scan_tag lg 34 = scan_tag f 34 \<and> scan_tag f 11 = ''lead_gt_ask'' \<and> scan_tag f 38 = ''0''"
proof -
  let ?s = "send_order some_signal (fc_start fc_init)"
  have c: "no_soh (fix_sender_comp_id (fix_c config_default))" "no_soh (fix_target_comp_id (fix_c config_default))" "no_soh (ck_utc some_clk)"
    "signal_texts_ok config_default some_clk some_signal" "reason some_signal = ''lead_gt_ask''"
    by (simp_all add: signal_texts_ok_def config_default_def fix_default_def run_default_def some_clk_def some_signal_def SOH_def)
  have s: "fc_running ?s" "fc_orders ?s = [some_signal]" "fc_sent ?s = []"
    by (simp_all add: send_order_def fc_start_def fc_init_def)
  obtain lg fs where f: "map fst (fc_sent (fc_turn config_default some_clk (\<lambda>f. True) (fc_connect config_default some_clk True (\<lambda>f. True) ?s))) = lg # fs"
    "scan_tag lg 34 = show_int (fc_seq_out ?s)" "length fs = 1" "scan_tag (fs ! 0) 34 = show_int (fc_seq_out ?s)"
    "scan_tag (fs ! 0) 11 = ''lead_gt_ask''" "scan_tag (fs ! 0) 38 = ''0''"
    using fix_client_orders [of ?s "\<lambda>f. True" some_clk some_clk config_default] c default_amount_small s by auto
  then obtain g where "fs = [g]" by (auto simp: length_Suc_conv)
  then show ?thesis using f by auto
qed

text \<open>C24: The plain FIX client ends every session 45 seconds after the Logon: no received byte moves its receive stamp.\<close>

theorem fix_client_times_out:
  assumes "fc_running s" "\<forall>f. sock f" "ck_ms ck + 45000 < ck_ms ck'"
  shows "\<not> fc_connected (fc_turns cfg (ins @ [(ck', sock')]) (fc_connect cfg ck True sock s))"
proof (rule fc_turns_timeout)
  show "fc_running (fc_connect cfg ck True sock s)" "fc_last_recv (fc_connect cfg ck True sock s) + 45000 < ck_ms ck'"
    using assms by (simp_all add: fc_connect_def Let_def send_frame_def)
qed

theorem fix_client_times_out_witness:
  "\<not> fc_connected (fc_turns plain_cfg [(some_clk, \<lambda>f. True), (some_clk\<lparr> ck_ms := 46001 \<rparr>, \<lambda>f. True)]
     (fc_connect plain_cfg some_clk True (\<lambda>f. True) (fc_start fc_init)))"
  using fix_client_times_out [of "fc_start fc_init" "\<lambda>f. True" some_clk "some_clk\<lparr> ck_ms := 46001 \<rparr>" plain_cfg
      "[(some_clk, \<lambda>f. True)]" "\<lambda>f. True"]
  by (simp add: fc_start_def some_clk_def)

text \<open>C25: The FIX client's descriptor: until somebody calls \<open>stop ()\<close> no descriptor is closed twice and at most one is open; but a \<open>stop ()\<close> beside the session can make both threads close one descriptor, and can leave the new socket open for good.\<close>

theorem fix_descriptor_races:
  "(so_reach s \<and> k_stop s = NotCalled \<longrightarrow> \<not> k_bad s \<and> (\<exists>f. k_open s \<subseteq> {f})) \<and>
   (\<exists>s. so_reach s \<and> k_bad s) \<and>
   (\<exists>s. so_reach s \<and> k_stop s = StopDone \<and> k_session s = SessionOver \<and> k_open s \<noteq> {})"
  using alone_clean double_close_reach leak_reach by blast

theorem fix_descriptor_races_witness: "so_reach talking \<and> \<not> k_bad talking \<and> k_open talking = {5}"
  using fix_descriptor_races [of talking] talking_reach by (simp add: talking_def)

text \<open>C26: An OANDA order is posted at most twice, the second time only when the first post had no answer, and it is reported as a success exactly when the last post was answered with a status of the 200 class.\<close>

theorem oanda_posts_at_most_twice:
  "\<exists>m\<le>2. oe_out (snd (send_market_order cfg job s)) = oe_out s @ replicate m (request_of cfg job s) \<and>
     (\<forall>i. Suc i < m \<longrightarrow> \<not> answered (outcome_at s i)) \<and>
     (or_ok (fst (send_market_order cfg job s)) \<longleftrightarrow>
       0 < m \<and> (\<exists>st b l. outcome_at s (m - 1) = Response st b l \<and> 200 \<le> st \<and> st < 300))"
proof -
  obtain r t where "send_market_order cfg job s = (r, t)" by fastforce
  then show ?thesis using send_market_order_spec [of cfg job s] by (auto simp: attempted_def)
qed

theorem oanda_posts_at_most_twice_witness:
  "length (oe_out (snd (send_market_order config_default gold_order (oe_init [True, True] [post_outcome.Threw ''reset'', Response 201 [] 0])))) \<le> 2"
  using oanda_posts_at_most_twice [of config_default gold_order "oe_init [True, True] [post_outcome.Threw ''reset'', Response 201 [] 0]"]
  by (auto simp: oe_init_def)

text \<open>C27: Of several orders queued while the OANDA worker sleeps only the first is sent, however often the worker is scheduled: the others wait for the next call of execute.\<close>

theorem oanda_backlog_sleeps:
  assumes "oe_pos s = worker_pos.Waiting" "oe_running s" "oe_jobs s = []" "Suc (length js) \<le> oe_limit s"
    and "\<forall>i\<in>set (j # js). oj_instrument i \<noteq> [] \<and> (oj_side i = ''buy'' \<or> oj_side i = ''sell'')"
  shows "oe_jobs ((oe_turn cfg ^^ Suc n) (fold oe_execute (j # js) s)) = js \<and>
    report_ids (oe_out ((oe_turn cfg ^^ Suc n) (fold oe_execute (j # js) s))) = report_ids (oe_out s) @ [oe_next_id s + 1]"
proof -
  let ?t = "fold oe_execute (j # js) s"
  have t: "oe_jobs ?t = j # js \<and> oe_wake ?t \<and> oe_pos ?t = worker_pos.Waiting \<and> oe_running ?t \<and> oe_out ?t = oe_out s \<and>
      oe_next_id ?t = oe_next_id s"
    using execute_all_jobs [of "j # js" s] assms by simp
  then show ?thesis using one_job_per_wake [of ?t j js n cfg] by metis
qed

theorem oanda_backlog_sleeps_witness:
  "oe_jobs ((oe_turn config_default ^^ Suc 7) (fold oe_execute [gold_order, gold_order]
     ((oe_init [True] [])\<lparr> oe_running := True, oe_pos := worker_pos.Waiting \<rparr>))) = [gold_order]"
  by (rule conjunct1 [OF oanda_backlog_sleeps]) (simp_all add: oe_init_def gold_order_def)

text \<open>C28: Execution events are not matched to orders: when the broker sends an acceptance and a fill for the first order, the acceptance is the result of the first order and the fill is returned as the result of the second, whatever Protocol Buffers make of the two orders, as long as both messages can be written.\<close>

theorem ctrader_fill_answers_next_order:
  assumes "ct_link s = Some l" "si_valid (ct_sym s)" "si_id (ct_sym s) \<noteq> 0"
    and "order_bytes pc job1 s = Some raw1" "order_bytes pc job2 (s\<lparr> ct_next_id := ct_next_id s + 1 \<rparr>) = Some raw2"
    and "length raw1 < 2 ^ 32" "length raw2 < 2 ^ 32" "8 + length raw1 + length raw2 \<le> l_room l"
    and "l_in l = bytes_then (frame f) (bytes_then (frame g) rest)" "event_frame pc f ack_ev" "event_frame pc g fill_ev"
  shows "\<exists>s1 s2. place_order pc clock job1 s = Some (event_result (clock (ct_next_id s + 1)) ack_ev, s1) \<and>
    place_order pc clock job2 s1 = Some (event_result (clock (ct_next_id s + 2)) fill_ev, s2)"
proof -
  have room: "4 + length raw1 \<le> l_room l" using assms(8) by simp
  let ?l = "l\<lparr> l_room := l_room l - (4 + length raw1), l_in := bytes_then (frame g) rest \<rparr>"
  obtain b where b: "place_order pc clock job1 s = Some (event_result (clock (ct_next_id s + 1)) ack_ev,
      s\<lparr> ct_next_id := ct_next_id s + 1, ct_link := Some ?l, ct_out := ct_out s @ [Sent NEW_ORDER_REQ b] \<rparr>)"
    using place_order_answer [OF assms(4,6,1) room assms(2,3,9,10)] by blast
  let ?s = "s\<lparr> ct_next_id := ct_next_id s + 1, ct_link := Some ?l, ct_out := ct_out s @ [Sent NEW_ORDER_REQ b] \<rparr>"
  have "order_bytes pc job2 ?s = Some raw2"
    using order_bytes_cong [of ?s "s\<lparr> ct_next_id := ct_next_id s + 1 \<rparr>" pc job2] assms(5) by simp
  moreover have "4 + length raw2 \<le> l_room ?l" using assms(8) by simp
  ultimately obtain b2 where "place_order pc clock job2 ?s = Some (event_result (clock (ct_next_id ?s + 1)) fill_ev,
      ?s\<lparr> ct_next_id := ct_next_id ?s + 1, ct_link := Some (?l\<lparr> l_room := l_room ?l - (4 + length raw2), l_in := rest \<rparr>),
        ct_out := ct_out ?s @ [Sent NEW_ORDER_REQ b2] \<rparr>)"
    using place_order_answer [of pc job2 ?s raw2 ?l g rest fill_ev clock] assms(2,3,7,11) by auto
  moreover have "ct_next_id ?s + 1 = ct_next_id s + 2" by simp
  ultimately show ?thesis using b by metis
qed

theorem ctrader_fill_answers_next_order_witness:
  "\<exists>r1 s1 r2 s2. place_order text_codec (\<lambda>_. 0) gold_job
       (linked (bytes_then (frame ''2126:ORDER_ACCEPTED'') (bytes_then (frame ''2126:ORDER_FILLED'') PeerSilent))) = Some (r1, s1) \<and>
     cr_status r1 = ''ACCEPTED'' \<and> place_order text_codec (\<lambda>_. 0) (gold_job\<lparr> cj_side := ''sell'' \<rparr>) s1 = Some (r2, s2) \<and> cr_status r2 = ''FILLED''"
proof -
  have st: "cr_status (event_result t [(''executionType'', PEnum ''ORDER_ACCEPTED'')]) = ''ACCEPTED''"
    "cr_status (event_result t [(''executionType'', PEnum ''ORDER_FILLED'')]) = ''FILLED''" for t
    by (simp_all add: event_result_def short_status_def enum_name_def Let_def)
  show ?thesis
    using ctrader_fill_answers_next_order [where ?job1.0 = gold_job and ?job2.0 = "gold_job\<lparr> cj_side := ''sell'' \<rparr>" and clock = "\<lambda>_. 0",
        OF linked_fields(1) linked_fields(2) _ gold_bytes(1) _ _ _ _ _ gold_events] gold_bytes(2) st
    by fastforce
qed

text \<open>C29: A running cTrader worker that is awake empties its queue in as many turns as there are orders, provided that its peer closes every connection some time: every order is answered or dropped once, with at most two order messages of its own. The receive loop has no time limit: on a connection that stays open in silence, or that repeats a spot for ever, the turn of an order that can be sent does not return.\<close>

theorem ctrader_queue_drains:
  assumes "awake s"
  shows "(all_close s \<longrightarrow> (\<exists>t ess. ct_turns cfg pc polls clock (length (ct_jobs s)) s = Some t \<and> ct_jobs t = [] \<and>
      ct_out t = ct_out s @ concat ess \<and> length ess = length (ct_jobs s) \<and> (\<forall>es\<in>set ess. settled es = 1 \<and> orders_sent es \<le> 2))) \<and>
    (\<forall>job js l f body raw. ct_jobs s = job # js \<and> ct_connected s \<and> ct_link s = Some l \<and> si_valid (ct_sym s) \<and> si_id (ct_sym s) \<noteq> 0 \<and>
      order_bytes pc job s = Some raw \<and> length raw < 2 ^ 32 \<and> 4 + length raw \<le> l_room l \<and>
      (l_in l = PeerSilent \<or> l_in l = bytes_then (frame f) (l_in l) \<and> f \<noteq> [] \<and> length f \<le> 2 ^ 20 \<and> unwrap pc f = Some (SPOT_EVENT, body)) \<longrightarrow>
      ct_turn cfg pc polls clock s = None)"
proof (intro conjI impI allI)
  assume "all_close s"
  then obtain t where t: "ct_turns cfg pc polls clock (length (ct_jobs s)) s = Some t" using turns_return [OF assms] by fastforce
  then show "\<exists>t ess. ct_turns cfg pc polls clock (length (ct_jobs s)) s = Some t \<and> ct_jobs t = [] \<and>
      ct_out t = ct_out s @ concat ess \<and> length ess = length (ct_jobs s) \<and> (\<forall>es\<in>set ess. settled es = 1 \<and> orders_sent es \<le> 2)"
    using turns_settle [OF assms t] by (auto simp: one_order_def)
next
  fix job js l f body raw
  assume h: "ct_jobs s = job # js \<and> ct_connected s \<and> ct_link s = Some l \<and> si_valid (ct_sym s) \<and> si_id (ct_sym s) \<noteq> 0 \<and>
      order_bytes pc job s = Some raw \<and> length raw < 2 ^ 32 \<and> 4 + length raw \<le> l_room l \<and>
      (l_in l = PeerSilent \<or> l_in l = bytes_then (frame f) (l_in l) \<and> f \<noteq> [] \<and> length f \<le> 2 ^ 20 \<and> unwrap pc f = Some (SPOT_EVENT, body))"
  then show "ct_turn cfg pc polls clock s = None"
    by (intro turn_blocks [OF assms, where f = f and body = body and raw = raw and l = l]) blast+
qed

theorem ctrader_queue_drains_witness:
  "(\<exists>t ess. ct_turns config_default text_codec 5 (\<lambda>_. 0) 2 (ct_execute gold_job (ct_execute gold_job (linked PeerClosed))) = Some t \<and>
     ct_jobs t = [] \<and> ct_out t = concat ess \<and> map settled ess = [1, 1]) \<and>
   ct_turn config_default text_codec 5 (\<lambda>_. 0) (ct_execute gold_job (linked PeerSilent)) = None"
proof -
  let ?s = "ct_execute gold_job (ct_execute gold_job (linked PeerClosed))" and ?u = "ct_execute gold_job (linked PeerSilent)"
  have s: "awake ?s" "length (ct_jobs ?s) = 2" "ct_out ?s = []" "awake ?u" "ct_jobs ?u = [gold_job]" "ct_connected ?u"
      "ct_link ?u = Some \<lparr> l_in = PeerSilent, l_room = 1000 \<rparr>" "si_valid (ct_sym ?u)" "si_id (ct_sym ?u) = 41" "all_close ?s"
    by (simp_all add: awake_def ct_execute_def push_limited_def all_close_def) (simp_all add: linked_def ct_init_def)
  have "order_bytes text_codec gold_job ?u = order_bytes text_codec gold_job (linked PeerSilent)"
    by (rule order_bytes_cong) (simp_all add: ct_execute_def)
  then have "ct_turn config_default text_codec 5 (\<lambda>_. 0) ?u = None"
    using ctrader_queue_drains [OF s(4), of config_default text_codec 5 "\<lambda>_. 0"] s(5-9) gold_bytes(1) [of PeerSilent] by simp
  moreover obtain t ess where t: "ct_turns config_default text_codec 5 (\<lambda>_. 0) 2 ?s = Some t" "ct_jobs t = []" "ct_out t = concat ess"
      "length ess = 2" "\<forall>es\<in>set ess. settled es = 1"
    using ctrader_queue_drains [OF s(1), of config_default text_codec 5 "\<lambda>_. 0"] s(2,3,10) by auto
  moreover have "map settled ess = [1, 1]" using t(4,5) by (auto simp: numeral_2_eq_2 length_Suc_conv)
  ultimately show ?thesis by (intro conjI exI [of _ t] exI [of _ ess])
qed

text \<open>C30: The result of a replay balances: fills count the trades, the final equity is the initial capital plus the profits in order, gross profit and gross loss split them, and the total is the difference of the equities.\<close>

theorem backtest_books_balance:
  assumes "base lr = Some lead" "base gr = Some lag" "cnt lr \<noteq> 0" "cnt gr \<noteq> 0"
    and run: "run_impl cfg lr gr p d = r"
  shows "fills r = length (trades r) \<and> final_equity r = foldl (\<lambda>e t. e + t_pnl t) (initial_capital r) (trades r) \<and>
    gross_profit r = foldl (\<lambda>g t. g + t_pnl t) 0 (filter (\<lambda>t. 0 \<le> t_pnl t) (trades r)) \<and>
    gross_loss r = foldl (\<lambda>g t. g + (- t_pnl t)) 0 (filter (\<lambda>t. \<not> 0 \<le> t_pnl t) (trades r)) \<and>
    total_pnl r = final_equity r - initial_capital r"
proof -
  have r: "r = finish (run_end cfg p d (take (cnt lr) lead) (take (cnt gr) lag))"
    using assms(1-4) run by (simp add: run_impl_def run_end_def run_start_def Let_def)
  show ?thesis using books_run_end [of cfg p d "take (cnt lr) lead" "take (cnt gr) lag"]
    unfolding r books_def by simp
qed

theorem backtest_books_balance_witness:
  "\<exists>r. run_impl plain_cfg (sample_reader [1, 5]) (sample_reader [2, 6]) params_default 5 = r \<and> fills r = length (trades r)"
  using backtest_books_balance [of "sample_reader [1, 5]" "map sample_tick [1, 5]" "sample_reader [2, 6]" "map sample_tick [2, 6]"
      plain_cfg params_default 5] by simp

text \<open>C31: With at most one open lot, and a lag file whose last tick has the latest time stamp, every signal of a replay ends as one fill or one rejection, there are at most max_orders_per_interval signals and at most one rejection; and the lot of a rejected order is never given back: once a tick of the merged streams has brought a rejection, the replay has placed all its signals.\<close>

theorem backtest_signals_settled:
  assumes "max_open_lots (strat cfg) \<le> 1" "base gr = Some lag"
    and "\<forall>t\<in>set (take (cnt gr) lag). b_ts_ms t \<le> b_ts_ms (last (take (cnt gr) lag))"
  shows "signals (run_impl cfg lr gr p d) = fills (run_impl cfg lr gr p d) + rejections (run_impl cfg lr gr p d) \<and>
    int (signals (run_impl cfg lr gr p d)) \<le> max 0 (max_orders_per_interval (strat cfg)) \<and>
    int (rejections (run_impl cfg lr gr p d)) \<le> max 0 (max_open_lots (strat cfg)) \<and>
    (\<forall>lead xs ys b. base lr = Some lead \<and> cnt lr \<noteq> 0 \<and> cnt gr \<noteq> 0 \<and> xs @ ys = merged (take (cnt lr) lead) (take (cnt gr) lag) \<and>
       b = fold (tick_step cfg p) xs (run_start p d (take (cnt lr) lead) (take (cnt gr) lag)) \<and> 0 < rejections (out b) \<longrightarrow>
       signals (run_impl cfg lr gr p d) = signals (out b))"
  using run_impl_settled [OF assms, of lr p d] run_blocked [OF _ assms(2) _ _ assms(1)] by blast

theorem backtest_signals_settled_witness:
  "int (signals (run_impl plain_cfg (sample_reader [1, 5]) (sample_reader [2, 6]) params_default 5)) \<le> 5"
  using backtest_signals_settled [of plain_cfg "sample_reader [2, 6]" "map sample_tick [2, 6]" "sample_reader [1, 5]" params_default 5]
  by simp

text \<open>C32: Under the instant model with non-negative costs and uncrossed quotes no trade of a replay makes a profit.\<close>

theorem instant_model_never_gains:
  assumes "model p = Instant" "costs_ok p" "base gr = Some lag"
    and "\<forall>t\<in>set (take (cnt gr) lag). b_is_valid t \<longrightarrow> b_bid t \<le> b_ask t"
  shows "\<forall>t\<in>set (trades (run_impl cfg lr gr p d)). t_pnl t \<le> 0"
proof (cases rule: run_impl_cases [of cfg lr gr p d])
  case 1
  then show ?thesis by (simp add: result0_def)
next
  case (2 lead lag')
  then show ?thesis using no_gain_run_end [OF assms(1,2,4)] assms(3) by simp
qed

theorem instant_model_never_gains_witness:
  "filter (\<lambda>t. \<not> t_pnl t \<le> 0) (trades (run_impl plain_cfg (sample_reader [1, 5]) (sample_reader [2, 6]) (params_default\<lparr> model := Instant \<rparr>) 5)) = []"
proof -
  have "\<forall>t\<in>set (trades (run_impl plain_cfg (sample_reader [1, 5]) (sample_reader [2, 6]) (params_default\<lparr> model := Instant \<rparr>) 5)). t_pnl t \<le> 0"
    by (rule instant_model_never_gains [where lag = "map sample_tick [2, 6]"])
      (simp_all add: costs_ok_def params_default_def exact_simps flip: lit_0)
  then show ?thesis by (auto simp: filter_empty_conv)
qed

text \<open>C33: With a spread markup, slippage and commission that are not negative, a simulated fill happens no earlier than its target time, within the spread cap, at the book price or a worse one.\<close>

theorem fill_at_book_or_worse:
  assumes "at_fill now eb ea s = Some (f, s')" "filled f" "costs_ok (params s)"
  shows "s_target_ts s \<le> now \<and> \<not> pending s' \<and> \<not> rejected f \<and> \<not> spread_cap_pts (params s) < ea - eb \<and>
    (f_side f = Buy \<longrightarrow> ea \<le> f_price f) \<and> (f_side f \<noteq> Buy \<longrightarrow> f_price f \<le> eb)"
proof -
  note o = at_fill_outcome [OF assms(1)] and f = at_fill_filled [OF assms(1,2)]
  have "isfinite (modelled_price (params s) (s_side s) eb ea)" using f(4,5) by simp
  then show ?thesis using o f price_at_book [OF assms(3)] assms(2) by auto
qed

theorem fill_at_book_or_worse_witness:
  "\<exists>f s'. at_fill 20 (lit 100) (lit 101) buy_sim = Some (f, s') \<and> filled f \<and> lit 101 \<le> f_price f"
proof -
  have c: "costs_ok (params buy_sim)" "s_side buy_sim = Buy"
    by (simp_all add: buy_sim_def sim_submit_def sim_init_def costs_ok_def params_default_def exact_simps flip: lit_0)
  obtain f s' where f: "at_fill 20 (lit 100) (lit 101) buy_sim = Some (f, s')" "filled f"
    by (simp add: buy_sim_def sim_submit_def sim_init_def at_fill_def params_default_def modelled_price_def Let_def
        exact_simps fill0_def flip: lit_0)
  have "f_side f = Buy" using at_fill_outcome(5) [OF f(1)] c by simp
  then show ?thesis using fill_at_book_or_worse [OF f c(1)] f by blast
qed

text \<open>C34: The file that a conversion writes, cut off after any number of bytes, is either refused, as empty or as no whole number of ticks, or opened as exactly the first of the converted ticks: the bytes of a tick are read back as the tick.\<close>

theorem tick_file_read_back:
  assumes "convert csv w opt = Inr (n, ts)" "m \<le> 24 * n"
  shows "open_file (take m (tick_file ts)) =
    (if m = 0 then Inl EmptyFile else if m mod 24 \<noteq> 0 then Inl BadSize
     else Inr \<lparr> base = Some (take (m div 24) ts), cnt = m div 24, file_len = int m \<rparr>)"
  by (rule open_cut_file [OF assms])

theorem tick_file_read_back_witness:
  "\<exists>t. convert (Some ''50,100,101,50'') True (csv_default\<lparr> has_header := False \<rparr>) = Inr (1, [t]) \<and>
     open_file (tick_file [t]) = Inr \<lparr> base = Some [t], cnt = 1, file_len = 24 \<rparr> \<and> open_file (take 20 (tick_file [t])) = Inl BadSize"
proof -
  obtain t where t: "convert (Some ''50,100,101,50'') True (csv_default\<lparr> has_header := False \<rparr>) = Inr (1, [t])"
    by (simp add: convert_def csv_default_def getlines_def strip_cr_def parse_tick_line_def stod_100 exact_simps Let_def)
  then show ?thesis using tick_file_read_back [OF t, of 24] tick_file_read_back [OF t, of 20] by simp
qed

text \<open>C35: On a file sorted by time the binary search returns the last tick at or before the given time, and none before the first.\<close>

theorem binary_search_correct:
  assumes "base r = Some ticks" "cnt r = length ticks" "sorted (map b_ts_ms ticks)" "length ticks < 2 ^ 63"
  shows "(ticks = [] \<or> ts < b_ts_ms (hd ticks) \<longrightarrow> find_at_or_before ts r = Some None) \<and>
    (ticks \<noteq> [] \<and> b_ts_ms (hd ticks) \<le> ts \<longrightarrow>
      (\<exists>i<length ticks. find_at_or_before ts r = Some (Some (ticks ! i)) \<and> b_ts_ms (ticks ! i) \<le> ts \<and>
         (\<forall>j. i < j \<and> j < length ticks \<longrightarrow> ts < b_ts_ms (ticks ! j))))"
proof (cases "ticks = [] \<or> ts < b_ts_ms (hd ticks)")
  case True
  then show ?thesis using assms(1,2) by (cases ticks) (auto simp: find_at_or_before_def)
next
  case False
  then have ne: "ticks \<noteq> []" "b_ts_ms (ticks ! 0) \<le> ts" by (cases ticks, simp_all)+
  let ?n = "length ticks"
  have u: "unat (of_nat ?n - 1 :: 64 word) = ?n - 1"
  proof -
    have "(of_nat ?n - 1 :: 64 word) = of_nat (?n - 1)" using ne(1) by (simp add: of_nat_diff Suc_le_eq)
    then show ?thesis using assms(4) by (simp add: unsigned_of_nat take_bit_nat_eq_self)
  qed
  have last: "\<forall>i. ?n - 1 < i \<longrightarrow> i < ?n \<longrightarrow> ts < b_ts_ms (ticks ! i)" by auto
  obtain a where "search_loop ticks ts 0 (of_nat ?n - 1) 0 = Some a" "unat a < ?n" "b_ts_ms (ticks ! unat a) \<le> ts"
    "\<forall>i. unat a < i \<longrightarrow> i < ?n \<longrightarrow> ts < b_ts_ms (ticks ! i)"
    using search_loop_correct [OF assms(3,4) ne(2), of "of_nat ?n - 1" 0 0] ne last unfolding u by auto
  then show ?thesis using False assms(1,2) ne by (auto simp: find_at_or_before_def hd_conv_nth intro!: exI [of _ "unat a"])
qed

theorem binary_search_correct_witness:
  "\<exists>i<3. find_at_or_before 25 (sample_reader [10, 20, 30]) = Some (Some (map sample_tick [10, 20, 30] ! i)) \<and>
     b_ts_ms (map sample_tick [10, 20, 30] ! i) \<le> 25"
proof -
  define T where "T = map sample_tick [10, 20, 30]"
  have s: "sorted (map b_ts_ms T)" "b_ts_ms (hd T) \<le> 25" "length T = 3" "T \<noteq> []" "length T < 2 ^ 63"
    "base (sample_reader [10, 20, 30]) = Some T" "cnt (sample_reader [10, 20, 30]) = length T"
    by (simp_all add: T_def)
  then show ?thesis
    using binary_search_correct [OF s(6,7) s(1) s(5), of 25] unfolding T_def [symmetric] by auto
qed

text \<open>C36: With at most one open lot configured and a lag file whose last tick has the latest time stamp: a replay that exits with 0 writes its report first, and the counts in it are those of the replay of the two files with the settings of the command line; every signal was filled or rejected, and the decay matrix has the six fixed delays.\<close>

theorem replay_reports_settled:
  assumes "parse_args args cli_default = Settings a" "\<not> a_convert a" "replay_main fs getenv args = (0, outs)"
    and "max_open_lots (strat (from_env getenv)) \<le> 1" "fs_stat fs (a_lag a) = Some (Some len)" "fs_mmap fs (a_lag a) = Some ticks"
    and "\<forall>t\<in>set (take (len div 24) ticks). b_ts_ms t \<le> b_ts_ms (last (take (len div 24) ticks))"
  shows "\<exists>r lead lag ms rest. open_stream fs (a_lead a) = Inr lead \<and> open_stream fs (a_lag a) = Inr lag \<and>
    r = run_impl (replay_config getenv a) lead lag (replay_params a) (a_delay_ms a) \<and>
    ms = latency_decay_matrix (replay_config getenv a) lead lag decay_delays (replay_params a) \<and>
    outs = TextFile (a_report a) (report_text a r ms) # rest \<and> length rest \<le> 1 \<and> map dr_delay_ms ms = decay_delays \<and>
    signals r = fills r + rejections r \<and> signals r \<le> 1000000"
proof -
  obtain lead lag rest where o: "open_stream fs (a_lead a) = Inr lead" "open_stream fs (a_lag a) = Inr lag"
    "outs = TextFile (a_report a) (report_text a (bt_run (replay_config getenv a) lead lag (replay_params a))
       (latency_decay_matrix (replay_config getenv a) lead lag decay_delays (replay_params a))) # rest" "length rest \<le> 1"
    using replay_main_success [OF assms(1-3)] by metis
  have b: "base lag = Some ticks" "cnt lag = len div 24" using open_stream_base [OF o(2)] assms(5,6) by auto
  have lots: "max_open_lots (strat (replay_config getenv a)) \<le> 1" "max_orders_per_interval (strat (replay_config getenv a)) = 1000000"
    using assms(4) by (simp_all add: replay_config_def Let_def)
  let ?r = "bt_run (replay_config getenv a) lead lag (replay_params a)"
  have r: "?r = run_impl (replay_config getenv a) lead lag (replay_params a) (a_delay_ms a)"
    by (simp add: bt_run_def replay_params_def)
  have "signals ?r = fills ?r + rejections ?r \<and> int (signals ?r) \<le> 1000000"
    using run_impl_settled [of "replay_config getenv a" lag ticks lead "replay_params a" "a_delay_ms a"] lots b assms(7)
    unfolding r by simp
  moreover have "map dr_delay_ms (latency_decay_matrix (replay_config getenv a) lead lag decay_delays (replay_params a)) = decay_delays"
    by (simp add: latency_decay_matrix_def comp_def Let_def)
  ultimately show ?thesis using o r by auto
qed

theorem replay_reports_settled_witness:
  "\<exists>r a ms rest. replay_main small_fs (\<lambda>_. None) [''--lead'', ''a'', ''--lag'', ''b''] = (0, TextFile (a_report a) (report_text a r ms) # rest) \<and>
     signals r = fills r + rejections r"
proof -
  obtain a where a: "parse_args [''--lead'', ''a'', ''--lag'', ''b''] cli_default = Settings a" "\<not> a_convert a" "a_ok a"
    "a_lead a = ''a''" "a_lag a = ''b''" "a_equity a = []" using small_args by blast
  obtain outs where o: "replay_main small_fs (\<lambda>_. None) [''--lead'', ''a'', ''--lag'', ''b''] = (0, outs)"
    using a by (simp add: replay_main_def open_stream_def reader_open_def reader_init_def small_fs_def replay_files_def Let_def)
  have m: "fs_stat small_fs (a_lag a) = Some (Some 48)" "fs_mmap small_fs (a_lag a) = Some (map sample_tick [1, 5])"
    by (simp_all add: small_fs_def)
  show ?thesis using replay_reports_settled [OF a(1,2) o _ m] o no_env_lots by auto
qed

text \<open>C37: At rising times the signals of the stand-alone generator are those of the definition that keeps every tick, and two signals are a cooldown apart.\<close>

theorem lead_equals_unpruned:
  assumes "sorted (map fst ts)" "0 \<le> ll_window cfg" "0 \<le> window_ns cfg" "0 < ll_threshold cfg"
  shows "fst (gen_run cfg ts generator_init) = spec_run cfg ts [] None \<and>
    sorted_wrt (\<lambda>a b. \<not> shorter (fst b - fst a) (ll_cooldown cfg)) (fst (gen_run cfg ts generator_init))"
proof (cases ts)
  case (Cons e es)
  have "\<forall>x\<in>set ts. fst e \<le> fst x" using assms(1) Cons by auto
  then have "fst (gen_run cfg ts generator_init) = spec_run cfg ts [] None"
    using gen_run_spec [of "[]" ts "fst e" generator_init cfg] assms by (simp add: generator_init_def)
  then show ?thesis using spec_run_cooled [of ts None cfg "[]"] assms(1) by simp
qed (simp add: generator_init_def)

theorem lead_equals_unpruned_witness:
  "fst (gen_run fast_cfg [(0, lit 100), (1000000000, lit 102)] generator_init) =
     spec_run fast_cfg [(0, lit 100), (1000000000, lit 102)] [] None"
  by (rule conjunct1 [OF lead_equals_unpruned])
    (use lcfg_default_numbers in \<open>simp_all add: fast_cfg_def window_ns_def trunc_rat_def Let_def exact_simps flip: lit_0\<close>)

text \<open>C38: In every run of the stand-alone bot each signal of the generator is settled, under way or queued in the executor; the open positions are the orders under way, so that with no more threads than the limit allows the limit never skips a signal.\<close>

theorem lead_signals_accounted:
  assumes c: "c = bot_run parser dump can_open cfg ins (bot_start cfg posts disk)"
    and "int (ll_threads cfg) \<le> ll_max_open cfg"
  shows "known (cl_exec c) = length (fst (gen_run cfg (cl_ticks c) generator_init)) \<and>
    ex_open (cl_exec c) = int (length (ex_busy (cl_exec c))) \<and> length (ex_busy (cl_exec c)) \<le> ll_threads cfg \<and>
    MaxPositions s \<notin> set (ex_out (cl_exec c))"
proof -
  have p: "pipe_ok cfg c" unfolding c by (rule pipe_ok_run [OF pipe_ok_start])
  obtain xs where x: "cl_exec c = ex_run parser dump cfg xs (executor_init posts)"
    using bot_run_exec [of parser dump can_open cfg ins "bot_start cfg posts disk"]
    unfolding c by (auto simp: bot_start_def cl_start_def start_session_def client_init_def)
  have "no_skip cfg (executor_init posts)" by (simp add: no_skip_def ex_ok_init) (simp add: executor_init_def)
  then have "no_skip cfg (cl_exec c)" unfolding x by (rule no_skip_run)
  then show ?thesis using p assms(2) by (auto simp: pipe_ok_def no_skip_def ex_ok_def)
qed

theorem lead_signals_accounted_witness:
  "\<exists>c. c = bot_run price_json (\<lambda>_. []) (\<lambda>_. True) live_cfg one_trade (bot_start live_cfg [HttpAnswer 200 ''{}''] (\<lambda>_. [])) \<and>
     map tr_direction (cl_rows c) = [''sell''] \<and> known (cl_exec c) = length (fst (gen_run live_cfg (cl_ticks c) generator_init)) \<and>
     ex_open (cl_exec c) = 0"
  using lead_signals_accounted [OF refl, of live_cfg price_json "\<lambda>_. []" "\<lambda>_. True" one_trade "[HttpAnswer 200 ''{}'']" "\<lambda>_. []"]
    one_trade_run [of "\<lambda>_. []"]
  by (simp add: live_numbers)

text \<open>C39: An order that the broker has got but did not confirm, because its answer was lost or was no acceptance, is sent again: the broker gets it twice exactly when the first request was written and not accepted and the second one was written too. Either way the trade file has one row, with the result of the last attempt.\<close>

theorem lead_order_resent:
  assumes "i < length (ex_busy x)" "fl_attempt (ex_busy x ! i) = 1" "ex_posts x = outcome_of a # outcome_of b # ps"
  shows "\<exists>es n. ex_out (order_turns parser dump cfg i a x) = ex_out x @ es \<and> ex_busy (order_turns parser dump cfg i a x) = remove_nth i (ex_busy x) \<and>
    filter outcome_effect es =
      [order_row (fl_signal (ex_busy x ! i)) (fxcm_post parser dump (outcome_of (last (answers_used parser dump a b))))] \<and>
    concat (map (\<lambda>c. written (snd (fxcm_exchange cfg (fl_body (ex_busy x ! i)) c))) (answers_used parser dump a b)) =
      replicate n (fxcm_request cfg (fl_body (ex_busy x ! i))) \<and>
    n \<le> length (bodies_posted es) \<and> (n = 2 \<longleftrightarrow> reached a \<and> \<not> accepted parser dump a \<and> reached b)"
proof -
  let ?u = "answers_used parser dump a b"
  obtain es where "ex_out (order_turns parser dump cfg i a x) = ex_out x @ es"
    "bodies_posted es = replicate (length ?u) (fl_body (ex_busy x ! i))"
    "filter outcome_effect es = [order_row (fl_signal (ex_busy x ! i)) (fxcm_post parser dump (outcome_of (last ?u)))]"
    "ex_busy (order_turns parser dump cfg i a x) = remove_nth i (ex_busy x)"
    using order_turns_sent [OF assms] by metis
  then show ?thesis
    by (intro exI [of _ es] exI [of _ "length (filter reached ?u)"]) (auto simp: requests_reached answers_used_def)
qed

theorem lead_order_resent_witness:
  "\<forall>s. let order = \<lparr> fl_signal = s, fl_body = ''order'', fl_attempt = 1 \<rparr>;
       lost = Breaks 4 ''timeout''; done = Answers 200 ''{}'';
       parser = (\<lambda>_. Some (JObj [(''response'', JObj [(''executed'', JBool True)])]));
       x = (executor_init [outcome_of lost, outcome_of done])\<lparr> ex_busy := [order], ex_open := 1 \<rparr>
   in ex_busy (order_turns parser (\<lambda>_. []) lcfg_default 0 lost x) = [] \<and>
      concat (map (\<lambda>c. written (snd (fxcm_exchange lcfg_default ''order'' c))) [lost, done]) =
        [fxcm_request lcfg_default ''order'', fxcm_request lcfg_default ''order'']" (is "\<forall>s. ?P s")
proof
  fix s
  let ?order = "\<lparr> fl_signal = s, fl_body = ''order'', fl_attempt = 1 \<rparr>"
  let ?lost = "Breaks 4 ''timeout''" and ?done = "Answers 200 ''{}''"
  let ?parser = "\<lambda>_. Some (JObj [(''response'', JObj [(''executed'', JBool True)])])"
  let ?x = "(executor_init [outcome_of ?lost, outcome_of ?done])\<lparr> ex_busy := [?order], ex_open := 1 \<rparr>"
  have a: "\<not> accepted ?parser (\<lambda>_. []) ?lost" "reached ?lost" "reached ?done"
    by (simp_all add: accepted_def outcome_of_def reached_def post_result0_def)
  then show "?P s"
    using lead_order_resent [of 0 ?x ?lost ?done "[]" ?parser "\<lambda>_. []" lcfg_default]
    by (auto simp: Let_def executor_init_def answers_used_def remove_nth_def numeral_2_eq_2)
qed

text \<open>C40: When the stand-alone bot has ended, the trade file holds one line for each order that ended, in order, after the header that is written into an empty file only.\<close>

theorem lead_trades_written:
  assumes c: "c = bot_run parser dump can_open cfg ins (bot_start cfg posts disk)"
    and "can_open (lead_trades_path cfg)" "\<forall>i\<in>set ins. bot_day_ok i" "take 4 day = ''log_''"
  shows "lg_disk (cl_log (bot_end can_open day c)) (lead_trades_path cfg) =
      csv_content trade_header (disk (lead_trades_path cfg)) (map csv_row (cl_rows c)) \<and>
    map effect_of (cl_rows c) = trade_effects (ex_out (cl_exec c))"
proof -
  have "file_ok (disk (lead_trades_path cfg)) (lead_trades_path cfg) c"
    unfolding c by (intro file_ok_run file_ok_start assms)
  then show ?thesis
    using bot_end_file [of "disk (lead_trades_path cfg)" "lead_trades_path cfg" c can_open day] assms(2,4)
    by (simp add: file_ok_def)
qed

theorem lead_trades_written_witness:
  "\<exists>c r. c = bot_run price_json (\<lambda>_. []) (\<lambda>_. True) live_cfg one_trade (bot_start live_cfg [HttpAnswer 200 ''{}''] (\<lambda>_. [])) \<and>
     tr_direction r = ''sell'' \<and> tr_status r = 200 \<and>
     lg_disk (cl_log (bot_end (\<lambda>_. True) ''log_20260101.txt'' c)) (lead_trades_path live_cfg) = csv_content trade_header [] [csv_row r]"
proof -
  let ?c = "bot_run price_json (\<lambda>_. []) (\<lambda>_. True) live_cfg one_trade (bot_start live_cfg [HttpAnswer 200 ''{}''] (\<lambda>_. []))"
  obtain r where r: "cl_rows ?c = [r]" "tr_direction r = ''sell''" "tr_status r = 200"
    using one_trade_run(1,2) [of "\<lambda>_. []"] by auto
  have "\<forall>i\<in>set one_trade. bot_day_ok i" by (simp add: one_trade_def)
  then show ?thesis
    using lead_trades_written [OF refl, of "\<lambda>_. True" live_cfg one_trade "''log_20260101.txt''" price_json "\<lambda>_. []" "[HttpAnswer 200 ''{}'']" "\<lambda>_. []"] r
    by (intro exI [of _ ?c] exI [of _ r]) simp
qed

section \<open>Further theorems\<close>

text \<open>With non-negative buffers the threshold is a number, at least the configured floor and at least the spread in effect.\<close>

theorem threshold_covers_spread:
  assumes "buffers_nonneg cfg" "\<not> is_nan (q_spread q)" "\<not> is_nan (q_ask q - q_bid q)"
  shows "\<not> is_nan (dynamic_threshold cfg q) \<and> threshold_pips (strat cfg) \<le> dynamic_threshold cfg q \<and>
    effective_spread q \<le> dynamic_threshold cfg q \<and> 0 \<le> dynamic_threshold cfg q"
proof -
  have e: "0 \<le> effective_spread q" using assms(2,3) by (rule effective_spread_nonneg)
  note t = threshold_parts [OF assms(1) e]
  then show ?thesis using e dle_trans [of 0 "effective_spread q"] by blast
qed

theorem threshold_covers_spread_witness:
  "threshold_pips (strat plain_cfg) \<le> dynamic_threshold plain_cfg some_quote \<and> effective_spread some_quote \<le> 1"
  using threshold_covers_spread [of plain_cfg some_quote] by (simp add: exact_simps)

text \<open>The dispatcher routes every submitted signal once and in the order of submission; what it has not routed is still queued.\<close>

theorem dispatch_once_in_order:
  "\<exists>ds. fst (disp_run cfg ops (disp_start dispatcher_init)) = concat (map (route cfg) ds) \<and>
     ds @ d_queue (snd (disp_run cfg ops (disp_start dispatcher_init))) = submitted ops"
  using disp_run_route [of "disp_start dispatcher_init" cfg ops] by (simp add: disp_start_def dispatcher_init_def)

text \<open>A quote in the documented text format is read back with its prices at six decimals and its integers unchanged.\<close>

theorem quote_round_trip:
  assumes "isfinite (q_bid q)" "isfinite (q_ask q)" "isfinite (q_spread q)"
    "- (2 ^ 63) \<le> q_ts_ms q" "q_ts_ms q < 2 ^ 63" "- (2 ^ 63) \<le> q_latency_us q" "q_latency_us q < 2 ^ 63"
    "q_session q < 256"
  shows "parse_quote topic (documented_frame topic q) =
    \<lparr> q_ts_ms = q_ts_ms q, q_bid = decimals 6 (q_bid q), q_ask = decimals 6 (q_ask q),
      q_spread = decimals 6 (q_spread q), q_latency_us = q_latency_us q, q_valid = True, q_session = q_session q \<rparr>"
  using parse_documented [OF assms] .

theorem quote_round_trip_witness:
  "parse_quote ''quote'' (documented_frame ''quote'' some_quote) = some_quote"
  using quote_round_trip [of some_quote "''quote''"] fmt_f_nat(2) [of 1]
  by (simp add: some_quote_def quote0_def fmt_f_numeral exact_simps)

text \<open>A successful conversion writes at least one tick, counts them, and every tick is flagged valid with non-negative prices; malformed rows are skipped.\<close>

theorem csv_rows_valid:
  assumes "convert csv w opt = Inr (n, ts)"
  shows "n = length ts \<and> 0 < n \<and> (\<forall>t\<in>set ts. b_is_valid t \<and> 0 \<le> b_bid t \<and> 0 \<le> b_ask t) \<and>
    n \<le> length (filter (\<lambda>l. l \<noteq> []) (getlines (the csv)))"
proof -
  let ?skip = "if has_header opt then 1 + skip_rows opt else skip_rows opt"
  obtain c where c: "csv = Some c" "ts = convert_loop (delimiter opt) ?skip (getlines c)" "n = length ts" "0 < n"
    using assms by (auto simp: convert_def Let_def split: option.splits if_splits)
  have "b_is_valid t \<and> 0 \<le> b_bid t \<and> 0 \<le> b_ask t" if t: "t \<in> set ts" for t
  proof -
    obtain l r where "parse_tick_line l (delimiter opt) = Some r" "t = make_tick r"
      using t unfolding c(2) convert_loop_shape map_filter_def by auto
    then show ?thesis using parse_tick_line_pos to_float_pos by (cases r) (auto simp: make_tick_def)
  qed
  moreover have "length ts \<le> length (filter (\<lambda>l. l \<noteq> []) (getlines c))"
    unfolding c(2) convert_loop_shape map_filter_def length_map
    by (rule le_trans [OF length_filter_le]) simp
  ultimately show ?thesis using c by simp
qed

theorem csv_rows_valid_witness:
  "\<exists>t. convert (Some ''50,100,101,50'') True (csv_default\<lparr> has_header := False \<rparr>) = Inr (1, [t]) \<and> b_is_valid t \<and> 0 \<le> b_bid t"
proof -
  obtain t where t: "convert (Some ''50,100,101,50'') True (csv_default\<lparr> has_header := False \<rparr>) = Inr (1, [t])"
    by (simp add: convert_def csv_default_def getlines_def strip_cr_def parse_tick_line_def stod_100 exact_simps Let_def)
  then show ?thesis using csv_rows_valid [OF t] by simp
qed

text \<open>The loop that sizes the bench ring ends exactly when fewer than 2^63 slots are asked for, with the largest power of two that fits.\<close>

theorem cap_loop_ends_iff:
  "(cap_loop bytes 1 = None \<longleftrightarrow> 2 ^ 63 \<le> unat bytes) \<and>
   (\<forall>c. cap_loop bytes 1 = Some c \<longrightarrow> (\<exists>i. c = push_bit i 1) \<and> \<not> push_bit 1 c \<le> bytes)"
proof -
  have "cap_loop 0 1 = Some 1" by (subst cap_loop.simps) simp
  then have "cap_loop bytes 1 \<noteq> None" if "unat bytes < 2 ^ 63"
    using cap_loop_some [of bytes] that by (cases "bytes = 0") (auto simp: unat_gt_0)
  then show ?thesis using cap_loop_diverges [of bytes] cap_loop_result [of bytes 1] by (metis not_le)
qed

theorem cap_loop_ends_iff_witness:
  "cap_loop (push_bit 20 1) 1 \<noteq> None \<and> cap_loop (- 1) 1 = None"
  using cap_loop_ends_iff [of "push_bit 20 1"] cap_loop_ends_iff [of "- 1"]
  by (simp add: unat_pow unsigned_minus_1_eq_mask mask_eq_exp_minus_1)

text \<open>The form body of an FXCM order is read back as its fields, whatever bytes the settings hold.\<close>

theorem lead_form_read_back:
  "\<not> ll_use_json cfg \<Longrightarrow> form_read (build_order_body dump cfg s) = form_fields cfg s"
  by (simp add: build_order_body_def form_read_body)

theorem lead_form_read_back_witness:
  "map_of (form_read (build_order_body (\<lambda>_. []) lcfg_default
     \<lparr> ls_direction = ''buy'', ls_reason = ''momentum'', ls_ref = 0, ls_change = 0 \<rparr>)) ''is_buy'' = Some ''true''"
proof -
  have "\<not> ll_use_json lcfg_default" by (simp add: lcfg_default_def)
  from lead_form_read_back [OF this, of "\<lambda>_. []" "\<lparr> ls_direction = ''buy'', ls_reason = ''momentum'', ls_ref = 0, ls_change = 0 \<rparr>"]
  show ?thesis by (simp add: form_fields_def)
qed

text \<open>The stand-alone client never has more than one session or reconnect timer, and every timer waits the base delay: the back-off never grows.\<close>

theorem lead_backoff_constant:
  "set (cl_timers (bot_run parser dump can_open cfg ins (bot_start cfg posts disk))) \<subseteq> {ll_base_s cfg} \<and>
   length (cl_sessions (bot_run parser dump can_open cfg ins (bot_start cfg posts disk))) +
     length (cl_timers (bot_run parser dump can_open cfg ins (bot_start cfg posts disk))) \<le> 1"
  using conn_ok_run [OF conn_ok_start, of cfg parser dump can_open ins posts disk] by (auto simp: conn_ok_def)

text \<open>Once max_orders_per_interval orders were placed no signal is ever emitted again: the interval is never started, so that the count is never forgiven.\<close>

theorem order_cap_is_final:
  assumes "max_orders_per_interval (strat cfg) \<le> int (placed_count ops)"
  shows "fst (strategy_run cfg later (snd (strategy_run cfg ops strategy_init))) = []"
proof -
  obtain sigs s where r: "strategy_run cfg ops strategy_init = (sigs, s)" by fastforce
  have "interval_start_ms s = 0" "orders_this_interval s = int (placed_count ops)"
    using strategy_run_frame [OF r] by (simp_all add: strategy_init_def)
  then show ?thesis using assms r by (simp add: exhausted_run)
qed

theorem order_cap_is_final_witness:
  "fst (strategy_run plain_cfg [Emit Long (lit 103) some_quote 86400000]
     (snd (strategy_run plain_cfg (replicate 5 (Placed Buy 1) @ replicate 5 (Closed 0 0 [])) strategy_init))) = []"
  by (rule order_cap_is_final) (simp add: numeral_eq_Suc)

text \<open>One update of the aggregator returns, drains both rings, and leaves in each window the old window extended by the valid ticks that are not stale, pruned from the front.\<close>

theorem aggregator_windows:
  assumes "ring_ok k rb" "ring_ok k rd"
  shows "\<exists>lead rb' rd' a' ev. agg_update k lt cfg rb rd now a = Some (lead, rb', rd', a', ev) \<and>
    ring_items k rb' = [] \<and> ring_items k rd' = [] \<and>
    binance_win a' = prune_old now (binance_win a @ filter (\<lambda>t. valid t \<and> \<not> stale now t) (ring_items k rb)) \<and>
    deribit_win a' = prune_old now (deribit_win a @ filter (\<lambda>t. valid t \<and> \<not> stale now t) (ring_items k rd))"
proof -
  obtain lead rb' rd' a' ev where u: "agg_update k lt cfg rb rd now a = Some (lead, rb', rd', a', ev)"
    and r: "ring_items k rb' = []" "ring_items k rd' = []"
    using agg_update_total [OF assms] by metis
  show ?thesis using u r agg_update_windows [OF assms u] by blast
qed

theorem aggregator_windows_witness:
  "\<exists>lead rb' rd' a' ev. agg_update 2 (\<lambda>_. (14, 30)) config_default
     (snd (push 2 (tick0\<lparr> valid := True, ts_ms := 100 \<rparr>) (ring_init 2 tick0))) (ring_init 2 tick0) 120 aggregator_init
     = Some (lead, rb', rd', a', ev) \<and> binance_win a' = [tick0\<lparr> valid := True, ts_ms := 100 \<rparr>]"
proof -
  have r: "ring_ok 2 (ring_init 2 tick0)" by (rule ring_init_ok) simp
  show ?thesis
    using aggregator_windows [OF push_ok [OF r] r, of "\<lambda>_. (14, 30)" config_default
        "tick0\<lparr> valid := True, ts_ms := 100 \<rparr>" 120 aggregator_init]
    by (auto simp: push_items [OF r] aggregator_init_def prune_old_def stale_def kMaxTickAgeMs_def simp flip: length_ring_items)
qed

text \<open>On an uncrossed quote a signal is Long exactly when the lead is above ask plus threshold and Short exactly when it is below bid minus threshold: the two conditions exclude each other.\<close>

theorem decision_exact:
  assumes "0 \<le> dynamic_threshold cfg q" "q_bid q \<le> q_ask q"
  shows "(fst (evaluate cfg lead q) = Long \<longleftrightarrow> s_round4 cfg (q_ask q) + dynamic_threshold cfg q < s_round4 cfg lead) \<and>
    (fst (evaluate cfg lead q) = Short \<longleftrightarrow> s_round4 cfg lead + dynamic_threshold cfg q < s_round4 cfg (q_bid q))"
  using sides_exclusive [OF assms, of lead] by (auto simp: evaluate_cases)

theorem decision_exact_witness:
  "fst (evaluate plain_cfg (lit 103) some_quote) = Long \<and> fst (evaluate plain_cfg (lit 98) some_quote) = Short"
  using decision_exact [of plain_cfg some_quote "lit 103"] decision_exact [of plain_cfg some_quote "lit 98"]
  by (simp add: exact_simps)

text \<open>The program of the bridge ends after the signal as soon as its thread has made two turns, whatever the sockets answered before: the thread is joined and every ZeroMQ handle given back.\<close>

theorem bridge_program_ends:
  assumes "\<forall>t\<in>set (before @ after). is_turn t" "2 \<le> length after"
  shows "c_thread (br_ctl (fold (attempt (bridge_step windows)) (bridge_main_ops before after) bridge_init)) = thread_at.NoThread \<and>
    tidy (c_trace (br_ctl (fold (attempt (bridge_step windows)) (bridge_main_ops before after) bridge_init)))"
  using bridge_main_ends [OF assms] by blast

theorem bridge_program_ends_witness:
  "\<exists>up x. tidy (c_trace (br_ctl (fold (attempt (bridge_step True))
     (bridge_main_ops [BridgeTurn up None x, BridgeTurn up (Some ''noise'') x] [BridgeTurn up None x, BridgeTurn up None x]) bridge_init)))"
  using bridge_program_ends [of "[BridgeTurn \<lparr> ctx_ok = True, sock_ok = True, bind_ok = True \<rparr> None (unconfirming, ea_up),
      BridgeTurn \<lparr> ctx_ok = True, sock_ok = True, bind_ok = True \<rparr> (Some ''noise'') (unconfirming, ea_up)]"
      "[BridgeTurn \<lparr> ctx_ok = True, sock_ok = True, bind_ok = True \<rparr> None (unconfirming, ea_up),
        BridgeTurn \<lparr> ctx_ok = True, sock_ok = True, bind_ok = True \<rparr> None (unconfirming, ea_up)]" True]
  by fastforce

text \<open>The acknowledgement of an order (ExecType 0) is reported and removes it from the pending orders, so that the fill that follows is ignored.\<close>

theorem fix_fill_after_ack_ignored:
  assumes "fx_pending s cl = Some job" "cl \<noteq> []" "scan_tag ack 11 = cl" "scan_tag ack 150 = ''0''" "scan_tag ack 39 \<noteq> ''8''"
    and "scan_tag fil 11 = cl" "scan_tag fil 150 = ''2''"
  shows "on_execution_report ck' fil (on_execution_report ck ack s) = on_execution_report ck ack s \<and>
    map fr_status (reports (fx_out (on_execution_report ck ack s))) = map fr_status (reports (fx_out s)) @ [''NEW'']"
proof -
  obtain r where r: "exec_result ck ack job = Some r" "fr_status r = ''NEW''"
    using assms(4,5) by (auto simp: exec_result_def Let_def)
  then show ?thesis using assms by (simp add: on_execution_report_def Let_def emit_def)
qed

theorem fix_fill_after_ack_ignored_witness:
  "map fr_status (reports (fx_out (fold (on_execution_report some_clk) [exec_report ''0'', exec_report ''2'']
     (fx_init\<lparr> fx_pending := [''LL1'' \<mapsto> some_order] \<rparr>)))) = [''NEW'']"
  using fix_fill_after_ack_ignored [of "fx_init\<lparr> fx_pending := [''LL1'' \<mapsto> some_order] \<rparr>" "''LL1''" some_order
      "exec_report ''0''" "exec_report ''2''" some_clk some_clk]
    exec_report_scan [of "''0''"] exec_report_scan [of "''2''"]
  by (simp add: no_soh_def SOH_def fx_init_def)

text \<open>A cTrader frame is read back exactly when its payload has between 1 byte and 1 MiB; every other frame is refused.\<close>

theorem ctrader_frame_round_trip:
  assumes "ct_link s = Some l" "l_in l = bytes_then (frame p) rest" "length p < 2 ^ 32"
  shows "map_option fst (read_frame s) = Some (if p = [] \<or> 2 ^ 20 < length p then None else Some p) \<and>
    (p \<noteq> [] \<and> length p \<le> 2 ^ 20 \<longrightarrow> read_frame s = Some (Some p, s\<lparr> ct_link := Some (l\<lparr> l_in := rest \<rparr>) \<rparr>))"
proof (cases "p = [] \<or> 2 ^ 20 < length p")
  case True
  have u: "unat (of_nat (length p) :: 32 word) = length p"
    using assms(3) by (simp add: unsigned_of_nat take_bit_nat_eq_self)
  have "(of_nat (length p) :: 32 word) = 0 \<or> push_bit 20 1 < (of_nat (length p) :: 32 word)"
    using True u by (auto simp: word_less_nat_alt)
  then show ?thesis using True assms by (auto simp: read_frame_def read_header frame_length_header Let_def)
next
  case False
  then show ?thesis using read_frame_frame [OF assms(1,2)] by simp
qed

theorem ctrader_frame_round_trip_witness:
  "map_option fst (read_frame (linked (bytes_then (frame ''abc'') PeerSilent))) = Some (Some ''abc'')"
  using ctrader_frame_round_trip [of "linked (bytes_then (frame ''abc'') PeerSilent)" "\<lparr> l_in = bytes_then (frame ''abc'') PeerSilent, l_room = 1000 \<rparr>" "''abc''" "PeerSilent"]
  by simp

text \<open>A frame left in the write queue by a lost session is written before the Logon of the next one.\<close>

theorem fix_old_frame_before_logon:
  assumes "fx_wqueue s = f # fs" "\<not> fx_writing s"
  shows "started (drop (length (fx_out s)) (fx_out (session_connect cfg ck Up s))) = [f]"
proof -
  let ?l = "io_write ck (build_logon cfg ck (s\<lparr>fx_stream := True, fx_connected := True, fx_seq_out := 1\<rparr>))"
  have l: "fx_out ?l = fx_out s @ [StartWrite f] \<and> fx_writing ?l"
    using assms by (simp add: io_write_def build_logon_def build_msg_def pump_write_def emit_def)
  have w: "fx_out (fold (send_job cfg ck) js t) = fx_out t" if "fx_writing t" for js t
    using that by (induction js arbitrary: t)
      (simp_all add: send_job_def io_write_def build_order_def build_msg_def pump_write_def)
  have "fx_out (io_drain_orders cfg ck (?l\<lparr>fx_in_run := True, fx_io_stopped := False\<rparr>)) = fx_out s @ [StartWrite f]"
    using l w by (simp add: io_drain_orders_def Let_def)
  then show ?thesis
    by (simp add: session_connect_def Let_def run_read_loop_def start_read_def start_hb_timer_def emit_def)
qed

theorem fix_old_frame_before_logon_witness:
  "started (fx_out (session_connect plain_cfg some_clk Up (fx_init\<lparr> fx_wqueue := [''order''] \<rparr>))) = [''order'']"
  using fix_old_frame_before_logon [of "fx_init\<lparr> fx_wqueue := [''order''] \<rparr>" "''order''" "[]" plain_cfg some_clk]
  by (simp add: fx_init_def)

text \<open>The weights follow the uptime, not the time of day: it is US hours when the minutes since the start, shifted by the zone and modulo a day, lie between the configured hours; with the default opening hour and a machine in UTC never in the first 13 hours.\<close>

theorem us_hours_follow_uptime:
  assumes "0 \<le> now"
  shows "(in_us_hours (hour_minute offset) cfg now \<longleftrightarrow>
      us_open_hour_utc (weighting cfg) * 60 \<le> (now div 1000 + offset) div 60 mod 1440 \<and>
      (now div 1000 + offset) div 60 mod 1440 < us_close_hour_utc (weighting cfg) * 60) \<and>
    (now < 13 * 3600000 \<and> us_open_hour_utc (weighting cfg) = 13 \<longrightarrow> \<not> in_us_hours (hour_minute 0) cfg now)"
  using us_hours_uptime [OF assms] first_hours_asia [OF assms] by blast

theorem us_hours_follow_uptime_witness:
  "in_us_hours (hour_minute 0) config_default 50400000 \<and> \<not> in_us_hours (hour_minute 0) config_default 3600000"
  using us_hours_follow_uptime [of 50400000 0 config_default] us_hours_follow_uptime [of 3600000 0 config_default]
  by (simp add: config_default_def weighting_default_def)

text \<open>The SendingTime of a FIX message is a text of 21 characters from which the milliseconds since 1970 can be read back, for every time up to the year 9999.\<close>

theorem sending_time_read_back:
  assumes "0 \<le> ms" "ms < 253402300800000"
  shows "length (utc_text ms) = 21 \<and> read_utc (utc_text ms) = ms"
  using utc_text_read [OF assms] by blast

theorem sending_time_read_back_witness: "read_utc (utc_text 1709210096789) = 1709210096789 \<and> length (utc_text 1709210096789) = 21"
  using sending_time_read_back [of 1709210096789] by simp

text \<open>The exit status of the OANDA probe says whether the worker looked at the order, not what came of it: for every answer of the server it is 0 exactly when the side is valid and the worker had two turns while the program waited.\<close>

theorem oanda_probe_exit:
  assumes "5 \<le> length args" "oanda_token (oanda (from_env getenv)) \<noteq> []" "oanda_account_id (oanda (from_env getenv)) \<noteq> []" "3 \<le> after"
  shows "\<exists>s. oanda_probe getenv args sleeps after (oe_init cs ps) =
    Some (if args ! 1 \<in> {''buy'', ''sell''} \<and> 2 \<le> sum sleeps {..<200} then 0 else 1, s)"
  by (rule oanda_probe_runs [OF assms])

theorem oanda_probe_exit_witness:
  "\<exists>s. oanda_probe (\<lambda>n. Some ''x'') [''oanda_probe'', ''buy'', ''1'', ''2'', ''2''] (\<lambda>i. if i = 7 then 5 else 0) 3 (oe_init [False, False] []) = Some (0, s)"
proof -
  have "oanda_token (oanda (from_env (\<lambda>n. Some ''x''))) \<noteq> []" "oanda_account_id (oanda (from_env (\<lambda>n. Some ''x''))) \<noteq> []"
    by (simp_all add: from_env_def oanda_from_env_def senv_def env_def Let_def)
  moreover have "sum (\<lambda>i :: nat. if i = 7 then 5 else 0) {..<200} = (5 :: nat)" by simp
  ultimately show ?thesis
    using oanda_probe_exit [of "[''oanda_probe'', ''buy'', ''1'', ''2'', ''2'']" "\<lambda>n. Some ''x''" 3 "\<lambda>i. if i = 7 then 5 else 0" "[False, False]" "[]"]
    by simp
qed

text \<open>The 90 bytes of the packed order that cross the socket of the bridge are read back as the decoded signal.\<close>

theorem order_bytes_read_back:
  assumes "decode_signal bytes = Some x"
  shows "length (pod_bytes x) = 90 \<and> pod_read (pod_bytes x) = x\<lparr> x_reason := c_str (x_reason x) \<rparr>"
  using decode_signal_pod [OF assms] by simp

theorem order_bytes_read_back_witness:
  "\<exists>x. decode_signal (signal_text some_signal) = Some x \<and> x_lead (pod_read (pod_bytes x)) = x_lead x"
proof -
  have "0 < decimals 6 (sig_lead some_signal)" by (simp add: some_signal_small exact_simps)
  from decode_signal_text [OF some_signal_small(1) this] obtain x where x: "decode_signal (signal_text some_signal) = Some x"
    by blast
  then show ?thesis using order_bytes_read_back [OF x] by simp
qed

end
